(* ===== verification/Usn_Prelude.thy ===== *)
theory Usn_Prelude
  imports Main "HOL-Library.Word" "HOL-Library.Monad_Syntax"
begin

text \<open>
  Shared base of the libusnet development: the C integer types, the serial-number
  comparisons of \<^verbatim>\<open>usnet/tcp.h\<close>, byte-order conversions, bounded memory copies and the
  tail queues of \<^verbatim>\<open>sys/queue.h\<close>.

  Conventions used by every theory of the development.
  \<^item> A C function that mutates its arguments takes the old value and returns the new one.
  \<^item> The result \<open>None\<close> means that the C call does not return: an \<^verbatim>\<open>assert\<close> fails, memory
    outside an object is touched, a tail-queue link of an element that is not queued is
    followed, an integer is divided by zero, or a loop never ends. Ordinary error returns are
    values (the negative return codes of the source).
  \<^item> \<^verbatim>\<open>uint8_t\<close>, \<^verbatim>\<open>uint16_t\<close> and \<^verbatim>\<open>uint32_t\<close> are words, so arithmetic wraps as in C;
    \<^verbatim>\<open>int\<close> values that stay small are \<open>int\<close>.
\<close>

unbundle bit_operations_syntax

type_synonym u8 = "8 word"
type_synonym u16 = "16 word"
type_synonym u32 = "32 word"
type_synonym byte = u8

named_theorems mem_defs \<open>unfolding bounded memory accesses\<close>
named_theorems seq_defs \<open>unfolding sequence-number comparisons\<close>

lemma unat_of_nat_u32: "n < 2 ^ 32 \<Longrightarrow> unat (of_nat n :: u32) = n"
  by (simp add: unat_of_nat take_bit_nat_eq_self)

lemma unat_of_nat_u16: "n < 2 ^ 16 \<Longrightarrow> unat (of_nat n :: u16) = n"
  by (simp add: unat_of_nat take_bit_nat_eq_self)

lemma unat_u32_lt: "unat (a :: u32) < 2 ^ 32"
  by (rule order.strict_trans2[OF unsigned_less]) simp

lemma unat_u16_lt: "unat (a :: u16) < 2 ^ 16"
  by (rule order.strict_trans2[OF unsigned_less]) simp

lemma unat_ucast_u16 [simp]: "unat (ucast (w :: u16) :: u32) = unat w"
  using unat_u16_lt[of w] by (simp add: unsigned_ucast_eq take_bit_nat_eq_self)

lemma ucast_of_nat_u32 [simp]: "(ucast (of_nat n :: u32) :: u16) = of_nat n"
  by (rule bit_word_eqI) (simp add: bit_simps)

lemma ucast_diff_u32: "(ucast (a - b :: u32) :: u16) = ucast a - ucast b"
proof -
  have "take_bit 16 (i - j) = take_bit 16 (take_bit 32 i - take_bit 32 j)" for i j :: int
    using take_bit_diff[of 16 "take_bit 32 i" "take_bit 32 j"] take_bit_diff[of 16 i j] by simp
  then show ?thesis by transfer simp
qed

lemma unat_inj_u32: "unat (a :: u32) = unat b \<Longrightarrow> a = b"
  by (simp add: word_unat_eq_iff)

lemma int_le_diff: "t + n \<le> N \<Longrightarrow> (int n \<le> int (N - t)) = True"
proof -
  assume "t + n \<le> N"
  then have "int n \<le> int (N - t)" by linarith
  then show ?thesis by (rule eqTrueI)
qed

lemma nat_int_lt:
  assumes "k < n"
  shows "(int n \<le> int k) = False" "nat (int k) = k" "nat (int n - int k) = n - k"
  using assms by auto

section \<open>Sequence numbers\<close>

text \<open>The macros \<^verbatim>\<open>TCP_SEQ_LT\<close> ... \<^verbatim>\<open>TCP_SEQ_BETWEEN\<close> of \<^verbatim>\<open>tcp.h\<close>: the difference of two
  unsigned 32-bit values read as a signed 32-bit value.\<close>

definition TCP_SEQ_LT :: "u32 \<Rightarrow> u32 \<Rightarrow> bool" where
  "TCP_SEQ_LT a b \<longleftrightarrow> sint (a - b) < 0"

definition TCP_SEQ_LEQ :: "u32 \<Rightarrow> u32 \<Rightarrow> bool" where
  "TCP_SEQ_LEQ a b \<longleftrightarrow> sint (a - b) \<le> 0"

definition TCP_SEQ_GT :: "u32 \<Rightarrow> u32 \<Rightarrow> bool" where
  "TCP_SEQ_GT a b \<longleftrightarrow> sint (a - b) > 0"

definition TCP_SEQ_GEQ :: "u32 \<Rightarrow> u32 \<Rightarrow> bool" where
  "TCP_SEQ_GEQ a b \<longleftrightarrow> sint (a - b) \<ge> 0"

definition TCP_SEQ_BETWEEN :: "u32 \<Rightarrow> u32 \<Rightarrow> u32 \<Rightarrow> bool" where
  "TCP_SEQ_BETWEEN a b c \<longleftrightarrow> TCP_SEQ_GEQ a b \<and> TCP_SEQ_LEQ a c"

lemmas [seq_defs] = TCP_SEQ_LT_def TCP_SEQ_LEQ_def TCP_SEQ_GT_def TCP_SEQ_GEQ_def
  TCP_SEQ_BETWEEN_def

lemma sint_of_nat_small: "n < 2 ^ 31 \<Longrightarrow> sint (of_nat n :: u32) = int n"
  by (simp add: signed_of_nat signed_take_bit_int_eq_self)

lemma sint_u32_unat: "unat (w :: u32) < 2 ^ 31 \<Longrightarrow> sint w = int (unat w)"
  using sint_of_nat_small[of "unat w"] by simp

lemma unat_sub_u32: "unat b \<le> unat a \<Longrightarrow> unat (a - b :: u32) = unat a - unat b"
  by (simp add: unat_sub_if')

lemma unat_add_u32: "unat a + unat b < 2 ^ 32 \<Longrightarrow> unat (a + b :: u32) = unat a + unat b"
  by (simp add: unat_plus_if')

lemma unat_add_sub_u32:
  "unat a + unat b < 2 ^ 32 \<Longrightarrow> unat c \<le> unat a + unat b \<Longrightarrow>
    unat (a + b - c :: u32) = unat a + unat b - unat c"
  by (simp add: unat_sub_u32 unat_add_u32)

lemma sint_of_unat: "unat (w :: u32) = n \<Longrightarrow> n < 2 ^ 31 \<Longrightarrow> sint w = int n"
  using sint_u32_unat[of w] by simp

lemma sint_minus_of_nat_small: "n \<le> 2 ^ 31 \<Longrightarrow> sint (- of_nat n :: u32) = - int n"
proof -
  assume n: "n \<le> 2 ^ 31"
  have "(- of_nat n :: u32) = word_of_int (- int n)"
    by simp
  then have "sint (- of_nat n :: u32) = sint (word_of_int (- int n) :: u32)"
    by (rule arg_cong)
  also have "\<dots> = signed_take_bit 31 (- int n)"
    by (subst sint_sbintrunc') simp
  also have "\<dots> = - int n"
    using n by (intro signed_take_bit_int_eq_self) auto
  finally show ?thesis .
qed

text \<open>On values less than half the sequence space apart the comparisons agree with the
  distance between them, also across the wrap-around of the 32-bit counter.\<close>

lemma TCP_SEQ_LT_add: "n < 2 ^ 31 \<Longrightarrow> TCP_SEQ_LT a (a + of_nat n) \<longleftrightarrow> 0 < n"
  using sint_minus_of_nat_small[of n] by (simp add: TCP_SEQ_LT_def)

lemma TCP_SEQ_GT_add: "n < 2 ^ 31 \<Longrightarrow> TCP_SEQ_GT (a + of_nat n) a \<longleftrightarrow> 0 < n"
  by (simp add: TCP_SEQ_GT_def sint_of_nat_small)

lemma TCP_SEQ_not:
  "\<not> TCP_SEQ_LT a b \<longleftrightarrow> TCP_SEQ_GEQ a b" "\<not> TCP_SEQ_GT a b \<longleftrightarrow> TCP_SEQ_LEQ a b"
  by (auto simp: seq_defs)

section \<open>Byte order\<close>

text \<open>Loads and stores of a little-endian machine, and \<^verbatim>\<open>htons\<close>/\<^verbatim>\<open>htonl\<close> (which are their own
  inverses \<^verbatim>\<open>ntohs\<close>/\<^verbatim>\<open>ntohl\<close>).\<close>

definition le16 :: "u16 \<Rightarrow> byte list" where
  "le16 w = [ucast w, ucast (drop_bit 8 w)]"

definition le32 :: "u32 \<Rightarrow> byte list" where
  "le32 w = [ucast w, ucast (drop_bit 8 w), ucast (drop_bit 16 w), ucast (drop_bit 24 w)]"

fun ld16 :: "byte list \<Rightarrow> u16" where
  "ld16 (a # b # _) = ucast a OR push_bit 8 (ucast b)"
| "ld16 _ = 0"

fun ld32 :: "byte list \<Rightarrow> u32" where
  "ld32 (a # b # c # d # _) =
     ucast a OR push_bit 8 (ucast b) OR push_bit 16 (ucast c) OR push_bit 24 (ucast d)"
| "ld32 _ = 0"

definition htons :: "u16 \<Rightarrow> u16" where
  "htons w = ld16 (rev (le16 w))"

definition htonl :: "u32 \<Rightarrow> u32" where
  "htonl w = ld32 (rev (le32 w))"

lemma length_le16 [simp]: "length (le16 w) = 2"
  by (simp add: le16_def)

lemma length_le32 [simp]: "length (le32 w) = 4"
  by (simp add: le32_def)

lemma ld16_le16 [simp]: "ld16 (le16 w @ xs) = w"
  by (rule bit_word_eqI) (auto simp: le16_def bit_simps)

lemma ld32_le32 [simp]: "ld32 (le32 w @ xs) = w"
proof (rule bit_word_eqI)
  fix n assume n: "n < LENGTH(32)"
  consider "n < 8" | "8 \<le> n \<and> n < 16" | "16 \<le> n \<and> n < 24" | "24 \<le> n"
    by linarith
  then show "bit (ld32 (le32 w @ xs)) n = bit w n"
    using n by cases (auto simp: le32_def bit_simps)
qed

lemma ld16_le16_nil [simp]: "ld16 (le16 w) = w"
  using ld16_le16[of w "[]"] by simp

lemma ld32_le32_nil [simp]: "ld32 (le32 w) = w"
  using ld32_le32[of w "[]"] by simp

lemma bit_u8_high: "8 \<le> n \<Longrightarrow> \<not> bit (a :: u8) n"
  using bit_imp_le_length[of a n] by auto

lemma le16_ld16_Cons: "le16 (ld16 [a, b]) = [a, b]"
  by (auto simp: le16_def bit_simps bit_u8_high intro!: bit_word_eqI)

lemma le32_ld32_Cons: "le32 (ld32 [a, b, c, d]) = [a, b, c, d]"
  by (auto simp: le32_def bit_simps bit_u8_high intro!: bit_word_eqI)

lemma list_of_length_2: "length xs = 2 \<Longrightarrow> \<exists>a b. xs = [a, b]"
  by (auto simp: numeral_2_eq_2 length_Suc_conv)

lemma list_of_length_4: "length xs = 4 \<Longrightarrow> \<exists>a b c d. xs = [a, b, c, d]"
  by (auto simp: eval_nat_numeral length_Suc_conv)

lemma le16_ld16: "length xs = 2 \<Longrightarrow> le16 (ld16 xs) = xs"
  using list_of_length_2[of xs] le16_ld16_Cons by metis

lemma le32_ld32: "length xs = 4 \<Longrightarrow> le32 (ld32 xs) = xs"
  using list_of_length_4[of xs] le32_ld32_Cons by metis

lemma htons_htons [simp]: "htons (htons w) = w"
  by (simp add: htons_def le16_ld16)

lemma htonl_htonl [simp]: "htonl (htonl w) = w"
  by (simp add: htonl_def le32_ld32)

section \<open>Bounded memory\<close>

text \<open>A C buffer is a list of bytes; \<^verbatim>\<open>memcpy\<close> into or out of it fails when the range leaves
  the buffer.\<close>

definition mem_write :: "nat \<Rightarrow> 'a list \<Rightarrow> 'a list \<Rightarrow> 'a list option" where
  "mem_write off xs m =
     (if off + length xs \<le> length m then Some (take off m @ xs @ drop (off + length xs) m)
      else None)"

definition mem_read :: "nat \<Rightarrow> nat \<Rightarrow> 'a list \<Rightarrow> 'a list option" where
  "mem_read off n m = (if off + n \<le> length m then Some (take n (drop off m)) else None)"

lemmas [mem_defs] = mem_write_def mem_read_def

lemma mem_write_length: "mem_write off xs m = Some m' \<Longrightarrow> length m' = length m"
  by (auto simp: mem_write_def split: if_splits)

lemma mem_write_read: "mem_write off xs m = Some m' \<Longrightarrow> mem_read off (length xs) m' = Some xs"
  by (auto simp: mem_defs split: if_splits)

section \<open>Tail queues\<close>

text \<open>The \<^verbatim>\<open>TAILQ\<close> macros on the list of queued element addresses. Removing an element whose
  links are not in the queue, or inserting one that already is, corrupts the links: \<open>None\<close>.\<close>

definition TAILQ_REMOVE :: "'a \<Rightarrow> 'a list \<Rightarrow> 'a list option" where
  "TAILQ_REMOVE x q = (if x \<in> set q then Some (remove1 x q) else None)"

definition TAILQ_INSERT_TAIL :: "'a \<Rightarrow> 'a list \<Rightarrow> 'a list option" where
  "TAILQ_INSERT_TAIL x q = (if x \<in> set q then None else Some (q @ [x]))"

definition TAILQ_INSERT_HEAD :: "'a \<Rightarrow> 'a list \<Rightarrow> 'a list option" where
  "TAILQ_INSERT_HEAD x q = (if x \<in> set q then None else Some (x # q))"

lemma int_length_remove1: "x \<in> set q \<Longrightarrow> int (length (remove1 x q)) = int (length q) - 1"
  by (induction q) auto

lemma TAILQ_REMOVE_in [simp]: "x \<in> set q \<Longrightarrow> TAILQ_REMOVE x q = Some (remove1 x q)"
  by (simp add: TAILQ_REMOVE_def)

lemma TAILQ_REMOVE_notin [simp]: "x \<notin> set q \<Longrightarrow> TAILQ_REMOVE x q = None"
  by (simp add: TAILQ_REMOVE_def)

lemma TAILQ_INSERT_TAIL_notin [simp]: "x \<notin> set q \<Longrightarrow> TAILQ_INSERT_TAIL x q = Some (q @ [x])"
  by (simp add: TAILQ_INSERT_TAIL_def)

lemma TAILQ_INSERT_HEAD_notin [simp]: "x \<notin> set q \<Longrightarrow> TAILQ_INSERT_HEAD x q = Some (x # q)"
  by (simp add: TAILQ_INSERT_HEAD_def)

section \<open>Reasoning about calls\<close>

text \<open>\<open>wp P m\<close>: the call \<open>m\<close> returns and its result satisfies \<open>P\<close>. \<open>post P m\<close>: if it returns, the result
  does. The rules of \<open>wp_rules\<close> and \<open>post_rules\<close> take a body apart in the order of execution.\<close>

definition wp :: "('a \<Rightarrow> bool) \<Rightarrow> 'a option \<Rightarrow> bool" where
  "wp P m \<longleftrightarrow> (\<exists>x. m = Some x \<and> P x)"

definition post :: "('a \<Rightarrow> bool) \<Rightarrow> 'a option \<Rightarrow> bool" where
  "post P m \<longleftrightarrow> (\<forall>x. m = Some x \<longrightarrow> P x)"

named_theorems wp_rules \<open>rules for total correctness\<close>
named_theorems post_rules \<open>rules for partial correctness\<close>

lemma wp_Some [wp_rules]: "P x \<Longrightarrow> wp P (Some x)"
  by (simp add: wp_def)

lemma wp_bind [wp_rules]: "wp (\<lambda>x. wp P (f x)) m \<Longrightarrow> wp P (Option.bind m f)"
  by (auto simp: wp_def)

lemma wp_if [wp_rules]: "(b \<Longrightarrow> wp P m) \<Longrightarrow> (\<not> b \<Longrightarrow> wp P n) \<Longrightarrow> wp P (if b then m else n)"
  by simp

lemma wp_case_prod [wp_rules]: "(\<And>a b. x = (a, b) \<Longrightarrow> wp P (f a b)) \<Longrightarrow> wp P (case x of (a, b) \<Rightarrow> f a b)"
  by (cases x) simp

lemma wp_case_option [wp_rules]:
  "(x = None \<Longrightarrow> wp P m) \<Longrightarrow> (\<And>y. x = Some y \<Longrightarrow> wp P (f y)) \<Longrightarrow> wp P (case x of None \<Rightarrow> m | Some y \<Rightarrow> f y)"
  by (cases x) simp_all

lemma wp_conseq: "wp Q m \<Longrightarrow> (\<And>x. Q x \<Longrightarrow> P x) \<Longrightarrow> wp P m"
  by (auto simp: wp_def)

lemma wpE: "wp P m \<Longrightarrow> (\<And>x. m = Some x \<Longrightarrow> P x \<Longrightarrow> R) \<Longrightarrow> R"
  by (auto simp: wp_def)

lemma post_Some [post_rules]: "P x \<Longrightarrow> post P (Some x)"
  by (simp add: post_def)

lemma post_None [post_rules, simp]: "post P None"
  by (simp add: post_def)

lemma post_bind [post_rules]: "post (\<lambda>x. post P (f x)) m \<Longrightarrow> post P (Option.bind m f)"
  by (auto simp: post_def bind_eq_Some_conv)

lemma post_if [post_rules]: "(b \<Longrightarrow> post P m) \<Longrightarrow> (\<not> b \<Longrightarrow> post P n) \<Longrightarrow> post P (if b then m else n)"
  by simp

lemma post_case_prod [post_rules]:
  "(\<And>a b. x = (a, b) \<Longrightarrow> post P (f a b)) \<Longrightarrow> post P (case x of (a, b) \<Rightarrow> f a b)"
  by (cases x) simp

lemma post_case_option [post_rules]:
  "(x = None \<Longrightarrow> post P m) \<Longrightarrow> (\<And>y. x = Some y \<Longrightarrow> post P (f y)) \<Longrightarrow>
    post P (case x of None \<Rightarrow> m | Some y \<Rightarrow> f y)"
  by (cases x) simp_all

lemma post_conseq: "post Q m \<Longrightarrow> (\<And>x. Q x \<Longrightarrow> P x) \<Longrightarrow> post P m"
  by (auto simp: post_def)

lemma wp_post: "wp P m \<Longrightarrow> post P m"
  by (auto simp: wp_def post_def)

lemma post_any: "(\<And>x. P x) \<Longrightarrow> post P m"
  by (simp add: post_def)

text \<open>Shifts by a count of the peer's choosing: the processor takes it modulo 32.\<close>

definition shl32 :: "u32 \<Rightarrow> u8 \<Rightarrow> u32" where
  "shl32 w n = push_bit (unat n mod 32) w"

definition shr32 :: "u32 \<Rightarrow> u8 \<Rightarrow> u32" where
  "shr32 w n = drop_bit (unat n mod 32) w"

end
