(* ===== verification/Cache.thy ===== *)
theory Cache
  imports Usn_Prelude
begin

text \<open>
  The multi-level hash table of \<^verbatim>\<open>cache.c\<close>, in which the stack keeps its connections, sockets
  and buffers. The shared-memory segment is \<open>hb_time\<close> rows of \<open>hb_len\<close> items; an item may
  live, in row \<open>i\<close>, only at its key modulo \<open>hb_base ! i\<close>. A pointer to an item is the number
  of its slot. The callbacks of a table are fields of its record, as in the source; what the
  callbacks of a client have to satisfy is the locale \<open>cache_items\<close>.
\<close>

record 'a usn_hashbase =
  hb_time :: nat
  hb_len :: nat
  hb_objsize :: nat
  hb_base :: "u32 list"
  hb_cache :: "nat \<Rightarrow> 'a"
  hb_eqfn :: "'a \<Rightarrow> 'a \<Rightarrow> bool"
  hb_keyfn :: "'a \<Rightarrow> u32"
  hb_isemptyfn :: "'a \<Rightarrow> bool"
  hb_setemptyfn :: "'a \<Rightarrow> 'a"

section \<open>The moduli\<close>

text \<open>\<^verbatim>\<open>(int) sqrt(n)\<close>.\<close>

definition isqrt :: "nat \<Rightarrow> nat" where
  "isqrt n = length (takeWhile (\<lambda>m. m * m \<le> n) [1..<Suc n])"

text \<open>The loops of \<^verbatim>\<open>usnet_hashbase_init\<close>: \<open>i\<close> counts down from \<^verbatim>\<open>hb_len\<close> and is kept when no
  number in \<open>2..iSqrt\<close> divides it. When \<open>i\<close> falls to zero before \<^verbatim>\<open>hb_time\<close> values are found,
  the first non-positive value that passes the test (0, or -1 after it) makes the source
  call \<^verbatim>\<open>exit(-1)\<close>.\<close>

fun hashbase_loop :: "nat \<Rightarrow> nat \<Rightarrow> nat \<Rightarrow> nat list \<Rightarrow> nat list option" where
  "hashbase_loop tm iSqrt 0 acc = (if length acc < tm then None else Some acc)"
| "hashbase_loop tm iSqrt (Suc i) acc =
     (if length acc < tm then
        (if list_all (\<lambda>k. Suc i mod k \<noteq> 0) [2..<Suc iSqrt]
         then hashbase_loop tm iSqrt i (acc @ [Suc i])
         else hashbase_loop tm iSqrt i acc)
      else Some acc)"

definition usnet_hashbase_init :: "'a usn_hashbase \<Rightarrow> 'a usn_hashbase option" where
  "usnet_hashbase_init base =
     map_option (\<lambda>ps. base\<lparr>hb_base := map of_nat ps\<rparr>)
       (hashbase_loop (hb_time base) (isqrt (hb_len base)) (hb_len base) [])"

section \<open>Operations\<close>

text \<open>\<^verbatim>\<open>usnet_cache_init\<close> clears the segment (every byte zero, the item \<open>zero\<close>) and computes the
  moduli; obtaining the segment itself (\<^verbatim>\<open>shmget\<close>) is the operating system's part.\<close>

definition usnet_cache_init ::
  "nat \<Rightarrow> nat \<Rightarrow> nat \<Rightarrow> 'a \<Rightarrow> ('a \<Rightarrow> 'a \<Rightarrow> bool) \<Rightarrow> ('a \<Rightarrow> u32) \<Rightarrow> ('a \<Rightarrow> bool) \<Rightarrow> ('a \<Rightarrow> 'a)
   \<Rightarrow> 'a usn_hashbase option" where
  "usnet_cache_init hashtime hashlen objsize zero equal_fn key_fn isempty_fn setempty_fn =
     usnet_hashbase_init
       \<lparr>hb_time = hashtime, hb_len = hashlen, hb_objsize = objsize, hb_base = [],
        hb_cache = (\<lambda>_. zero), hb_eqfn = equal_fn, hb_keyfn = key_fn,
        hb_isemptyfn = isempty_fn, hb_setemptyfn = setempty_fn\<rparr>"

definition cache_slot :: "'a usn_hashbase \<Rightarrow> 'a \<Rightarrow> nat \<Rightarrow> nat" where
  "cache_slot base sitem i =
     i * hb_len base + unat (hb_keyfn base sitem mod (hb_base base ! i))"

definition usnet_cache_get :: "'a usn_hashbase \<Rightarrow> 'a \<Rightarrow> nat option" where
  "usnet_cache_get base sitem =
     map_option (cache_slot base sitem)
       (find (\<lambda>i. hb_isemptyfn base (hb_cache base (cache_slot base sitem i)))
         [0..<hb_time base])"

definition usnet_cache_search :: "'a usn_hashbase \<Rightarrow> 'a \<Rightarrow> nat option" where
  "usnet_cache_search base sitem =
     map_option (cache_slot base sitem)
       (find (\<lambda>i. hb_eqfn base (hb_cache base (cache_slot base sitem i)) sitem)
         [0..<hb_time base])"

definition usnet_cache_insert :: "'a usn_hashbase \<Rightarrow> 'a \<Rightarrow> 'a usn_hashbase \<times> nat option" where
  "usnet_cache_insert base sitem =
     (case find (\<lambda>i. hb_isemptyfn base (hb_cache base (cache_slot base sitem i)))
             [0..<hb_time base] of
        None \<Rightarrow> (base, None)
      | Some i \<Rightarrow> let item = cache_slot base sitem i in
          (base\<lparr>hb_cache := (hb_cache base)(item := sitem)\<rparr>, Some item))"

definition usnet_cache_remove :: "'a usn_hashbase \<Rightarrow> nat option \<Rightarrow> 'a usn_hashbase \<times> int" where
  "usnet_cache_remove base item =
     (case item of
        None \<Rightarrow> (base, - 1)
      | Some p \<Rightarrow>
          (base\<lparr>hb_cache := (hb_cache base)(p := hb_setemptyfn base (hb_cache base p))\<rparr>, 0))"

definition usnet_cache_search_new ::
  "'a usn_hashbase \<Rightarrow> 'a \<Rightarrow> ('a \<Rightarrow> 'a \<Rightarrow> bool) \<Rightarrow> nat option" where
  "usnet_cache_search_new base sitem eqfn =
     map_option (cache_slot base sitem)
       (find (\<lambda>i. eqfn (hb_cache base (cache_slot base sitem i)) sitem) [0..<hb_time base])"

section \<open>Well-formed tables\<close>

text \<open>\<open>keyof\<close> reads the key of an item and \<open>nokey\<close> is the key of an unused one. A well-formed
  table has a modulus for every row, none larger than the row; a used item stands in one of
  the slots of its key, and no key is stored twice.\<close>

definition cache_rows :: "'a usn_hashbase \<Rightarrow> bool" where
  "cache_rows base \<longleftrightarrow> hb_time base \<le> length (hb_base base) \<and>
     (\<forall>i < hb_time base. 0 < unat (hb_base base ! i) \<and> unat (hb_base base ! i) \<le> hb_len base)"

definition cache_wf :: "('a \<Rightarrow> 'k) \<Rightarrow> 'k \<Rightarrow> 'a usn_hashbase \<Rightarrow> bool" where
  "cache_wf keyof nokey base \<longleftrightarrow> cache_rows base \<and>
     (\<forall>p. keyof (hb_cache base p) \<noteq> nokey \<longrightarrow>
        (\<exists>i < hb_time base. p = cache_slot base (hb_cache base p) i)) \<and>
     (\<forall>p q. keyof (hb_cache base p) = keyof (hb_cache base q) \<longrightarrow>
        keyof (hb_cache base p) \<noteq> nokey \<longrightarrow> p = q)"

definition cache_fns ::
  "'a usn_hashbase \<Rightarrow> ('a \<Rightarrow> 'a \<Rightarrow> bool) \<Rightarrow> ('a \<Rightarrow> u32) \<Rightarrow> ('a \<Rightarrow> bool) \<Rightarrow> ('a \<Rightarrow> 'a) \<Rightarrow> bool" where
  "cache_fns base eqfn keyfn isemptyfn setemptyfn \<longleftrightarrow>
     hb_eqfn base = eqfn \<and> hb_keyfn base = keyfn \<and> hb_isemptyfn base = isemptyfn \<and>
     hb_setemptyfn base = setemptyfn"

lemma find_upt_Some:
  "find P [0..<n] = Some i \<longleftrightarrow> i < n \<and> P i \<and> (\<forall>j < i. \<not> P j)"
  by (auto simp: find_Some_iff)

lemma find_upt_None: "find P [0..<n] = None \<longleftrightarrow> (\<forall>i < n. \<not> P i)"
  by (simp add: find_None_iff)

lemma cache_slot_hb_cache [simp]:
  "cache_slot (base\<lparr>hb_cache := m\<rparr>) s i = cache_slot base s i"
  by (simp add: cache_slot_def)

lemma cache_rows_hb_cache [simp]: "cache_rows (base\<lparr>hb_cache := m\<rparr>) = cache_rows base"
  by (simp add: cache_rows_def)

lemma cache_slot_bound:
  assumes "cache_rows base" "i < hb_time base"
  shows "cache_slot base s i < hb_time base * hb_len base"
proof -
  have "unat (hb_keyfn base s mod (hb_base base ! i)) < unat (hb_base base ! i)"
    using assms by (auto simp: cache_rows_def unat_mod_distrib)
  also have "\<dots> \<le> hb_len base"
    using assms by (auto simp: cache_rows_def)
  finally have "cache_slot base s i < Suc i * hb_len base"
    by (simp add: cache_slot_def)
  also have "\<dots> \<le> hb_time base * hb_len base"
    using assms(2) by (intro mult_right_mono) auto
  finally show ?thesis .
qed

text \<open>The moduli found are positive, at most the row length, and as many as there are rows.\<close>

lemma hashbase_loop_bounds:
  assumes "hashbase_loop tm iSqrt i acc = Some ps" "\<forall>q \<in> set acc. 0 < q \<and> q \<le> n" "i \<le> n"
  shows "tm \<le> length ps \<and> (\<forall>q \<in> set ps. 0 < q \<and> q \<le> n)"
  using assms
proof (induction tm iSqrt i acc rule: hashbase_loop.induct)
  case (1 tm iSqrt acc)
  then show ?case by (simp split: if_splits)
next
  case (2 tm iSqrt i acc)
  consider "\<not> length acc < tm"
    | "length acc < tm" "list_all (\<lambda>k. Suc i mod k \<noteq> 0) [2..<Suc iSqrt]"
    | "length acc < tm" "\<not> list_all (\<lambda>k. Suc i mod k \<noteq> 0) [2..<Suc iSqrt]" by blast
  then show ?case
  proof cases
    case 1
    then show ?thesis using "2.prems" by simp
  next
    case 2
    have "hashbase_loop tm iSqrt i (acc @ [Suc i]) = Some ps"
      using "2.prems"(1) 2 by (simp only: hashbase_loop.simps if_True)
    then show ?thesis using "2.IH"(1)[OF 2] "2.prems"(2,3) by simp
  next
    case 3
    have "hashbase_loop tm iSqrt i acc = Some ps"
      using "2.prems"(1) 3 by (simp only: hashbase_loop.simps if_True if_False)
    then show ?thesis using "2.IH"(2)[OF 3] "2.prems"(2,3) by simp
  qed
qed

lemma hashbase_init_rows:
  assumes init: "usnet_hashbase_init base = Some base'" and len: "hb_len base < 2 ^ 32"
  shows "cache_rows base'"
proof -
  obtain ps where ps: "hashbase_loop (hb_time base) (isqrt (hb_len base)) (hb_len base) [] = Some ps"
    and b': "base' = base\<lparr>hb_base := map of_nat ps\<rparr>"
    using init by (auto simp: usnet_hashbase_init_def)
  have bnd: "hb_time base \<le> length ps" "\<forall>q \<in> set ps. 0 < q \<and> q \<le> hb_len base"
    using hashbase_loop_bounds[OF ps, of "hb_len base"] by auto
  have "unat (of_nat (ps ! i) :: u32) = ps ! i" if "i < hb_time base" for i
    using bnd that len nth_mem[of i ps] by (intro unat_of_nat_u32) (auto intro: le_less_trans)
  then show ?thesis using bnd by (auto simp: cache_rows_def b')
qed

section \<open>The interface of the cached items\<close>

text \<open>The contract between the table and the four callbacks of a client: equality compares the
  keys, the hash depends on the key alone, and the empty mark is a key value of its own.\<close>

locale cache_items =
  fixes keyof :: "'a \<Rightarrow> 'k"
    and nokey :: 'k
    and eqfn :: "'a \<Rightarrow> 'a \<Rightarrow> bool"
    and keyfn :: "'a \<Rightarrow> u32"
    and isemptyfn :: "'a \<Rightarrow> bool"
    and setemptyfn :: "'a \<Rightarrow> 'a"
  assumes eqfn_keyof: "eqfn a b \<longleftrightarrow> keyof a = keyof b"
    and keyfn_keyof: "keyof a = keyof b \<Longrightarrow> keyfn a = keyfn b"
    and isempty_keyof: "isemptyfn a \<longleftrightarrow> keyof a = nokey"
    and setempty_keyof: "keyof (setemptyfn a) = nokey"
begin

abbreviation fns :: "'a usn_hashbase \<Rightarrow> bool" where
  "fns base \<equiv> cache_fns base eqfn keyfn isemptyfn setemptyfn"

abbreviation wf :: "'a usn_hashbase \<Rightarrow> bool" where
  "wf \<equiv> cache_wf keyof nokey"

lemma slot_cong: "fns base \<Longrightarrow> keyof a = keyof b \<Longrightarrow> cache_slot base a i = cache_slot base b i"
  using keyfn_keyof[of a b] by (simp add: cache_slot_def cache_fns_def)

text \<open>A freshly initialised table is well formed and holds nothing.\<close>

lemma init_wf:
  assumes "usnet_cache_init tm ln sz zero eqfn keyfn isemptyfn setemptyfn = Some base"
    and "ln < 2 ^ 32" "keyof zero = nokey"
  shows "fns base \<and> wf base \<and> (\<forall>p. keyof (hb_cache base p) = nokey)"
proof -
  have "cache_rows base"
    using hashbase_init_rows[OF assms(1)[unfolded usnet_cache_init_def]] assms(2) by simp
  then show ?thesis
    using assms by (auto simp: usnet_cache_init_def cache_fns_def cache_wf_def usnet_hashbase_init_def)
qed

text \<open>Searching finds exactly the slot that holds the key.\<close>

lemma search_iff:
  assumes "fns base" "wf base" "keyof s \<noteq> nokey"
  shows "usnet_cache_search base s = Some p \<longleftrightarrow> keyof (hb_cache base p) = keyof s"
proof
  assume "usnet_cache_search base s = Some p"
  then show "keyof (hb_cache base p) = keyof s"
    using assms(1) eqfn_keyof
    by (auto simp: usnet_cache_search_def find_upt_Some cache_fns_def)
next
  assume k: "keyof (hb_cache base p) = keyof s"
  let ?P = "\<lambda>i. hb_eqfn base (hb_cache base (cache_slot base s i)) s"
  obtain i where i: "i < hb_time base" "p = cache_slot base (hb_cache base p) i"
    using assms(2,3) k unfolding cache_wf_def by metis
  then have "p = cache_slot base s i"
    using slot_cong[OF assms(1) k] by simp
  then have "?P i" using k assms(1) eqfn_keyof by (simp add: cache_fns_def)
  then obtain j where j: "find ?P [0..<hb_time base] = Some j"
    using i(1) by (cases "find ?P [0..<hb_time base]") (auto simp: find_upt_None)
  then have "keyof (hb_cache base (cache_slot base s j)) = keyof s"
    using assms(1) eqfn_keyof by (auto simp: find_upt_Some cache_fns_def)
  then have "cache_slot base s j = p"
    using assms(2,3) k unfolding cache_wf_def by metis
  then show "usnet_cache_search base s = Some p"
    using j by (simp add: usnet_cache_search_def)
qed

lemma search_None_iff:
  assumes "fns base" "wf base" "keyof s \<noteq> nokey"
  shows "usnet_cache_search base s = None \<longleftrightarrow> (\<forall>p. keyof (hb_cache base p) \<noteq> keyof s)"
  using search_iff[OF assms] by (metis not_Some_eq)

text \<open>A slot handed out for a key is free, in the segment, and a slot of that key.\<close>

lemma get_slot:
  assumes "fns base" "usnet_cache_get base s = Some p"
  shows "keyof (hb_cache base p) = nokey \<and> (\<exists>i < hb_time base. p = cache_slot base s i)"
  using assms isempty_keyof
  by (auto simp: usnet_cache_get_def find_upt_Some cache_fns_def)

text \<open>Storing an item with a new key in a slot handed out for that key.\<close>

lemma fill_wf:
  assumes "fns base" "wf base" "usnet_cache_get base s = Some p"
    and "keyof x = keyof s" "\<forall>q. keyof (hb_cache base q) \<noteq> keyof s"
  shows "wf (base\<lparr>hb_cache := (hb_cache base)(p := x)\<rparr>)"
  using assms get_slot[OF assms(1,3)] slot_cong[OF assms(1) assms(4)]
  unfolding cache_wf_def by auto

lemma fill_fns: "fns (base\<lparr>hb_cache := m\<rparr>) = fns base"
  by (simp add: cache_fns_def)

lemma insert_get:
  "usnet_cache_insert base s =
    (case usnet_cache_get base s of None \<Rightarrow> (base, None)
     | Some p \<Rightarrow> (base\<lparr>hb_cache := (hb_cache base)(p := s)\<rparr>, Some p))"
  by (auto simp: usnet_cache_insert_def usnet_cache_get_def Let_def split: option.splits)

lemma insert_fails_iff:
  "fns base \<Longrightarrow> snd (usnet_cache_insert base s) = None \<longleftrightarrow>
    (\<forall>i < hb_time base. keyof (hb_cache base (cache_slot base s i)) \<noteq> nokey)"
  using isempty_keyof
  by (auto simp: usnet_cache_insert_def Let_def find_upt_None cache_fns_def split: option.splits)
     (auto simp: find_upt_Some)

lemma insert_wf:
  assumes "fns base" "wf base" "keyof s \<noteq> nokey" "usnet_cache_search base s = None"
    and "usnet_cache_insert base s = (base', r)"
  shows "fns base' \<and> wf base'"
  using assms fill_wf[OF assms(1,2)] search_None_iff[OF assms(1-3)]
  by (auto simp: insert_get fill_fns split: option.splits)

lemma insert_search:
  assumes "fns base" "wf base" "keyof s \<noteq> nokey" "usnet_cache_search base s = None"
    and ins: "usnet_cache_insert base s = (base', Some p)" and t: "keyof t \<noteq> nokey"
  shows "usnet_cache_search base' t =
    (if keyof t = keyof s then Some p else usnet_cache_search base t)"
proof -
  have w': "fns base'" "wf base'" using insert_wf[OF assms(1-5)] by auto
  have b': "base' = base\<lparr>hb_cache := (hb_cache base)(p := s)\<rparr>"
    and p: "keyof (hb_cache base p) = nokey"
    using ins get_slot[OF assms(1)] by (auto simp: insert_get split: option.splits)
  have "usnet_cache_search base' t = Some q \<longleftrightarrow>
      (if keyof t = keyof s then q = p else usnet_cache_search base t = Some q)" for q
    using search_iff[OF w' t, of q] search_iff[OF assms(1,2) t, of q] p t
      search_None_iff[OF assms(1-3)] assms(4) by (auto simp: b')
  then show ?thesis by (cases "usnet_cache_search base t") (auto, metis not_Some_eq)
qed

text \<open>Changing an item but for its key, and the first item of an empty table.\<close>

lemma search_update:
  assumes "fns base" "keyof x = keyof (hb_cache base s)"
  shows "usnet_cache_search (base\<lparr>hb_cache := (hb_cache base)(s := x)\<rparr>) k = usnet_cache_search base k"
proof -
  have "keyof (((hb_cache base)(s := x)) p) = keyof (hb_cache base p)" for p using assms(2) by simp
  moreover have "cache_slot (base\<lparr>hb_cache := (hb_cache base)(s := x)\<rparr>) k = cache_slot base k" by (simp add: fun_eq_iff)
  ultimately show ?thesis using assms(1) eqfn_keyof by (simp add: usnet_cache_search_def cache_fns_def del: fun_upd_apply)
qed

lemma insert_empty:
  assumes "fns base" "wf base" "keyof s \<noteq> nokey" "\<forall>q. keyof (hb_cache base q) = nokey" "0 < hb_time base"
  shows "\<exists>p. usnet_cache_insert base s = (base\<lparr>hb_cache := (hb_cache base)(p := s)\<rparr>, Some p) \<and>
    (\<forall>k. keyof k = keyof s \<longrightarrow> usnet_cache_search (base\<lparr>hb_cache := (hb_cache base)(p := s)\<rparr>) k = Some p)"
proof -
  have none: "usnet_cache_search base s = None" using search_None_iff[OF assms(1-3)] assms(3,4) by simp
  have "snd (usnet_cache_insert base s) \<noteq> None" unfolding insert_fails_iff[OF assms(1)] using assms(4,5) by auto
  then obtain p where p: "usnet_cache_insert base s = (base\<lparr>hb_cache := (hb_cache base)(p := s)\<rparr>, Some p)"
    by (auto simp: insert_get split: option.splits)
  then show ?thesis using insert_search[OF assms(1-3) none p] assms(3) by simp
qed

text \<open>Removal empties the slot and forgets its key only.\<close>

lemma remove_wf:
  "fns base \<Longrightarrow> wf base \<Longrightarrow> usnet_cache_remove base p = (base', r) \<Longrightarrow> fns base' \<and> wf base'"
  using setempty_keyof
  by (auto simp: usnet_cache_remove_def cache_wf_def cache_fns_def split: option.splits if_splits)

lemma remove_search:
  assumes "fns base" "wf base" "usnet_cache_remove base (Some p) = (base', r)"
    and "keyof t \<noteq> nokey"
  shows "usnet_cache_search base' t =
    (if keyof t = keyof (hb_cache base p) then None else usnet_cache_search base t)"
proof -
  have w': "fns base'" "wf base'" using remove_wf[OF assms(1-3)] by auto
  have b': "base' = base\<lparr>hb_cache := (hb_cache base)(p := setemptyfn (hb_cache base p))\<rparr>"
    using assms(1,3) by (auto simp: usnet_cache_remove_def cache_fns_def)
  have uniq: "keyof (hb_cache base q) = keyof (hb_cache base p) \<Longrightarrow>
      keyof (hb_cache base q) \<noteq> nokey \<Longrightarrow> q = p" for q
    using assms(2) unfolding cache_wf_def by metis
  have "usnet_cache_search base' t = Some q \<longleftrightarrow>
      keyof t \<noteq> keyof (hb_cache base p) \<and> usnet_cache_search base t = Some q" for q
    using search_iff[OF w' assms(4), of q] search_iff[OF assms(1,2) assms(4), of q] assms(4)
      setempty_keyof uniq[of q] by (auto simp: b')
  then show ?thesis by (cases "usnet_cache_search base t") (auto, metis not_Some_eq)
qed

end

end
