(* ===== verification/Mempool.thy ===== *)
theory Mempool
  imports Usn_Prelude
begin

text \<open>
  The fixed-size chunk allocator of \<^verbatim>\<open>mempool.c\<close>. A chunk pointer is the number of the chunk in
  the pool's block. The free list lives inside the free chunks: a free chunk that heads a run
  of adjacent free chunks records the length of the run and the next run. Of a chunk's bytes
  the pool reads and writes these two fields only; \<open>mc_pad\<close> are the two bytes that a client's
  16-byte object has between them (the padding of the free-list head), which the pool leaves alone.
\<close>

record mem_chunk =
  mc_free_chunks :: int
  mc_pad :: u16
  mc_next :: "nat option"

record usn_mempool =
  mp_freeptr :: "nat option"
  mp_free_chunks :: int
  mp_total_chunks :: int
  mp_chunk_size :: int
  mp_type :: int
  mp_chunks :: "nat \<Rightarrow> mem_chunk"

text \<open>\<^verbatim>\<open>sizeof(mem_chunk)\<close> is 16 on the 64-bit targets; \<open>mem\<close> is the (uninitialised) block that
  \<^verbatim>\<open>posix_memalign\<close> returned. The comparison with the size and the quotient are computed in \<^verbatim>\<open>size_t\<close>, to which the
  \<^verbatim>\<open>int\<close> chunk size is converted; the number of chunks is cut to an \<^verbatim>\<open>int\<close>.\<close>

definition pool_chunks :: "int \<Rightarrow> int \<Rightarrow> int" where
  "pool_chunks chunk_size total_size =
     sint (of_int ((total_size + (chunk_size - 1)) mod 2 ^ 64 div (chunk_size mod 2 ^ 64)) :: u32)"

definition usn_mempool_create ::
  "int \<Rightarrow> int \<Rightarrow> int \<Rightarrow> (nat \<Rightarrow> mem_chunk) \<Rightarrow> usn_mempool option" where
  "usn_mempool_create chunk_size total_size is_hugepage mem =
     (if chunk_size mod 2 ^ 64 < 16 then None
      else if chunk_size mod 4 \<noteq> 0 then None
      else
        let free_chunks = pool_chunks chunk_size total_size in
        Some \<lparr>mp_freeptr = Some 0, mp_free_chunks = free_chunks, mp_total_chunks = free_chunks,
              mp_chunk_size = chunk_size, mp_type = is_hugepage,
              mp_chunks = mem(0 := (mem 0)\<lparr>mc_free_chunks := free_chunks, mc_next := None\<rparr>)\<rparr>)"

text \<open>The outer \<open>None\<close> is the failed assertion (or the null free pointer it dereferences); the
  inner one is the \<^verbatim>\<open>NULL\<close> returned by an exhausted pool.\<close>

definition usnet_mempool_allocate :: "usn_mempool \<Rightarrow> (usn_mempool \<times> nat option) option" where
  "usnet_mempool_allocate mp =
     (if mp_free_chunks mp = 0 then Some (mp, None)
      else case mp_freeptr mp of
        None \<Rightarrow> None
      | Some p \<Rightarrow>
          let c = mp_chunks mp p in
          if \<not> 0 < mc_free_chunks c then None
          else
            let c = c\<lparr>mc_free_chunks := mc_free_chunks c - 1\<rparr>;
                mp = mp\<lparr>mp_chunks := (mp_chunks mp)(p := c),
                        mp_free_chunks := mp_free_chunks mp - 1\<rparr> in
            if mc_free_chunks c \<noteq> 0 then
              Some (mp\<lparr>mp_freeptr := Some (p + 1),
                       mp_chunks := (mp_chunks mp)(p + 1 :=
                         (mp_chunks mp (p + 1))\<lparr>mc_free_chunks := mc_free_chunks c, mc_next := mc_next c\<rparr>)\<rparr>, Some p)
            else Some (mp\<lparr>mp_freeptr := mc_next c\<rparr>, Some p))"

definition usnet_mempool_free :: "usn_mempool \<Rightarrow> nat option \<Rightarrow> usn_mempool" where
  "usnet_mempool_free mp ptr =
     (case ptr of
        None \<Rightarrow> mp
      | Some p \<Rightarrow>
          mp\<lparr>mp_chunks := (mp_chunks mp)(p := (mp_chunks mp p)\<lparr>mc_free_chunks := 1, mc_next := mp_freeptr mp\<rparr>),
             mp_freeptr := Some p,
             mp_free_chunks := mp_free_chunks mp + 1\<rparr>)"

definition usnet_mempool_capacity :: "usn_mempool \<Rightarrow> int" where
  "usnet_mempool_capacity mp = mp_free_chunks mp"

section \<open>The free list\<close>

text \<open>\<open>run_chain ch ptr rs\<close>: following the run heads from \<open>ptr\<close> gives the runs \<open>rs\<close>, each a
  first chunk and a length.\<close>

fun run_chain :: "(nat \<Rightarrow> mem_chunk) \<Rightarrow> nat option \<Rightarrow> (nat \<times> nat) list \<Rightarrow> bool" where
  "run_chain ch ptr [] \<longleftrightarrow> ptr = None"
| "run_chain ch ptr ((p, n) # rs) \<longleftrightarrow>
     ptr = Some p \<and> mc_free_chunks (ch p) = int n \<and> 0 < n \<and> run_chain ch (mc_next (ch p)) rs"

fun run_list :: "(nat \<times> nat) list \<Rightarrow> nat list" where
  "run_list [] = []"
| "run_list ((p, n) # rs) = [p..<p + n] @ run_list rs"

definition mempool_ok :: "usn_mempool \<Rightarrow> nat set \<Rightarrow> bool" where
  "mempool_ok mp F \<longleftrightarrow>
     (\<exists>rs. run_chain (mp_chunks mp) (mp_freeptr mp) rs \<and> distinct (run_list rs) \<and>
           set (run_list rs) = F \<and> mp_free_chunks mp = int (length (run_list rs)) \<and>
           (\<forall>p \<in> F. int p < mp_total_chunks mp))"

lemma run_chain_upd:
  "p \<notin> set (run_list rs) \<Longrightarrow> run_chain (ch(p := c)) ptr rs = run_chain ch ptr rs"
  by (induction ch ptr rs rule: run_chain.induct) auto

lemma run_list_eq_Nil: "run_chain ch ptr rs \<Longrightarrow> run_list rs = [] \<longleftrightarrow> rs = []"
  by (cases rs) auto

lemma mempool_ok_card: "mempool_ok mp F \<Longrightarrow> finite F \<and> mp_free_chunks mp = int (card F)"
  unfolding mempool_ok_def using distinct_card by fastforce

lemma pool_chunks_small:
  assumes "16 \<le> cs" "cs < 2 ^ 31" "0 \<le> n" "n < 2 ^ 31"
  shows "pool_chunks cs (n * cs) = n"
proof -
  have "n * cs \<le> 2 ^ 31 * 2 ^ 31" using assms by (intro mult_mono) auto
  then have "(n * cs + (cs - 1)) mod 2 ^ 64 = n * cs + (cs - 1)" "cs mod 2 ^ 64 = cs" using assms by (auto intro!: mod_pos_pos_trivial)
  moreover have "(n * cs + (cs - 1)) div cs = n" using assms(1) by simp
  ultimately show ?thesis using assms sint_of_nat_small[of "nat n"] by (simp add: pool_chunks_def)
qed

lemma create_ok:
  assumes "usn_mempool_create cs ts h mem = Some mp" "0 < pool_chunks cs ts"
  shows "mempool_ok mp {..<nat (pool_chunks cs ts)}"
proof -
  let ?n = "pool_chunks cs ts"
  have mp: "mp_freeptr mp = Some 0" "mp_free_chunks mp = ?n"
    "mp_total_chunks mp = ?n" "mp_chunks mp = mem(0 := (mem 0)\<lparr>mc_free_chunks := ?n, mc_next := None\<rparr>)"
    using assms(1) by (auto simp: usn_mempool_create_def Let_def split: if_splits)
  then show ?thesis using assms(2)
    unfolding mempool_ok_def by (intro exI[of _ "[(0, nat ?n)]"]) auto
qed

lemma allocate_empty: "mempool_ok mp {} \<Longrightarrow> usnet_mempool_allocate mp = Some (mp, None)"
  using mempool_ok_card[of mp "{}"] by (simp add: usnet_mempool_allocate_def)

lemma allocate_ok:
  assumes "mempool_ok mp F" "F \<noteq> {}"
  shows "\<exists>mp' p. usnet_mempool_allocate mp = Some (mp', Some p) \<and> p \<in> F \<and>
    mempool_ok mp' (F - {p}) \<and> mp_total_chunks mp' = mp_total_chunks mp"
proof -
  obtain rs where rs: "run_chain (mp_chunks mp) (mp_freeptr mp) rs" "distinct (run_list rs)"
      "set (run_list rs) = F" "mp_free_chunks mp = int (length (run_list rs))"
      "\<forall>p \<in> F. int p < mp_total_chunks mp"
    using assms(1) unfolding mempool_ok_def by blast
  obtain p n rs' where [simp]: "rs = (p, n) # rs'"
    using rs(3) assms(2) by (cases rs) auto
  have h: "mp_freeptr mp = Some p" "mc_free_chunks (mp_chunks mp p) = int n" "0 < n"
    "run_chain (mp_chunks mp) (mc_next (mp_chunks mp p)) rs'" using rs(1) by auto
  have notin: "p \<notin> set (run_list rs')" "p + 1 < p + n \<Longrightarrow> p + 1 \<notin> set (run_list rs')"
    using rs(2) h(3) by (auto simp: disjoint_iff)
  show ?thesis
  proof (cases "n = 1")
    case True
    let ?c = "(mp_chunks mp p)\<lparr>mc_free_chunks := 0\<rparr>"
    let ?mp = "mp\<lparr>mp_freeptr := mc_next (mp_chunks mp p), mp_chunks := (mp_chunks mp)(p := ?c),
      mp_free_chunks := mp_free_chunks mp - 1\<rparr>"
    have "usnet_mempool_allocate mp = Some (?mp, Some p)"
      using h rs(4) True by (simp add: usnet_mempool_allocate_def Let_def)
    moreover have "mempool_ok ?mp (F - {p})"
      using rs h notin True unfolding mempool_ok_def
      by (intro exI[of _ rs']) (auto simp: run_chain_upd)
    moreover have "p \<in> F" using rs(3) True by auto
    ultimately show ?thesis by auto
  next
    case False
    let ?c = "(mp_chunks mp p)\<lparr>mc_free_chunks := int n - 1\<rparr>"
    let ?d = "(mp_chunks mp (p + 1))\<lparr>mc_free_chunks := int n - 1, mc_next := mc_next (mp_chunks mp p)\<rparr>"
    let ?mp = "mp\<lparr>mp_freeptr := Some (p + 1),
      mp_chunks := (mp_chunks mp)(p := ?c, p + 1 := ?d), mp_free_chunks := mp_free_chunks mp - 1\<rparr>"
    have n: "1 < n" using False h(3) by simp
    have "usnet_mempool_allocate mp = Some (?mp, Some p)"
      using h rs(4) n by (simp add: usnet_mempool_allocate_def Let_def)
    moreover have "run_list rs = p # run_list ((p + 1, n - 1) # rs')"
      using n by (simp add: upt_conv_Cons)
    then have "mempool_ok ?mp (F - {p})"
      using rs h notin n unfolding mempool_ok_def
      by (intro exI[of _ "(p + 1, n - 1) # rs'"]) (auto simp: run_chain_upd of_nat_diff)
    moreover have "p \<in> F" using rs(3) n by auto
    ultimately show ?thesis by auto
  qed
qed

lemma free_ok:
  assumes "mempool_ok mp F" "p \<notin> F" "int p < mp_total_chunks mp"
  shows "mempool_ok (usnet_mempool_free mp (Some p)) (insert p F)"
proof -
  obtain rs where rs: "run_chain (mp_chunks mp) (mp_freeptr mp) rs" "distinct (run_list rs)"
      "set (run_list rs) = F" "mp_free_chunks mp = int (length (run_list rs))"
      "\<forall>p \<in> F. int p < mp_total_chunks mp"
    using assms(1) unfolding mempool_ok_def by blast
  then show ?thesis using assms(2,3) unfolding mempool_ok_def usnet_mempool_free_def
    by (intro exI[of _ "(p, 1) # rs"]) (auto simp: run_chain_upd)
qed

text \<open>What a client writes into a chunk it holds does not disturb the pool.\<close>

lemma client_write_ok:
  "mempool_ok mp F \<Longrightarrow> p \<notin> F \<Longrightarrow> mempool_ok (mp\<lparr>mp_chunks := (mp_chunks mp)(p := x)\<rparr>) F"
  unfolding mempool_ok_def using run_chain_upd by fastforce

lemma allocate_pad:
  "usnet_mempool_allocate mp = Some (mp', r) \<Longrightarrow> mc_pad (mp_chunks mp' q) = mc_pad (mp_chunks mp q)"
  by (auto simp: usnet_mempool_allocate_def Let_def split: if_splits option.splits)

lemma free_pad: "mc_pad (mp_chunks (usnet_mempool_free mp r) q) = mc_pad (mp_chunks mp q)"
  by (simp add: usnet_mempool_free_def split: option.splits)

section \<open>The interface of a chunk pool\<close>

text \<open>\<open>pool_allocs alloc n m\<close>: \<open>n\<close> allocations in a row.\<close>

fun pool_allocs :: "('m \<Rightarrow> ('m \<times> nat option) option) \<Rightarrow> nat \<Rightarrow> 'm \<Rightarrow> ('m \<times> nat list) option" where
  "pool_allocs alloc 0 m = Some (m, [])"
| "pool_allocs alloc (Suc n) m =
     (case alloc m of
        Some (m', Some p) \<Rightarrow>
          (case pool_allocs alloc n m' of Some (m'', ps) \<Rightarrow> Some (m'', p # ps) | None \<Rightarrow> None)
      | _ \<Rightarrow> None)"

locale chunk_pool =
  fixes ok :: "'m \<Rightarrow> nat set \<Rightarrow> bool"
    and alloc :: "'m \<Rightarrow> ('m \<times> nat option) option"
    and release :: "'m \<Rightarrow> nat option \<Rightarrow> 'm"
    and total :: "'m \<Rightarrow> int"
  assumes alloc_free: "ok m F \<Longrightarrow> F \<noteq> {} \<Longrightarrow>
      \<exists>m' p. alloc m = Some (m', Some p) \<and> p \<in> F \<and> ok m' (F - {p}) \<and> total m' = total m"
    and alloc_none: "ok m {} \<Longrightarrow> alloc m = Some (m, None)"
    and release_free: "ok m F \<Longrightarrow> p \<notin> F \<Longrightarrow> int p < total m \<Longrightarrow> ok (release m (Some p)) (insert p F)"
    and ok_finite: "ok m F \<Longrightarrow> finite F"
    and ok_total: "ok m F \<Longrightarrow> p \<in> F \<Longrightarrow> int p < total m"
begin

lemma allocs_distinct:
  "ok m F \<Longrightarrow> n \<le> card F \<Longrightarrow>
    \<exists>m' ps. pool_allocs alloc n m = Some (m', ps) \<and> length ps = n \<and> distinct ps \<and>
      set ps \<subseteq> F \<and> ok m' (F - set ps)"
proof (induction n arbitrary: m F)
  case 0
  then show ?case by simp
next
  case (Suc n)
  then have "F \<noteq> {}" by auto
  then obtain m' p where p: "alloc m = Some (m', Some p)" "p \<in> F" "ok m' (F - {p})"
    using alloc_free[OF Suc.prems(1)] by blast
  have "n \<le> card (F - {p})"
    using Suc.prems p(2) ok_finite[OF Suc.prems(1)] by simp
  then obtain m'' ps where ps: "pool_allocs alloc n m' = Some (m'', ps)" "length ps = n"
      "distinct ps" "set ps \<subseteq> F - {p}" "ok m'' (F - {p} - set ps)"
    using Suc.IH[OF p(3)] by blast
  have "F - {p} - set ps = F - set (p # ps)" by auto
  then show ?case using p ps by (auto simp del: Diff_insert)
qed

lemma alloc_release:
  assumes "ok m F" "alloc m = Some (m', Some p)" "F \<noteq> {}"
  shows "ok (release m' (Some p)) F"
proof -
  have "p \<in> F" "ok m' (F - {p})" "total m' = total m"
    using alloc_free[OF assms(1,3)] assms(2) by auto
  then show ?thesis
    using release_free[of m' "F - {p}" p] ok_total[OF assms(1)] by (simp add: insert_absorb)
qed

end

interpretation usn_pool: chunk_pool mempool_ok usnet_mempool_allocate usnet_mempool_free mp_total_chunks
proof (unfold_locales, goal_cases)
  case (1 m F)
  then show ?case by (rule allocate_ok)
next
  case (2 m)
  then show ?case by (rule allocate_empty)
next
  case (3 m F p)
  then show ?case by (rule free_ok)
next
  case (4 m F)
  then show ?case using mempool_ok_card by blast
next
  case (5 m F p)
  then show ?case unfolding mempool_ok_def by blast
qed

section \<open>Properties\<close>

text \<open>C37. From a fresh pool, any number of allocations up to the pool's capacity succeeds, the chunks
  are pairwise different and inside the block, and the capacity falls by that number; the allocation
  after the last free chunk returns the null pointer and changes nothing.\<close>

theorem mempool_exclusive:
  assumes "usn_mempool_create chunk_size total_size hp mem = Some mp"
    and "int n \<le> usnet_mempool_capacity mp"
  shows "\<exists>mp' ps. pool_allocs usnet_mempool_allocate n mp = Some (mp', ps) \<and> length ps = n \<and> distinct ps \<and>
    (\<forall>p \<in> set ps. int p < mp_total_chunks mp) \<and>
    usnet_mempool_capacity mp' = usnet_mempool_capacity mp - int n \<and>
    (int n = usnet_mempool_capacity mp \<longrightarrow> usnet_mempool_allocate mp' = Some (mp', None))"
proof (cases "0 < pool_chunks chunk_size total_size")
  case False
  then have "n = 0 \<and> mp_free_chunks mp = 0"
    using assms by (auto simp: usn_mempool_create_def usnet_mempool_capacity_def Let_def split: if_splits)
  then show ?thesis by (simp add: usnet_mempool_allocate_def usnet_mempool_capacity_def)
next
  case True
  define F where "F = {..<nat (pool_chunks chunk_size total_size)}"
  have ok: "mempool_ok mp F" unfolding F_def by (rule create_ok[OF assms(1) True])
  then have cap: "usnet_mempool_capacity mp = int (card F)"
    using mempool_ok_card by (simp add: usnet_mempool_capacity_def)
  then obtain mp' ps where ps: "pool_allocs usnet_mempool_allocate n mp = Some (mp', ps)" "length ps = n"
      "distinct ps" "set ps \<subseteq> F" "mempool_ok mp' (F - set ps)"
    using usn_pool.allocs_distinct[OF ok, of n] assms(2) by auto
  have card: "int (card (F - set ps)) = int (card F) - int n"
    using ps(2-4) card_mono[OF _ ps(4)] mempool_ok_card[OF ok] distinct_card[OF ps(3)]
    by (simp add: card_Diff_subset of_nat_diff)
  then have cap': "usnet_mempool_capacity mp' = usnet_mempool_capacity mp - int n"
    using mempool_ok_card[OF ps(5)] cap by (simp add: usnet_mempool_capacity_def)
  moreover have "usnet_mempool_allocate mp' = Some (mp', None)" if "int n = usnet_mempool_capacity mp"
    using cap' that by (simp add: usnet_mempool_allocate_def usnet_mempool_capacity_def)
  moreover have "\<forall>p \<in> set ps. int p < mp_total_chunks mp"
    using ps(4) ok unfolding mempool_ok_def by blast
  ultimately show ?thesis using ps by blast
qed

definition blank_chunks :: "nat \<Rightarrow> mem_chunk" where
  "blank_chunks = (\<lambda>_. \<lparr>mc_free_chunks = 0, mc_pad = 0, mc_next = None\<rparr>)"

theorem mempool_exclusive_witness:
  "\<exists>mp mp' ps. usn_mempool_create 16 48 0 blank_chunks = Some mp \<and>
    pool_allocs usnet_mempool_allocate 3 mp = Some (mp', ps) \<and> length ps = 3 \<and> distinct ps \<and>
    usnet_mempool_allocate mp' = Some (mp', None)"
proof -
  obtain mp where mp: "usn_mempool_create 16 48 0 blank_chunks = Some mp" "usnet_mempool_capacity mp = 3"
    by (simp add: usn_mempool_create_def usnet_mempool_capacity_def pool_chunks_def Let_def)
  then show ?thesis using mempool_exclusive[OF mp(1), of 3] by auto
qed

text \<open>A chunk that is given back is the next one handed out, and giving it back and taking it again
  leaves the set of free chunks as it was.\<close>

theorem mempool_free_realloc:
  assumes "mempool_ok mp F" "p \<notin> F" "int p < mp_total_chunks mp"
  shows "\<exists>mp'. usnet_mempool_allocate (usnet_mempool_free mp (Some p)) = Some (mp', Some p) \<and>
    mempool_ok mp' F \<and> usnet_mempool_capacity mp' = usnet_mempool_capacity mp"
proof -
  let ?m = "usnet_mempool_free mp (Some p)"
  have ok: "mempool_ok ?m (insert p F)" using assms by (rule usn_pool.release_free)
  have "mp_free_chunks mp \<ge> 0" using mempool_ok_card[OF assms(1)] by simp
  then have "\<exists>mp'. usnet_mempool_allocate ?m = Some (mp', Some p)"
    by (simp add: usnet_mempool_allocate_def usnet_mempool_free_def)
  then obtain mp' where mp': "usnet_mempool_allocate ?m = Some (mp', Some p)" by blast
  then have "mempool_ok mp' F" using usn_pool.alloc_free[OF ok] assms(2) by auto
  then show ?thesis
    using mp' mempool_ok_card[OF assms(1)] mempool_ok_card[of mp' F] by (simp add: usnet_mempool_capacity_def)
qed

theorem mempool_free_realloc_witness:
  "\<exists>mp mp'. usn_mempool_create 16 32 0 blank_chunks = Some mp \<and>
    (\<exists>m1. usnet_mempool_allocate mp = Some (m1, Some 0) \<and>
      usnet_mempool_allocate (usnet_mempool_free m1 (Some 0)) = Some (mp', Some 0) \<and>
      usnet_mempool_capacity mp' = 1)"
proof -
  obtain mp where mp: "usn_mempool_create 16 32 0 blank_chunks = Some mp" "mp_free_chunks mp = 2"
      "mp_freeptr mp = Some 0" "mc_free_chunks (mp_chunks mp 0) = 2"
    by (simp add: usn_mempool_create_def pool_chunks_def Let_def)
  have ok: "mempool_ok mp {..<2}" using create_ok[OF mp(1)] by (simp add: pool_chunks_def)
  obtain m1 where m1: "usnet_mempool_allocate mp = Some (m1, Some 0)"
    using mp by (simp add: usnet_mempool_allocate_def Let_def)
  have s: "{..<2} - {0} = {1 :: nat}" by auto
  have "{..<2 :: nat} \<noteq> {}" by (simp add: lessThan_empty_iff)
  from allocate_ok[OF ok this] have m1ok: "mempool_ok m1 {1}" "mp_total_chunks m1 = mp_total_chunks mp"
    unfolding m1 by (auto simp only: s option.inject prod.inject)
  moreover have "0 < mp_total_chunks mp" using mp(1) by (auto simp: usn_mempool_create_def pool_chunks_def)
  ultimately obtain mp' where "usnet_mempool_allocate (usnet_mempool_free m1 (Some 0)) = Some (mp', Some 0)"
      "usnet_mempool_capacity mp' = usnet_mempool_capacity m1"
    using mempool_free_realloc[of m1 "{1}" 0] by auto
  moreover have "usnet_mempool_capacity m1 = 1"
    using mempool_ok_card[OF m1ok(1)] by (simp add: usnet_mempool_capacity_def)
  ultimately show ?thesis using mp(1) m1 by metis
qed

end
