(* ===== verification/Ring_Memory.thy ===== *)
theory Ring_Memory
  imports Usn_Prelude
begin

text \<open>
  Circular views of a flat buffer. The receive ring (\<^verbatim>\<open>ringbuf.c\<close>), the send buffer
  (\<^verbatim>\<open>sndbuf.c\<close>) and the shared-memory message queue (\<^verbatim>\<open>mq.c\<close>) all copy into a flat block in one
  or two pieces; here the two-piece copies are shown to be one circular write, and reading
  back is related to writing. An index may be equal to the size: the three components let
  their indices rest there instead of at zero.
\<close>

definition ring_slice :: "'a list \<Rightarrow> nat \<Rightarrow> nat \<Rightarrow> 'a list" where
  "ring_slice m p n = map (\<lambda>i. m ! ((p + i) mod length m)) [0..<n]"

definition ring_dist :: "nat \<Rightarrow> nat \<Rightarrow> nat \<Rightarrow> nat" where
  "ring_dist N p k = (k + N - p mod N) mod N"

definition ring_write :: "nat \<Rightarrow> 'a list \<Rightarrow> 'a list \<Rightarrow> 'a list" where
  "ring_write p xs m =
     map (\<lambda>k. if ring_dist (length m) p k < length xs then xs ! ring_dist (length m) p k else m ! k)
       [0..<length m]"

lemma length_ring_slice [simp]: "length (ring_slice m p n) = n"
  by (simp add: ring_slice_def)

lemma length_ring_write [simp]: "length (ring_write p xs m) = length m"
  by (simp add: ring_write_def)

lemma ring_slice_0 [simp]: "ring_slice m p 0 = []"
  by (simp add: ring_slice_def)

lemma ring_slice_mod: "ring_slice m (p mod length m) n = ring_slice m p n"
  by (simp add: ring_slice_def mod_add_left_eq)

lemma ring_slice_cong: "p mod length m = q mod length m \<Longrightarrow> ring_slice m p n = ring_slice m q n"
  by (metis ring_slice_mod)

lemma ring_slice_add: "ring_slice m p (a + b) = ring_slice m p a @ ring_slice m (p + a) b"
  by (rule nth_equalityI)
     (auto simp: ring_slice_def nth_append add.assoc)

lemma take_ring_slice: "k \<le> n \<Longrightarrow> take k (ring_slice m p n) = ring_slice m p k"
  by (simp add: ring_slice_def take_map)

lemma drop_ring_slice: "k \<le> n \<Longrightarrow> drop k (ring_slice m p n) = ring_slice m (p + k) (n - k)"
  using ring_slice_add[of m p k "n - k"] by simp

lemma ring_slice_linear: "p + n \<le> length m \<Longrightarrow> ring_slice m p n = take n (drop p m)"
  by (rule nth_equalityI) (auto simp: ring_slice_def)

lemma ring_slice_wrap:
  assumes "p \<le> length m" "n \<le> length m" "length m \<le> p + n"
  shows "ring_slice m p n = drop p m @ take (p + n - length m) m"
proof -
  have n: "n = (length m - p) + (p + n - length m)"
    using assms by simp
  have "ring_slice m p n = ring_slice m p (length m - p) @ ring_slice m (p + (length m - p)) (p + n - length m)"
    using ring_slice_add[of m p "length m - p" "p + n - length m"] n by simp
  also have "ring_slice m p (length m - p) = drop p m"
    using assms by (simp add: ring_slice_linear)
  also have "ring_slice m (p + (length m - p)) (p + n - length m) = ring_slice m 0 (p + n - length m)"
    using assms by (intro ring_slice_cong) simp
  also have "\<dots> = take (p + n - length m) m"
    using assms by (simp add: ring_slice_linear)
  finally show ?thesis .
qed

section \<open>Circular writes\<close>

lemma ring_dist_self:
  assumes "i < N" shows "ring_dist N p ((p + i) mod N) = i"
proof -
  have "p mod N < N" using assms by simp
  show ?thesis
  proof (cases "p mod N + i < N")
    case True
    have "(p + i) mod N = p mod N + i"
      using True by (metis mod_add_left_eq mod_less)
    then show ?thesis using assms by (simp add: ring_dist_def)
  next
    case False
    have "(p + i) mod N = (p mod N + i) mod N"
      by (simp add: mod_add_left_eq)
    also have "\<dots> = p mod N + i - N"
    proof -
      have "p mod N + i - N < N" using assms \<open>p mod N < N\<close> by linarith
      then show ?thesis using False by (simp add: le_mod_geq)
    qed
    finally show ?thesis using assms False by (simp add: ring_dist_def)
  qed
qed

lemma nth_ring_write:
  "k < length m \<Longrightarrow> ring_write p xs m ! k =
    (if ring_dist (length m) p k < length xs then xs ! ring_dist (length m) p k else m ! k)"
  by (simp add: ring_write_def)

lemma nth_ring_write_at:
  assumes "i < length m"
  shows "ring_write p xs m ! ((p + i) mod length m) =
    (if i < length xs then xs ! i else m ! ((p + i) mod length m))"
proof -
  have "(p + i) mod length m < length m" using assms by (intro mod_less_divisor) auto
  then show ?thesis using assms by (simp add: ring_write_def ring_dist_self)
qed

lemma ring_slice_write_same:
  "length xs \<le> length m \<Longrightarrow> ring_slice (ring_write p xs m) p (length xs) = xs"
  by (rule nth_equalityI) (auto simp: ring_slice_def nth_ring_write_at)

lemma ring_slice_write_before:
  assumes "n + length xs \<le> length m" "(s + n) mod length m = p mod length m"
  shows "ring_slice (ring_write p xs m) s n = ring_slice m s n"
proof (rule nth_equalityI)
  fix i assume "i < length (ring_slice (ring_write p xs m) s n)"
  then have i: "i < n" by simp
  let ?N = "length m" and ?j = "length m - n + i"
  have j: "?j < ?N" "length xs \<le> ?j" using i assms(1) by auto
  have "(p + ?j) mod ?N = ((s + n) + ?j) mod ?N"
    using assms(2) by (metis mod_add_left_eq)
  also have "(s + n) + ?j = (s + i) + ?N" using i assms(1) by simp
  finally have "(s + i) mod ?N = (p + ?j) mod ?N" by simp
  then show "ring_slice (ring_write p xs m) s n ! i = ring_slice m s n ! i"
    using i j nth_ring_write_at[of ?j m p xs] by (simp add: ring_slice_def)
qed simp

lemma ring_slice_write_append:
  assumes "n + length xs \<le> length m" "(s + n) mod length m = p mod length m"
  shows "ring_slice (ring_write p xs m) s (n + length xs) = ring_slice m s n @ xs"
proof -
  have "ring_slice (ring_write p xs m) (s + n) (length xs) = ring_slice (ring_write p xs m) p (length xs)"
    using assms(2) by (intro ring_slice_cong) simp
  then show ?thesis
    using assms by (simp add: ring_slice_add ring_slice_write_before ring_slice_write_same)
qed

lemma ring_write_linear:
  assumes "p + length xs \<le> length m"
  shows "ring_write p xs m = take p m @ xs @ drop (p + length xs) m"
proof (cases "p = length m")
  case True
  then show ?thesis
    using assms by (auto simp: ring_write_def intro!: nth_equalityI)
next
  case False
  with assms have p: "p < length m" by simp
  show ?thesis
  proof (rule nth_equalityI)
    fix k assume "k < length (ring_write p xs m)"
    then have k: "k < length m" by simp
    show "ring_write p xs m ! k = (take p m @ xs @ drop (p + length xs) m) ! k"
    proof (cases "k < p")
      case True
      then have "ring_dist (length m) p k = k + length m - p"
        using p by (simp add: ring_dist_def)
      then show ?thesis using True k assms p by (auto simp: nth_ring_write nth_append)
    next
      case False
      then have "ring_dist (length m) p k = k - p"
        using p k by (simp add: ring_dist_def le_mod_geq)
      then show ?thesis using False k assms p by (auto simp: nth_ring_write nth_append)
    qed
  qed (use assms in simp)
qed

lemma ring_write_split:
  assumes "p \<le> length m" "length m \<le> p + length xs" "length xs \<le> length m"
  shows "ring_write p xs m =
    drop (length m - p) xs @ drop (p + length xs - length m) (take p m) @ take (length m - p) xs"
proof (cases "p = length m")
  case True
  have "ring_dist (length m) p k = k" if "k < length m" for k
    using that True by (simp add: ring_dist_def)
  then show ?thesis
    using True assms by (auto simp: ring_write_def nth_append intro!: nth_equalityI)
next
  case False
  with assms have p: "p < length m" by simp
  show ?thesis
  proof (rule nth_equalityI)
    fix k assume "k < length (ring_write p xs m)"
    then have k: "k < length m" by simp
    show "ring_write p xs m ! k = (drop (length m - p) xs @
        drop (p + length xs - length m) (take p m) @ take (length m - p) xs) ! k"
    proof (cases "k < p")
      case True
      then have "ring_dist (length m) p k = k + (length m - p)"
        using p by (simp add: ring_dist_def)
      then show ?thesis
        using True k assms p by (auto simp: nth_ring_write nth_append add.commute)
    next
      case False
      then have "ring_dist (length m) p k = k - p"
        using p k by (simp add: ring_dist_def le_mod_geq)
      then show ?thesis using False k assms p by (auto simp: nth_ring_write nth_append)
    qed
  qed (use assms in simp)
qed

text \<open>The one-piece and the two-piece \<^verbatim>\<open>memcpy\<close> sequences of the source are circular writes.\<close>

lemma mem_write_ring:
  "p + length xs \<le> length m \<Longrightarrow> mem_write p xs m = Some (ring_write p xs m)"
  by (simp add: mem_write_def ring_write_linear)

lemma mem_write_ring_split:
  assumes "p \<le> length m" "length m \<le> p + length xs" "length xs \<le> length m"
  shows "Option.bind (mem_write p (take (length m - p) xs) m) (mem_write 0 (drop (length m - p) xs)) =
    Some (ring_write p xs m)"
  using assms by (auto simp: mem_write_def ring_write_split add.commute)

lemma mem_write_two:
  assumes "mem_write p (xs @ ys) m = Some m'"
  obtains m1 where "mem_write p xs m = Some m1" "mem_write (p + length xs) ys m1 = Some m'"
  using assms by (auto simp: mem_write_def ac_simps split: if_splits)

lemma mem_read_linear:
  "p + n \<le> length m \<Longrightarrow> mem_read p n m = Some (ring_slice m p n)"
  by (simp add: mem_read_def ring_slice_linear)

lemma mem_read_split:
  assumes "p \<le> length m" "length m \<le> p + n" "n \<le> length m"
  shows "\<exists>a b. mem_read p (length m - p) m = Some a \<and> mem_read 0 (n - (length m - p)) m = Some b \<and>
    a @ b = ring_slice m p n"
  using assms by (auto simp: mem_read_def ring_slice_wrap add.commute)

section \<open>Indices\<close>

text \<open>An index moved on by \<open>n\<close> bytes: it rests at the end of the block and wraps past it.
  \<open>ring_used N h t\<close> is the number of bytes between the reading index and the writing index.\<close>

definition ring_adv :: "nat \<Rightarrow> nat \<Rightarrow> nat \<Rightarrow> nat" where
  "ring_adv N p n = (if p + n \<le> N then p + n else p + n - N)"

definition ring_used :: "nat \<Rightarrow> nat \<Rightarrow> nat \<Rightarrow> nat" where
  "ring_used N h t = (if h \<le> t then t - h else t + N - h)"

lemma ring_adv_le: "p \<le> N \<Longrightarrow> n \<le> N \<Longrightarrow> ring_adv N p n \<le> N"
  by (auto simp: ring_adv_def)

lemma ring_adv_wrap: "p \<le> N \<Longrightarrow> N - p < n \<Longrightarrow> ring_adv N p n = n - (N - p)"
  by (auto simp: ring_adv_def)

lemma ring_adv_pos: "p \<le> N \<Longrightarrow> 0 < n \<Longrightarrow> ring_adv N p n \<noteq> 0"
  by (auto simp: ring_adv_def)

lemma ring_adv_adv: "p \<le> N \<Longrightarrow> a + b \<le> N \<Longrightarrow> ring_adv N (ring_adv N p a) b = ring_adv N p (a + b)"
  by (auto simp: ring_adv_def)

lemma ring_adv_mod: "p \<le> N \<Longrightarrow> n \<le> N \<Longrightarrow> ring_adv N p n mod N = (p + n) mod N"
  by (auto simp: ring_adv_def le_mod_geq)

lemma ring_used_mod: "h \<le> N \<Longrightarrow> t \<le> N \<Longrightarrow> (h + ring_used N h t) mod N = t mod N"
  by (auto simp: ring_used_def)

text \<open>Writing moves the second index, reading the first one. The writing index is zero only
  before the first write.\<close>

lemma ring_used_put:
  assumes "h \<le> N" "t \<le> N" "t = 0 \<longrightarrow> h = 0" "ring_used N h t + n < N"
  shows "ring_used N h (ring_adv N t n) = ring_used N h t + n"
proof (cases "h \<le> t")
  case True
  then show ?thesis using assms by (auto simp: ring_used_def ring_adv_def)
next
  case False
  then show ?thesis using assms by (auto simp: ring_used_def ring_adv_def)
qed

lemma ring_used_get:
  assumes "h \<le> N" "t \<le> N" "t = 0 \<longrightarrow> h = 0" "ring_used N h t < N" "n \<le> ring_used N h t"
  shows "ring_used N (ring_adv N h n) t = ring_used N h t - n"
proof (cases "h \<le> t")
  case True
  then show ?thesis using assms by (auto simp: ring_used_def ring_adv_def)
next
  case False
  then show ?thesis using assms by (auto simp: ring_used_def ring_adv_def)
qed

lemma ring_used_0:
  "h \<le> N \<Longrightarrow> t = 0 \<longrightarrow> h = 0 \<Longrightarrow> ring_used N h t < N \<Longrightarrow> ring_used N h t = 0 \<longleftrightarrow> h = t"
  by (auto simp: ring_used_def split: if_splits)

end
