(* ===== verification/Sndbuf.thy ===== *)
theory Sndbuf
  imports Ring_Memory Cache
begin

text \<open>
  The send buffer of a connection (\<^verbatim>\<open>sndbuf.c\<close>): bytes written by the application stand between
  \<open>sb_head\<close> and \<open>sb_tail\<close> of a circular block until the peer acknowledges them.
  \<open>sendbuf_content\<close> is what the buffer stands for; the lemmas relate every operation to it,
  including the two places where the code departs from a byte queue.
\<close>

record usn_sendbuf =
  sb_fd :: u32
  sb_head :: u32
  sb_sent_head :: u32
  sb_tail :: u32
  sb_len :: u32
  sb_cum_len :: "64 word"
  sb_size :: u32
  sb_head_seq :: u32
  sb_init_seq :: u32
  sb_data :: "byte list"

section \<open>Table callbacks\<close>

definition usnet_sb_key :: "usn_sendbuf \<Rightarrow> u32" where
  "usnet_sb_key item = sb_fd item"

definition usnet_sb_eq :: "usn_sendbuf \<Rightarrow> usn_sendbuf \<Rightarrow> bool" where
  "usnet_sb_eq item1 item2 \<longleftrightarrow> sb_fd item1 = sb_fd item2"

definition usnet_sb_isempty :: "usn_sendbuf \<Rightarrow> bool" where
  "usnet_sb_isempty item \<longleftrightarrow> sb_fd item = 0"

definition usnet_sb_setempty :: "usn_sendbuf \<Rightarrow> usn_sendbuf" where
  "usnet_sb_setempty item = item\<lparr>sb_fd := 0\<rparr>"

lemmas sb_callbacks = usnet_sb_key_def usnet_sb_eq_def usnet_sb_isempty_def usnet_sb_setempty_def

interpretation sendbufs: cache_items sb_fd 0 usnet_sb_eq usnet_sb_key usnet_sb_isempty usnet_sb_setempty
  by unfold_locales (auto simp: sb_callbacks)

section \<open>Operations\<close>

text \<open>\<^verbatim>\<open>usnet_get_sendbuf\<close>: a free slot for the descriptor of the connection, cleared and
  initialised. The data block is the rest of the slot, which keeps its old bytes.\<close>

definition usnet_get_sendbuf ::
  "usn_sendbuf usn_hashbase \<Rightarrow> u32 \<Rightarrow> u32 \<Rightarrow> usn_sendbuf usn_hashbase \<times> nat option" where
  "usnet_get_sendbuf sndbuf_cache fd init_seq =
     (let p = \<lparr>sb_fd = fd, sb_head = 0, sb_sent_head = 0, sb_tail = 0, sb_len = 0, sb_cum_len = 0,
               sb_size = 0, sb_head_seq = 0, sb_init_seq = 0, sb_data = []\<rparr> in
      case usnet_cache_get sndbuf_cache p of
        None \<Rightarrow> (sndbuf_cache, None)
      | Some buf \<Rightarrow>
          let data = sb_data (hb_cache sndbuf_cache buf);
              new = \<lparr>sb_fd = fd, sb_head = 0, sb_sent_head = 0, sb_tail = 0, sb_len = 0,
                     sb_cum_len = 0, sb_size = of_nat (length data), sb_head_seq = init_seq,
                     sb_init_seq = init_seq, sb_data = data\<rparr> in
          (sndbuf_cache\<lparr>hb_cache := (hb_cache sndbuf_cache)(buf := new)\<rparr>, Some buf))"

definition usnet_get_sendbuf_len :: "usn_sendbuf \<Rightarrow> int" where
  "usnet_get_sendbuf_len buf =
     sint (if sb_tail buf \<ge> sb_head buf then sb_tail buf - sb_head buf
           else sb_size buf + sb_tail buf - sb_head buf)"

definition usnet_write_data :: "usn_sendbuf \<Rightarrow> byte list \<Rightarrow> (usn_sendbuf \<times> int) option" where
  "usnet_write_data buf data =
     (let len = int (length data);
          avail_len = sint (if sb_head buf > sb_tail buf then sb_head buf - sb_tail buf
                            else sb_size buf + sb_head buf - sb_tail buf);
          tail_len = sint (sb_size buf - sb_tail buf)
      in if avail_len \<le> len then Some (buf, - 1)
         else if tail_len \<ge> len then do {
           m \<leftarrow> mem_write (unat (sb_tail buf)) data (sb_data buf);
           let buf = buf\<lparr>sb_data := m, sb_tail := sb_tail buf + of_int len\<rparr>;
           Some (buf\<lparr>sb_len := of_int (usnet_get_sendbuf_len buf)\<rparr>, len)
         }
         else do {
           m \<leftarrow> mem_write (unat (sb_tail buf)) (take (nat tail_len) data) (sb_data buf);
           m \<leftarrow> mem_write 0 (take (nat (len - tail_len)) data) m;
           let buf = buf\<lparr>sb_data := m, sb_tail := of_int (len - tail_len)\<rparr>;
           Some (buf\<lparr>sb_len := of_int (usnet_get_sendbuf_len buf)\<rparr>, len)
         })"

definition usnet_remove_data :: "usn_sendbuf \<Rightarrow> int \<Rightarrow> usn_sendbuf \<times> int" where
  "usnet_remove_data buf len =
     (let data_len = sint (if sb_tail buf \<ge> sb_head buf then sb_tail buf - sb_head buf
                           else sb_size buf + sb_tail buf - sb_head buf)
      in if len > data_len then
           (buf\<lparr>sb_head := 0, sb_tail := 0, sb_head_seq := sb_head_seq buf + of_int data_len\<rparr>,
            data_len)
         else
           let buf = buf\<lparr>sb_head := sb_head buf + of_int len\<rparr>;
               buf = (if sb_head buf \<ge> sb_size buf
                      then buf\<lparr>sb_head := sb_head buf - sb_size buf\<rparr> else buf)
           in (buf\<lparr>sb_head_seq := sb_head_seq buf + of_int len\<rparr>, len))"

section \<open>What the buffer stands for\<close>

definition sendbuf_wf :: "usn_sendbuf \<Rightarrow> bool" where
  "sendbuf_wf buf \<longleftrightarrow> unat (sb_size buf) = length (sb_data buf) \<and> 0 < length (sb_data buf) \<and>
     length (sb_data buf) < 2 ^ 30 \<and> unat (sb_head buf) < length (sb_data buf) \<and>
     unat (sb_tail buf) \<le> length (sb_data buf)"

definition sendbuf_used :: "usn_sendbuf \<Rightarrow> nat" where
  "sendbuf_used buf =
     (if unat (sb_head buf) \<le> unat (sb_tail buf) then unat (sb_tail buf) - unat (sb_head buf)
      else length (sb_data buf) + unat (sb_tail buf) - unat (sb_head buf))"

definition sendbuf_content :: "usn_sendbuf \<Rightarrow> byte list" where
  "sendbuf_content buf = ring_slice (sb_data buf) (unat (sb_head buf)) (sendbuf_used buf)"

lemma sendbuf_used_le: "sendbuf_wf buf \<Longrightarrow> sendbuf_used buf \<le> length (sb_data buf)"
  by (auto simp: sendbuf_wf_def sendbuf_used_def)

lemma length_sendbuf_content [simp]: "length (sendbuf_content buf) = sendbuf_used buf"
  by (simp add: sendbuf_content_def)

text \<open>The C expressions for the used, free and tail lengths, read as natural numbers.\<close>

lemma sendbuf_used_word:
  assumes "sendbuf_wf buf"
  shows "sint (if sb_tail buf \<ge> sb_head buf then sb_tail buf - sb_head buf
           else sb_size buf + sb_tail buf - sb_head buf) = int (sendbuf_used buf)"
  using assms
  by (intro sint_of_unat)
     (auto simp: sendbuf_wf_def sendbuf_used_def word_le_nat_alt unat_sub_u32 unat_add_sub_u32)

lemma sendbuf_avail_word:
  assumes "sendbuf_wf buf"
  shows "sint (if sb_head buf > sb_tail buf then sb_head buf - sb_tail buf
           else sb_size buf + sb_head buf - sb_tail buf) =
    int (length (sb_data buf) - sendbuf_used buf)"
  using assms
  by (intro sint_of_unat)
     (auto simp: sendbuf_wf_def sendbuf_used_def word_less_nat_alt unat_sub_u32 unat_add_sub_u32)

lemma sendbuf_tail_word:
  assumes "sendbuf_wf buf"
  shows "sint (sb_size buf - sb_tail buf) = int (length (sb_data buf) - unat (sb_tail buf))"
  using assms by (intro sint_of_unat) (auto simp: sendbuf_wf_def unat_sub_u32)

lemmas sendbuf_words = sendbuf_used_word sendbuf_avail_word sendbuf_tail_word

section \<open>Writing\<close>

lemma write_data_full:
  assumes "sendbuf_wf buf" "length (sb_data buf) - sendbuf_used buf \<le> length data"
  shows "usnet_write_data buf data = Some (buf, - 1)"
  using assms by (simp add: usnet_write_data_def sendbuf_words)

text \<open>Both ways of copying are one circular write; in the second the bytes past the end are
  taken from the start of the data again.\<close>

definition written :: "usn_sendbuf \<Rightarrow> byte list \<Rightarrow> byte list" where
  "written buf data =
     (let k = length (sb_data buf) - unat (sb_tail buf) in
      if length data \<le> k then data else take k data @ take (length data - k) data)"

lemma length_written [simp]: "length (written buf data) = length data"
  by (auto simp: written_def Let_def)

definition put_tail :: "usn_sendbuf \<Rightarrow> nat \<Rightarrow> nat" where
  "put_tail buf n =
     (if unat (sb_tail buf) + n \<le> length (sb_data buf) then unat (sb_tail buf) + n
      else unat (sb_tail buf) + n - length (sb_data buf))"

definition put_buf :: "usn_sendbuf \<Rightarrow> byte list \<Rightarrow> usn_sendbuf" where
  "put_buf buf data =
     buf\<lparr>sb_data := ring_write (unat (sb_tail buf)) (written buf data) (sb_data buf),
         sb_tail := of_nat (put_tail buf (length data))\<rparr>"

lemma write_data_eq:
  assumes wf: "sendbuf_wf buf" and room: "length data < length (sb_data buf) - sendbuf_used buf"
  shows "usnet_write_data buf data =
    Some ((put_buf buf data)\<lparr>sb_len := of_int (usnet_get_sendbuf_len (put_buf buf data))\<rparr>,
          int (length data))"
proof -
  let ?N = "length (sb_data buf)" and ?t = "unat (sb_tail buf)" and ?n = "length data"
  have t: "?t \<le> ?N" "?N < 2 ^ 30" using wf by (auto simp: sendbuf_wf_def)
  have n: "?n < ?N" using room by simp
  have notfull: "(int (?N - sendbuf_used buf) \<le> int ?n) = False" using room by simp
  show ?thesis
  proof (cases "?t + ?n \<le> ?N")
    case True
    then have tl: "(int ?n \<le> int (?N - ?t)) = True" by (rule int_le_diff)
    have m: "mem_write ?t data (sb_data buf) = Some (ring_write ?t data (sb_data buf))"
      using True by (rule mem_write_ring)
    have w: "written buf data = data" using True by (simp add: written_def Let_def)
    have "of_nat (put_tail buf ?n) = sb_tail buf + of_int (int ?n)"
      using True by (simp add: put_tail_def)
    then show ?thesis
      by (simp only: usnet_write_data_def Let_def sendbuf_words[OF wf] notfull tl m if_True if_False
          Option.bind.bind_lunit put_buf_def w)
  next
    case False
    let ?k = "?N - ?t"
    have lt: "?k < ?n" using False t by linarith
    note k = nat_int_lt[OF lt] lt
    have w: "written buf data = take ?k data @ take (?n - ?k) data"
      using k(4) by (simp add: written_def Let_def)
    obtain m1 where m: "mem_write ?t (take ?k data) (sb_data buf) = Some m1"
      "mem_write 0 (take (?n - ?k) data) m1 = Some (ring_write ?t (written buf data) (sb_data buf))"
      using mem_write_ring_split[of ?t "sb_data buf" "written buf data"] t n False k(4)
      by (auto simp: w bind_eq_Some_conv)
    have "(of_int (int ?n - int ?k) :: u32) = of_nat (put_tail buf ?n)"
      using False t by (simp add: put_tail_def of_nat_diff)
    then show ?thesis
      by (simp only: usnet_write_data_def Let_def sendbuf_words[OF wf] notfull k m if_False
          Option.bind.bind_lunit put_buf_def)
  qed
qed

text \<open>The write keeps the buffer well formed and appends the copied bytes.\<close>

lemma put_buf_fields [simp]:
  "length (sb_data (put_buf buf data)) = length (sb_data buf)"
  "sb_head (put_buf buf data) = sb_head buf" "sb_size (put_buf buf data) = sb_size buf"
  "sb_head_seq (put_buf buf data) = sb_head_seq buf" "sb_fd (put_buf buf data) = sb_fd buf"
  by (simp_all add: put_buf_def)

lemma unat_put_tail:
  assumes "sendbuf_wf buf" "length data < length (sb_data buf) - sendbuf_used buf"
  shows "unat (sb_tail (put_buf buf data)) = put_tail buf (length data)"
    and "put_tail buf (length data) \<le> length (sb_data buf)"
proof -
  show le: "put_tail buf (length data) \<le> length (sb_data buf)"
    using assms by (auto simp: put_tail_def sendbuf_wf_def)
  then have "put_tail buf (length data) < 2 ^ 32"
    using assms(1) by (auto simp: sendbuf_wf_def)
  then show "unat (sb_tail (put_buf buf data)) = put_tail buf (length data)"
    by (simp add: put_buf_def unat_of_nat_u32)
qed

lemma put_buf_wf:
  "sendbuf_wf buf \<Longrightarrow> length data < length (sb_data buf) - sendbuf_used buf \<Longrightarrow>
    sendbuf_wf (put_buf buf data)"
  using unat_put_tail[of buf data] by (simp add: sendbuf_wf_def)

lemma put_buf_used:
  assumes "sendbuf_wf buf" "length data < length (sb_data buf) - sendbuf_used buf"
  shows "sendbuf_used (put_buf buf data) = sendbuf_used buf + length data"
  using assms unat_put_tail[OF assms]
  by (auto simp: sendbuf_used_def put_tail_def sendbuf_wf_def split: if_splits)

lemma put_buf_content:
  assumes "sendbuf_wf buf" "length data < length (sb_data buf) - sendbuf_used buf"
  shows "sendbuf_content (put_buf buf data) = sendbuf_content buf @ written buf data"
proof -
  have "(unat (sb_head buf) + sendbuf_used buf) mod length (sb_data buf) =
      unat (sb_tail buf) mod length (sb_data buf)"
    using assms(1) by (auto simp: sendbuf_used_def sendbuf_wf_def)
  then show ?thesis
    using ring_slice_write_append[of "sendbuf_used buf" "written buf data" "sb_data buf"
        "unat (sb_head buf)" "unat (sb_tail buf)"] assms
    by (simp add: sendbuf_content_def put_buf_used) (simp add: put_buf_def)
qed

section \<open>Removing acknowledged bytes\<close>

text \<open>The removal that leaves the tail at the end of the block while the head wraps to its
  start: the one case in which the remaining content is wrong.\<close>

definition remove_desync :: "usn_sendbuf \<Rightarrow> nat \<Rightarrow> bool" where
  "remove_desync buf n \<longleftrightarrow>
     unat (sb_tail buf) = length (sb_data buf) \<and> unat (sb_head buf) + n = length (sb_data buf)"

definition drop_head :: "usn_sendbuf \<Rightarrow> nat \<Rightarrow> nat" where
  "drop_head buf n =
     (if unat (sb_head buf) + n \<ge> length (sb_data buf) then unat (sb_head buf) + n - length (sb_data buf)
      else unat (sb_head buf) + n)"

lemma remove_data_eq:
  assumes wf: "sendbuf_wf buf" and n: "n \<le> sendbuf_used buf"
  shows "usnet_remove_data buf (int n) =
    (buf\<lparr>sb_head := of_nat (drop_head buf n), sb_head_seq := sb_head_seq buf + of_nat n\<rparr>, int n)"
proof -
  let ?N = "length (sb_data buf)" and ?h = "unat (sb_head buf)"
  have b: "?h < ?N" "?N < 2 ^ 30" "unat (sb_size buf) = ?N" using wf by (auto simp: sendbuf_wf_def)
  have nN: "n \<le> ?N" using n sendbuf_used_le[OF wf] by simp
  have u: "unat (sb_head buf + of_nat n) = ?h + n"
    using b nN by (simp add: unat_add_u32 unat_of_nat_u32)
  have big: "(sb_size buf \<le> sb_head buf + of_nat n) = (?N \<le> ?h + n)"
    by (simp add: word_le_nat_alt u b)
  have sz: "sb_size buf = of_nat ?N" using b(3)[symmetric] by simp
  have le: "(int n > int (sendbuf_used buf)) = False" using n by simp
  show ?thesis
  proof (cases "?N \<le> ?h + n")
    case True
    then have "of_nat (drop_head buf n) = sb_head buf + of_nat n - sb_size buf"
      by (simp add: drop_head_def of_nat_diff sz)
    then show ?thesis
      using True big n by (simp add: usnet_remove_data_def sendbuf_used_word[OF wf] le Let_def del: of_nat_diff)
  next
    case False
    then show ?thesis
      using big n by (simp add: usnet_remove_data_def sendbuf_used_word[OF wf] le Let_def drop_head_def)
  qed
qed

lemma remove_data_overflow:
  assumes "sendbuf_wf buf" "sendbuf_used buf < n"
  shows "usnet_remove_data buf (int n) =
    (buf\<lparr>sb_head := 0, sb_tail := 0, sb_head_seq := sb_head_seq buf + of_nat (sendbuf_used buf)\<rparr>,
     int (sendbuf_used buf))"
  using assms by (simp add: usnet_remove_data_def sendbuf_used_word)

lemma remove_data_wf:
  assumes "sendbuf_wf buf" "n \<le> sendbuf_used buf"
  shows "sendbuf_wf (fst (usnet_remove_data buf (int n)))"
proof -
  have "drop_head buf n < length (sb_data buf)"
    using assms sendbuf_used_le[OF assms(1)] by (auto simp: drop_head_def sendbuf_wf_def)
  then show ?thesis
    using assms by (simp add: remove_data_eq sendbuf_wf_def unat_of_nat_u32)
qed

lemma drop_head_used:
  assumes "sendbuf_wf buf" "n \<le> sendbuf_used buf" "\<not> remove_desync buf n"
  shows "(if drop_head buf n \<le> unat (sb_tail buf) then unat (sb_tail buf) - drop_head buf n
      else length (sb_data buf) + unat (sb_tail buf) - drop_head buf n) = sendbuf_used buf - n"
proof -
  have b: "unat (sb_head buf) < length (sb_data buf)" "unat (sb_tail buf) \<le> length (sb_data buf)"
    using assms(1) by (auto simp: sendbuf_wf_def)
  show ?thesis
  proof (cases "unat (sb_head buf) \<le> unat (sb_tail buf)")
    case True
    then show ?thesis using b assms(2,3) by (auto simp: sendbuf_used_def drop_head_def remove_desync_def)
  next
    case False
    then show ?thesis using b assms(2,3) by (auto simp: sendbuf_used_def drop_head_def remove_desync_def)
  qed
qed

lemma remove_data_content:
  assumes "sendbuf_wf buf" "n \<le> sendbuf_used buf" "\<not> remove_desync buf n"
  shows "sendbuf_content (fst (usnet_remove_data buf (int n))) = drop n (sendbuf_content buf)"
proof -
  let ?N = "length (sb_data buf)" and ?h = "unat (sb_head buf)"
  let ?b = "fst (usnet_remove_data buf (int n))"
  have dh: "drop_head buf n < ?N"
    using assms sendbuf_used_le[OF assms(1)] by (auto simp: drop_head_def sendbuf_wf_def)
  have b: "sb_data ?b = sb_data buf" "unat (sb_head ?b) = drop_head buf n" "sb_tail ?b = sb_tail buf"
    using assms dh by (simp_all add: remove_data_eq sendbuf_wf_def unat_of_nat_u32)
  have used: "sendbuf_used ?b = sendbuf_used buf - n"
    using drop_head_used[OF assms] by (simp only: sendbuf_used_def[of ?b] b)
  have "drop_head buf n mod ?N = (?h + n) mod ?N"
    using assms(1) by (auto simp: drop_head_def sendbuf_wf_def le_mod_geq)
  then show ?thesis
    using assms(2) ring_slice_cong[of "drop_head buf n" "sb_data buf" "?h + n"]
    by (simp add: sendbuf_content_def used b drop_ring_slice)
qed

section \<open>Properties\<close>

text \<open>C38. Writing into the send buffer: a write that would leave no free byte is refused with -1 and
  changes nothing; any other is accepted whole, keeps the buffer well formed and its sequence number,
  and appends the data. When the data crosses the end of the block the bytes behind the end repeat the
  start of the data instead of continuing it.\<close>

theorem write_data_correct:
  assumes wf: "sendbuf_wf buf"
  shows "if length (sb_data buf) - sendbuf_used buf \<le> length data
    then usnet_write_data buf data = Some (buf, - 1)
    else \<exists>buf'. usnet_write_data buf data = Some (buf', int (length data)) \<and> sendbuf_wf buf' \<and>
      sb_head_seq buf' = sb_head_seq buf \<and>
      sb_len buf' = of_nat (sendbuf_used buf + length data) \<and>
      sendbuf_content buf' = sendbuf_content buf @
        (let k = length (sb_data buf) - unat (sb_tail buf) in
         if length data \<le> k then data else take k data @ take (length data - k) data)"
proof (cases "length (sb_data buf) - sendbuf_used buf \<le> length data")
  case True
  then show ?thesis using write_data_full[OF wf] by simp
next
  case False
  let ?b = "put_buf buf data"
  have room: "length data < length (sb_data buf) - sendbuf_used buf" using False by simp
  have "usnet_get_sendbuf_len ?b = int (sendbuf_used buf + length data)"
    using sendbuf_used_word[OF put_buf_wf[OF wf room]] put_buf_used[OF wf room]
    by (simp add: usnet_get_sendbuf_len_def)
  moreover have "sendbuf_wf (?b\<lparr>sb_len := l\<rparr>) = sendbuf_wf ?b"
    "sendbuf_content (?b\<lparr>sb_len := l\<rparr>) = sendbuf_content ?b" for l
    by (simp_all add: sendbuf_wf_def sendbuf_content_def sendbuf_used_def)
  ultimately show ?thesis
    using False write_data_eq[OF wf room] put_buf_wf[OF wf room] put_buf_content[OF wf room]
    by (simp add: written_def)
qed

definition sendbuf_at :: "u32 \<Rightarrow> u32 \<Rightarrow> byte list \<Rightarrow> usn_sendbuf" where
  "sendbuf_at h t d = \<lparr>sb_fd = 1, sb_head = h, sb_sent_head = h, sb_tail = t, sb_len = 0, sb_cum_len = 0,
     sb_size = of_nat (length d), sb_head_seq = 100, sb_init_seq = 100, sb_data = d\<rparr>"

theorem write_data_correct_witness:
  "\<exists>buf'. usnet_write_data (sendbuf_at 4 6 [0,0,0,0,1,2,0,0]) [3,4,5,6] = Some (buf', 4) \<and> sendbuf_wf buf' \<and>
    sendbuf_content buf' = [1,2,3,4,3,4]"
proof -
  let ?b = "sendbuf_at 4 6 [0,0,0,0,1,2,0,0]"
  have b: "length (sb_data ?b) - sendbuf_used ?b = 6" "sendbuf_content ?b = [1,2]"
    "length (sb_data ?b) - unat (sb_tail ?b) = 2" by code_simp+
  have "sendbuf_wf ?b" by (simp add: sendbuf_wf_def sendbuf_at_def)
  from write_data_correct[OF this, of "[3,4,5,6]"] show ?thesis by (auto simp: b)
qed

text \<open>C39. Acknowledging \<open>n\<close> bytes drops the \<open>n\<close> oldest bytes and advances the sequence number of the
  buffer by the number dropped; more than the buffer holds empties it. The exception is a block filled
  to its end and acknowledged up to exactly there: the head wraps to zero while the tail does not, and
  the buffer then holds its whole block of old bytes.\<close>

theorem remove_data_correct:
  assumes wf: "sendbuf_wf buf" and rm: "usnet_remove_data buf (int n) = (buf', r)"
  shows "sendbuf_wf buf' \<and> r = int (min n (sendbuf_used buf)) \<and>
    sb_head_seq buf' = sb_head_seq buf + of_nat (min n (sendbuf_used buf)) \<and>
    sendbuf_content buf' =
      (if n \<le> sendbuf_used buf \<and> remove_desync buf n then sb_data buf else drop n (sendbuf_content buf))"
proof (cases "n \<le> sendbuf_used buf")
  case False
  have e: "sendbuf_content (buf\<lparr>sb_head := 0, sb_tail := 0, sb_head_seq := s\<rparr>) = []" for s
    by (simp add: sendbuf_content_def sendbuf_used_def)
  show ?thesis
    using False remove_data_overflow[OF wf, of n] rm wf by (auto simp: sendbuf_wf_def e)
next
  case True
  have b: "buf' = buf\<lparr>sb_head := of_nat (drop_head buf n), sb_head_seq := sb_head_seq buf + of_nat n\<rparr>" "r = int n"
    using remove_data_eq[OF wf True] rm by auto
  have "sendbuf_content buf' = sb_data buf" if "remove_desync buf n"
  proof -
    have u: "unat (sb_head buf') = 0" "unat (sb_tail buf') = length (sb_data buf')" "sb_data buf' = sb_data buf"
      using that by (auto simp: b remove_desync_def drop_head_def)
    moreover have "0 < length (sb_data buf)" using wf by (simp add: sendbuf_wf_def)
    ultimately show ?thesis by (auto simp: sendbuf_content_def sendbuf_used_def ring_slice_def intro!: nth_equalityI)
  qed
  then show ?thesis
    using b True remove_data_wf[OF wf True] remove_data_content[OF wf True] rm by (auto simp: min_def)
qed

theorem remove_data_correct_witness:
  "\<exists>buf'. usnet_remove_data (sendbuf_at 2 8 [9,9,1,2,3,4,5,6]) (int 4) = (buf', 4) \<and> sendbuf_content buf' = [5,6]"
proof -
  let ?b = "sendbuf_at 2 8 [9,9,1,2,3,4,5,6]"
  obtain buf' r where r: "usnet_remove_data ?b (int 4) = (buf', r)"
    by (cases "usnet_remove_data ?b (int 4)") simp
  have b: "sendbuf_used ?b = 6" "\<not> remove_desync ?b 4" "sendbuf_content ?b = [1,2,3,4,5,6]" by code_simp+
  have "sendbuf_wf ?b" by (simp add: sendbuf_wf_def sendbuf_at_def)
  from remove_data_correct[OF this r] show ?thesis using r by (simp add: b)
qed

end
