(* ===== verification/Fifo.thy ===== *)
theory Fifo
  imports Usn_Prelude
begin

text \<open>
  What the stack's queues promise. A queue stands for a list (\<open>content\<close>); an insertion that
  fits appends a piece to it, a removal takes a non-empty prefix off it. The locale is
  interpreted by the shared-memory message queue (elements are messages) and by the receive
  ring (elements are bytes); the lemmas on whole runs of insertions and removals are proved
  here once.
\<close>

fun puts :: "('b \<Rightarrow> 'x \<Rightarrow> 'b option) \<Rightarrow> 'b \<Rightarrow> 'x list \<Rightarrow> 'b option" where
  "puts put b [] = Some b"
| "puts put b (x # xs) = (case put b x of None \<Rightarrow> None | Some b' \<Rightarrow> puts put b' xs)"

fun gets :: "('b \<Rightarrow> ('b \<times> 'y list) option) \<Rightarrow> nat \<Rightarrow> 'b \<Rightarrow> ('b \<times> 'y list) option" where
  "gets get 0 b = Some (b, [])"
| "gets get (Suc n) b =
     (case get b of None \<Rightarrow> None
      | Some (b', ys) \<Rightarrow>
          (case gets get n b' of None \<Rightarrow> None | Some (b'', zs) \<Rightarrow> Some (b'', ys @ zs)))"

locale fifo_put =
  fixes ok :: "'b \<Rightarrow> bool"
    and content :: "'b \<Rightarrow> 'y list"
    and room :: "'b \<Rightarrow> nat"
    and cost :: "'x \<Rightarrow> nat"
    and piece :: "'x \<Rightarrow> 'y list"
    and put :: "'b \<Rightarrow> 'x \<Rightarrow> 'b option"
  assumes put_fits: "ok b \<Longrightarrow> cost x \<le> room b \<Longrightarrow>
      \<exists>b'. put b x = Some b' \<and> ok b' \<and> content b' = content b @ piece x \<and> room b' = room b - cost x"
begin

lemma puts_fit:
  "ok b \<Longrightarrow> sum_list (map cost xs) \<le> room b \<Longrightarrow>
    \<exists>b'. puts put b xs = Some b' \<and> ok b' \<and> content b' = content b @ concat (map piece xs) \<and>
      room b' = room b - sum_list (map cost xs)"
proof (induction xs arbitrary: b)
  case Nil
  then show ?case by simp
next
  case (Cons x xs)
  then obtain b1 where b1: "put b x = Some b1" "ok b1" "content b1 = content b @ piece x"
      "room b1 = room b - cost x"
    using put_fits[of b x] by auto
  then have "sum_list (map cost xs) \<le> room b1" using Cons.prems by simp
  then obtain b' where "puts put b1 xs = Some b'" "ok b'"
      "content b' = content b1 @ concat (map piece xs)" "room b' = room b1 - sum_list (map cost xs)"
    using Cons.IH[OF b1(2)] by blast
  then show ?case using b1 by simp
qed

end

locale fifo = fifo_put ok content room cost piece put
  for ok :: "'b \<Rightarrow> bool" and content :: "'b \<Rightarrow> 'y list" and room :: "'b \<Rightarrow> nat"
    and cost :: "'x \<Rightarrow> nat" and piece :: "'x \<Rightarrow> 'y list" and put :: "'b \<Rightarrow> 'x \<Rightarrow> 'b option" +
  fixes get :: "'b \<Rightarrow> ('b \<times> 'y list) option"
  assumes get_prefix: "ok b \<Longrightarrow> content b \<noteq> [] \<Longrightarrow>
      \<exists>b' ys. get b = Some (b', ys) \<and> ok b' \<and> ys \<noteq> [] \<and> content b = ys @ content b'"
begin

text \<open>Removing until nothing is left takes at most as many steps as there are elements and
  returns the content in order.\<close>

lemma gets_drain:
  "ok b \<Longrightarrow> \<exists>n \<le> length (content b). \<exists>b'. gets get n b = Some (b', content b) \<and> ok b' \<and> content b' = []"
proof (induction "length (content b)" arbitrary: b rule: less_induct)
  case less
  show ?case
  proof (cases "content b = []")
    case True
    then show ?thesis using less.prems by (intro exI[of _ 0]) auto
  next
    case False
    then obtain b1 ys where b1: "get b = Some (b1, ys)" "ok b1" "ys \<noteq> []" "content b = ys @ content b1"
      using get_prefix[OF less.prems] by blast
    then have "length (content b1) < length (content b)" by simp
    then obtain n b' where n: "n \<le> length (content b1)" "gets get n b1 = Some (b', content b1)"
        "ok b'" "content b' = []"
      using less.hyps[OF _ b1(2)] by blast
    have "Suc n \<le> length (content b)" using n(1) b1(3,4) by (cases ys) auto
    then show ?thesis using n b1 by (intro exI[of _ "Suc n"]) auto
  qed
qed

lemma puts_then_drain:
  assumes "ok b" "content b = []" "sum_list (map cost xs) \<le> room b"
  shows "\<exists>b1 n b'. puts put b xs = Some b1 \<and> gets get n b1 = Some (b', concat (map piece xs)) \<and>
    content b' = []"
proof -
  obtain b1 where "puts put b xs = Some b1" "ok b1" "content b1 = concat (map piece xs)"
    using puts_fit[OF assms(1,3)] assms(2) by auto
  then show ?thesis using gets_drain[of b1] by metis
qed

end

end
