(* ===== verification/Ringbuf.thy ===== *)
theory Ringbuf
  imports Ring_Memory Cache Mempool Fifo
begin

text \<open>
  The receive buffer of a connection (\<^verbatim>\<open>ringbuf.c\<close>) and the copy to the application
  (\<^verbatim>\<open>usnet_read\<close> in \<^verbatim>\<open>core.c\<close>). Payload is copied into a circular block; a list of fragments records
  which ranges of the sequence space have arrived beyond \<open>rb_head_seq\<close>, the next byte expected.
  The fragment objects come from a chunk pool. The theory shows that in-order segments form a
  byte queue (interpretation of \<open>fifo\<close>), characterises each refusal, and states where the copy
  to the application leaves its buffer.
\<close>

record fragment =
  fr_at :: nat
  fr_seq :: u32
  fr_len :: u16
  fr_flags :: u16

record usn_ringbuf =
  rb_fd :: u32
  rb_data :: u16
  rb_head :: u16
  rb_size :: u32
  rb_head_seq :: u32
  rb_last_seq :: u32
  rb_merged_len :: u32
  rb_win :: u32
  rb_frags :: "fragment list"
  rb_buf :: "byte list"

section \<open>Table callbacks\<close>

definition usnet_rb_key :: "usn_ringbuf \<Rightarrow> u32" where
  "usnet_rb_key item = rb_fd item"

definition usnet_rb_eq :: "usn_ringbuf \<Rightarrow> usn_ringbuf \<Rightarrow> bool" where
  "usnet_rb_eq item1 item2 \<longleftrightarrow> rb_fd item1 = rb_fd item2"

definition usnet_rb_isempty :: "usn_ringbuf \<Rightarrow> bool" where
  "usnet_rb_isempty item \<longleftrightarrow> rb_fd item = 0"

definition usnet_rb_setempty :: "usn_ringbuf \<Rightarrow> usn_ringbuf" where
  "usnet_rb_setempty item = item\<lparr>rb_fd := 0\<rparr>"

lemmas rb_callbacks = usnet_rb_key_def usnet_rb_eq_def usnet_rb_isempty_def usnet_rb_setempty_def

interpretation ringbufs: cache_items rb_fd 0 usnet_rb_eq usnet_rb_key usnet_rb_isempty usnet_rb_setempty
  by unfold_locales (auto simp: rb_callbacks)

text \<open>\<^verbatim>\<open>usnet_get_ringbuf\<close>: a free slot for the descriptor; the block keeps its old bytes.\<close>

definition usnet_get_ringbuf ::
  "usn_ringbuf usn_hashbase \<Rightarrow> u32 \<Rightarrow> u32 \<Rightarrow> usn_ringbuf usn_hashbase \<times> nat option" where
  "usnet_get_ringbuf ringbuf_cache fd init_seq =
     (let p = \<lparr>rb_fd = fd, rb_data = 0, rb_head = 0, rb_size = 0, rb_head_seq = 0, rb_last_seq = 0,
               rb_merged_len = 0, rb_win = 0, rb_frags = [], rb_buf = []\<rparr> in
      case usnet_cache_get ringbuf_cache p of
        None \<Rightarrow> (ringbuf_cache, None)
      | Some buf \<Rightarrow>
          let block = rb_buf (hb_cache ringbuf_cache buf);
              new = \<lparr>rb_fd = fd, rb_data = 0, rb_head = 0, rb_size = of_nat (length block),
                     rb_head_seq = init_seq, rb_last_seq = init_seq, rb_merged_len = 0, rb_win = 0,
                     rb_frags = [], rb_buf = block\<rparr> in
          (ringbuf_cache\<lparr>hb_cache := (hb_cache ringbuf_cache)(buf := new)\<rparr>, Some buf))"

section \<open>Fragments\<close>

abbreviation MAXSEQ_half :: u32 where
  "MAXSEQ_half \<equiv> 0xFFFFFFFF div 2"

definition minseq :: "u32 \<Rightarrow> u32 \<Rightarrow> u32" where
  "minseq a b =
     (if a = b then a
      else if a < b then (if b - a \<le> MAXSEQ_half then a else b)
      else (if a - b \<le> MAXSEQ_half then b else a))"

definition maxseq :: "u32 \<Rightarrow> u32 \<Rightarrow> u32" where
  "maxseq a b =
     (if a = b then a
      else if a < b then (if b - a \<le> MAXSEQ_half then b else a)
      else (if a - b \<le> MAXSEQ_half then a else b))"

definition canmerge :: "fragment \<Rightarrow> fragment \<Rightarrow> bool" where
  "canmerge a b \<longleftrightarrow>
     (let a_end = fr_seq a + ucast (fr_len a) + 1;
          b_end = fr_seq b + ucast (fr_len b) + 1
      in \<not> (minseq a_end (fr_seq b) = a_end \<or> minseq b_end (fr_seq a) = b_end))"

text \<open>\<^verbatim>\<open>merge_fragments(a, b)\<close>: \<open>b\<close> afterwards.\<close>

definition merge_fragments :: "fragment \<Rightarrow> fragment \<Rightarrow> fragment" where
  "merge_fragments a b =
     (let min_seq = minseq (fr_seq a) (fr_seq b);
          max_seq = maxseq (fr_seq a + ucast (fr_len a)) (fr_seq b + ucast (fr_len b))
      in b\<lparr>fr_seq := min_seq, fr_len := ucast (max_seq - min_seq)\<rparr>)"

text \<open>A fragment marked \<^verbatim>\<open>FRAG_CALLOC\<close> is given to \<^verbatim>\<open>free()\<close>; no fragment of this code was obtained
  from \<^verbatim>\<open>calloc\<close>, so that is memory corruption.\<close>

definition usnet_free_onefragment :: "usn_mempool \<Rightarrow> fragment \<Rightarrow> usn_mempool option" where
  "usnet_free_onefragment mp frag =
     (if fr_flags frag AND 1 \<noteq> 0 then None else Some (usnet_mempool_free mp (Some (fr_at frag))))"

text \<open>The loop over the fragment list in \<^verbatim>\<open>usnet_insert_fragment\<close>. \<open>pre\<close> are the list elements
  before \<^verbatim>\<open>iter\<close>, in order; once a merge has happened the current \<^verbatim>\<open>new_frag\<close> is the last of them
  (\<^verbatim>\<open>prev == new_frag\<close>), so a further merge takes it out. The result holds the elements before
  and from the point where the loop stopped.\<close>

fun frag_scan ::
  "u32 \<Rightarrow> usn_mempool \<Rightarrow> fragment list \<Rightarrow> fragment \<Rightarrow> bool \<Rightarrow> fragment list \<Rightarrow>
   (usn_mempool \<times> fragment list \<times> bool \<times> fragment list) option" where
  "frag_scan end_seq mp pre new_frag merged [] = Some (mp, pre, merged, [])"
| "frag_scan end_seq mp pre new_frag merged (iter # rest) =
     (if canmerge new_frag iter then
        (case usnet_free_onefragment mp new_frag of
           None \<Rightarrow> None
         | Some mp' \<Rightarrow>
             let m = merge_fragments new_frag iter;
                 pre' = (if merged then butlast pre else pre)
             in frag_scan end_seq mp' (pre' @ [m]) m True rest)
      else if merged \<or> maxseq end_seq (fr_seq iter) = fr_seq iter then
        Some (mp, pre, merged, iter # rest)
      else frag_scan end_seq mp (pre @ [iter]) new_frag merged rest)"

section \<open>Insertion\<close>

definition rb_avail :: "usn_ringbuf \<Rightarrow> u32" where
  "rb_avail buf =
     (if rb_data buf > rb_head buf then ucast (rb_data buf) - ucast (rb_head buf)
      else ucast (rb_data buf) + rb_size buf - ucast (rb_head buf))"

text \<open>The copy into the block and the new \<^verbatim>\<open>head\<close>.\<close>

definition rb_copy_in :: "usn_ringbuf \<Rightarrow> byte list \<Rightarrow> int \<Rightarrow> usn_ringbuf option" where
  "rb_copy_in buf data data_off =
     (let len = int (length data);
          start_off = int (unat (rb_head buf)) + data_off;
          start_off = (if (of_int start_off :: u32) > rb_size buf
                       then start_off - int (unat (rb_size buf)) else start_off);
          tail_len = sint (rb_size buf - of_int start_off)
      in if start_off < 0 then None
         else if tail_len \<ge> len then do {
           m \<leftarrow> mem_write (nat start_off) data (rb_buf buf);
           Some (buf\<lparr>rb_buf := m, rb_head := rb_head buf + of_int len\<rparr>)
         }
         else if tail_len < 0 then None
         else do {
           m \<leftarrow> mem_write (nat start_off) (take (nat tail_len) data) (rb_buf buf);
           m \<leftarrow> mem_write 0 (drop (nat tail_len) data) m;
           Some (buf\<lparr>rb_buf := m, rb_head := rb_head buf + ucast (of_int len - rb_size buf)\<rparr>)
         })"

text \<open>The placement of the new fragment in the list and the advance of \<^verbatim>\<open>head_seq\<close>.\<close>

definition rb_place ::
  "usn_mempool \<Rightarrow> usn_ringbuf \<Rightarrow> fragment \<Rightarrow> u32 \<Rightarrow> u32 \<Rightarrow> (usn_mempool \<times> usn_ringbuf) option" where
  "rb_place mp buf new_frag seq end_seq = do {
     (mp, pre, merged, rest) \<leftarrow> frag_scan end_seq mp [] new_frag False (rb_frags buf);
     frags \<leftarrow>
       (if merged then Some (pre @ rest)
        else case rb_frags buf of
          [] \<Rightarrow> Some [new_frag]
        | f # _ \<Rightarrow>
            if minseq seq (fr_seq f) = seq then Some (new_frag # rb_frags buf)
            else if pre = [] then None
            else let prev = last pre; e = fr_seq prev + ucast (fr_len prev) in
              if minseq seq e = e then Some (pre @ [new_frag] @ rest) else None);
     case frags of
       [] \<Rightarrow> None
     | f # fs \<Rightarrow>
         if rb_head_seq buf = fr_seq f then do {
           mp \<leftarrow> usnet_free_onefragment mp f;
           Some (mp, buf\<lparr>rb_merged_len := ucast (fr_len f), rb_frags := fs,
                         rb_head_seq := rb_head_seq buf + ucast (fr_len f)\<rparr>)
         }
         else Some (mp, buf\<lparr>rb_frags := frags\<rparr>)
   }"

definition usnet_insert_fragment ::
  "usn_mempool \<Rightarrow> usn_ringbuf \<Rightarrow> byte list \<Rightarrow> u32 \<Rightarrow> (usn_mempool \<times> usn_ringbuf \<times> int) option" where
  "usnet_insert_fragment frag_mp buf data seq =
     (let len = int (length data);
          ulen = of_nat (length data) :: u32;
          avail_len = sint (rb_avail buf);
          data_off = sint (seq - rb_head_seq buf);
          end_off = data_off + len
      in if minseq (rb_head_seq buf) seq \<noteq> rb_head_seq buf then Some (frag_mp, buf, - 1)
         else if ulen > rb_size buf then Some (frag_mp, buf, - 2)
         else if end_off > avail_len then Some (frag_mp, buf, - 3)
         else do {
           let buf = (if seq + ulen > rb_last_seq buf then buf\<lparr>rb_last_seq := seq + ulen\<rparr> else buf);
           buf \<leftarrow> rb_copy_in buf data data_off;
           (frag_mp, new) \<leftarrow> usnet_mempool_allocate frag_mp;
           case new of
             None \<Rightarrow> Some (frag_mp, buf, - 4)
           | Some p \<Rightarrow> do {
               let new_frag = \<lparr>fr_at = p, fr_seq = seq, fr_len = ucast ulen,
                               fr_flags = mc_pad (mp_chunks frag_mp p)\<rparr>;
               (frag_mp, buf) \<leftarrow> rb_place frag_mp buf new_frag seq (seq + ulen);
               Some (frag_mp, buf\<lparr>rb_win := rb_avail buf - 1\<rparr>, len)
             }
         })"

section \<open>The copy to the application\<close>

text \<open>\<^verbatim>\<open>usnet_read\<close> on the buffer it found: \<open>buffer\<close> is the application's memory of \<^verbatim>\<open>count\<close> bytes. In
  the wrapped case the source copies \<^verbatim>\<open>tail_len\<close> bytes whatever the requested length.\<close>

definition ringbuf_read :: "usn_ringbuf \<Rightarrow> byte list \<Rightarrow> (usn_ringbuf \<times> byte list \<times> int) option" where
  "ringbuf_read buf buffer =
     (let count = length buffer; head = unat (rb_head buf); data = unat (rb_data buf);
          size = unat (rb_size buf) in
      if head = data then Some (buf, buffer, - 2)
      else if head > data then do {
        let data_len = min (head - data) count;
        xs \<leftarrow> mem_read data data_len (rb_buf buf);
        buffer \<leftarrow> mem_write 0 xs buffer;
        Some (buf\<lparr>rb_data := rb_data buf + of_nat data_len\<rparr>, buffer, int data_len)
      }
      else if size < data then None
      else do {
        let tail_len = size - data;
        let data_len = min (size + head - data) count;
        xs \<leftarrow> mem_read data tail_len (rb_buf buf);
        buffer \<leftarrow> mem_write 0 xs buffer;
        if data_len \<le> tail_len then
          Some (buf\<lparr>rb_data := rb_data buf + of_nat data_len\<rparr>, buffer, int data_len)
        else do {
          ys \<leftarrow> mem_read 0 (data_len - tail_len) (rb_buf buf);
          buffer \<leftarrow> mem_write tail_len ys buffer;
          Some (buf\<lparr>rb_data := of_nat (data_len - tail_len)\<rparr>, buffer, int data_len)
        }
      })"

definition usnet_read ::
  "usn_ringbuf usn_hashbase \<Rightarrow> u32 \<Rightarrow> byte list \<Rightarrow>
   (usn_ringbuf usn_hashbase \<times> byte list \<times> int) option" where
  "usnet_read ringbuf_cache fd buffer =
     (let s = \<lparr>rb_fd = fd, rb_data = 0, rb_head = 0, rb_size = 0, rb_head_seq = 0, rb_last_seq = 0,
               rb_merged_len = 0, rb_win = 0, rb_frags = [], rb_buf = []\<rparr> in
      case usnet_cache_search ringbuf_cache s of
        None \<Rightarrow> Some (ringbuf_cache, buffer, - 1)
      | Some p \<Rightarrow> do {
          (buf, buffer, ret) \<leftarrow> ringbuf_read (hb_cache ringbuf_cache p) buffer;
          Some (ringbuf_cache\<lparr>hb_cache := (hb_cache ringbuf_cache)(p := buf)\<rparr>, buffer, ret)
        })"

section \<open>Sequence numbers\<close>

text \<open>\<^verbatim>\<open>minseq\<close> and \<^verbatim>\<open>maxseq\<close> order numbers at most half the space apart by their distance, across
  the wrap-around.\<close>

lemma minseq_same [simp]: "minseq a a = a" and maxseq_same [simp]: "maxseq a a = a"
  by (simp_all add: minseq_def maxseq_def)

lemma u32_diff_neg:
  fixes a b :: u32
  assumes "a \<noteq> b"
  shows "unat (a - b) + unat (b - a) = 2 ^ 32"
proof (cases "unat b \<le> unat a")
  case True
  then have "unat b < unat a" using assms unat_inj_u32[of a b] by force
  then show ?thesis using unat_u32_lt[of a] by (simp add: unat_sub_if')
next
  case False
  then show ?thesis using unat_u32_lt[of b] by (simp add: unat_sub_if')
qed

lemma minseq_dist:
  assumes "unat (b - a) \<noteq> 2 ^ 31"
  shows "minseq a b = a \<longleftrightarrow> unat (b - a) < 2 ^ 31"
proof (cases "a = b")
  case True
  then show ?thesis by simp
next
  case False
  have half: "unat (MAXSEQ_half) = 2 ^ 31 - 1" by simp
  show ?thesis
    using False u32_diff_neg[OF False] assms
    by (auto simp: minseq_def word_le_nat_alt half)
qed

section \<open>What the buffer stands for\<close>

definition rb_used :: "usn_ringbuf \<Rightarrow> nat" where
  "rb_used buf = ring_used (length (rb_buf buf)) (unat (rb_data buf)) (unat (rb_head buf))"

definition rb_wf :: "usn_ringbuf \<Rightarrow> bool" where
  "rb_wf buf \<longleftrightarrow> unat (rb_size buf) = length (rb_buf buf) \<and> length (rb_buf buf) < 2 ^ 15 \<and>
     unat (rb_data buf) \<le> length (rb_buf buf) \<and> unat (rb_head buf) \<le> length (rb_buf buf) \<and>
     rb_used buf < length (rb_buf buf) \<and> (unat (rb_head buf) = 0 \<longrightarrow> unat (rb_data buf) = 0)"

text \<open>The bytes the application can read.\<close>

definition rb_content :: "usn_ringbuf \<Rightarrow> byte list" where
  "rb_content buf = ring_slice (rb_buf buf) (unat (rb_data buf)) (rb_used buf)"

lemma length_rb_content [simp]: "length (rb_content buf) = rb_used buf"
  by (simp add: rb_content_def)

lemma rb_other_fields [simp]:
  "rb_used (buf\<lparr>rb_last_seq := a, rb_merged_len := b, rb_head_seq := c, rb_win := d\<rparr>) = rb_used buf"
  "rb_wf (buf\<lparr>rb_last_seq := a, rb_merged_len := b, rb_head_seq := c, rb_win := d\<rparr>) = rb_wf buf"
  "rb_content (buf\<lparr>rb_last_seq := a, rb_merged_len := b, rb_head_seq := c, rb_win := d\<rparr>) = rb_content buf"
  by (simp_all add: rb_used_def rb_wf_def rb_content_def)

lemma rb_avail_word:
  assumes "rb_wf buf"
  shows "unat (rb_avail buf) = length (rb_buf buf) - rb_used buf"
  using assms unfolding rb_avail_def
  by (auto simp: rb_wf_def rb_used_def ring_used_def word_less_nat_alt unat_sub_u32 unat_add_sub_u32)

lemma unat_u16_of_nat: "n < 2 ^ 15 \<Longrightarrow> unat (of_nat n :: u16) = n"
  by (rule unat_of_nat_u16) simp

text \<open>The copy at the head is one circular write.\<close>

lemma rb_copy_in_head:
  assumes wf: "rb_wf buf" and n: "length data \<le> length (rb_buf buf)"
  shows "rb_copy_in buf data 0 =
    Some (buf\<lparr>rb_buf := ring_write (unat (rb_head buf)) data (rb_buf buf),
      rb_head := of_nat (ring_adv (length (rb_buf buf)) (unat (rb_head buf)) (length data))\<rparr>)"
proof -
  let ?N = "length (rb_buf buf)" and ?h = "unat (rb_head buf)"
  have b: "unat (rb_size buf) = ?N" "?N < 2 ^ 15" "?h \<le> ?N" using wf by (auto simp: rb_wf_def)
  have oh: "(of_int (int ?h) :: u32) = ucast (rb_head buf)"
  proof (rule unat_inj_u32)
    have "?h < 2 ^ 32" using unat_u16_lt[of "rb_head buf"] by simp
    then show "unat (of_int (int ?h) :: u32) = unat (ucast (rb_head buf) :: u32)"
      by (simp only: of_int_of_nat_eq unat_of_nat_u32 unat_ucast_u16)
  qed
  have st: "((of_int (int ?h + 0) :: u32) > rb_size buf) = False"
    using b by (simp only: add_0_right oh word_less_nat_alt unat_ucast_u16) simp
  have tl: "sint (rb_size buf - of_int (int ?h + 0)) = int (?N - ?h)"
    using b by (intro sint_of_unat) (simp_all only: add_0_right oh, simp_all add: unat_sub_u32)
  have sz: "rb_size buf = of_nat ?N" using b(1)[symmetric] by simp
  show ?thesis
  proof (cases "?h + length data \<le> ?N")
    case True
    then have "(int (?N - ?h) \<ge> int (length data)) = True" by (rule int_le_diff)
    moreover have "(of_nat (ring_adv ?N ?h (length data)) :: u16) = rb_head buf + of_int (int (length data))"
      using True by (simp add: ring_adv_def)
    ultimately show ?thesis
      using mem_write_ring[OF True]
      by (simp only: rb_copy_in_def Let_def st tl if_False if_True Option.bind.bind_lunit) simp
  next
    case False
    let ?k = "?N - ?h"
    have lt: "?k < length data" using False b by linarith
    have "(of_nat (ring_adv ?N ?h (length data)) :: u16) =
        rb_head buf + ucast (of_int (int (length data)) - rb_size buf)"
      using False by (simp add: ring_adv_def sz of_nat_diff ucast_diff_u32)
    moreover obtain m1 where "mem_write ?h (take ?k data) (rb_buf buf) = Some m1"
      "mem_write 0 (drop ?k data) m1 = Some (ring_write ?h data (rb_buf buf))"
      using mem_write_ring_split[of ?h "rb_buf buf" data] b n False by (auto simp: bind_eq_Some_conv)
    ultimately show ?thesis
      by (simp only: rb_copy_in_def Let_def st tl nat_int_lt[OF lt] if_False Option.bind.bind_lunit) simp
  qed
qed

text \<open>The bytes after a copy at the head.\<close>

definition rb_push :: "usn_ringbuf \<Rightarrow> byte list \<Rightarrow> usn_ringbuf" where
  "rb_push buf data =
     buf\<lparr>rb_buf := ring_write (unat (rb_head buf)) data (rb_buf buf),
         rb_head := of_nat (ring_adv (length (rb_buf buf)) (unat (rb_head buf)) (length data))\<rparr>"

lemma rb_push_props:
  assumes wf: "rb_wf buf" and n: "rb_used buf + length data < length (rb_buf buf)"
  shows "rb_used (rb_push buf data) = rb_used buf + length data"
    and "rb_wf (rb_push buf data)"
    and "rb_content (rb_push buf data) = rb_content buf @ data"
proof -
  let ?N = "length (rb_buf buf)" and ?h = "unat (rb_head buf)" and ?d = "unat (rb_data buf)"
  have b: "?h \<le> ?N" "?d \<le> ?N" "?N < 2 ^ 15" "?h = 0 \<longrightarrow> ?d = 0" using wf by (auto simp: rb_wf_def)
  have le: "ring_adv ?N ?h (length data) \<le> ?N" using b n by (intro ring_adv_le) auto
  have hd: "unat (rb_head (rb_push buf data)) = ring_adv ?N ?h (length data)"
    using le b by (simp add: rb_push_def unat_u16_of_nat)
  have same: "rb_data (rb_push buf data) = rb_data buf" "length (rb_buf (rb_push buf data)) = ?N"
    "rb_size (rb_push buf data) = rb_size buf" by (simp_all add: rb_push_def)
  show used: "rb_used (rb_push buf data) = rb_used buf + length data"
    using b n unfolding rb_used_def hd same by (intro ring_used_put) auto
  have "ring_adv ?N ?h (length data) = 0 \<longrightarrow> ?d = 0"
    using ring_adv_pos[OF b(1), of "length data"] b(4) by (cases "length data") (auto simp: ring_adv_def)
  then show "rb_wf (rb_push buf data)"
    using wf used hd le same n by (simp add: rb_wf_def)
  have "(?d + rb_used buf) mod ?N = ?h mod ?N"
    using b unfolding rb_used_def by (intro ring_used_mod)
  then show "rb_content (rb_push buf data) = rb_content buf @ data"
    using ring_slice_write_append[of "rb_used buf" data "rb_buf buf" ?d ?h] n
    by (simp add: rb_content_def used) (simp add: rb_push_def)
qed

section \<open>In-order segments\<close>

text \<open>A pool of fragments with a free chunk, in which no chunk carries the \<^verbatim>\<open>FRAG_CALLOC\<close> mark.\<close>

definition frag_pool :: "usn_mempool \<Rightarrow> nat set \<Rightarrow> bool" where
  "frag_pool mp F \<longleftrightarrow> mempool_ok mp F \<and> (\<forall>p. mc_pad (mp_chunks mp p) AND 1 = 0)"

lemma insert_in_order:
  assumes wf: "rb_wf buf" and n: "rb_used buf + length data < length (rb_buf buf)"
    and none: "rb_frags buf = []" and pool: "frag_pool mp F" "F \<noteq> {}"
  shows "\<exists>mp' last. usnet_insert_fragment mp buf data (rb_head_seq buf) =
      Some (mp', (rb_push buf data)\<lparr>rb_last_seq := last, rb_merged_len := of_nat (length data),
        rb_head_seq := rb_head_seq buf + of_nat (length data),
        rb_win := of_nat (length (rb_buf buf) - (rb_used buf + length data) - 1)\<rparr>, int (length data)) \<and>
    frag_pool mp' F"
proof -
  let ?N = "length (rb_buf buf)" and ?seq = "rb_head_seq buf" and ?ulen = "of_nat (length data) :: u32"
  define b1 where "b1 = (if ?seq + ?ulen > rb_last_seq buf then buf\<lparr>rb_last_seq := ?seq + ?ulen\<rparr> else buf)"
  define b2 where "b2 = rb_push b1 data"
  have b: "unat (rb_size buf) = ?N" "?N < 2 ^ 15" using wf by (auto simp: rb_wf_def)
  have b1: "rb_wf b1" "rb_used b1 = rb_used buf" "rb_buf b1 = rb_buf buf" "rb_head_seq b1 = ?seq"
    "rb_frags b1 = []" using wf none by (auto simp: b1_def rb_wf_def rb_used_def)
  have n1: "rb_used b1 + length data < length (rb_buf b1)" using n b1 by simp
  have ul: "unat ?ulen = length data" using b n by (intro unat_of_nat_u32) simp
  have big: "(?ulen > rb_size buf) = False" using b n by (simp add: word_less_nat_alt ul)
  have av: "sint (rb_avail buf) = int (?N - rb_used buf)"
    using b rb_avail_word[OF wf] by (intro sint_of_unat) auto
  have fit: "(sint (?seq - ?seq) + int (length data) > int (?N - rb_used buf)) = False" using n by simp
  have cp: "rb_copy_in b1 data 0 = Some b2"
    using rb_copy_in_head[OF b1(1), of data] n b1 by (simp add: b2_def rb_push_def)
  have b2: "rb_wf b2" "rb_used b2 = rb_used buf + length data" "rb_frags b2 = []" "rb_head_seq b2 = ?seq"
      "length (rb_buf b2) = ?N"
    using rb_push_props[OF b1(1) n1] b1 by (simp_all add: b2_def) (simp_all add: rb_push_def)
  obtain mp1 p where al: "usnet_mempool_allocate mp = Some (mp1, Some p)" "p \<in> F" "mempool_ok mp1 (F - {p})"
      "mp_total_chunks mp1 = mp_total_chunks mp"
    using allocate_ok pool unfolding frag_pool_def by blast
  have pad: "mc_pad (mp_chunks mp1 q) AND 1 = 0" for q
    using allocate_pad[OF al(1)] pool by (simp add: frag_pool_def)
  let ?mp' = "usnet_mempool_free mp1 (Some p)"
  have mp': "frag_pool ?mp' F"
    using usn_pool.alloc_release[of mp F mp1 p] pool al(1) pad free_pad by (auto simp: frag_pool_def)
  let ?len16 = "ucast ?ulen :: u16"
  have l16: "(ucast ?len16 :: u32) = ?ulen"
    by (rule unat_inj_u32) (use b n in \<open>simp add: unat_ucast_u16 ul unat_u16_of_nat\<close>)
  let ?b3 = "b2\<lparr>rb_merged_len := ?ulen, rb_frags := [], rb_head_seq := ?seq + ?ulen\<rparr>"
  have pl: "rb_place mp1 b2 \<lparr>fr_at = p, fr_seq = ?seq, fr_len = ?len16, fr_flags = mc_pad (mp_chunks mp1 p)\<rparr>
      ?seq (?seq + ?ulen) = Some (?mp', ?b3)"
    using b2 pad l16 by (simp add: rb_place_def usnet_free_onefragment_def del: ucast_of_nat_u32)
  have "unat (rb_avail b2 - 1) = ?N - (rb_used buf + length data) - 1"
    using rb_avail_word[OF b2(1)] b2 n by (simp add: unat_sub_u32)
  then have win: "rb_avail b2 - 1 = of_nat (?N - (rb_used buf + length data) - 1)"
    using b by (intro unat_inj_u32) (simp add: unat_of_nat_u32)
  have av3: "rb_avail ?b3 = rb_avail b2" by (simp add: rb_avail_def)
  have "usnet_insert_fragment mp buf data ?seq = Some (?mp', ?b3\<lparr>rb_win := rb_avail b2 - 1\<rparr>, int (length data))"
    unfolding usnet_insert_fragment_def Let_def av big fit b1_def[symmetric]
    by (simp add: cp al pl av3 del: ucast_of_nat_u32)
  moreover have "?b3 = (rb_push buf data)\<lparr>rb_last_seq := rb_last_seq b2, rb_merged_len := ?ulen,
      rb_head_seq := ?seq + ?ulen\<rparr>"
    using none by (auto simp: b2_def b1_def rb_push_def)
  ultimately show ?thesis using mp' win by auto
qed

section \<open>Reading\<close>

lemma mem_write_behind:
  assumes "length a = t" "t \<le> n" "n \<le> length buffer" "length ys = n - t"
  shows "mem_write t ys (a @ drop t buffer) = Some ((a @ ys) @ drop n buffer)"
  using assms by (simp add: mem_write_def)

lemma read_linear:
  assumes "rb_wf buf" "unat (rb_data buf) < unat (rb_head buf)"
  shows "ringbuf_read buf buffer =
    (let n = min (rb_used buf) (length buffer) in
     Some (buf\<lparr>rb_data := of_nat (unat (rb_data buf) + n)\<rparr>,
       take n (rb_content buf) @ drop n buffer, int n))"
proof -
  let ?n = "min (rb_used buf) (length buffer)"
  have used: "unat (rb_head buf) - unat (rb_data buf) = rb_used buf"
    using assms(2) by (simp add: rb_used_def ring_used_def)
  have "unat (rb_data buf) + ?n \<le> length (rb_buf buf)"
    using assms by (auto simp: rb_wf_def rb_used_def ring_used_def)
  then have "mem_read (unat (rb_data buf)) ?n (rb_buf buf) = Some (take ?n (rb_content buf))"
    by (simp add: mem_read_linear rb_content_def take_ring_slice)
  then show ?thesis
    using assms(2) by (simp add: ringbuf_read_def Let_def used mem_write_def min_def)
qed

text \<open>In the wrapped case the call is sound exactly when the application's buffer takes all the
  bytes up to the end of the block; otherwise they are written past its end.\<close>

lemma read_wrapped:
  assumes wf: "rb_wf buf" and wrap: "unat (rb_head buf) < unat (rb_data buf)"
  shows "ringbuf_read buf buffer =
    (let n = min (rb_used buf) (length buffer) in
     if length buffer < length (rb_buf buf) - unat (rb_data buf) then None
     else Some (buf\<lparr>rb_data := of_nat (ring_adv (length (rb_buf buf)) (unat (rb_data buf)) n)\<rparr>,
       take n (rb_content buf) @ drop n buffer, int n))"
proof -
  let ?N = "length (rb_buf buf)" and ?d = "unat (rb_data buf)" and ?h = "unat (rb_head buf)"
  let ?n = "min (rb_used buf) (length buffer)" and ?t = "length (rb_buf buf) - unat (rb_data buf)"
  have b: "unat (rb_size buf) = ?N" "?d \<le> ?N" "rb_used buf = ?N + ?h - ?d" "rb_used buf < ?N"
    using wf wrap by (auto simp: rb_wf_def rb_used_def ring_used_def)
  have rd: "mem_read ?d ?t (rb_buf buf) = Some (take ?t (rb_content buf))"
    using b by (simp add: mem_read_linear rb_content_def take_ring_slice)
  have len: "length (take ?t (rb_content buf)) = ?t" using b by simp
  show ?thesis
  proof (cases "length buffer < ?t")
    case True
    then have "mem_write 0 (take ?t (rb_content buf)) buffer = None"
      using len by (simp only: mem_write_def) simp
    then show ?thesis using True wrap b rd by (simp add: ringbuf_read_def Let_def)
  next
    case False
    then have w: "mem_write 0 (take ?t (rb_content buf)) buffer = Some (take ?t (rb_content buf) @ drop ?t buffer)"
      using len by (simp add: mem_write_def)
    show ?thesis
    proof (cases "?n \<le> ?t")
      case True
      then have "?n = ?t" using False b by auto
      then show ?thesis
        using True False wrap b rd w
        by (simp add: ringbuf_read_def Let_def ring_adv_def)
    next
      case n: False
      have "ring_slice (rb_buf buf) ?d ?n = drop ?d (rb_buf buf) @ take (?d + ?n - ?N) (rb_buf buf)"
        using b n by (intro ring_slice_wrap) auto
      then have two: "take ?n (rb_content buf) = take ?t (rb_content buf) @ take (?n - ?t) (rb_buf buf)"
        using b by (simp add: rb_content_def take_ring_slice ring_slice_linear add.commute)
      have r2: "mem_read 0 (?n - ?t) (rb_buf buf) = Some (take (?n - ?t) (rb_buf buf))"
        using b by (simp add: mem_read_def)
      have tn: "?t \<le> ?n" using n by linarith
      have "length (take (?n - ?t) (rb_buf buf)) = ?n - ?t" using b by simp
      then have w2: "mem_write ?t (take (?n - ?t) (rb_buf buf)) (take ?t (rb_content buf) @ drop ?t buffer) =
          Some (take ?n (rb_content buf) @ drop ?n buffer)"
        unfolding two by (intro mem_write_behind[OF len tn]) simp_all
      have adv: "ring_adv ?N ?d ?n = ?n - ?t" using n b(2) by (intro ring_adv_wrap) linarith+
      show ?thesis using n False wrap b rd w r2 w2 adv
        by (simp add: ringbuf_read_def Let_def)
    qed
  qed
qed

lemma read_content:
  assumes wf: "rb_wf buf" and ne: "rb_used buf \<noteq> 0"
    and room: "unat (rb_head buf) < unat (rb_data buf) \<longrightarrow>
      length (rb_buf buf) - unat (rb_data buf) \<le> length buffer"
  shows "\<exists>buf'. ringbuf_read buf buffer =
      Some (buf', take (length buffer) (rb_content buf) @ drop (rb_used buf) buffer,
        int (min (rb_used buf) (length buffer))) \<and>
    rb_wf buf' \<and> rb_content buf' = drop (length buffer) (rb_content buf) \<and>
    rb_frags buf' = rb_frags buf \<and> length (rb_buf buf') = length (rb_buf buf)"
proof -
  let ?N = "length (rb_buf buf)" and ?d = "unat (rb_data buf)" and ?h = "unat (rb_head buf)"
  let ?n = "min (rb_used buf) (length buffer)"
  let ?b = "buf\<lparr>rb_data := of_nat (ring_adv ?N ?d ?n)\<rparr>"
  have b: "?h \<le> ?N" "?d \<le> ?N" "?N < 2 ^ 15" "?h = 0 \<longrightarrow> ?d = 0" "rb_used buf < ?N" "?n \<le> rb_used buf"
    using wf by (auto simp: rb_wf_def)
  have le: "ring_adv ?N ?d ?n \<le> ?N" using b by (intro ring_adv_le) auto
  have d: "unat (rb_data ?b) = ring_adv ?N ?d ?n" using le b by (simp add: unat_u16_of_nat)
  have used: "rb_used ?b = rb_used buf - ?n"
    using b d ring_used_get[of ?d ?N ?h ?n] by (simp add: rb_used_def)
  have "?h = 0 \<longrightarrow> ring_adv ?N ?d ?n = 0" using ne b by (auto simp: rb_used_def ring_used_def)
  then have "rb_wf ?b" using wf used d le by (simp add: rb_wf_def less_imp_diff_less del: of_nat_add)
  moreover have "rb_content ?b = drop (length buffer) (rb_content buf)"
  proof -
    have "ring_adv ?N ?d ?n mod ?N = (?d + ?n) mod ?N" using b by (intro ring_adv_mod) auto
    then have "rb_content ?b = drop ?n (rb_content buf)"
      using b ring_slice_cong[of "ring_adv ?N ?d ?n" "rb_buf buf" "?d + ?n"]
      unfolding rb_content_def used d by (simp add: drop_ring_slice)
    then show ?thesis by (simp add: min_def)
  qed
  moreover have "take ?n (rb_content buf) @ drop ?n buffer =
      take (length buffer) (rb_content buf) @ drop (rb_used buf) buffer" by (simp add: min_def)
  moreover have "ringbuf_read buf buffer =
      Some (?b, take ?n (rb_content buf) @ drop ?n buffer, int ?n)"
  proof (cases "?h < ?d")
    case True
    then show ?thesis using read_wrapped[OF wf True, of buffer] room by (simp add: Let_def)
  next
    case False
    then have lt: "?d < ?h" using ne by (auto simp: rb_used_def ring_used_def split: if_splits)
    then have "ring_adv ?N ?d ?n = ?d + ?n"
      using b by (auto simp: ring_adv_def rb_used_def ring_used_def)
    then show ?thesis using read_linear[OF wf lt, of buffer] by (simp only: Let_def)
  qed
  ultimately show ?thesis by auto
qed

section \<open>The ring as a byte queue\<close>

definition rx_ok :: "usn_mempool \<times> usn_ringbuf \<Rightarrow> bool" where
  "rx_ok st \<longleftrightarrow> rb_wf (snd st) \<and> rb_frags (snd st) = [] \<and> (\<exists>F. F \<noteq> {} \<and> frag_pool (fst st) F)"

definition rx_room :: "usn_mempool \<times> usn_ringbuf \<Rightarrow> nat" where
  "rx_room st = length (rb_buf (snd st)) - rb_used (snd st) - 1"

text \<open>The next in-order segment arrives; the application reads everything there is.\<close>

definition rx_segment :: "usn_mempool \<times> usn_ringbuf \<Rightarrow> byte list \<Rightarrow> (usn_mempool \<times> usn_ringbuf) option" where
  "rx_segment st data =
     (case usnet_insert_fragment (fst st) (snd st) data (rb_head_seq (snd st)) of
        Some (mp', buf', ret) \<Rightarrow> if ret < 0 then None else Some (mp', buf')
      | None \<Rightarrow> None)"

definition rx_deliver :: "usn_mempool \<times> usn_ringbuf \<Rightarrow> ((usn_mempool \<times> usn_ringbuf) \<times> byte list) option" where
  "rx_deliver st =
     (case ringbuf_read (snd st) (replicate (length (rb_buf (snd st))) 0) of
        Some (buf', out, ret) \<Rightarrow> if ret < 0 then None else Some ((fst st, buf'), take (nat ret) out)
      | None \<Rightarrow> None)"

interpretation rx_queue: fifo rx_ok "\<lambda>st. rb_content (snd st)" rx_room length "\<lambda>xs. xs" rx_segment rx_deliver
proof (unfold_locales, goal_cases)
  case (1 st data)
  obtain mp buf where st: "st = (mp, buf)" by (cases st)
  have wf: "rb_wf buf" and n: "rb_used buf + length data < length (rb_buf buf)"
    using 1 by (auto simp: rx_ok_def rx_room_def st rb_wf_def)
  obtain F where F: "rb_frags buf = []" "F \<noteq> {}" "frag_pool mp F" using 1 by (auto simp: rx_ok_def st)
  have "rb_frags (rb_push buf data) = []" "length (rb_buf (rb_push buf data)) = length (rb_buf buf)"
    using F(1) by (simp_all add: rb_push_def)
  moreover obtain mp' last where i: "usnet_insert_fragment mp buf data (rb_head_seq buf) =
      Some (mp', (rb_push buf data)\<lparr>rb_last_seq := last, rb_merged_len := of_nat (length data),
        rb_head_seq := rb_head_seq buf + of_nat (length data),
        rb_win := of_nat (length (rb_buf buf) - (rb_used buf + length data) - 1)\<rparr>, int (length data))"
      and F': "frag_pool mp' F"
    using insert_in_order[OF wf n F(1) F(3) F(2)] by blast
  have "\<exists>F. F \<noteq> {} \<and> frag_pool mp' F" using F' F(2) by blast
  ultimately show ?case
    using rb_push_props[OF wf n] by (simp add: rx_segment_def st rx_ok_def rx_room_def i)
next
  case (2 st)
  obtain mp buf where st: "st = (mp, buf)" by (cases st)
  let ?bf = "replicate (length (rb_buf buf)) (0 :: byte)"
  have wf: "rb_wf buf" and ne: "rb_used buf \<noteq> 0"
    using 2 by (auto simp: rx_ok_def st rb_content_def)
  have u: "rb_used buf < length (rb_buf buf)" using wf by (simp add: rb_wf_def)
  then obtain buf' where r: "ringbuf_read buf ?bf = Some (buf', rb_content buf @ drop (rb_used buf) ?bf, int (rb_used buf))"
      "rb_wf buf'" "rb_content buf' = []" "rb_frags buf' = rb_frags buf"
    using read_content[OF wf ne, of ?bf] by auto
  then show ?case using 2 by (auto simp: rx_deliver_def st rx_ok_def)
qed

section \<open>Properties\<close>

text \<open>A pool of \<open>k\<close> zeroed fragment objects and an empty ring of \<open>n\<close> bytes that expects \<open>seq\<close>.\<close>

definition frag_pool_new :: "int \<Rightarrow> usn_mempool" where
  "frag_pool_new k = \<lparr>mp_freeptr = Some 0, mp_free_chunks = k, mp_total_chunks = k, mp_chunk_size = 16,
     mp_type = 1, mp_chunks = (\<lambda>_. \<lparr>mc_free_chunks = 0, mc_pad = 0, mc_next = None\<rparr>)
       (0 := \<lparr>mc_free_chunks = k, mc_pad = 0, mc_next = None\<rparr>)\<rparr>"

definition ringbuf_new :: "nat \<Rightarrow> u32 \<Rightarrow> usn_ringbuf" where
  "ringbuf_new n seq = \<lparr>rb_fd = 7, rb_data = 0, rb_head = 0, rb_size = of_nat n, rb_head_seq = seq,
     rb_last_seq = seq, rb_merged_len = 0, rb_win = 0, rb_frags = [], rb_buf = replicate n 0\<rparr>"

lemma frag_pool_new_ok: "0 < k \<Longrightarrow> frag_pool (frag_pool_new k) {..<nat k}"
  unfolding frag_pool_def mempool_ok_def frag_pool_new_def
  by (auto intro!: exI[of _ "[(0, nat k)]"])

lemma ringbuf_new_wf:
  assumes "0 < n" "n < 2 ^ 15"
  shows "rb_wf (ringbuf_new n seq)" and "rb_used (ringbuf_new n seq) = 0"
    and "rb_frags (ringbuf_new n seq) = []" and "length (rb_buf (ringbuf_new n seq)) = n"
    and "rb_head_seq (ringbuf_new n seq) = seq" and "rb_content (ringbuf_new n seq) = []"
  using assms by (simp_all add: rb_wf_def ringbuf_new_def rb_used_def ring_used_def rb_content_def unat_of_nat_u32)

lemma rx_new_ok:
  assumes "0 < k" "0 < n" "n < 2 ^ 15"
  shows "rx_ok (frag_pool_new k, ringbuf_new n seq)" and "rx_room (frag_pool_new k, ringbuf_new n seq) = n - 1"
proof -
  have "{..<nat k} \<noteq> {}" using assms(1) by (simp add: lessThan_empty_iff)
  then show "rx_ok (frag_pool_new k, ringbuf_new n seq)"
    using frag_pool_new_ok[OF assms(1)] ringbuf_new_wf[OF assms(2,3)]
    unfolding rx_ok_def fst_conv snd_conv by blast
  show "rx_room (frag_pool_new k, ringbuf_new n seq) = n - 1"
    using ringbuf_new_wf[OF assms(2,3)] by (simp add: rx_room_def)
qed

text \<open>An in-order segment that leaves at least one byte of the ring free is appended to what
  the application can read, the next expected sequence number advances by its length, the
  window becomes the free space less one, and the fragment object goes back to the pool.\<close>

theorem insert_fragment_in_order:
  assumes "rb_wf buf" "rb_frags buf = []" "frag_pool mp F" "F \<noteq> {}"
    and "rb_used buf + length data < length (rb_buf buf)"
  shows "\<exists>mp' buf'. usnet_insert_fragment mp buf data (rb_head_seq buf) = Some (mp', buf', int (length data)) \<and>
    frag_pool mp' F \<and> rb_wf buf' \<and> rb_content buf' = rb_content buf @ data \<and> rb_frags buf' = [] \<and>
    rb_head_seq buf' = rb_head_seq buf + of_nat (length data) \<and>
    unat (rb_win buf') = length (rb_buf buf) - rb_used buf' - 1"
proof -
  have "length (rb_buf buf) < 2 ^ 15" using assms(1) by (simp add: rb_wf_def)
  then have "unat (of_nat (length (rb_buf buf) - (rb_used buf + length data) - 1) :: u32) =
      length (rb_buf buf) - (rb_used buf + length data) - 1" by (intro unat_of_nat_u32) simp
  moreover have "rb_frags (rb_push buf data) = []" using assms(2) by (simp add: rb_push_def)
  ultimately show ?thesis
    using insert_in_order[OF assms(1,5,2,3,4)] rb_push_props[OF assms(1,5)] by auto
qed

theorem insert_fragment_in_order_witness:
  "\<exists>mp' buf'. usnet_insert_fragment (frag_pool_new 4) (ringbuf_new 8 100) [1, 2, 3] 100 = Some (mp', buf', 3) \<and>
    rb_content buf' = [1, 2, 3] \<and> rb_head_seq buf' = 103"
  using insert_fragment_in_order[of "ringbuf_new 8 100" "frag_pool_new 4" "{..<4}" "[1, 2, 3]"]
    ringbuf_new_wf[of 8 100] frag_pool_new_ok[of 4] by (auto simp: lessThan_empty_iff)

text \<open>C11. Bytes of in-order segments are delivered to the application unchanged and in order: any
  sequence of segments that fits into an empty ring is accepted, and reading returns their
  concatenation.\<close>

theorem receive_ring_stream:
  assumes "rx_ok (mp, buf)" "rb_content buf = []" "sum_list (map length segs) \<le> rx_room (mp, buf)"
  shows "\<exists>st n st'. puts rx_segment (mp, buf) segs = Some st \<and> gets rx_deliver n st = Some (st', concat segs) \<and>
    rb_content (snd st') = []"
  using rx_queue.puts_then_drain[of "(mp, buf)" segs] assms by simp

theorem receive_ring_stream_witness:
  "\<exists>st n st'. puts rx_segment (frag_pool_new 2, ringbuf_new 8 0xFFFFFFFE) [[1, 2], [3, 4, 5]] = Some st \<and>
    gets rx_deliver n st = Some (st', [1, 2, 3, 4, 5]) \<and> rb_content (snd st') = []"
  using receive_ring_stream[of "frag_pool_new 2" "ringbuf_new 8 0xFFFFFFFE" "[[1, 2], [3, 4, 5]]"]
    rx_new_ok[of 2 8] ringbuf_new_wf[of 8 "0xFFFFFFFE"] by simp

text \<open>C29. Reading copies a prefix of the received bytes into the application's buffer and removes
  exactly that prefix, but when the bytes wrap around the end of the block and the buffer is
  shorter than the part before the end, the call writes past the end of the buffer.\<close>

theorem ringbuf_read_correct:
  assumes "rb_wf buf"
  shows "if rb_used buf = 0 then ringbuf_read buf buffer = Some (buf, buffer, - 2)
    else if unat (rb_head buf) < unat (rb_data buf) \<and> length buffer < length (rb_buf buf) - unat (rb_data buf)
    then ringbuf_read buf buffer = None
    else \<exists>buf'. ringbuf_read buf buffer =
        Some (buf', take (length buffer) (rb_content buf) @ drop (rb_used buf) buffer,
          int (min (rb_used buf) (length buffer))) \<and>
      rb_wf buf' \<and> rb_content buf' = drop (length buffer) (rb_content buf)"
proof -
  have "rb_used buf = 0 \<longleftrightarrow> unat (rb_data buf) = unat (rb_head buf)"
    using assms unfolding rb_used_def by (intro ring_used_0) (auto simp: rb_wf_def rb_used_def)
  then show ?thesis
    using read_content[OF assms, of buffer] read_wrapped[OF assms, of buffer]
    by (auto simp: ringbuf_read_def Let_def)
qed

theorem ringbuf_read_correct_witness:
  "rb_wf ((ringbuf_new 8 0)\<lparr>rb_data := 4, rb_head := 2\<rparr>) \<and>
   ringbuf_read ((ringbuf_new 8 0)\<lparr>rb_data := 4, rb_head := 2\<rparr>) [0, 0, 0] = None"
proof -
  let ?b = "(ringbuf_new 8 0)\<lparr>rb_data := 4, rb_head := 2\<rparr>"
  have wf: "rb_wf ?b" by (simp add: rb_wf_def ringbuf_new_def rb_used_def ring_used_def)
  show ?thesis
    using wf ringbuf_read_correct[OF wf, of "[0, 0, 0]"]
    by (simp add: ringbuf_new_def rb_used_def ring_used_def)
qed

text \<open>The copy of a segment that leaves a gap of \<open>k\<close> bytes behind the head: the bytes go to their place, and the head moves by the
  length of the segment.\<close>

lemma rb_copy_in_gap:
  assumes wf: "rb_wf buf" and n: "unat (rb_head buf) + k + length data \<le> length (rb_buf buf)"
  shows "rb_copy_in buf data (int k) = Some (buf\<lparr>rb_buf := ring_write (unat (rb_head buf) + k) data (rb_buf buf),
    rb_head := of_nat (unat (rb_head buf) + length data)\<rparr>)"
proof -
  let ?N = "length (rb_buf buf)" and ?s = "unat (rb_head buf) + k"
  have b: "unat (rb_size buf) = ?N" "?N < 2 ^ 15" "?s \<le> ?N" using wf n by (auto simp: rb_wf_def)
  have s: "int (unat (rb_head buf)) + int k = int ?s" by simp
  have os: "unat (of_int (int ?s) :: u32) = ?s" using b by (simp only: of_int_of_nat_eq) (intro unat_of_nat_u32, simp)
  have st: "((of_int (int ?s) :: u32) > rb_size buf) = False" using b by (simp only: word_less_nat_alt os) simp
  have tl: "sint (rb_size buf - of_int (int ?s)) = int (?N - ?s)"
    using b os by (intro sint_of_unat) (simp_all only: unat_sub_u32, simp_all)
  have neg: "(int ?s < 0) = False" by (simp only: of_nat_less_0_iff)
  have "(int (?N - ?s) \<ge> int (length data)) = True" using n by (intro int_le_diff) simp
  then show ?thesis
    using mem_write_ring[of ?s data "rb_buf buf"] n
    by (simp only: rb_copy_in_def Let_def s st tl neg nat_int if_False if_True Option.bind.bind_lunit) simp
qed

lemma gap_content:
  assumes wf: "rb_wf buf" and n: "unat (rb_head buf) + k + length data \<le> length (rb_buf buf)"
    and room: "0 < k" "rb_used buf + k + length data \<le> length (rb_buf buf)"
  defines "b \<equiv> buf\<lparr>rb_buf := ring_write (unat (rb_head buf) + k) data (rb_buf buf), rb_head := of_nat (unat (rb_head buf) + length data)\<rparr>"
  shows "rb_content b = rb_content buf @ take (length data) (take k (drop (unat (rb_head buf)) (rb_buf buf)) @ data)"
proof -
  let ?N = "length (rb_buf buf)" and ?h = "unat (rb_head buf)" and ?d = "unat (rb_data buf)" and ?n = "length data"
  let ?M = "ring_write (?h + k) data (rb_buf buf)" and ?u = "rb_used buf"
  have "ring_adv ?N ?h ?n = ?h + ?n" using n by (simp add: ring_adv_def)
  then have "rb_used b = rb_used (rb_push buf data)" by (simp add: b_def rb_push_def rb_used_def)
  then have u: "rb_used b = ?u + ?n" using rb_push_props(1)[OF wf, of data] room by simp
  have m: "(?d + ?u) mod ?N = ?h mod ?N"
    using wf unfolding rb_used_def by (intro ring_used_mod) (auto simp: rb_wf_def)
  then have "(?d + (?u + k)) mod ?N = (?h + k) mod ?N" by (metis add.assoc mod_add_left_eq)
  then have M: "ring_slice ?M ?d (?u + k + ?n) = ring_slice (rb_buf buf) ?d (?u + k) @ data"
    using room by (intro ring_slice_write_append) auto
  have "rb_content b = take (?u + ?n) (ring_slice ?M ?d (?u + k + ?n))"
    by (simp add: rb_content_def u take_ring_slice) (simp add: b_def)
  also have "\<dots> = ring_slice (rb_buf buf) ?d ?u @ take ?n (ring_slice (rb_buf buf) (?d + ?u) k @ data)"
    unfolding M by (simp add: ring_slice_add)
  also have "ring_slice (rb_buf buf) (?d + ?u) k = take k (drop ?h (rb_buf buf))"
    using ring_slice_cong[OF m] n by (simp add: ring_slice_linear)
  finally show ?thesis by (simp add: rb_content_def)
qed

text \<open>C30. An out-of-order segment is stored at its place but moves \<^verbatim>\<open>head\<close> all the same: a segment that leaves a gap of \<open>k\<close>
  bytes makes as many bytes readable as it carries, beginning with the old content of the memory in the gap, bytes that never
  arrived, although the next expected sequence number has not moved. This is so for every ring that waits for no other
  segment, as long as the segment lies before the end of the block.\<close>

theorem insert_out_of_order_exposes_gap:
  assumes wf: "rb_wf buf" "rb_frags buf = []" and pool: "frag_pool mp F" "F \<noteq> {}"
    and n: "0 < k" "rb_used buf + k + length data \<le> length (rb_buf buf)" "unat (rb_head buf) + k + length data \<le> length (rb_buf buf)"
  shows "\<exists>mp' buf'. usnet_insert_fragment mp buf data (rb_head_seq buf + of_nat k) = Some (mp', buf', int (length data)) \<and>
    rb_head_seq buf' = rb_head_seq buf \<and>
    rb_content buf' = rb_content buf @ take (length data) (take k (drop (unat (rb_head buf)) (rb_buf buf)) @ data)"
proof -
  let ?N = "length (rb_buf buf)" and ?seq = "rb_head_seq buf + of_nat k" and ?ulen = "of_nat (length data) :: u32"
  define b1 where "b1 = (if ?seq + ?ulen > rb_last_seq buf then buf\<lparr>rb_last_seq := ?seq + ?ulen\<rparr> else buf)"
  have b: "unat (rb_size buf) = ?N" "?N < 2 ^ 15" using wf by (auto simp: rb_wf_def)
  have b1: "rb_wf b1" "rb_used b1 = rb_used buf" "rb_buf b1 = rb_buf buf" "rb_head b1 = rb_head buf" "rb_head_seq b1 = rb_head_seq buf"
      "rb_frags b1 = []" "rb_content b1 = rb_content buf"
    using wf by (auto simp: b1_def rb_wf_def rb_used_def rb_content_def)
  have k: "unat (of_nat k :: u32) = k" "k < 2 ^ 31" using b n by (auto intro!: unat_of_nat_u32)
  have ul: "unat ?ulen = length data" using b n by (intro unat_of_nat_u32) simp
  have big: "(?ulen > rb_size buf) = False" using b n by (simp add: word_less_nat_alt ul)
  have mn: "(minseq (rb_head_seq buf) ?seq \<noteq> rb_head_seq buf) = False" using minseq_dist[of ?seq "rb_head_seq buf"] k by simp
  have av: "sint (rb_avail buf) = int (?N - rb_used buf)"
    using b rb_avail_word[OF wf(1)] by (intro sint_of_unat) auto
  have off: "sint (?seq - rb_head_seq buf) = int k" using k by (simp add: sint_of_nat_small)
  have fit: "(int k + int (length data) > int (?N - rb_used buf)) = False" using n by simp
  define b2 where "b2 = b1\<lparr>rb_buf := ring_write (unat (rb_head b1) + k) data (rb_buf b1),
    rb_head := of_nat (unat (rb_head b1) + length data)\<rparr>"
  have cp: "rb_copy_in b1 data (int k) = Some b2" unfolding b2_def by (rule rb_copy_in_gap) (use b1 n in simp_all)
  have ct: "rb_content b2 = rb_content buf @ take (length data) (take k (drop (unat (rb_head buf)) (rb_buf buf)) @ data)"
    using gap_content[OF b1(1), of k data] b1 n by (simp add: b2_def)
  obtain mp1 p where al: "usnet_mempool_allocate mp = Some (mp1, Some p)"
    using allocate_ok pool unfolding frag_pool_def by blast
  let ?fr = "\<lparr>fr_at = p, fr_seq = ?seq, fr_len = ucast ?ulen, fr_flags = mc_pad (mp_chunks mp1 p)\<rparr>"
  have ne: "rb_head_seq buf \<noteq> ?seq" using k n(1) by (metis add_cancel_right_right less_irrefl unat_0)
  have pl: "rb_place mp1 b2 ?fr ?seq (?seq + ?ulen) = Some (mp1, b2\<lparr>rb_frags := [?fr]\<rparr>)"
    using ne b1(5,6) by (simp add: rb_place_def b2_def)
  have "usnet_insert_fragment mp buf data ?seq =
      Some (mp1, b2\<lparr>rb_frags := [?fr], rb_win := rb_avail (b2\<lparr>rb_frags := [?fr]\<rparr>) - 1\<rparr>, int (length data))"
    unfolding usnet_insert_fragment_def Let_def av big mn off fit b1_def[symmetric]
    by (simp add: cp al pl del: ucast_of_nat_u32)
  moreover have "rb_content (b2\<lparr>rb_frags := x, rb_win := y\<rparr>) = rb_content b2" for x y by (simp add: rb_content_def rb_used_def)
  ultimately show ?thesis using ct b1(5) by (auto simp: b2_def)
qed

theorem insert_out_of_order_exposes_gap_witness:
  "\<exists>mp' buf'. usnet_insert_fragment (frag_pool_new 4) (ringbuf_new 16 100) [1, 2, 3] 105 = Some (mp', buf', 3) \<and>
    rb_head_seq buf' = 100 \<and> rb_content buf' = [0, 0, 0]"
proof -
  have "frag_pool (frag_pool_new 4) {..<4}" "{..<4 :: nat} \<noteq> {}" using frag_pool_new_ok[of 4] by (simp_all add: lessThan_empty_iff)
  moreover note w = ringbuf_new_wf[of 16 100]
  moreover have "take (Suc (Suc (Suc 0))) (rb_buf (ringbuf_new 16 100)) = [0, 0, 0]" by (simp add: ringbuf_new_def numeral_eq_Suc)
  moreover have "rb_head (ringbuf_new 16 100) = 0" "rb_head_seq (ringbuf_new 16 100) = 100" "rb_content (ringbuf_new 16 100) = []"
    using w by (simp_all add: ringbuf_new_def rb_content_def)
  ultimately show ?thesis
    using insert_out_of_order_exposes_gap[of "ringbuf_new 16 100" "frag_pool_new 4" "{..<4}" 5 "[1, 2, 3]"] by simp
qed

end
