(* ===== verification/Shm_MQ.thy ===== *)
theory Shm_MQ
  imports Ring_Memory Fifo
begin

text \<open>
  The shared-memory message queue of \<^verbatim>\<open>mq.c\<close>, over which the stack's process and the
  application exchange events. Messages are stored in a circular block behind an 8-byte head
  (total length, flow identifier). The theory models writing, reading, enqueueing with the load
  statistics, and dequeueing with the notification pipe, and shows that the queue is a
  lossless FIFO of messages.
\<close>

record usn_adapctl =
  m_uiCheckTimeSpan :: u32
  m_uiMsgCount :: u32
  m_uiLastMsgCount :: u32
  m_uiFactor :: u32
  m_uiLastFactor :: u32
  m_uiLastCheckTime :: int
  m_uiSync :: u32

text \<open>\<open>mq_fifo_writes\<close> counts the one-byte notifications written to the pipe.\<close>

record usn_shmmq =
  mq_wait_sec :: u32
  mq_wait_usec :: u32
  mq_count :: u32
  mq_adaptive_ctrl :: usn_adapctl
  mq_head :: u32
  mq_tail :: u32
  mq_block :: "byte list"
  mq_block_size :: u32
  mq_enqueued_msg_cnt :: u32
  mq_dequeued_msg_cnt :: u32
  mq_fifo_writes :: nat

abbreviation C_HEAD_SIZE :: nat where
  "C_HEAD_SIZE \<equiv> 8"

section \<open>Load statistics\<close>

definition usnet_init_adapctl :: "usn_adapctl \<Rightarrow> int \<Rightarrow> u32 \<Rightarrow> usn_adapctl" where
  "usnet_init_adapctl ctl uiCurTime uiCheckTimeSpan =
     ctl\<lparr>m_uiCheckTimeSpan := uiCheckTimeSpan, m_uiMsgCount := 0,
         m_uiLastCheckTime := uiCurTime, m_uiFactor := 1\<rparr>"

definition GenNotifyFactor :: "u32 \<Rightarrow> u32" where
  "GenNotifyFactor uiMsgCount =
     (if uiMsgCount \<le> 1000 then 1
      else if uiMsgCount \<le> 5000 then 4
      else if uiMsgCount \<le> 10000 then 5
      else if uiMsgCount \<le> 20000 then 6
      else if uiMsgCount \<le> 30000 then 9
      else if uiMsgCount \<le> 40000 then 15
      else if uiMsgCount \<le> 50000 then 24
      else if uiMsgCount \<le> 60000 then 39
      else if uiMsgCount \<le> 70000 then 63
      else if uiMsgCount \<le> 80000 then 73
      else if uiMsgCount \<le> 90000 then 83
      else if uiMsgCount \<le> 100000 then 93
      else 100)"

definition usnet_adapctl_addload :: "usn_adapctl \<Rightarrow> int \<Rightarrow> u32 \<Rightarrow> usn_adapctl" where
  "usnet_adapctl_addload ctl uiCurTime uiMsgCount =
     (if uiCurTime < m_uiLastCheckTime ctl + sint (m_uiCheckTimeSpan ctl) then
        ctl\<lparr>m_uiMsgCount := m_uiMsgCount ctl + uiMsgCount\<rparr>
      else
        ctl\<lparr>m_uiLastCheckTime := uiCurTime, m_uiLastMsgCount := m_uiMsgCount ctl,
            m_uiMsgCount := uiMsgCount, m_uiLastFactor := m_uiFactor ctl,
            m_uiFactor := GenNotifyFactor (m_uiMsgCount ctl)\<rparr>)"

section \<open>Operations\<close>

text \<open>What \<^verbatim>\<open>usnet_shm_create\<close>/\<^verbatim>\<open>usnet_shm_open\<close> gave: no segment, a new one, or one that another
  process has set up (its shared part read as a queue).\<close>

datatype shm_result = Shm_Failed | Shm_Created | Shm_Opened usn_shmmq

text \<open>\<^verbatim>\<open>usnet_init_shmmq\<close>. The system calls are arguments: whether \<^verbatim>\<open>mkfifo\<close> succeeded (or the
  pipe exists), the descriptor \<^verbatim>\<open>open\<close> returned, the value of \<^verbatim>\<open>F_GETFL\<close> (\<open>None\<close> on error), what
  \<^verbatim>\<open>F_SETFL\<close> returned, the segment and the time. A segment of \<open>shm_size\<close> bytes has 32 bytes of
  statistics, two counters and two indices before the block. The descriptor is
  stored in the unsigned field \<^verbatim>\<open>_fd\<close> before it is compared with zero, so that the branch that returns -2 for a failed
  \<^verbatim>\<open>open\<close> is never taken: -1 has become the largest number and the next test returns -3. A descriptor that is
  non-blocking already makes the call return 0 with nothing set up.\<close>

definition usnet_init_shmmq ::
  "usn_shmmq \<Rightarrow> bool \<Rightarrow> u32 \<Rightarrow> u32 option \<Rightarrow> int \<Rightarrow> shm_result \<Rightarrow> int \<Rightarrow> int \<Rightarrow>
   int \<Rightarrow> int \<Rightarrow> int \<Rightarrow> u32 \<Rightarrow> u32 \<Rightarrow> (usn_shmmq \<times> int) option" where
  "usnet_init_shmmq mq mkfifo_ok fd getfl setfl shm now errno wait_sec wait_usec shm_size sync O_NONBLOCK =
     (let setup = (\<lambda>mq. mq\<lparr>mq_block_size := of_int shm_size - (8 * 2 + 32)\<rparr>) in
      if \<not> mkfifo_ok then Some (mq, - 1)
      else if fd > 1024 then Some (mq, - 3)
      else case getfl of
        None \<Rightarrow> Some (mq, if errno \<noteq> 0 then - errno else - 1)
      | Some val \<Rightarrow>
          if val AND O_NONBLOCK \<noteq> 0 then Some (mq, 0)
          else if setfl < 0 then Some (mq, if errno \<noteq> 0 then - errno else setfl)
          else if \<not> shm_size > int C_HEAD_SIZE then None
          else case shm of
            Shm_Failed \<Rightarrow> Some (mq, - 1)
          | Shm_Created \<Rightarrow>
              Some (setup (mq\<lparr>mq_adaptive_ctrl := \<lparr>m_uiCheckTimeSpan = 1, m_uiMsgCount = 0,
                      m_uiLastMsgCount = 0, m_uiFactor = 1, m_uiLastFactor = 1,
                      m_uiLastCheckTime = now, m_uiSync = sync\<rparr>,
                    mq_wait_sec := of_int wait_sec, mq_wait_usec := of_int wait_usec,
                    mq_enqueued_msg_cnt := 0, mq_dequeued_msg_cnt := 0, mq_head := 0, mq_tail := 0,
                    mq_block := replicate (nat shm_size - (C_HEAD_SIZE * 2 + 32)) 0\<rparr>), 0)
          | Shm_Opened seg \<Rightarrow>
              Some (setup (mq\<lparr>mq_adaptive_ctrl := mq_adaptive_ctrl seg,
                    mq_enqueued_msg_cnt := mq_enqueued_msg_cnt seg,
                    mq_dequeued_msg_cnt := mq_dequeued_msg_cnt seg,
                    mq_head := mq_head seg, mq_tail := mq_tail seg, mq_block := mq_block seg\<rparr>), 0))"

definition usnet_write_mq :: "usn_shmmq \<Rightarrow> byte list \<Rightarrow> u32 \<Rightarrow> (usn_shmmq \<times> int) option" where
  "usnet_write_mq mq data flow =
     (let data_len = length data;
          head = mq_head mq;
          tail = mq_tail mq;
          free_len = (if head > tail then head - tail else head + mq_block_size mq - tail);
          tail_len = mq_block_size mq - tail;
          total_len = of_nat data_len + 8;
          sHead = le32 total_len @ le32 flow;
          finish = (\<lambda>mq. Some (mq\<lparr>mq_enqueued_msg_cnt := mq_enqueued_msg_cnt mq + 1\<rparr>,
                         if free_len = mq_block_size mq then 1 else 0))
      in if free_len \<le> total_len then Some (mq, - 1)
         else if tail_len \<ge> total_len then do {
           m \<leftarrow> mem_write (unat tail) sHead (mq_block mq);
           m \<leftarrow> mem_write (unat tail + C_HEAD_SIZE) data m;
           finish (mq\<lparr>mq_block := m, mq_tail := mq_tail mq + total_len\<rparr>)
         }
         else if tail_len \<ge> 8 \<and> tail_len < 8 + of_nat data_len then do {
           m \<leftarrow> mem_write (unat tail) sHead (mq_block mq);
           let first_len = unat tail_len - C_HEAD_SIZE;
           m \<leftarrow> mem_write (unat tail + C_HEAD_SIZE) (take first_len data) m;
           m \<leftarrow> mem_write 0 (drop first_len data) m;
           finish (mq\<lparr>mq_block := m, mq_tail := mq_tail mq + total_len - mq_block_size mq\<rparr>)
         }
         else do {
           m \<leftarrow> mem_write (unat tail) (take (unat tail_len) sHead) (mq_block mq);
           let second_len = C_HEAD_SIZE - unat tail_len;
           m \<leftarrow> mem_write 0 (drop (unat tail_len) sHead) m;
           m \<leftarrow> mem_write second_len data m;
           finish (mq\<lparr>mq_block := m, mq_tail := of_nat second_len + of_nat data_len\<rparr>)
         })"

definition usnet_shmmq_enqueue ::
  "usn_shmmq \<Rightarrow> int \<Rightarrow> byte list \<Rightarrow> u32 \<Rightarrow> (usn_shmmq \<times> int) option" where
  "usnet_shmmq_enqueue mq uiCurTime data flow = do {
     let mq = mq\<lparr>mq_count := mq_count mq + 1\<rparr>;
     (mq, ret) \<leftarrow> usnet_write_mq mq data flow;
     if ret < 0 then Some (mq, ret)
     else
       let mq = mq\<lparr>mq_adaptive_ctrl := usnet_adapctl_addload (mq_adaptive_ctrl mq) uiCurTime 1,
                   mq_fifo_writes := mq_fifo_writes mq + 1\<rparr>
       in Some (mq, 0)
   }"

text \<open>The result of a read: the new queue, the bytes copied to the caller's buffer, \<^verbatim>\<open>*data_len\<close>,
  \<^verbatim>\<open>*flow\<close> (untouched when the queue is empty) and the return value.\<close>

definition usnet_read_mq ::
  "usn_shmmq \<Rightarrow> u32 \<Rightarrow> (usn_shmmq \<times> byte list \<times> u32 \<times> u32 option \<times> int) option" where
  "usnet_read_mq mq buf_size =
     (let head = mq_head mq; tail = mq_tail mq; size = mq_block_size mq; block = mq_block mq in
      if head = tail then Some (mq, [], 0, None, 0)
      else do {
        let mq = mq\<lparr>mq_dequeued_msg_cnt := mq_dequeued_msg_cnt mq + 1\<rparr>;
        let used_len = (if tail > head then tail - head else tail + size - head);
        (sHead, head) \<leftarrow>
          (if head + 8 > size then do {
             let first_size = size - head;
             let second_size = 8 - first_size;
             a \<leftarrow> mem_read (unat head) (unat first_size) block;
             b \<leftarrow> mem_read 0 (unat second_size) block;
             Some (a @ b, second_size)
           }
           else do {
             a \<leftarrow> mem_read (unat head) C_HEAD_SIZE block;
             Some (a, head + 8)
           });
        let total_len = ld32 sHead;
        let flow = ld32 (drop 4 sHead);
        if \<not> total_len \<le> used_len then None
        else
          let data_len = total_len - 8 in
          if data_len > buf_size then Some (mq, [], data_len, Some flow, - 1)
          else if head + data_len > size then do {
            let first_size = size - head;
            let second_size = data_len - first_size;
            a \<leftarrow> mem_read (unat head) (unat first_size) block;
            b \<leftarrow> mem_read 0 (unat second_size) block;
            Some (mq\<lparr>mq_head := second_size\<rparr>, a @ b, data_len, Some flow, 0)
          }
          else do {
            a \<leftarrow> mem_read (unat head) (unat data_len) block;
            Some (mq\<lparr>mq_head := head + data_len\<rparr>, a, data_len, Some flow, 0)
          }
      })"

text \<open>\<open>sel\<close> is what \<^verbatim>\<open>usnet_shmmq_select_fifo\<close> returns, \<open>rd_failed\<close> says that the \<^verbatim>\<open>read\<close> of the pipe
  failed with an error other than \<^verbatim>\<open>EAGAIN\<close>; \<open>env\<close> is what the writing process does to the
  queue while the reader waits.\<close>

definition usnet_shmmq_dequeue ::
  "int \<Rightarrow> bool \<Rightarrow> (usn_shmmq \<Rightarrow> usn_shmmq) \<Rightarrow> usn_shmmq \<Rightarrow> u32 \<Rightarrow>
   (usn_shmmq \<times> byte list \<times> u32 \<times> u32 option \<times> int) option" where
  "usnet_shmmq_dequeue sel rd_failed env mq buf_size = do {
     (mq, out, data_len, flow, ret) \<leftarrow> usnet_read_mq mq buf_size;
     if ret \<noteq> 0 \<or> data_len \<noteq> 0 then Some (mq, out, data_len, flow, ret)
     else
       let mq = env mq in
       if sel = 0 then Some (mq, out, data_len, flow, 0)
       else if sel < 0 then Some (mq, out, data_len, flow, - 1)
       else if rd_failed then Some (mq, out, data_len, flow, - 1)
       else usnet_read_mq mq buf_size
   }"

section \<open>What the queue stands for\<close>

definition mq_used :: "usn_shmmq \<Rightarrow> nat" where
  "mq_used mq = ring_used (length (mq_block mq)) (unat (mq_head mq)) (unat (mq_tail mq))"

definition mq_wf :: "usn_shmmq \<Rightarrow> bool" where
  "mq_wf mq \<longleftrightarrow> unat (mq_block_size mq) = length (mq_block mq) \<and> length (mq_block mq) < 2 ^ 31 \<and>
     unat (mq_head mq) \<le> length (mq_block mq) \<and> unat (mq_tail mq) \<le> length (mq_block mq) \<and>
     mq_used mq < length (mq_block mq) \<and> (unat (mq_tail mq) = 0 \<longrightarrow> unat (mq_head mq) = 0)"

definition mq_bytes :: "usn_shmmq \<Rightarrow> byte list" where
  "mq_bytes mq = ring_slice (mq_block mq) (unat (mq_head mq)) (mq_used mq)"

text \<open>A message is its flow and its data; on the block it is preceded by its head.\<close>

type_synonym mq_msg = "u32 \<times> byte list"

definition mq_frame :: "mq_msg \<Rightarrow> byte list" where
  "mq_frame msg = le32 (of_nat (length (snd msg)) + 8) @ le32 (fst msg) @ snd msg"

definition mq_holds :: "usn_shmmq \<Rightarrow> mq_msg list \<Rightarrow> bool" where
  "mq_holds mq ms \<longleftrightarrow> mq_wf mq \<and> mq_bytes mq = concat (map mq_frame ms)"

lemma length_mq_frame [simp]: "length (mq_frame msg) = length (snd msg) + C_HEAD_SIZE"
  by (simp add: mq_frame_def)

lemma length_mq_bytes [simp]: "length (mq_bytes mq) = mq_used mq"
  by (simp add: mq_bytes_def)

lemma mq_free_word:
  assumes "mq_wf mq"
  shows "unat (if mq_head mq > mq_tail mq then mq_head mq - mq_tail mq
      else mq_head mq + mq_block_size mq - mq_tail mq) = length (mq_block mq) - mq_used mq"
  using assms
  by (auto simp: mq_wf_def mq_used_def ring_used_def word_less_nat_alt unat_sub_u32 unat_add_sub_u32)

lemma mq_used_word:
  assumes "mq_wf mq" "mq_head mq \<noteq> mq_tail mq"
  shows "unat (if mq_tail mq > mq_head mq then mq_tail mq - mq_head mq
      else mq_tail mq + mq_block_size mq - mq_head mq) = mq_used mq"
  using assms unat_inj_u32[of "mq_head mq" "mq_tail mq"]
  by (auto simp: mq_wf_def mq_used_def ring_used_def word_less_nat_alt unat_sub_u32 unat_add_sub_u32)

lemma mq_used_0: "mq_wf mq \<Longrightarrow> mq_used mq = 0 \<longleftrightarrow> mq_head mq = mq_tail mq"
  by (simp only: word_unat_eq_iff) (auto simp: mq_wf_def mq_used_def ring_used_def)

section \<open>Writing\<close>

lemma mq_frame_words:
  assumes "length data + C_HEAD_SIZE < 2 ^ 31"
  shows "unat (of_nat (length data) + 8 :: u32) = length data + C_HEAD_SIZE"
  using assms unat_of_nat_u32[of "length data + C_HEAD_SIZE"] by simp

text \<open>The queue after a message has been written.\<close>

definition mq_put :: "usn_shmmq \<Rightarrow> mq_msg \<Rightarrow> usn_shmmq" where
  "mq_put mq msg =
     mq\<lparr>mq_block := ring_write (unat (mq_tail mq)) (mq_frame msg) (mq_block mq),
        mq_tail := of_nat (ring_adv (length (mq_block mq)) (unat (mq_tail mq)) (length (mq_frame msg))),
        mq_enqueued_msg_cnt := mq_enqueued_msg_cnt mq + 1\<rparr>"

text \<open>The three ways of laying a message down are one circular write of its frame.\<close>

lemma mq_pieces_linear:
  assumes "t + length (mq_frame (flow, data)) \<le> length m"
  obtains m1 where
    "mem_write t (le32 (of_nat (length data) + 8) @ le32 flow) m = Some m1"
    "mem_write (t + C_HEAD_SIZE) data m1 = Some (ring_write t (mq_frame (flow, data)) m)"
  using mem_write_two[of t "le32 (of_nat (length data) + 8) @ le32 flow" data m
      "ring_write t (mq_frame (flow, data)) m"] mem_write_ring[OF assms]
  by (auto simp: mq_frame_def)

lemma mq_pieces_split_data:
  assumes "t + C_HEAD_SIZE \<le> length m" "length m \<le> t + length (mq_frame (flow, data))"
    "length (mq_frame (flow, data)) \<le> length m" "k = length m - t - C_HEAD_SIZE"
  obtains m1 m2 where
    "mem_write t (le32 (of_nat (length data) + 8) @ le32 flow) m = Some m1"
    "mem_write (t + C_HEAD_SIZE) (take k data) m1 = Some m2"
    "mem_write 0 (drop k data) m2 = Some (ring_write t (mq_frame (flow, data)) m)"
proof -
  let ?h = "le32 (of_nat (length data) + 8) @ le32 flow"
  let ?f = "mq_frame (flow, data)"
  have f: "?f = ?h @ data" "length ?h = C_HEAD_SIZE" by (simp_all add: mq_frame_def)
  have cut: "take (length m - t) ?f = ?h @ take k data" "drop (length m - t) ?f = drop k data"
  proof -
    have "length m - t = length ?h + k" using assms(1,4) f(2) by linarith
    then show "take (length m - t) ?f = ?h @ take k data" "drop (length m - t) ?f = drop k data"
      by (simp_all only: f(1) take_append drop_append) simp_all
  qed
  obtain m2 where m2: "mem_write t (?h @ take k data) m = Some m2"
      "mem_write 0 (drop k data) m2 = Some (ring_write t ?f m)"
    using mem_write_ring_split[of t m ?f] assms(1-3) unfolding cut by (auto simp: bind_eq_Some_conv)
  then show ?thesis
    using mem_write_two[OF m2(1)] f(2) that by metis
qed

lemma mq_pieces_split_head:
  assumes "t \<le> length m" "length m < t + C_HEAD_SIZE" "length (mq_frame (flow, data)) \<le> length m"
    "k = length m - t"
  obtains m1 m2 where
    "mem_write t (take k (le32 (of_nat (length data) + 8) @ le32 flow)) m = Some m1"
    "mem_write 0 (drop k (le32 (of_nat (length data) + 8) @ le32 flow)) m1 = Some m2"
    "mem_write (C_HEAD_SIZE - k) data m2 = Some (ring_write t (mq_frame (flow, data)) m)"
proof -
  let ?h = "le32 (of_nat (length data) + 8) @ le32 flow"
  let ?f = "mq_frame (flow, data)"
  have f: "?f = ?h @ data" "length ?h = C_HEAD_SIZE" by (simp_all add: mq_frame_def)
  have k: "k \<le> C_HEAD_SIZE" using assms by simp
  have cut: "take k ?f = take k ?h" "drop k ?f = drop k ?h @ data"
    using k by (simp_all only: f take_append drop_append f(2)) simp_all
  have len: "length m \<le> t + length ?f" using assms(2) by simp
  obtain m1 where m1: "mem_write t (take k ?h) m = Some m1"
      "mem_write 0 (drop k ?h @ data) m1 = Some (ring_write t ?f m)"
    using mem_write_ring_split[of t m ?f] assms(1,3) len
    unfolding assms(4)[symmetric] cut by (auto simp: bind_eq_Some_conv)
  have "length (drop k ?h) = C_HEAD_SIZE - k" by simp
  then show ?thesis
    using mem_write_two[OF m1(2)] m1(1) that by (metis add_0)
qed

lemma write_mq_full:
  assumes "mq_wf mq" "length (mq_block mq) - mq_used mq \<le> length data + C_HEAD_SIZE"
    "length data + C_HEAD_SIZE < 2 ^ 31"
  shows "usnet_write_mq mq data flow = Some (mq, - 1)"
  using assms mq_free_word[OF assms(1)] mq_frame_words[OF assms(3)]
  by (simp add: usnet_write_mq_def Let_def word_le_nat_alt)

lemma write_mq_eq:
  assumes wf: "mq_wf mq" and room: "length data + C_HEAD_SIZE < length (mq_block mq) - mq_used mq"
  shows "usnet_write_mq mq data flow =
    Some (mq_put mq (flow, data), if mq_used mq = 0 then 1 else 0)"
proof -
  let ?N = "length (mq_block mq)" and ?t = "unat (mq_tail mq)" and ?n = "length data + C_HEAD_SIZE"
  let ?free = "if mq_head mq > mq_tail mq then mq_head mq - mq_tail mq
      else mq_head mq + mq_block_size mq - mq_tail mq"
  let ?tot = "of_nat (length data) + 8 :: u32"
  let ?tl = "mq_block_size mq - mq_tail mq"
  have b: "?t \<le> ?N" "?N < 2 ^ 31" "unat (mq_block_size mq) = ?N" using wf by (auto simp: mq_wf_def)
  have nN: "?n \<le> ?N" using room by linarith
  have tot: "unat ?tot = ?n" using mq_frame_words[of data] room b by simp
  have tl: "unat ?tl = ?N - ?t" using b by (simp add: unat_sub_u32)
  have sz: "mq_block_size mq = of_nat ?N" "mq_tail mq = of_nat ?t"
    using b(3)[symmetric] by simp_all
  have notfull: "(?free \<le> ?tot) = False"
    using room by (simp only: word_le_nat_alt mq_free_word[OF wf] tot not_le eq_False)
  have "(?free = mq_block_size mq) = (?N - mq_used mq = ?N)"
    by (simp only: word_unat_eq_iff mq_free_word[OF wf] b(3))
  then have emp: "(?free = mq_block_size mq) = (mq_used mq = 0)" using room by auto
  have c1: "(?tot \<le> ?tl) = (?t + ?n \<le> ?N)"
    using b by (simp only: word_le_nat_alt tot tl) linarith
  have c2: "(8 \<le> ?tl \<and> ?tl < 8 + of_nat (length data)) =
      (?t + C_HEAD_SIZE \<le> ?N \<and> ?N < ?t + ?n)"
    using b by (simp only: word_le_nat_alt word_less_nat_alt add.commute[of "8"] tot tl)
      (auto simp del: unat_sub_u32)
  note step = usnet_write_mq_def Let_def notfull emp if_False if_True Option.bind.bind_lunit mq_put_def
  consider "?t + ?n \<le> ?N" | "\<not> ?t + ?n \<le> ?N" "?t + C_HEAD_SIZE \<le> ?N"
    | "\<not> ?t + ?n \<le> ?N" "\<not> ?t + C_HEAD_SIZE \<le> ?N" by blast
  then show ?thesis
  proof cases
    case 1
    then obtain m1 where m: "mem_write ?t (le32 ?tot @ le32 flow) (mq_block mq) = Some m1"
        "mem_write (?t + C_HEAD_SIZE) data m1 = Some (ring_write ?t (mq_frame (flow, data)) (mq_block mq))"
      using mq_pieces_linear[of ?t flow data "mq_block mq"] by auto
    have "(of_nat (ring_adv ?N ?t ?n) :: u32) = mq_tail mq + ?tot"
      using 1 by (simp add: ring_adv_def)
    then show ?thesis using 1 by (simp add: step c1 m)
  next
    case 2
    have k: "unat ?tl - C_HEAD_SIZE = ?N - ?t - C_HEAD_SIZE" using tl by simp
    obtain m1 m2 where m: "mem_write ?t (le32 ?tot @ le32 flow) (mq_block mq) = Some m1"
        "mem_write (?t + C_HEAD_SIZE) (take (unat ?tl - C_HEAD_SIZE) data) m1 = Some m2"
        "mem_write 0 (drop (unat ?tl - C_HEAD_SIZE) data) m2 =
          Some (ring_write ?t (mq_frame (flow, data)) (mq_block mq))"
      using mq_pieces_split_data[OF 2(2), of flow data "unat ?tl - C_HEAD_SIZE"] 2 nN k by auto
    have "(of_nat (ring_adv ?N ?t ?n) :: u32) = mq_tail mq + ?tot - mq_block_size mq"
      using 2 by (simp add: ring_adv_def sz(1) of_nat_diff)
    then show ?thesis using 2 c2 by (simp add: step c1 m)
  next
    case 3
    obtain m1 m2 where m: "mem_write ?t (take (unat ?tl) (le32 ?tot @ le32 flow)) (mq_block mq) = Some m1"
        "mem_write 0 (drop (unat ?tl) (le32 ?tot @ le32 flow)) m1 = Some m2"
        "mem_write (C_HEAD_SIZE - unat ?tl) data m2 =
          Some (ring_write ?t (mq_frame (flow, data)) (mq_block mq))"
      using mq_pieces_split_head[of ?t "mq_block mq" flow data "unat ?tl"] 3 b nN tl by auto
    have "ring_adv ?N ?t ?n = (C_HEAD_SIZE - unat ?tl) + length data"
      using 3 b unfolding tl by (simp add: ring_adv_def)
    then have "(of_nat (ring_adv ?N ?t ?n) :: u32) = of_nat (C_HEAD_SIZE - unat ?tl) + of_nat (length data)"
      by (simp only: of_nat_add)
    moreover have "(8 \<le> ?tl \<and> ?tl < 8 + of_nat (length data)) = False" using 3 c2 by simp
    ultimately show ?thesis using 3
      by (simp only: step c1 m) (simp add: emp del: take_append drop_append)
  qed
qed

text \<open>The written queue is well formed and its content has grown by the frame.\<close>

lemma mq_put_fields [simp]:
  "length (mq_block (mq_put mq msg)) = length (mq_block mq)"
  "mq_head (mq_put mq msg) = mq_head mq" "mq_block_size (mq_put mq msg) = mq_block_size mq"
  by (simp_all add: mq_put_def)

lemma mq_put_props:
  assumes wf: "mq_wf mq" and room: "length (mq_frame msg) < length (mq_block mq) - mq_used mq"
  shows "unat (mq_tail (mq_put mq msg)) =
      ring_adv (length (mq_block mq)) (unat (mq_tail mq)) (length (mq_frame msg))"
    and "mq_used (mq_put mq msg) = mq_used mq + length (mq_frame msg)"
    and "mq_wf (mq_put mq msg)"
proof -
  let ?N = "length (mq_block mq)" and ?t = "unat (mq_tail mq)" and ?h = "unat (mq_head mq)"
  let ?n = "length (mq_frame msg)"
  have b: "?t \<le> ?N" "?h \<le> ?N" "?N < 2 ^ 31" "?t = 0 \<longrightarrow> ?h = 0" using wf by (auto simp: mq_wf_def)
  have n: "C_HEAD_SIZE \<le> ?n" "?n < ?N" using room by simp_all
  have "ring_adv ?N ?t ?n \<le> ?N" using b n by (intro ring_adv_le) auto
  then show tl: "unat (mq_tail (mq_put mq msg)) = ring_adv ?N ?t ?n"
    using b unfolding mq_put_def by (simp add: unat_of_nat_u32 del: length_mq_frame)
  show used: "mq_used (mq_put mq msg) = mq_used mq + ?n"
    using b n room unfolding mq_used_def tl mq_put_fields by (intro ring_used_put) auto
  have "ring_adv ?N ?t ?n \<noteq> 0" using n b by (auto simp: ring_adv_def)
  then show "mq_wf (mq_put mq msg)"
    using wf used tl room \<open>ring_adv ?N ?t ?n \<le> ?N\<close> by (simp add: mq_wf_def del: length_mq_frame)
qed

lemma mq_put_bytes:
  assumes wf: "mq_wf mq" and room: "length (mq_frame msg) < length (mq_block mq) - mq_used mq"
  shows "mq_bytes (mq_put mq msg) = mq_bytes mq @ mq_frame msg"
proof -
  have "(unat (mq_head mq) + mq_used mq) mod length (mq_block mq) =
      unat (mq_tail mq) mod length (mq_block mq)"
    using wf by (auto simp: mq_used_def mq_wf_def intro: ring_used_mod)
  then show ?thesis
    using ring_slice_write_append[of "mq_used mq" "mq_frame msg" "mq_block mq"
        "unat (mq_head mq)" "unat (mq_tail mq)"] room
    by (simp add: mq_bytes_def mq_put_props(2)[OF assms]) (simp add: mq_put_def)
qed

section \<open>Reading\<close>

lemma mq_frame_read:
  assumes "length (snd msg) + C_HEAD_SIZE < 2 ^ 31"
  shows "unat (ld32 (mq_frame msg @ rest)) = length (snd msg) + C_HEAD_SIZE"
    and "ld32 (drop 4 (mq_frame msg @ rest)) = fst msg"
proof -
  show "unat (ld32 (mq_frame msg @ rest)) = length (snd msg) + C_HEAD_SIZE"
    using mq_frame_words[OF assms] by (simp add: mq_frame_def)
  have "drop 4 (mq_frame msg @ rest) = le32 (fst msg) @ snd msg @ rest"
    by (simp add: mq_frame_def)
  then show "ld32 (drop 4 (mq_frame msg @ rest)) = fst msg" by simp
qed

text \<open>The queue after its first message, of \<open>n\<close> bytes with the head, has been read.\<close>

definition mq_take :: "usn_shmmq \<Rightarrow> nat \<Rightarrow> usn_shmmq" where
  "mq_take mq n =
     mq\<lparr>mq_head := of_nat (ring_adv (length (mq_block mq)) (unat (mq_head mq)) n),
        mq_dequeued_msg_cnt := mq_dequeued_msg_cnt mq + 1\<rparr>"

text \<open>One step of copying out: \<open>n\<close> bytes from the position \<open>p\<close>, in one or two pieces.\<close>

lemma mq_copy_out:
  fixes size p n :: u32
  assumes "unat size = length m" "length m < 2 ^ 31" "unat p \<le> length m" "unat n \<le> length m"
  shows "(if p + n > size then do {
            a \<leftarrow> mem_read (unat p) (unat (size - p)) m;
            b \<leftarrow> mem_read 0 (unat (n - (size - p))) m;
            f (a @ b) (n - (size - p))
          } else do {
            a \<leftarrow> mem_read (unat p) (unat n) m;
            f a (p + n)
          }) = f (ring_slice m (unat p) (unat n)) (of_nat (ring_adv (length m) (unat p) (unat n)))"
proof -
  have s: "unat (p + n) = unat p + unat n" using assms by (simp add: unat_add_u32)
  show ?thesis
  proof (cases "unat p + unat n \<le> length m")
    case True
    then show ?thesis
      using s assms(1) mem_read_linear[OF True] by (simp add: word_less_nat_alt ring_adv_def)
  next
    case False
    have u: "unat (size - p) = length m - unat p" using assms by (simp add: unat_sub_u32)
    have u2: "unat (n - (size - p)) = unat n - (length m - unat p)"
      using False assms by (simp add: unat_sub_u32 u)
    obtain a b where ab: "mem_read (unat p) (length m - unat p) m = Some a"
        "mem_read 0 (unat n - (length m - unat p)) m = Some b" "a @ b = ring_slice m (unat p) (unat n)"
      using mem_read_split[of "unat p" m "unat n"] assms False by auto
    have "unat (of_nat (ring_adv (length m) (unat p) (unat n)) :: u32) = unat (n - (size - p))"
      using False assms unfolding u2 by (subst unat_of_nat_u32) (auto simp: ring_adv_def)
    then have "of_nat (ring_adv (length m) (unat p) (unat n)) = n - (size - p)"
      by (rule unat_inj_u32)
    then show ?thesis using False s assms(1) ab by (simp add: word_less_nat_alt u u2)
  qed
qed

lemma read_mq_empty: "mq_head mq = mq_tail mq \<Longrightarrow> usnet_read_mq mq buf_size = Some (mq, [], 0, None, 0)"
  by (simp add: usnet_read_mq_def)

lemma read_mq_eq:
  assumes wf: "mq_wf mq" and bytes: "mq_bytes mq = mq_frame msg @ rest"
  shows "usnet_read_mq mq buf_size =
    (if unat buf_size < length (snd msg)
     then Some (mq\<lparr>mq_dequeued_msg_cnt := mq_dequeued_msg_cnt mq + 1\<rparr>, [],
       of_nat (length (snd msg)), Some (fst msg), - 1)
     else Some (mq_take mq (length (mq_frame msg)), snd msg, of_nat (length (snd msg)), Some (fst msg), 0))"
proof -
  let ?N = "length (mq_block mq)" and ?h = "unat (mq_head mq)" and ?d = "length (snd msg)"
  let ?p = "of_nat (ring_adv ?N ?h 8) :: u32" and ?dl = "of_nat ?d :: u32"
  have b: "unat (mq_block_size mq) = ?N" "?N < 2 ^ 31" "?h \<le> ?N" using wf by (auto simp: mq_wf_def)
  have "mq_used mq = length (mq_frame msg @ rest)" using bytes length_mq_bytes by metis
  then have used: "?d + 8 \<le> mq_used mq" "mq_used mq < ?N" using wf by (auto simp: mq_wf_def)
  have ne: "mq_head mq \<noteq> mq_tail mq" using used mq_used_0[OF wf] by simp
  have hd: "ring_slice (mq_block mq) ?h 8 = take 8 (mq_frame msg)"
    using take_ring_slice[of 8 "mq_used mq" "mq_block mq" ?h] used bytes by (simp add: mq_bytes_def)
  have up: "unat ?p = ring_adv ?N ?h 8" "unat ?dl = ?d"
    using used b ring_adv_le[of ?h ?N 8] by (auto intro!: unat_of_nat_u32)
  have "ring_slice (mq_block mq) (unat ?p) ?d = ring_slice (mq_block mq) (?h + 8) ?d"
    unfolding up using b used by (intro ring_slice_cong ring_adv_mod) auto
  also have "\<dots> = take ?d (drop 8 (mq_bytes mq))"
    using used by (simp add: mq_bytes_def drop_ring_slice take_ring_slice)
  also have "\<dots> = snd msg" by (simp add: bytes mq_frame_def)
  finally have dat: "ring_slice (mq_block mq) (unat ?p) (unat ?dl) = snd msg" by (simp only: up)
  have fr: "take 8 (mq_frame msg) = le32 (of_nat ?d + 8) @ le32 (fst msg) @ []"
    by (simp add: mq_frame_def)
  have tot: "ld32 (take 8 (mq_frame msg)) = ?dl + 8" "ld32 (drop 4 (take 8 (mq_frame msg))) = fst msg"
    unfolding fr by simp_all
  have chk: "(?dl + 8 \<le> (if mq_tail mq > mq_head mq then mq_tail mq - mq_head mq
      else mq_tail mq + mq_block_size mq - mq_head mq)) = True"
    using mq_frame_words[of "snd msg"] used b
    by (simp add: word_le_nat_alt mq_used_word[OF wf ne])
  have big: "(?dl > buf_size) = (unat buf_size < ?d)" by (simp add: word_less_nat_alt up)
  let ?mq = "mq\<lparr>mq_dequeued_msg_cnt := mq_dequeued_msg_cnt mq + 1\<rparr>"
  have u8: "unat (8 :: u32) = 8" by simp
  have "unat (8 :: u32) \<le> ?N" "unat ?p \<le> ?N" "unat ?dl \<le> ?N"
    using used b ring_adv_le[of ?h ?N 8] by (simp_all add: up)
  note copy1 = mq_copy_out[OF b(1,2,3) this(1), of "\<lambda>x y. Some (x, y)", unfolded u8]
    and copy2 = mq_copy_out[OF b(1,2) this(2,3),
      of "\<lambda>x y. Some (?mq\<lparr>mq_head := y\<rparr>, x, ?dl, Some (fst msg), 0 :: int)"]
  have "ring_adv ?N (unat ?p) (unat ?dl) = ring_adv ?N ?h (length (mq_frame msg))"
    using used b by (simp only: up) (simp add: ring_adv_adv add.commute)
  then have "?mq\<lparr>mq_head := of_nat (ring_adv ?N (unat ?p) (unat ?dl))\<rparr> = mq_take mq (length (mq_frame msg))"
    by (simp add: mq_take_def)
  then show ?thesis
    by (simp only: usnet_read_mq_def Let_def ne if_False if_True copy1 copy2 Option.bind.bind_lunit
        prod.case hd tot chk add_diff_cancel_right' big dat not_True_eq_False)
qed

lemma mq_take_props:
  assumes wf: "mq_wf mq" and n: "n \<le> mq_used mq" "0 < n"
  shows "mq_wf (mq_take mq n)" and "mq_bytes (mq_take mq n) = drop n (mq_bytes mq)"
proof -
  let ?N = "length (mq_block mq)" and ?t = "unat (mq_tail mq)" and ?h = "unat (mq_head mq)"
  have b: "?t \<le> ?N" "?h \<le> ?N" "?N < 2 ^ 31" "?t = 0 \<longrightarrow> ?h = 0" "mq_used mq < ?N"
    using wf by (auto simp: mq_wf_def)
  have le: "ring_adv ?N ?h n \<le> ?N" using b n by (intro ring_adv_le) auto
  have hd: "unat (mq_head (mq_take mq n)) = ring_adv ?N ?h n"
    using b le by (simp add: mq_take_def unat_of_nat_u32)
  have same: "mq_block (mq_take mq n) = mq_block mq" "mq_tail (mq_take mq n) = mq_tail mq"
      "mq_block_size (mq_take mq n) = mq_block_size mq" by (simp_all add: mq_take_def)
  have used: "mq_used (mq_take mq n) = mq_used mq - n"
    using b n unfolding mq_used_def hd same by (intro ring_used_get) auto
  show "mq_wf (mq_take mq n)"
    using wf used hd le same b n by (auto simp: mq_wf_def mq_used_def ring_used_def split: if_splits)
  have "ring_adv ?N ?h n mod ?N = (?h + n) mod ?N" using b n by (intro ring_adv_mod) auto
  then show "mq_bytes (mq_take mq n) = drop n (mq_bytes mq)"
    using n ring_slice_cong[of "ring_adv ?N ?h n" "mq_block mq" "?h + n"]
    by (simp add: mq_bytes_def used hd same drop_ring_slice)
qed

section \<open>The queue as a list of messages\<close>

lemma mq_other_fields [simp]:
  "mq_bytes (mq\<lparr>mq_count := c\<rparr>) = mq_bytes mq" "mq_wf (mq\<lparr>mq_count := c\<rparr>) = mq_wf mq"
  "mq_used (mq\<lparr>mq_count := c\<rparr>) = mq_used mq"
  "mq_bytes (mq\<lparr>mq_adaptive_ctrl := a, mq_fifo_writes := n\<rparr>) = mq_bytes mq"
  "mq_wf (mq\<lparr>mq_adaptive_ctrl := a, mq_fifo_writes := n\<rparr>) = mq_wf mq"
  "mq_used (mq\<lparr>mq_adaptive_ctrl := a, mq_fifo_writes := n\<rparr>) = mq_used mq"
  by (simp_all add: mq_bytes_def mq_wf_def mq_used_def)

lemma enqueue_holds:
  assumes holds: "mq_holds mq ms" and room: "length data + C_HEAD_SIZE < length (mq_block mq) - mq_used mq"
  shows "\<exists>mq'. usnet_shmmq_enqueue mq now data flow = Some (mq', 0) \<and> mq_holds mq' (ms @ [(flow, data)]) \<and>
    length (mq_block mq') = length (mq_block mq) \<and> mq_used mq' = mq_used mq + length data + C_HEAD_SIZE \<and>
    mq_enqueued_msg_cnt mq' = mq_enqueued_msg_cnt mq + 1 \<and> mq_fifo_writes mq' = mq_fifo_writes mq + 1"
proof -
  let ?m0 = "mq\<lparr>mq_count := mq_count mq + 1\<rparr>" and ?msg = "(flow, data)"
  have wf: "mq_wf ?m0" using holds by (simp add: mq_holds_def)
  have fits: "length (mq_frame ?msg) < length (mq_block ?m0) - mq_used ?m0" using room by simp
  have w: "usnet_write_mq ?m0 data flow = Some (mq_put ?m0 ?msg, if mq_used ?m0 = 0 then 1 else 0)"
    using write_mq_eq[OF wf] fits by simp
  have "mq_enqueued_msg_cnt (mq_put ?m0 ?msg) = mq_enqueued_msg_cnt mq + 1"
    "mq_fifo_writes (mq_put ?m0 ?msg) = mq_fifo_writes mq" by (simp_all add: mq_put_def)
  then show ?thesis
    using mq_put_props[OF wf fits] mq_put_bytes[OF wf fits] holds
    by (simp add: usnet_shmmq_enqueue_def w mq_holds_def Let_def)
qed

lemma read_holds:
  assumes "mq_holds mq ((flow, data) # ms)" "length data \<le> unat buf_size"
  shows "\<exists>mq'. usnet_read_mq mq buf_size = Some (mq', data, of_nat (length data), Some flow, 0) \<and>
    mq_holds mq' ms \<and> length (mq_block mq') = length (mq_block mq)"
proof -
  let ?n = "length (mq_frame (flow, data))"
  have wf: "mq_wf mq" and b: "mq_bytes mq = mq_frame (flow, data) @ concat (map mq_frame ms)"
    using assms(1) by (auto simp: mq_holds_def)
  have "mq_used mq = length (mq_frame (flow, data) @ concat (map mq_frame ms))"
    using b length_mq_bytes by metis
  then have n: "?n \<le> mq_used mq" "0 < ?n" by simp_all
  have "mq_holds (mq_take mq ?n) ms"
    using mq_take_props[OF wf n] b by (simp add: mq_holds_def del: length_mq_frame)
  then show ?thesis
    using read_mq_eq[OF wf b, of buf_size] assms(2)
    by (simp add: mq_take_def del: length_mq_frame)
qed

text \<open>The messages on the block, read off their heads.\<close>

function mq_decode :: "byte list \<Rightarrow> mq_msg list" where
  "mq_decode bs =
     (let n = unat (ld32 bs) in
      if length bs < C_HEAD_SIZE \<or> n < C_HEAD_SIZE then []
      else (ld32 (drop 4 bs), take (n - C_HEAD_SIZE) (drop C_HEAD_SIZE bs)) # mq_decode (drop n bs))"
  by pat_completeness auto
termination by (relation "measure length") auto

declare mq_decode.simps [simp del]

lemma mq_decode_frame:
  assumes "length (snd msg) + C_HEAD_SIZE < 2 ^ 31"
  shows "mq_decode (mq_frame msg @ rest) = msg # mq_decode rest"
proof -
  have "take (length (snd msg)) (drop C_HEAD_SIZE (mq_frame msg @ rest)) = snd msg"
    "drop (length (snd msg) + C_HEAD_SIZE) (mq_frame msg @ rest) = rest"
    by (simp_all add: mq_frame_def)
  then show ?thesis
    using mq_frame_read[OF assms, of rest]
    by (subst mq_decode.simps) (simp add: Let_def del: drop_append take_append)
qed

lemma mq_decode_frames:
  "\<forall>msg \<in> set ms. length (snd msg) + C_HEAD_SIZE < 2 ^ 31 \<Longrightarrow> mq_decode (concat (map mq_frame ms)) = ms"
  by (induction ms) (simp_all add: mq_decode_frame, simp add: mq_decode.simps)

definition mq_messages :: "usn_shmmq \<Rightarrow> mq_msg list" where
  "mq_messages mq = mq_decode (mq_bytes mq)"

lemma holds_messages:
  assumes "mq_holds mq ms"
  shows "mq_messages mq = ms"
proof -
  have len: "length (concat (map mq_frame ms)) < 2 ^ 31"
    using assms length_mq_bytes[of mq] by (auto simp: mq_holds_def mq_wf_def)
  have "length (mq_frame msg) \<le> length (concat (map mq_frame ms))" if "msg \<in> set ms" for msg
    using that by (induction ms) auto
  then show ?thesis
    using assms len mq_decode_frames[of ms] by (fastforce simp: mq_messages_def mq_holds_def)
qed

definition mq_ok :: "usn_shmmq \<Rightarrow> bool" where
  "mq_ok mq \<longleftrightarrow> mq_holds mq (mq_messages mq)"

definition mq_room :: "usn_shmmq \<Rightarrow> nat" where
  "mq_room mq = length (mq_block mq) - mq_used mq - 1"

definition mq_send :: "int \<Rightarrow> usn_shmmq \<Rightarrow> mq_msg \<Rightarrow> usn_shmmq option" where
  "mq_send now mq msg =
     (case usnet_shmmq_enqueue mq now (snd msg) (fst msg) of
        Some (mq', ret) \<Rightarrow> if ret < 0 then None else Some mq'
      | None \<Rightarrow> None)"

definition mq_receive :: "usn_shmmq \<Rightarrow> (usn_shmmq \<times> mq_msg list) option" where
  "mq_receive mq =
     (case usnet_read_mq mq (mq_block_size mq) of
        Some (mq', out, _, Some flow, ret) \<Rightarrow> if ret < 0 then None else Some (mq', [(flow, out)])
      | _ \<Rightarrow> None)"

interpretation event_queue: fifo mq_ok mq_messages mq_room "\<lambda>msg. length (snd msg) + C_HEAD_SIZE"
  "\<lambda>msg. [msg]" "mq_send now" mq_receive for now
proof (unfold_locales, goal_cases)
  case (1 mq msg)
  obtain flow data where msg: "msg = (flow, data)" by (cases msg)
  have "length data + C_HEAD_SIZE < length (mq_block mq) - mq_used mq"
    using 1 by (simp add: mq_room_def msg)
  then obtain mq' where q: "usnet_shmmq_enqueue mq now data flow = Some (mq', 0)"
      "mq_holds mq' (mq_messages mq @ [(flow, data)])" "length (mq_block mq') = length (mq_block mq)"
      "mq_used mq' = mq_used mq + length data + C_HEAD_SIZE"
    using enqueue_holds 1(1) unfolding mq_ok_def by blast
  then show ?case using holds_messages[OF q(2)]
    by (simp add: mq_send_def msg mq_room_def mq_ok_def)
next
  case (2 mq)
  obtain flow data ms where ms: "mq_messages mq = (flow, data) # ms"
    using 2(2) by (metis neq_Nil_conv surj_pair)
  have h: "mq_holds mq ((flow, data) # ms)" using 2(1) ms by (simp add: mq_ok_def)
  have "mq_used mq = length (concat (map mq_frame ((flow, data) # ms)))"
    using h length_mq_bytes by (metis mq_holds_def)
  then have "length data \<le> unat (mq_block_size mq)"
    using h by (simp add: mq_holds_def mq_wf_def)
  then obtain mq' where "usnet_read_mq mq (mq_block_size mq) = Some (mq', data, of_nat (length data), Some flow, 0)"
      "mq_holds mq' ms"
    using read_holds[OF h] by blast
  then show ?case using holds_messages[of mq' ms] ms by (simp add: mq_receive_def mq_ok_def)
qed

section \<open>Properties\<close>

lemma new_queue_holds:
  assumes "mq_head mq = 0" "mq_tail mq = 0" "unat (mq_block_size mq) = length (mq_block mq)"
    "0 < length (mq_block mq)" "length (mq_block mq) < 2 ^ 31"
  shows "mq_holds mq []" and "mq_ok mq" and "mq_messages mq = []" and "mq_room mq = length (mq_block mq) - 1"
proof -
  show h: "mq_holds mq []" and "mq_room mq = length (mq_block mq) - 1"
    using assms by (auto simp: mq_holds_def mq_wf_def mq_used_def mq_bytes_def mq_room_def ring_used_def)
  show "mq_messages mq = []" using holds_messages[OF h] .
  then show "mq_ok mq" using h by (simp add: mq_ok_def)
qed

text \<open>An empty queue with a block of \<open>n\<close> bytes.\<close>

definition mq_new :: "nat \<Rightarrow> usn_shmmq" where
  "mq_new n = \<lparr>mq_wait_sec = 0, mq_wait_usec = 0, mq_count = 0,
     mq_adaptive_ctrl = \<lparr>m_uiCheckTimeSpan = 1, m_uiMsgCount = 0, m_uiLastMsgCount = 0,
       m_uiFactor = 1, m_uiLastFactor = 1, m_uiLastCheckTime = 0, m_uiSync = 0\<rparr>,
     mq_head = 0, mq_tail = 0, mq_block = replicate n 0, mq_block_size = of_nat n,
     mq_enqueued_msg_cnt = 0, mq_dequeued_msg_cnt = 0, mq_fifo_writes = 0\<rparr>"

lemma mq_new_holds:
  assumes "0 < n" "n < 2 ^ 31"
  shows "mq_holds (mq_new n) []" and "mq_ok (mq_new n)" and "mq_messages (mq_new n) = []"
    and "mq_room (mq_new n) = n - 1"
  using new_queue_holds[of "mq_new n"] assms by (simp_all add: mq_new_def unat_of_nat_u32)

text \<open>C4. The message queue is a lossless FIFO: messages whose frames fit into an empty queue are
  all accepted, and reading until the queue is empty returns exactly these messages, in the
  order in which they were enqueued.\<close>

theorem message_queue_fifo:
  assumes "mq_ok mq" "mq_messages mq = []"
    and "sum_list (map (\<lambda>msg. length (snd msg) + C_HEAD_SIZE) msgs) \<le> mq_room mq"
  shows "\<exists>mq1 n mq'. puts (mq_send now) mq msgs = Some mq1 \<and> gets mq_receive n mq1 = Some (mq', msgs) \<and>
    mq_messages mq' = []"
  using event_queue.puts_then_drain[OF assms, of now] by simp

theorem message_queue_fifo_witness:
  "\<exists>mq1 n mq'. puts (mq_send 5) (mq_new 40) [(1, [7, 8]), (2, [9])] = Some mq1 \<and>
    gets mq_receive n mq1 = Some (mq', [(1, [7, 8]), (2, [9])]) \<and> mq_messages mq' = []"
  using message_queue_fifo[of "mq_new 40" "[(1, [7, 8]), (2, [9])]" 5] mq_new_holds[of 40] by simp

text \<open>Enqueueing a message that fits, at any position of the circular block, appends it to the
  messages the queue holds, counts it and signals the reader; a message that does not fit is
  refused and leaves the messages as they were.\<close>

theorem shmmq_enqueue_correct:
  assumes "mq_holds mq ms" "length data + C_HEAD_SIZE < 2 ^ 31"
  shows "if length data + C_HEAD_SIZE < length (mq_block mq) - mq_used mq
    then \<exists>mq'. usnet_shmmq_enqueue mq now data flow = Some (mq', 0) \<and> mq_holds mq' (ms @ [(flow, data)]) \<and>
      mq_enqueued_msg_cnt mq' = mq_enqueued_msg_cnt mq + 1 \<and> mq_fifo_writes mq' = mq_fifo_writes mq + 1
    else usnet_shmmq_enqueue mq now data flow = Some (mq\<lparr>mq_count := mq_count mq + 1\<rparr>, - 1)"
proof (cases "length data + C_HEAD_SIZE < length (mq_block mq) - mq_used mq")
  case True
  then show ?thesis using enqueue_holds[OF assms(1) True, of now flow] by auto
next
  case False
  then have "usnet_write_mq (mq\<lparr>mq_count := mq_count mq + 1\<rparr>) data flow =
      Some (mq\<lparr>mq_count := mq_count mq + 1\<rparr>, - 1)"
    using assms by (intro write_mq_full) (auto simp: mq_holds_def)
  then show ?thesis using False by (simp add: usnet_shmmq_enqueue_def)
qed

theorem shmmq_enqueue_correct_witness:
  "\<exists>mq'. usnet_shmmq_enqueue (mq_new 16) 3 [1, 2, 3] 9 = Some (mq', 0) \<and> mq_holds mq' [(9, [1, 2, 3])]"
  using shmmq_enqueue_correct[of "mq_new 16" "[]" "[1, 2, 3]" 3 9] mq_new_holds[of 16]
  by (auto simp: mq_new_def mq_used_def ring_used_def)

text \<open>C28. Reading returns the oldest message whole and leaves the others; when the caller's buffer is
  too small it returns -1 and the message stays where it is, so the same call fails again
  (only the dequeue counter moves). An empty queue gives length 0.\<close>

theorem read_mq_correct:
  assumes "mq_holds mq ms"
  shows "case ms of
      [] \<Rightarrow> usnet_read_mq mq buf_size = Some (mq, [], 0, None, 0)
    | (flow, data) # rest \<Rightarrow>
        if length data \<le> unat buf_size
        then \<exists>mq'. usnet_read_mq mq buf_size = Some (mq', data, of_nat (length data), Some flow, 0) \<and>
          mq_holds mq' rest
        else usnet_read_mq mq buf_size =
          Some (mq\<lparr>mq_dequeued_msg_cnt := mq_dequeued_msg_cnt mq + 1\<rparr>, [], of_nat (length data), Some flow, - 1)"
proof (cases ms)
  case Nil
  then have "mq_used mq = 0" using assms length_mq_bytes[of mq] by (simp add: mq_holds_def)
  then show ?thesis using Nil mq_used_0 assms read_mq_empty by (auto simp: mq_holds_def)
next
  case (Cons msg rest)
  obtain flow data where msg: "msg = (flow, data)" by (cases msg)
  show ?thesis
  proof (cases "length data \<le> unat buf_size")
    case True
    then show ?thesis using read_holds[of mq flow data rest buf_size] assms by (auto simp: Cons msg)
  next
    case False
    then show ?thesis
      using read_mq_eq[of mq msg "concat (map mq_frame rest)" buf_size] assms
      by (simp add: Cons msg mq_holds_def)
  qed
qed

theorem read_mq_correct_witness:
  "\<exists>mq' mq''. usnet_shmmq_enqueue (mq_new 16) 3 [1, 2, 3] 9 = Some (mq', 0) \<and>
    usnet_read_mq mq' 8 = Some (mq'', [1, 2, 3], 3, Some 9, 0) \<and> mq_holds mq'' []"
proof -
  obtain mq' where "usnet_shmmq_enqueue (mq_new 16) 3 [1, 2, 3] 9 = Some (mq', 0)" "mq_holds mq' [(9, [1, 2, 3])]"
    using enqueue_holds[of "mq_new 16" "[]" "[1, 2, 3]" 3 9] mq_new_holds[of 16]
    by (auto simp: mq_new_def mq_used_def ring_used_def)
  then show ?thesis using read_mq_correct[of mq' "[(9, [1, 2, 3])]" 8] by auto
qed

end
