(* ===== verification/Stack_State.thy ===== *)
theory Stack_State
  imports Cache Mempool Sndbuf Ringbuf Shm_MQ
begin

text \<open>
  The state of the stack: connection control blocks (\<^verbatim>\<open>tcb.h\<close>), sockets (\<^verbatim>\<open>socket.h\<close>), the
  address-resolution table and the context \<^verbatim>\<open>usn_context\<close> (\<^verbatim>\<open>core.h\<close>) that every function of
  the stack takes.

  A control block is named by its slot in \<open>tcb_cache\<close>, a buffer by its slot in its own table;
  \<open>None\<close> is the null pointer. The receive and send variables of a connection are objects of two
  chunk pools that only its control block refers to, so they are kept inside the block, with the
  chunk numbers \<open>rcvvar_at\<close>/\<open>sndvar_at\<close> that \<^verbatim>\<open>usnet_mempool_free\<close> gives back. Control blocks linked
  into a tail queue are lists of slots. Everything sent to the network interface is appended to
  \<open>tx_frames\<close>.
\<close>

section \<open>Connections\<close>

datatype tcp_state =
    TCPS_CLOSED | TCPS_LISTEN | TCPS_SYN_SENT | TCPS_SYN_RECEIVED | TCPS_ESTABLISHED
  | TCPS_FIN_WAIT_1 | TCPS_FIN_WAIT_2 | TCPS_CLOSE_WAIT | TCPS_CLOSING | TCPS_LAST_ACK
  | TCPS_TIME_WAIT

primrec state_no :: "tcp_state \<Rightarrow> nat" where
  "state_no TCPS_CLOSED = 0"
| "state_no TCPS_LISTEN = 1"
| "state_no TCPS_SYN_SENT = 2"
| "state_no TCPS_SYN_RECEIVED = 3"
| "state_no TCPS_ESTABLISHED = 4"
| "state_no TCPS_FIN_WAIT_1 = 5"
| "state_no TCPS_FIN_WAIT_2 = 6"
| "state_no TCPS_CLOSE_WAIT = 7"
| "state_no TCPS_CLOSING = 8"
| "state_no TCPS_LAST_ACK = 9"
| "state_no TCPS_TIME_WAIT = 10"

lemma state_no_inj: "state_no s = state_no t \<Longrightarrow> s = t"
  by (cases s; cases t) simp_all

text \<open>The source compares states as numbers.\<close>

instantiation tcp_state :: linorder
begin

definition less_eq_tcp_state :: "tcp_state \<Rightarrow> tcp_state \<Rightarrow> bool" where
  "less_eq_tcp_state s t \<longleftrightarrow> state_no s \<le> state_no t"

definition less_tcp_state :: "tcp_state \<Rightarrow> tcp_state \<Rightarrow> bool" where
  "less_tcp_state s t \<longleftrightarrow> state_no s < state_no t"

instance
  by intro_classes (auto simp: less_eq_tcp_state_def less_tcp_state_def state_no_inj)

end

lemmas state_order = less_eq_tcp_state_def less_tcp_state_def

datatype close_reason =
    TCP_NOT_CLOSED | TCP_ACTIVE_CLOSE | TCP_PASSIVE_CLOSE | TCP_CONN_FAIL | TCP_CONN_LOST
  | TCP_RESET | TCP_NO_MEM | TCP_NOT_ACCEPTED | TCP_TIMEDOUT

record usn_rcvvars =
  rcv_wnd :: u32
  irs :: u32
  snd_wl1 :: u32
  snd_wl2 :: u32
  ts_recent :: u32
  ts_lastack_rcvd :: u32
  ts_last_ts_upd :: u32
  ts_tw_expire :: u32
  srtt :: u32
  mdev :: u32
  mdev_max :: u32
  rttvar :: u32
  rtt_seq :: u32
  last_ack_seq :: u32
  dup_acks :: u16
  rcvbuf :: "nat option"

record usn_sndvars =
  ip_id :: u16
  mss :: u16
  eff_mss :: u16
  wscale :: u8
  nif_out :: int
  snd_una :: u32
  snd_wnd :: u32
  peer_wnd :: u32
  iss :: u32
  fss :: u32
  nrtx :: u8
  max_nrtx :: u8
  rto :: u32
  ts_rto :: u32
  cwnd :: u32
  ssthresh :: u32
  ts_lastack_sent :: u32
  is_wack :: bool
  ack_cnt :: "6 word"
  on_control_list :: bool
  on_send_list :: bool
  on_ack_list :: bool
  on_closeq :: bool
  on_resetq :: bool
  on_closeq_int :: bool
  on_resetq_int :: bool
  is_fin_sent :: bool
  is_fin_ackd :: bool
  sndbuf :: "nat option"

record usn_tcb =
  tcb_fd :: u32
  tcb_socket :: "nat option"
  saddr :: u32
  daddr :: u32
  sport :: u16
  dport :: u16
  tcb_type :: u8
  tcb_state :: tcp_state
  close_reason :: close_reason
  on_hash_table :: bool
  on_timewait_list :: bool
  need_wnd_adv :: bool
  on_rto_idx :: int
  on_timeout_list :: bool
  saw_timestamp :: bool
  sack_permit :: bool
  control_list_waiting :: bool
  have_reset :: bool
  snd_nxt :: u32
  rcv_nxt :: u32
  rcvvar_at :: "nat option"
  rcvvar :: usn_rcvvars
  sndvar_at :: "nat option"
  sndvar :: usn_sndvars
  last_active_ts :: u32

text \<open>All bytes zero, as \<^verbatim>\<open>memset\<close> leaves an object.\<close>

definition zero_rcvvars :: usn_rcvvars where
  "zero_rcvvars = \<lparr>rcv_wnd = 0, irs = 0, snd_wl1 = 0, snd_wl2 = 0, ts_recent = 0,
     ts_lastack_rcvd = 0, ts_last_ts_upd = 0, ts_tw_expire = 0, srtt = 0, mdev = 0, mdev_max = 0,
     rttvar = 0, rtt_seq = 0, last_ack_seq = 0, dup_acks = 0, rcvbuf = None\<rparr>"

definition zero_sndvars :: usn_sndvars where
  "zero_sndvars = \<lparr>ip_id = 0, mss = 0, eff_mss = 0, wscale = 0, nif_out = 0, snd_una = 0,
     snd_wnd = 0, peer_wnd = 0, iss = 0, fss = 0, nrtx = 0, max_nrtx = 0, rto = 0, ts_rto = 0,
     cwnd = 0, ssthresh = 0, ts_lastack_sent = 0, is_wack = False, ack_cnt = 0,
     on_control_list = False, on_send_list = False, on_ack_list = False, on_closeq = False,
     on_resetq = False, on_closeq_int = False, on_resetq_int = False, is_fin_sent = False,
     is_fin_ackd = False, sndbuf = None\<rparr>"

definition zero_tcb :: usn_tcb where
  "zero_tcb = \<lparr>tcb_fd = 0, tcb_socket = None, saddr = 0, daddr = 0, sport = 0, dport = 0,
     tcb_type = 0, tcb_state = TCPS_CLOSED, close_reason = TCP_NOT_CLOSED, on_hash_table = False,
     on_timewait_list = False, need_wnd_adv = False, on_rto_idx = 0, on_timeout_list = False,
     saw_timestamp = False, sack_permit = False, control_list_waiting = False, have_reset = False,
     snd_nxt = 0, rcv_nxt = 0, rcvvar_at = None, rcvvar = zero_rcvvars, sndvar_at = None,
     sndvar = zero_sndvars, last_active_ts = 0\<rparr>"

section \<open>The connection table\<close>

definition hash_step :: "u32 \<Rightarrow> byte \<Rightarrow> u32" where
  "hash_step hash c =
     (let hash = hash + scast c;
          hash = hash + push_bit 10 hash
      in hash XOR drop_bit 6 hash)"

text \<open>\<^verbatim>\<open>usnet_tcb_key\<close> hashes the twelve bytes from \<^verbatim>\<open>saddr\<close> on: the two addresses and the two
  ports. The bytes are read as signed characters.\<close>

definition usnet_tcb_key :: "usn_tcb \<Rightarrow> u32" where
  "usnet_tcb_key tcb =
     (let key = le32 (saddr tcb) @ le32 (daddr tcb) @ le16 (sport tcb) @ le16 (dport tcb);
          hash = foldl hash_step 0 key;
          hash = hash + push_bit 3 hash;
          hash = hash XOR drop_bit 11 hash
      in hash + push_bit 15 hash)"

definition usnet_tcb_eq :: "usn_tcb \<Rightarrow> usn_tcb \<Rightarrow> bool" where
  "usnet_tcb_eq item1 item2 \<longleftrightarrow>
     saddr item1 = saddr item2 \<and> daddr item1 = daddr item2 \<and>
     sport item1 = sport item2 \<and> dport item1 = dport item2"

definition usnet_tcb_isempty :: "usn_tcb \<Rightarrow> bool" where
  "usnet_tcb_isempty item \<longleftrightarrow> saddr item = 0 \<and> daddr item = 0 \<and> sport item = 0 \<and> dport item = 0"

definition usnet_tcb_setempty :: "usn_tcb \<Rightarrow> usn_tcb" where
  "usnet_tcb_setempty item = item\<lparr>saddr := 0, daddr := 0, sport := 0, dport := 0\<rparr>"

definition usnet_tcb_init :: "usn_tcb usn_hashbase option" where
  "usnet_tcb_init =
     usnet_cache_init 10 100 0 zero_tcb usnet_tcb_eq usnet_tcb_key usnet_tcb_isempty usnet_tcb_setempty"

type_synonym conn_key = "u32 \<times> u32 \<times> u16 \<times> u16"

definition tcb_conn :: "usn_tcb \<Rightarrow> conn_key" where
  "tcb_conn tcb = (saddr tcb, daddr tcb, sport tcb, dport tcb)"

lemmas tcb_callbacks = usnet_tcb_key_def usnet_tcb_eq_def usnet_tcb_isempty_def usnet_tcb_setempty_def
  tcb_conn_def

interpretation tcbs: cache_items tcb_conn "(0, 0, 0, 0)" usnet_tcb_eq usnet_tcb_key usnet_tcb_isempty
  usnet_tcb_setempty
  by unfold_locales (auto simp: tcb_callbacks)

section \<open>Sockets\<close>

record backlog_queue =
  bq_head :: int
  bq_tail :: int
  bq_size :: int
  bq_connq :: "u32 list"

record usn_socket =
  so_fd :: u32
  so_dom :: u16
  so_type :: u16
  so_proto :: u16
  so_state :: u16
  so_sport :: u16
  so_dport :: u16
  so_saddr :: u32
  so_daddr :: u32
  so_options :: u16
  so_tcb :: "nat option"
  so_backlogq :: "backlog_queue option"

definition usnet_so_key :: "usn_socket \<Rightarrow> u32" where
  "usnet_so_key so = so_fd so"

definition usnet_so_eq :: "usn_socket \<Rightarrow> usn_socket \<Rightarrow> bool" where
  "usnet_so_eq item1 item2 \<longleftrightarrow> so_fd item1 = so_fd item2"

definition usnet_so_isempty :: "usn_socket \<Rightarrow> bool" where
  "usnet_so_isempty item \<longleftrightarrow> so_fd item = 0"

definition usnet_so_setempty :: "usn_socket \<Rightarrow> usn_socket" where
  "usnet_so_setempty item = item\<lparr>so_fd := 0\<rparr>"

lemmas so_callbacks = usnet_so_key_def usnet_so_eq_def usnet_so_isempty_def usnet_so_setempty_def

interpretation sockets: cache_items so_fd 0 usnet_so_eq usnet_so_key usnet_so_isempty usnet_so_setempty
  by unfold_locales (auto simp: so_callbacks)

section \<open>The context\<close>

record usn_arp_entry =
  arp_ip :: u32
  arp_haddr :: "byte list"

text \<open>\<open>rto_list\<close> are the \<^verbatim>\<open>RTO_HASH + 1\<close> queues of \<^verbatim>\<open>struct rto_hashstore\<close>; \<open>rand_out\<close> and
  \<open>rand_calls\<close> stand for the C library's \<^verbatim>\<open>rand()\<close>: the value of its \<open>n\<close>-th call and the number of
  calls made. \<open>hz\<close> is the constant \<^verbatim>\<open>HZ\<close> of the platform: \<^verbatim>\<open>tcp.h\<close> defines it as 1000 for FreeBSD only, elsewhere
  it comes from \<^verbatim>\<open>sys/param.h\<close>.\<close>

record usn_context =
  cur_time :: int
  g_fd :: u32
  flow_cnt :: u32
  tcp_timewait :: int
  tcp_timeout :: int
  if_hwa :: "byte list"
  if_addr :: u32
  arp_entries :: "usn_arp_entry list"
  ev_net2app_mq :: usn_shmmq
  ev_app2net_mq :: usn_shmmq
  tx_frames :: "byte list list"
  tcb_cache :: "usn_tcb usn_hashbase"
  socket_cache :: "usn_socket usn_hashbase"
  ringbuf_cache :: "usn_ringbuf usn_hashbase"
  sndbuf_cache :: "usn_sendbuf usn_hashbase"
  rcvvars_mp :: usn_mempool
  sndvars_mp :: usn_mempool
  frag_mp :: usn_mempool
  control_list :: "nat list"
  send_list :: "nat list"
  ack_list :: "nat list"
  control_list_cnt :: int
  send_list_cnt :: int
  ack_list_cnt :: int
  rto_now_idx :: u32
  rto_now_ts :: u32
  rto_list :: "nat \<Rightarrow> nat list"
  rto_list_cnt :: int
  timewait_list :: "nat list"
  timeout_list :: "nat list"
  timewait_list_cnt :: int
  timeout_list_cnt :: int
  listen_tcb :: "nat option"
  rand_out :: "nat \<Rightarrow> u32"
  rand_calls :: nat
  hz :: int

text \<open>Clock ticks in microseconds and the initial retransmission timeout of 500 ms in ticks.\<close>

definition TIME_TICK :: "usn_context \<Rightarrow> int" where
  "TIME_TICK ctx = 1000000 div hz ctx"

definition TS_TO_MSEC :: "usn_context \<Rightarrow> int \<Rightarrow> int" where
  "TS_TO_MSEC ctx t = t * TIME_TICK ctx div 1000"

definition TCP_INITIAL_RTO :: "usn_context \<Rightarrow> u32" where
  "TCP_INITIAL_RTO ctx = of_int (500 * 1000 div TIME_TICK ctx)"

text \<open>Reading and changing one control block.\<close>

definition tcb_of :: "usn_context \<Rightarrow> nat \<Rightarrow> usn_tcb" where
  "tcb_of ctx p = hb_cache (tcb_cache ctx) p"

definition upd_tcb :: "nat \<Rightarrow> (usn_tcb \<Rightarrow> usn_tcb) \<Rightarrow> usn_context \<Rightarrow> usn_context" where
  "upd_tcb p f ctx =
     ctx\<lparr>tcb_cache := (tcb_cache ctx)\<lparr>hb_cache := (hb_cache (tcb_cache ctx))(p := f (tcb_of ctx p))\<rparr>\<rparr>"

definition upd_snd :: "nat \<Rightarrow> (usn_sndvars \<Rightarrow> usn_sndvars) \<Rightarrow> usn_context \<Rightarrow> usn_context" where
  "upd_snd p f = upd_tcb p (\<lambda>tcb. tcb\<lparr>sndvar := f (sndvar tcb)\<rparr>)"

definition upd_rcv :: "nat \<Rightarrow> (usn_rcvvars \<Rightarrow> usn_rcvvars) \<Rightarrow> usn_context \<Rightarrow> usn_context" where
  "upd_rcv p f = upd_tcb p (\<lambda>tcb. tcb\<lparr>rcvvar := f (rcvvar tcb)\<rparr>)"

abbreviation snd_of :: "usn_context \<Rightarrow> nat \<Rightarrow> usn_sndvars" where
  "snd_of ctx p \<equiv> sndvar (tcb_of ctx p)"

abbreviation rcv_of :: "usn_context \<Rightarrow> nat \<Rightarrow> usn_rcvvars" where
  "rcv_of ctx p \<equiv> rcvvar (tcb_of ctx p)"

lemma tcb_of_upd [simp]: "tcb_of (upd_tcb p f ctx) q = (if q = p then f (tcb_of ctx p) else tcb_of ctx q)"
  by (simp add: upd_tcb_def tcb_of_def)

lemma tcb_of_upd_snd [simp]:
  "tcb_of (upd_snd p g ctx) q =
    (if q = p then (tcb_of ctx p)\<lparr>sndvar := g (snd_of ctx p)\<rparr> else tcb_of ctx q)"
  by (simp add: upd_snd_def)

lemma tcb_of_upd_rcv [simp]:
  "tcb_of (upd_rcv p h ctx) q =
    (if q = p then (tcb_of ctx p)\<lparr>rcvvar := h (rcv_of ctx p)\<rparr> else tcb_of ctx q)"
  by (simp add: upd_rcv_def)

text \<open>Changing a block leaves the rest of the context, and changing the rest leaves the blocks.\<close>

lemma upd_tcb_other [simp]:
  "cur_time (upd_tcb p f ctx) = cur_time ctx"
  "g_fd (upd_tcb p f ctx) = g_fd ctx"
  "flow_cnt (upd_tcb p f ctx) = flow_cnt ctx"
  "tcp_timewait (upd_tcb p f ctx) = tcp_timewait ctx"
  "tcp_timeout (upd_tcb p f ctx) = tcp_timeout ctx"
  "if_hwa (upd_tcb p f ctx) = if_hwa ctx"
  "if_addr (upd_tcb p f ctx) = if_addr ctx"
  "arp_entries (upd_tcb p f ctx) = arp_entries ctx"
  "ev_net2app_mq (upd_tcb p f ctx) = ev_net2app_mq ctx"
  "ev_app2net_mq (upd_tcb p f ctx) = ev_app2net_mq ctx"
  "tx_frames (upd_tcb p f ctx) = tx_frames ctx"
  "socket_cache (upd_tcb p f ctx) = socket_cache ctx"
  "ringbuf_cache (upd_tcb p f ctx) = ringbuf_cache ctx"
  "sndbuf_cache (upd_tcb p f ctx) = sndbuf_cache ctx"
  "rcvvars_mp (upd_tcb p f ctx) = rcvvars_mp ctx"
  "sndvars_mp (upd_tcb p f ctx) = sndvars_mp ctx"
  "frag_mp (upd_tcb p f ctx) = frag_mp ctx"
  "control_list (upd_tcb p f ctx) = control_list ctx"
  "send_list (upd_tcb p f ctx) = send_list ctx"
  "ack_list (upd_tcb p f ctx) = ack_list ctx"
  "control_list_cnt (upd_tcb p f ctx) = control_list_cnt ctx"
  "send_list_cnt (upd_tcb p f ctx) = send_list_cnt ctx"
  "ack_list_cnt (upd_tcb p f ctx) = ack_list_cnt ctx"
  "rto_now_idx (upd_tcb p f ctx) = rto_now_idx ctx"
  "rto_now_ts (upd_tcb p f ctx) = rto_now_ts ctx"
  "rto_list (upd_tcb p f ctx) = rto_list ctx"
  "rto_list_cnt (upd_tcb p f ctx) = rto_list_cnt ctx"
  "timewait_list (upd_tcb p f ctx) = timewait_list ctx"
  "timeout_list (upd_tcb p f ctx) = timeout_list ctx"
  "timewait_list_cnt (upd_tcb p f ctx) = timewait_list_cnt ctx"
  "timeout_list_cnt (upd_tcb p f ctx) = timeout_list_cnt ctx"
  "listen_tcb (upd_tcb p f ctx) = listen_tcb ctx"
  "rand_out (upd_tcb p f ctx) = rand_out ctx"
  "rand_calls (upd_tcb p f ctx) = rand_calls ctx"
  "hz (upd_tcb p f ctx) = hz ctx"
  by (simp_all add: upd_tcb_def upd_snd_def upd_rcv_def)

lemma upd_snd_other [simp]:
  "cur_time (upd_snd p g ctx) = cur_time ctx"
  "g_fd (upd_snd p g ctx) = g_fd ctx"
  "flow_cnt (upd_snd p g ctx) = flow_cnt ctx"
  "tcp_timewait (upd_snd p g ctx) = tcp_timewait ctx"
  "tcp_timeout (upd_snd p g ctx) = tcp_timeout ctx"
  "if_hwa (upd_snd p g ctx) = if_hwa ctx"
  "if_addr (upd_snd p g ctx) = if_addr ctx"
  "arp_entries (upd_snd p g ctx) = arp_entries ctx"
  "ev_net2app_mq (upd_snd p g ctx) = ev_net2app_mq ctx"
  "ev_app2net_mq (upd_snd p g ctx) = ev_app2net_mq ctx"
  "tx_frames (upd_snd p g ctx) = tx_frames ctx"
  "socket_cache (upd_snd p g ctx) = socket_cache ctx"
  "ringbuf_cache (upd_snd p g ctx) = ringbuf_cache ctx"
  "sndbuf_cache (upd_snd p g ctx) = sndbuf_cache ctx"
  "rcvvars_mp (upd_snd p g ctx) = rcvvars_mp ctx"
  "sndvars_mp (upd_snd p g ctx) = sndvars_mp ctx"
  "frag_mp (upd_snd p g ctx) = frag_mp ctx"
  "control_list (upd_snd p g ctx) = control_list ctx"
  "send_list (upd_snd p g ctx) = send_list ctx"
  "ack_list (upd_snd p g ctx) = ack_list ctx"
  "control_list_cnt (upd_snd p g ctx) = control_list_cnt ctx"
  "send_list_cnt (upd_snd p g ctx) = send_list_cnt ctx"
  "ack_list_cnt (upd_snd p g ctx) = ack_list_cnt ctx"
  "rto_now_idx (upd_snd p g ctx) = rto_now_idx ctx"
  "rto_now_ts (upd_snd p g ctx) = rto_now_ts ctx"
  "rto_list (upd_snd p g ctx) = rto_list ctx"
  "rto_list_cnt (upd_snd p g ctx) = rto_list_cnt ctx"
  "timewait_list (upd_snd p g ctx) = timewait_list ctx"
  "timeout_list (upd_snd p g ctx) = timeout_list ctx"
  "timewait_list_cnt (upd_snd p g ctx) = timewait_list_cnt ctx"
  "timeout_list_cnt (upd_snd p g ctx) = timeout_list_cnt ctx"
  "listen_tcb (upd_snd p g ctx) = listen_tcb ctx"
  "rand_out (upd_snd p g ctx) = rand_out ctx"
  "rand_calls (upd_snd p g ctx) = rand_calls ctx"
  "hz (upd_snd p g ctx) = hz ctx"
  by (simp_all add: upd_tcb_def upd_snd_def upd_rcv_def)

lemma upd_rcv_other [simp]:
  "cur_time (upd_rcv p h ctx) = cur_time ctx"
  "g_fd (upd_rcv p h ctx) = g_fd ctx"
  "flow_cnt (upd_rcv p h ctx) = flow_cnt ctx"
  "tcp_timewait (upd_rcv p h ctx) = tcp_timewait ctx"
  "tcp_timeout (upd_rcv p h ctx) = tcp_timeout ctx"
  "if_hwa (upd_rcv p h ctx) = if_hwa ctx"
  "if_addr (upd_rcv p h ctx) = if_addr ctx"
  "arp_entries (upd_rcv p h ctx) = arp_entries ctx"
  "ev_net2app_mq (upd_rcv p h ctx) = ev_net2app_mq ctx"
  "ev_app2net_mq (upd_rcv p h ctx) = ev_app2net_mq ctx"
  "tx_frames (upd_rcv p h ctx) = tx_frames ctx"
  "socket_cache (upd_rcv p h ctx) = socket_cache ctx"
  "ringbuf_cache (upd_rcv p h ctx) = ringbuf_cache ctx"
  "sndbuf_cache (upd_rcv p h ctx) = sndbuf_cache ctx"
  "rcvvars_mp (upd_rcv p h ctx) = rcvvars_mp ctx"
  "sndvars_mp (upd_rcv p h ctx) = sndvars_mp ctx"
  "frag_mp (upd_rcv p h ctx) = frag_mp ctx"
  "control_list (upd_rcv p h ctx) = control_list ctx"
  "send_list (upd_rcv p h ctx) = send_list ctx"
  "ack_list (upd_rcv p h ctx) = ack_list ctx"
  "control_list_cnt (upd_rcv p h ctx) = control_list_cnt ctx"
  "send_list_cnt (upd_rcv p h ctx) = send_list_cnt ctx"
  "ack_list_cnt (upd_rcv p h ctx) = ack_list_cnt ctx"
  "rto_now_idx (upd_rcv p h ctx) = rto_now_idx ctx"
  "rto_now_ts (upd_rcv p h ctx) = rto_now_ts ctx"
  "rto_list (upd_rcv p h ctx) = rto_list ctx"
  "rto_list_cnt (upd_rcv p h ctx) = rto_list_cnt ctx"
  "timewait_list (upd_rcv p h ctx) = timewait_list ctx"
  "timeout_list (upd_rcv p h ctx) = timeout_list ctx"
  "timewait_list_cnt (upd_rcv p h ctx) = timewait_list_cnt ctx"
  "timeout_list_cnt (upd_rcv p h ctx) = timeout_list_cnt ctx"
  "listen_tcb (upd_rcv p h ctx) = listen_tcb ctx"
  "rand_out (upd_rcv p h ctx) = rand_out ctx"
  "rand_calls (upd_rcv p h ctx) = rand_calls ctx"
  "hz (upd_rcv p h ctx) = hz ctx"
  by (simp_all add: upd_tcb_def upd_snd_def upd_rcv_def)

lemma tcb_of_other [simp]:
  "tcb_of (ctx\<lparr>cur_time := x0\<rparr>) = tcb_of ctx"
  "tcb_of (ctx\<lparr>g_fd := x1\<rparr>) = tcb_of ctx"
  "tcb_of (ctx\<lparr>flow_cnt := x2\<rparr>) = tcb_of ctx"
  "tcb_of (ctx\<lparr>tcp_timewait := x3\<rparr>) = tcb_of ctx"
  "tcb_of (ctx\<lparr>tcp_timeout := x4\<rparr>) = tcb_of ctx"
  "tcb_of (ctx\<lparr>if_hwa := x5\<rparr>) = tcb_of ctx"
  "tcb_of (ctx\<lparr>if_addr := x6\<rparr>) = tcb_of ctx"
  "tcb_of (ctx\<lparr>arp_entries := x7\<rparr>) = tcb_of ctx"
  "tcb_of (ctx\<lparr>ev_net2app_mq := x8\<rparr>) = tcb_of ctx"
  "tcb_of (ctx\<lparr>ev_app2net_mq := x9\<rparr>) = tcb_of ctx"
  "tcb_of (ctx\<lparr>tx_frames := x10\<rparr>) = tcb_of ctx"
  "tcb_of (ctx\<lparr>socket_cache := x11\<rparr>) = tcb_of ctx"
  "tcb_of (ctx\<lparr>ringbuf_cache := x12\<rparr>) = tcb_of ctx"
  "tcb_of (ctx\<lparr>sndbuf_cache := x13\<rparr>) = tcb_of ctx"
  "tcb_of (ctx\<lparr>rcvvars_mp := x14\<rparr>) = tcb_of ctx"
  "tcb_of (ctx\<lparr>sndvars_mp := x15\<rparr>) = tcb_of ctx"
  "tcb_of (ctx\<lparr>frag_mp := x16\<rparr>) = tcb_of ctx"
  "tcb_of (ctx\<lparr>control_list := x17\<rparr>) = tcb_of ctx"
  "tcb_of (ctx\<lparr>send_list := x18\<rparr>) = tcb_of ctx"
  "tcb_of (ctx\<lparr>ack_list := x19\<rparr>) = tcb_of ctx"
  "tcb_of (ctx\<lparr>control_list_cnt := x20\<rparr>) = tcb_of ctx"
  "tcb_of (ctx\<lparr>send_list_cnt := x21\<rparr>) = tcb_of ctx"
  "tcb_of (ctx\<lparr>ack_list_cnt := x22\<rparr>) = tcb_of ctx"
  "tcb_of (ctx\<lparr>rto_now_idx := x23\<rparr>) = tcb_of ctx"
  "tcb_of (ctx\<lparr>rto_now_ts := x24\<rparr>) = tcb_of ctx"
  "tcb_of (ctx\<lparr>rto_list := x25\<rparr>) = tcb_of ctx"
  "tcb_of (ctx\<lparr>rto_list_cnt := x26\<rparr>) = tcb_of ctx"
  "tcb_of (ctx\<lparr>timewait_list := x27\<rparr>) = tcb_of ctx"
  "tcb_of (ctx\<lparr>timeout_list := x28\<rparr>) = tcb_of ctx"
  "tcb_of (ctx\<lparr>timewait_list_cnt := x29\<rparr>) = tcb_of ctx"
  "tcb_of (ctx\<lparr>timeout_list_cnt := x30\<rparr>) = tcb_of ctx"
  "tcb_of (ctx\<lparr>listen_tcb := x31\<rparr>) = tcb_of ctx"
  "tcb_of (ctx\<lparr>rand_out := x32\<rparr>) = tcb_of ctx"
  "tcb_of (ctx\<lparr>rand_calls := x33\<rparr>) = tcb_of ctx"
  by (simp_all add: tcb_of_def fun_eq_iff)

lemma upd_tcb_cache [simp]:
  "hb_time (tcb_cache (upd_tcb p f ctx)) = hb_time (tcb_cache ctx)"
  "hb_len (tcb_cache (upd_tcb p f ctx)) = hb_len (tcb_cache ctx)"
  "hb_base (tcb_cache (upd_tcb p f ctx)) = hb_base (tcb_cache ctx)"
  by (simp_all add: upd_tcb_def)

section \<open>Properties of the connection table\<close>

definition tcb_table :: "usn_tcb usn_hashbase \<Rightarrow> bool" where
  "tcb_table base \<longleftrightarrow> cache_fns base usnet_tcb_eq usnet_tcb_key usnet_tcb_isempty usnet_tcb_setempty \<and>
     cache_wf tcb_conn (0, 0, 0, 0) base"

text \<open>C40. The connection table is a map from address and port quadruples to slots: inserting a connection
  whose key is not in the table keeps the table well formed, makes exactly this key map to the slot
  returned, and leaves every other key where it was.\<close>

theorem tcb_insert_search:
  assumes "tcb_table base" "\<not> usnet_tcb_isempty s" "usnet_cache_search base s = None"
    and "usnet_cache_insert base s = (base', Some p)" "\<not> usnet_tcb_isempty t"
  shows "tcb_table base' \<and> p < hb_time base * hb_len base \<and>
    usnet_cache_search base' t = (if usnet_tcb_eq t s then Some p else usnet_cache_search base t)"
proof -
  have k: "tcb_conn s \<noteq> (0, 0, 0, 0)" "tcb_conn t \<noteq> (0, 0, 0, 0)"
    using assms(2,5) tcbs.isempty_keyof by auto
  have w: "cache_fns base usnet_tcb_eq usnet_tcb_key usnet_tcb_isempty usnet_tcb_setempty"
    "cache_wf tcb_conn (0, 0, 0, 0) base" using assms(1) by (simp_all add: tcb_table_def)
  have "usnet_cache_get base s = Some p"
    using assms(4) by (auto simp: tcbs.insert_get split: option.splits)
  then have "p < hb_time base * hb_len base"
    using tcbs.get_slot[OF w(1)] w(2) cache_slot_bound[of base _ s] by (auto simp: cache_wf_def)
  then show ?thesis
    using tcbs.insert_wf[OF w k(1) assms(3,4)] tcbs.insert_search[OF w k(1) assms(3,4) k(2)] tcbs.eqfn_keyof
    by (auto simp: tcb_table_def)
qed

text \<open>Removing a connection keeps the table well formed and forgets exactly its key.\<close>

theorem tcb_remove_search:
  assumes "tcb_table base" "usnet_cache_search base s = Some p"
    and "usnet_cache_remove base (Some p) = (base', r)" "\<not> usnet_tcb_isempty s" "\<not> usnet_tcb_isempty t"
  shows "tcb_table base' \<and> r = 0 \<and>
    usnet_cache_search base' t = (if usnet_tcb_eq t s then None else usnet_cache_search base t)"
proof -
  have k: "tcb_conn s \<noteq> (0, 0, 0, 0)" "tcb_conn t \<noteq> (0, 0, 0, 0)"
    using assms(4,5) tcbs.isempty_keyof by auto
  have w: "cache_fns base usnet_tcb_eq usnet_tcb_key usnet_tcb_isempty usnet_tcb_setempty"
    "cache_wf tcb_conn (0, 0, 0, 0) base" using assms(1) by (simp_all add: tcb_table_def)
  have "tcb_conn (hb_cache base p) = tcb_conn s" using tcbs.search_iff[OF w k(1), of p] assms(2) by simp
  then show ?thesis
    using tcbs.remove_wf[OF w assms(3)] tcbs.remove_search[OF w assms(3) k(2)] tcbs.eqfn_keyof assms(3)
    by (auto simp: tcb_table_def usnet_cache_remove_def)
qed

text \<open>The table as \<^verbatim>\<open>usnet_tcb_init\<close> makes it.\<close>

lemma tcb_init_table:
  assumes "usnet_tcb_init = Some base"
  shows "tcb_table base \<and> (\<not> usnet_tcb_isempty s \<longrightarrow> usnet_cache_search base s = None)"
proof -
  have "tcb_conn zero_tcb = (0, 0, 0, 0)" by (simp add: tcb_conn_def zero_tcb_def)
  then have w: "cache_fns base usnet_tcb_eq usnet_tcb_key usnet_tcb_isempty usnet_tcb_setempty"
    "cache_wf tcb_conn (0, 0, 0, 0) base" "\<forall>p. tcb_conn (hb_cache base p) = (0, 0, 0, 0)"
    using tcbs.init_wf[OF assms[unfolded usnet_tcb_init_def]] by auto
  then show ?thesis
    using tcbs.search_None_iff[OF w(1,2), of s] tcbs.isempty_keyof by (auto simp: tcb_table_def)
qed

definition tcb_at :: "u32 \<Rightarrow> usn_tcb" where
  "tcb_at a = zero_tcb\<lparr>saddr := a, daddr := 2, sport := 3, dport := 4\<rparr>"

lemma tcb_init_insert:
  "\<exists>base base' p. usnet_tcb_init = Some base \<and> usnet_cache_insert base (tcb_at 1) = (base', Some p)"
proof -
  have "(case usnet_tcb_init of None \<Rightarrow> False
    | Some base \<Rightarrow> snd (usnet_cache_insert base (tcb_at 1)) \<noteq> None)" by code_simp
  then show ?thesis by (auto split: option.splits) (metis prod.collapse)
qed

theorem tcb_insert_search_witness:
  "\<exists>base base' p. usnet_tcb_init = Some base \<and> usnet_cache_insert base (tcb_at 1) = (base', Some p) \<and>
    usnet_cache_search base' (tcb_at 1) = Some p \<and> usnet_cache_search base' (tcb_at 9) = None"
proof -
  obtain base base' p where b: "usnet_tcb_init = Some base" "usnet_cache_insert base (tcb_at 1) = (base', Some p)"
    using tcb_init_insert by blast
  have ne: "\<not> usnet_tcb_isempty (tcb_at a)" "usnet_tcb_eq (tcb_at a) (tcb_at b) \<longleftrightarrow> a = b" for a b
    by (auto simp: usnet_tcb_isempty_def usnet_tcb_eq_def tcb_at_def)
  note i = tcb_init_table[OF b(1)]
  have "usnet_cache_search base' (tcb_at a) = (if a = 1 then Some p else None)" for a
    using tcb_insert_search[OF _ ne(1) _ b(2) ne(1), of a] i[of "tcb_at 1"] i[of "tcb_at a"] ne by auto
  then show ?thesis using b by auto
qed

theorem tcb_remove_search_witness:
  "\<exists>base base' base'' p. usnet_tcb_init = Some base \<and>
    usnet_cache_insert base (tcb_at 1) = (base', Some p) \<and> usnet_cache_search base' (tcb_at 1) = Some p \<and>
    usnet_cache_remove base' (Some p) = (base'', 0) \<and> usnet_cache_search base'' (tcb_at 1) = None"
proof -
  obtain base base' p where b: "usnet_tcb_init = Some base" "usnet_cache_insert base (tcb_at 1) = (base', Some p)"
    using tcb_init_insert by blast
  have ne: "\<not> usnet_tcb_isempty (tcb_at 1)" "tcb_conn (tcb_at 1) \<noteq> (0, 0, 0, 0)"
    by (auto simp: usnet_tcb_isempty_def tcb_conn_def tcb_at_def)
  have i: "tcb_table base" "usnet_cache_search base (tcb_at 1) = None" using tcb_init_table[OF b(1)] ne by auto
  then have i': "tcb_table base'" "usnet_cache_search base' (tcb_at 1) = Some p"
    using tcbs.insert_wf[OF _ _ ne(2) i(2) b(2)] tcbs.insert_search[OF _ _ ne(2) i(2) b(2) ne(2)]
    by (auto simp: tcb_table_def)
  obtain base'' r where r: "usnet_cache_remove base' (Some p) = (base'', r)" by fastforce
  show ?thesis using tcb_remove_search[OF i' r ne(1) ne(1)] b r i' by (auto simp: usnet_tcb_eq_def)
qed

end
