(* ===== verification/Net_Out.thy ===== *)
theory Net_Out
  imports Stack_State
begin

text \<open>
  The way down from the transport layer: checksums (\<^verbatim>\<open>utils.c\<close>, \<^verbatim>\<open>utils.h\<close>), the
  address-resolution table and its packets (\<^verbatim>\<open>arp.c\<close>), and the Ethernet and IP headers of outgoing
  packets (\<^verbatim>\<open>eth.c\<close>, \<^verbatim>\<open>ip.c\<close>). A packet is assembled in the context's 2048-byte frame buffer and handed
  to the driver; every byte of it is written before it is sent, so a frame is the list of the
  bytes written.
\<close>

section \<open>Checksums\<close>

text \<open>The 16-bit words of a buffer as the little-endian machine loads them, an odd last byte alone.\<close>

fun sum16 :: "byte list \<Rightarrow> u32" where
  "sum16 (a # b # bs) = ucast (ld16 [a, b]) + sum16 bs"
| "sum16 [a] = ucast a"
| "sum16 [] = 0"

definition fold_cksum :: "u32 \<Rightarrow> u16" where
  "fold_cksum s =
     (let s = drop_bit 16 s + (s AND 0xFFFF);
          s = s + drop_bit 16 s
      in ucast (NOT s))"

definition pseudo_sum :: "u16 \<Rightarrow> nat \<Rightarrow> u32 \<Rightarrow> u32 \<Rightarrow> u32" where
  "pseudo_sum proto len src dst =
     (src AND 0xFFFF) + drop_bit 16 src + ((dst AND 0xFFFF) + drop_bit 16 dst) +
     ucast (htons (of_nat len)) + ucast (htons proto)"

definition tcp_cksum :: "byte list \<Rightarrow> u32 \<Rightarrow> u32 \<Rightarrow> u16" where
  "tcp_cksum buf src dst = fold_cksum (sum16 buf + pseudo_sum 6 (length buf) src dst)"

definition udp_cksum :: "byte list \<Rightarrow> u32 \<Rightarrow> u32 \<Rightarrow> u16" where
  "udp_cksum buf src dst = fold_cksum (sum16 buf + pseudo_sum 17 (length buf) src dst)"

text \<open>\<^verbatim>\<open>ip_fast_csum\<close>: 32-bit additions that carry into each other (\<^verbatim>\<open>addl\<close>, \<^verbatim>\<open>adcl\<close>), folded to 16 bits.
  A header of fewer than five words returns its first word.\<close>

definition adc :: "u32 \<Rightarrow> u32 \<Rightarrow> bool \<Rightarrow> u32 \<times> bool" where
  "adc a b c =
     (let n = unat a + unat b + (if c then 1 else 0) in (of_nat n, n \<ge> 2 ^ 32))"

fun adc_words :: "byte list \<Rightarrow> u32 \<Rightarrow> bool \<Rightarrow> u32 \<times> bool" where
  "adc_words (a # b # c # d # bs) s cf = (let (s, cf) = adc s (ld32 [a, b, c, d]) cf in adc_words bs s cf)"
| "adc_words _ s cf = (s, cf)"

definition ip_fast_csum :: "byte list \<Rightarrow> nat \<Rightarrow> u16" where
  "ip_fast_csum iph ihl =
     (if ihl \<le> 4 then ucast (ld32 iph)
      else
        let (s, cf) = adc_words (take (4 * ihl - 4) (drop 4 iph)) (ld32 iph) False;
            s = fst (adc s 0 cf);
            low = unat (drop_bit 16 s) + unat (s AND 0xFFFF);
            r = (of_nat low AND 0xFFFF) + (if low \<ge> 2 ^ 16 then 1 else 0) :: u32
        in ucast (NOT r))"

section \<open>Address resolution\<close>

definition usnet_get_arp :: "usn_context \<Rightarrow> u32 \<Rightarrow> usn_arp_entry option" where
  "usnet_get_arp ctx ip = find (\<lambda>e. arp_ip e = ip) (arp_entries ctx)"

definition usnet_get_hwaddr :: "usn_context \<Rightarrow> u32 \<Rightarrow> byte list option" where
  "usnet_get_hwaddr ctx ip = map_option arp_haddr (find (\<lambda>e. arp_ip e = ip) (arp_entries ctx))"

text \<open>The table has room for \<^verbatim>\<open>MAX_ARP_ENTRIES\<close> (1024) entries and its end is not checked.\<close>

definition usnet_register_arp :: "usn_context \<Rightarrow> u32 \<Rightarrow> byte list \<Rightarrow> usn_context option" where
  "usnet_register_arp ctx ip haddr =
     (if length (arp_entries ctx) < 1024
      then Some (ctx\<lparr>arp_entries := arp_entries ctx @ [\<lparr>arp_ip = ip, arp_haddr = take 6 haddr\<rparr>]\<rparr>)
      else None)"

section \<open>Frames\<close>

definition usnet_eth_output_nm :: "usn_context \<Rightarrow> u16 \<Rightarrow> byte list \<Rightarrow> byte list" where
  "usnet_eth_output_nm ctx type haddr = take 6 haddr @ take 6 (if_hwa ctx) @ le16 type"

text \<open>\<^verbatim>\<open>usnet_send_data\<close> gives the frame buffer to the driver. What does not fit into the buffer has
  been written past its end.\<close>

definition usnet_send_data :: "usn_context \<Rightarrow> byte list \<Rightarrow> usn_context option" where
  "usnet_send_data ctx frame =
     (if length frame \<le> 2048 then Some (ctx\<lparr>tx_frames := tx_frames ctx @ [frame]\<rparr>) else None)"

definition usnet_arp_output :: "usn_context \<Rightarrow> u16 \<Rightarrow> u32 \<Rightarrow> byte list \<Rightarrow> usn_context option" where
  "usnet_arp_output ctx op dst_ip dst_haddr =
     usnet_send_data ctx
       (usnet_eth_output_nm ctx (htons 0x0806) dst_haddr @
        le16 (htons 1) @ le16 (htons 0x0800) @ [6, 4] @ le16 (htons op) @
        take 6 (if_hwa ctx) @ le32 (if_addr ctx) @ take 6 dst_haddr @ le32 dst_ip)"

definition usnet_arp_request :: "usn_context \<Rightarrow> u32 \<Rightarrow> usn_context option" where
  "usnet_arp_request ctx ip = usnet_arp_output ctx 1 ip (replicate 6 0xFF)"

definition ip_header :: "u16 \<Rightarrow> u16 \<Rightarrow> u16 \<Rightarrow> u8 \<Rightarrow> u8 \<Rightarrow> u16 \<Rightarrow> u32 \<Rightarrow> u32 \<Rightarrow> byte list" where
  "ip_header len ident off ttl proto csum src dst =
     [0x45, 0] @ le16 (htons len) @ le16 ident @ le16 off @ [ttl, proto] @ le16 csum @ le32 src @ le32 dst"

text \<open>The header with its checksum, computed over the header with a zero checksum field.\<close>

definition ip_sealed :: "u16 \<Rightarrow> u16 \<Rightarrow> u16 \<Rightarrow> u8 \<Rightarrow> u8 \<Rightarrow> u32 \<Rightarrow> u32 \<Rightarrow> byte list" where
  "ip_sealed len ident off ttl proto src dst =
     ip_header len ident off ttl proto
       (ip_fast_csum (ip_header len ident off ttl proto 0 src dst) 5) src dst"

text \<open>The two output functions return the Ethernet and IP headers in front of which the caller
  stands, or \<open>None\<close> for the null pointer when the destination is not resolved (after asking for
  it).\<close>

definition usnet_ipv4_output_alone ::
  "usn_context \<Rightarrow> u16 \<Rightarrow> u8 \<Rightarrow> u32 \<Rightarrow> u32 \<Rightarrow> nat \<Rightarrow> (usn_context \<times> byte list option) option" where
  "usnet_ipv4_output_alone ctx ident proto src dst len =
     (case usnet_get_hwaddr ctx dst of
        None \<Rightarrow> do { ctx \<leftarrow> usnet_arp_request ctx dst; Some (ctx, None) }
      | Some haddr \<Rightarrow>
          Some (ctx, Some (usnet_eth_output_nm ctx (htons 0x0800) haddr @
            ip_sealed (of_nat (len + 20)) ident 0 255 proto src dst)))"

definition usnet_ipv4_output ::
  "usn_context \<Rightarrow> nat \<Rightarrow> nat \<Rightarrow> (usn_context \<times> byte list option) option" where
  "usnet_ipv4_output ctx p iplen =
     (let tcb = tcb_of ctx p in
      case usnet_get_hwaddr ctx (daddr tcb) of
        None \<Rightarrow> do { ctx \<leftarrow> usnet_arp_request ctx (daddr tcb); Some (ctx, None) }
      | Some haddr \<Rightarrow>
          let hdr = usnet_eth_output_nm ctx (htons 0x0800) haddr @
                ip_sealed (20 + of_nat iplen) (htons (ip_id (sndvar tcb))) (htons 0x4000) 64 6
                  (saddr tcb) (daddr tcb)
          in Some (upd_snd p (\<lambda>s. s\<lparr>ip_id := ip_id s + 1\<rparr>) ctx, Some hdr))"

lemma length_ip_header [simp]: "length (ip_header len ident off ttl proto csum src dst) = 20"
  by (simp add: ip_header_def)

lemma length_ip_sealed [simp]: "length (ip_sealed len ident off ttl proto src dst) = 20"
  by (simp add: ip_sealed_def)

section \<open>A sealed segment verifies\<close>

text \<open>The folded sum as arithmetic: the sum modulo 65535, where a nonzero sum never folds to zero.\<close>

definition fold16 :: "nat \<Rightarrow> nat" where
  "fold16 n = (if n = 0 then 0 else (n - 1) mod 65535 + 1)"

lemma unat_and_ffff: "unat (w AND 0xFFFF :: u32) = unat w mod 65536"
proof -
  have "w AND 0xFFFF = take_bit 16 w" by (simp add: take_bit_eq_mask mask_eq_exp_minus_1)
  then show ?thesis by (simp add: unsigned_take_bit_eq take_bit_nat_def)
qed

lemma unat_drop16: "unat (drop_bit 16 w :: u32) = unat w div 65536"
  using unat_u32_lt[of w] by (simp add: unsigned_drop_bit_eq drop_bit_nat_def take_bit_nat_eq_self)

lemma unat_ucast_not: "unat (ucast (NOT (w :: u32)) :: u16) = 65535 - unat w mod 65536"
proof -
  have "(ucast (NOT w) :: u16) = NOT (ucast w)"
    by (rule bit_word_eqI) (simp add: bit_simps)
  moreover have "unat (NOT (v :: u16)) = 65535 - unat v" for v
  proof -
    have "NOT v = - 1 - v" by (simp add: not_eq_complement)
    moreover have m: "unat (- 1 :: u16) = 65535"
      by (simp add: unsigned_minus_1_eq_mask mask_eq_exp_minus_1)
    moreover have "unat (- 1 - v) = unat (- 1 :: u16) - unat v"
      using unat_u16_lt[of v] m by (simp add: unat_sub_if')
    ultimately show ?thesis by simp
  qed
  moreover have "unat (ucast w :: u16) = unat w mod 65536"
    by (simp add: unsigned_ucast_eq take_bit_nat_def)
  ultimately show ?thesis by simp
qed

lemma fold16_step:
  assumes "n < 2 ^ 32"
  shows "(let s = n div 65536 + n mod 65536 in (s + s div 65536) mod 65536) = fold16 n"
proof -
  define s where "s = n div 65536 + n mod 65536"
  have n: "n = n div 65536 * 65536 + n mod 65536" by simp
  then have s: "n = s + n div 65536 * 65535" unfolding s_def by linarith
  have "n div 65536 < 65536" "n mod 65536 < 65536" using assms by (simp_all add: less_mult_imp_div_less)
  then have b: "s \<le> 131070" unfolding s_def by linarith
  have z: "s = 0 \<longleftrightarrow> n = 0" using s b unfolding s_def by auto
  show ?thesis
  proof (cases "s = 0")
    case True
    then show ?thesis using z by (simp add: fold16_def s_def[symmetric])
  next
    case False
    have "(n - 1) mod 65535 = (s - 1 + n div 65536 * 65535) mod 65535"
      using s False by (metis Nat.add_diff_assoc2 One_nat_def Suc_leI gr0I)
    then have m: "(n - 1) mod 65535 = (s - 1) mod 65535" by simp
    have "(s + s div 65536) mod 65536 = (s - 1) mod 65535 + 1"
    proof (cases "s < 65536")
      case True
      then show ?thesis using False by (cases "s = 65535 + 0") auto
    next
      case f: False
      then have "s div 65536 = 1" using b by simp
      moreover have "(s + 1) mod 65536 = s - 65535" using f b by (simp add: le_mod_geq)
      moreover have "(s - 1) mod 65535 = s - 65536" using f b by (simp add: le_mod_geq)
      ultimately show ?thesis using f by simp
    qed
    then show ?thesis using False z m by (simp add: fold16_def s_def[symmetric])
  qed
qed

lemma unat_fold_cksum: "unat (fold_cksum w) = 65535 - fold16 (unat w)"
proof -
  define s where "s = drop_bit 16 w + (w AND 0xFFFF)"
  have lt: "unat w < 2 ^ 32" by (rule unat_u32_lt)
  have us: "unat s = unat w div 65536 + unat w mod 65536"
    unfolding s_def using lt by (subst unat_add_u32) (auto simp: unat_drop16 unat_and_ffff)
  have "unat (s + drop_bit 16 s) = unat s + unat s div 65536"
    using us lt by (subst unat_add_u32) (auto simp: unat_drop16)
  then have "unat (s + drop_bit 16 s) mod 65536 = fold16 (unat w)"
    using fold16_step[OF lt] us by (simp add: Let_def)
  then show ?thesis
    by (simp add: fold_cksum_def Let_def s_def[symmetric] unat_ucast_not)
qed

lemma fold16_form:
  assumes "0 < n"
  obtains q r where "n = q * 65535 + r + 1" "r < 65535" "fold16 n = r + 1"
proof -
  have "n - 1 = (n - 1) div 65535 * 65535 + (n - 1) mod 65535" by simp
  then have "n = (n - 1) div 65535 * 65535 + (n - 1) mod 65535 + 1" using assms by linarith
  then show ?thesis
    using that[of "(n - 1) div 65535" "(n - 1) mod 65535"] assms by (simp add: fold16_def)
qed

lemma fold16_le: "fold16 n \<le> 65535"
  by (cases "n = 0") (auto simp: fold16_def elim: fold16_form[of n])

lemma fold16_seal:
  assumes "0 < n" shows "fold16 (n + (65535 - fold16 n)) = 65535"
proof -
  obtain q r where q: "n = q * 65535 + r + 1" "r < 65535" "fold16 n = r + 1"
    using fold16_form[OF assms] .
  have "n + (65535 - fold16 n) = q * 65535 + 65535" unfolding q(3) using q(1,2) by simp
  moreover have "(q * 65535 + 65534) mod 65535 = (65534 :: nat)" by simp
  ultimately show ?thesis by (simp add: fold16_def)
qed

lemma unat_ucast_u8 [simp]: "unat (ucast (w :: u8) :: u32) = unat w"
proof -
  have "unat w < 2 ^ 8" by (rule order.strict_trans2[OF unsigned_less]) simp
  then show ?thesis by (simp add: unsigned_ucast_eq take_bit_nat_eq_self)
qed

lemma sum16_bound: "length bs \<le> 65535 \<Longrightarrow> unat (sum16 bs) \<le> 65535 * ((length bs + 1) div 2)"
proof (induction bs rule: sum16.induct)
  case (1 a b bs)
  have IH: "unat (sum16 bs) \<le> 65535 * ((length bs + 1) div 2)" using 1 by simp
  have "(length bs + 1) div 2 \<le> 32767" using "1.prems" by simp
  then have "65535 * ((length bs + 1) div 2) \<le> 65535 * 32767" by (intro mult_left_mono) auto
  then have "unat (sum16 (a # b # bs)) = unat (ld16 [a, b]) + unat (sum16 bs)"
    using IH unat_u16_lt[of "ld16 [a, b]"] by (simp only: sum16.simps) (subst unat_add_u32, auto)
  also have "\<dots> \<le> 65535 + 65535 * ((length bs + 1) div 2)"
    using IH unat_u16_lt[of "ld16 [a, b]"] by simp
  finally show ?case by simp
next
  case (2 a)
  have "unat a < 2 ^ 8" by (rule order.strict_trans2[OF unsigned_less]) simp
  then show ?case by simp
qed simp

lemma sum16_append: "even (length a) \<Longrightarrow> sum16 (a @ b) = sum16 a + sum16 b"
  by (induction a rule: sum16.induct) auto

lemma sum16_le16: "sum16 (le16 v) = ucast v"
proof -
  have "sum16 (le16 v) = ucast (ld16 (le16 v))" by (simp add: le16_def)
  then show ?thesis by simp
qed

lemma pseudo_sum_bound:
  "unat (pseudo_sum proto len src dst) \<le> 6 * 65535" (is "unat ?p \<le> _")
  "unat (htons proto) \<le> unat (pseudo_sum proto len src dst)"
proof -
  define t where "t = (src AND 0xFFFF) + drop_bit 16 src + ((dst AND 0xFFFF) + drop_bit 16 dst) +
    ucast (htons (of_nat len))"
  have lt: "unat (w AND 0xFFFF :: u32) \<le> 65535" "unat (drop_bit 16 w :: u32) \<le> 65535" for w
    using unat_u32_lt[of w] less_mult_imp_div_less[of "unat w" 65536 65536]
    by (simp_all add: unat_and_ffff unat_drop16)
  have l16: "unat (v :: u16) \<le> 65535" for v using unat_u16_lt[of v] by simp
  have two: "unat ((w AND 0xFFFF) + drop_bit 16 w :: u32) \<le> 131070" for w
    using lt[of w] by (subst unat_add_u32) auto
  have "unat ((src AND 0xFFFF) + drop_bit 16 src + ((dst AND 0xFFFF) + drop_bit 16 dst)) \<le> 262140"
    using two[of src] two[of dst] by (subst unat_add_u32) auto
  then have t: "unat t \<le> 5 * 65535"
    unfolding t_def using l16[of "htons (of_nat len)"] by (subst unat_add_u32) auto
  have p: "unat ?p = unat t + unat (htons proto)"
    unfolding pseudo_sum_def t_def[symmetric] using t l16[of "htons proto"] by (subst unat_add_u32) auto
  show "unat ?p \<le> 6 * 65535" "unat (htons proto) \<le> unat ?p" using p t l16[of "htons proto"] by auto
qed

text \<open>The checksum put into a field at an even offset makes the receiver's sum come out as zero.\<close>

lemma cksum_seal:
  assumes even: "even (length a)" and len: "length a + 2 + length b \<le> 65535"
    and c: "c = fold_cksum (sum16 (a @ le16 0 @ b) + pseudo_sum proto n src dst)" and pr: "htons proto \<noteq> 0"
  shows "fold_cksum (sum16 (a @ le16 c @ b) + pseudo_sum proto n src dst) = 0"
proof -
  define T where "T = sum16 (a @ le16 0 @ b) + pseudo_sum proto n src dst"
  have w: "sum16 (a @ le16 v @ b) = sum16 (a @ b) + ucast v" for v
    using even by (simp add: sum16_append sum16_le16)
  have "unat (sum16 (a @ le16 0 @ b)) \<le> 65535 * 32768"
    using sum16_bound[of "a @ le16 0 @ b"] len by simp
  then have uT: "unat T = unat (sum16 (a @ le16 0 @ b)) + unat (pseudo_sum proto n src dst)"
    and lT: "unat T \<le> 65535 * 32774"
    using pseudo_sum_bound(1)[of proto n src dst] unfolding T_def by (subst unat_add_u32; simp)+
  have "0 < unat (htons proto)" using pr by (simp add: unat_gt_0)
  then have pos: "0 < unat T" using uT pseudo_sum_bound(2)[of proto n src dst] by linarith
  have uc: "unat c = 65535 - fold16 (unat T)" unfolding c T_def[symmetric] by (rule unat_fold_cksum)
  have "sum16 (a @ le16 c @ b) + pseudo_sum proto n src dst = T + ucast c"
    unfolding T_def w by simp
  moreover have "unat (T + ucast c) = unat T + (65535 - fold16 (unat T))"
    using lT uc by (subst unat_add_u32) auto
  ultimately have "unat (fold_cksum (sum16 (a @ le16 c @ b) + pseudo_sum proto n src dst)) = 0"
    using fold16_seal[OF pos] by (simp add: unat_fold_cksum)
  then show ?thesis by (simp add: unat_eq_0)
qed

section \<open>The checksum of an IP header\<close>

lemma fold16_cong:
  assumes "m = 0 \<longleftrightarrow> n = 0" "m mod 65535 = n mod 65535"
  shows "fold16 m = fold16 n"
proof (cases "n = 0")
  case False
  then have "0 < m" "0 < n" using assms(1) by auto
  then obtain q r q' r' where r: "m = q * 65535 + r + 1" "r < 65535" "fold16 m = r + 1"
      "n = q' * 65535 + r' + 1" "r' < 65535" "fold16 n = r' + 1"
    using fold16_form by metis
  have "m mod 65535 = (r + 1) mod 65535" "n mod 65535 = (r' + 1) mod 65535"
    unfolding r(1,4) add.assoc by (simp_all only: mod_mult_self3)
  then have "(r + 1) mod 65535 = (r' + 1) mod 65535" using assms(2) by simp
  then have "r = r'" using r(2,5) by (cases "r = 65534"; cases "r' = 65534") simp_all
  then show ?thesis using r by simp
qed (use assms in \<open>simp add: fold16_def\<close>)

lemma unat_ld32: "unat (ld32 [a, b, c, d]) = unat (ld16 [a, b]) + 65536 * unat (ld16 [c, d])"
proof -
  let ?l = "ucast (ld16 [a, b]) :: u32" and ?h = "push_bit 16 (ucast (ld16 [c, d])) :: u32"
  have e: "ld32 [a, b, c, d] = ?l OR ?h" by (rule bit_word_eqI) (auto simp: bit_simps bit_u8_high)
  have "\<not> bit ?l n \<or> \<not> bit ?h n" for n by (auto simp: bit_simps)
  then have s: "?l OR ?h = ?l + ?h" by (rule disjunctive_add[symmetric])
  have h: "unat ?h = 65536 * unat (ld16 [c, d])"
    using unat_u16_lt[of "ld16 [c, d]"]
    by (simp add: unsigned_push_bit_eq take_bit_nat_eq_self push_bit_nat_def unsigned_ucast_eq)
  show ?thesis unfolding e s using h unat_u16_lt[of "ld16 [c, d]"] unat_u16_lt[of "ld16 [a, b]"]
    by (subst unat_add_u32) (simp_all add: unsigned_ucast_eq take_bit_nat_eq_self)
qed

lemma unat_sum16_word:
  assumes "length bs \<le> 1000"
  shows "unat (sum16 (a # b # c # d # bs)) = unat (ld16 [a, b]) + unat (ld16 [c, d]) + unat (sum16 bs)"
proof -
  have b: "unat (sum16 bs) \<le> 65535 * 501"
  proof -
    have "(length bs + 1) div 2 \<le> 501" using assms by linarith
    then show ?thesis using sum16_bound[of bs] assms by linarith
  qed
  then have "unat (ucast (ld16 [c, d]) + sum16 bs) = unat (ld16 [c, d]) + unat (sum16 bs)"
    using unat_u16_lt[of "ld16 [c, d]"] by (subst unat_add_u32) (simp_all add: unsigned_ucast_eq take_bit_nat_eq_self)
  then show ?thesis
    using b unat_u16_lt[of "ld16 [c, d]"] unat_u16_lt[of "ld16 [a, b]"]
    by (simp only: sum16.simps) (subst unat_add_u32, simp_all add: unsigned_ucast_eq take_bit_nat_eq_self)
qed

text \<open>The value of an accumulator with its carry.\<close>

definition acc :: "u32 \<times> bool \<Rightarrow> nat" where
  "acc x = unat (fst x) + of_bool (snd x)"

definition acc_ok :: "u32 \<times> bool \<Rightarrow> bool" where
  "acc_ok x \<longleftrightarrow> (snd x \<longrightarrow> unat (fst x) \<le> 2 ^ 32 - 2)"

lemma adc_acc:
  assumes "acc_ok (s, cf)"
  shows "acc_ok (adc s w cf) \<and> acc (adc s w cf) mod 65535 = (acc (s, cf) + unat w) mod 65535 \<and>
    (acc (adc s w cf) = 0 \<longleftrightarrow> acc (s, cf) + unat w = 0)"
proof -
  define n where "n = unat s + unat w + of_bool cf"
  have n: "n \<le> 2 * (2 ^ 32 - 1)"
    using unat_u32_lt[of s] unat_u32_lt[of w] assms unfolding n_def acc_ok_def by (cases cf) auto
  have e: "adc s w cf = (of_nat n, n \<ge> 2 ^ 32)" by (simp add: adc_def n_def)
  have a: "acc (s, cf) + unat w = n" by (simp add: acc_def n_def)
  show ?thesis
  proof (cases "n < 2 ^ 32")
    case True
    then show ?thesis unfolding a e by (simp add: acc_def acc_ok_def unat_of_nat)
  next
    case False
    then obtain m where m: "n = 4294967296 + m" using le_Suc_ex[of 4294967296 n] by auto
    have u: "unat (of_nat n :: u32) = m" unfolding unat_of_nat m using n m by simp
    have "(4294967296 + m) mod 65535 = (m + 1 + 65537 * 65535) mod 65535" by (simp add: add.commute)
    then have "(4294967296 + m) mod 65535 = (m + 1) mod 65535" by (simp only: mod_mult_self1)
    then show ?thesis unfolding a e using u n False by (simp add: acc_def acc_ok_def m)
  qed
qed

lemma adc_words_acc:
  assumes "4 dvd length bs" "length bs \<le> 1000" "acc_ok (s, cf)"
  shows "acc_ok (adc_words bs s cf) \<and>
    acc (adc_words bs s cf) mod 65535 = (acc (s, cf) + unat (sum16 bs)) mod 65535 \<and>
    (acc (adc_words bs s cf) = 0 \<longleftrightarrow> acc (s, cf) + unat (sum16 bs) = 0)"
  using assms
proof (induction bs s cf rule: adc_words.induct)
  case (1 a b c d bs s cf)
  obtain s' cf' where x: "adc s (ld32 [a, b, c, d]) cf = (s', cf')" by fastforce
  note st = adc_acc[OF 1(4), of "ld32 [a, b, c, d]", unfolded x]
  have len: "4 dvd length bs" "length bs \<le> 1000" using 1(2,3) by (simp_all, presburger)
  note ih = 1(1)[OF x[symmetric] refl len] 
  let ?l = "unat (ld16 [a, b])" and ?h = "unat (ld16 [c, d])"
  have m: "(acc (s, cf) + (?l + 65536 * ?h)) mod 65535 = (acc (s, cf) + (?l + ?h)) mod 65535"
  proof -
    have "acc (s, cf) + (?l + 65536 * ?h) = acc (s, cf) + (?l + ?h) + ?h * 65535" by simp
    then show ?thesis by (simp only: mod_mult_self1)
  qed
  have ok: "acc_ok (s', cf')" and eq: "acc (s', cf') mod 65535 = (acc (s, cf) + (?l + ?h)) mod 65535"
    and z: "acc (s', cf') = 0 \<longleftrightarrow> acc (s, cf) + (?l + ?h) = 0"
    using st m unfolding unat_ld32 by simp_all
  have w: "adc_words (a # b # c # d # bs) s cf = adc_words bs s' cf'" by (simp add: x del: ld32.simps)
  have sm: "acc (s, cf) + unat (sum16 (a # b # c # d # bs)) = acc (s, cf) + (?l + ?h) + unat (sum16 bs)"
    using unat_sum16_word[OF len(2), of a b c d] by linarith
  have "(acc (s', cf') + unat (sum16 bs)) mod 65535 = (acc (s, cf) + (?l + ?h) + unat (sum16 bs)) mod 65535"
    by (rule mod_add_cong[OF eq refl])
  moreover have "acc (s', cf') + unat (sum16 bs) = 0 \<longleftrightarrow> acc (s, cf) + (?l + ?h) + unat (sum16 bs) = 0"
    using z by linarith
  ultimately show ?case using ih[OF ok] unfolding w sm by simp
qed (auto dest!: dvd_imp_le)

text \<open>The 16-bit fold at the end of the routine.\<close>

lemma fold_low:
  fixes s :: u32
  defines "low \<equiv> unat (drop_bit 16 s) + unat (s AND 0xFFFF)"
  shows "unat (ucast (NOT ((of_nat low AND 0xFFFF) + (if low \<ge> 2 ^ 16 then 1 else 0) :: u32)) :: u16) =
    65535 - fold16 (unat s)"
proof -
  have l: "low = unat s div 65536 + unat s mod 65536" by (simp add: low_def unat_drop16 unat_and_ffff)
  have "unat s div 65536 < 65536" "unat s mod 65536 < 65536"
    using unat_u32_lt[of s] by (simp_all add: less_mult_imp_div_less)
  then have b: "low < 131072" unfolding l by linarith
  have "unat (of_nat low :: u32) = low" using b by (simp add: unat_of_nat)
  then have m: "unat (of_nat low AND 0xFFFF :: u32) = low mod 65536" by (simp add: unat_and_ffff)
  have "unat ((of_nat low AND 0xFFFF) + (if low \<ge> 2 ^ 16 then 1 else 0) :: u32) = low mod 65536 + low div 65536"
    using m b by (subst unat_add_u32) auto
  then have "unat ((of_nat low AND 0xFFFF) + (if low \<ge> 2 ^ 16 then 1 else 0) :: u32) mod 65536 = fold16 (unat s)"
    using fold16_step[OF unat_u32_lt[of s]] by (simp add: l[symmetric] Let_def mod_add_left_eq)
  then show ?thesis by (simp only: unat_ucast_not)
qed

lemma unat_ip_fast_csum:
  assumes "5 \<le> ihl" "ihl \<le> 15" "4 * ihl \<le> length iph"
  shows "unat (ip_fast_csum iph ihl) = 65535 - fold16 (unat (sum16 (take (4 * ihl) iph)))"
proof -
  obtain a b c d bs where h: "take (4 * ihl) iph = a # b # c # d # bs" and len: "length bs = 4 * (ihl - 1)"
  proof -
    have "length (take (4 * ihl) iph) = 4 * ihl" using assms(3) by simp
    then show ?thesis using assms(1) that
      by (cases "take (4 * ihl) iph" rule: ld32.cases) auto
  qed
  have "iph = a # b # c # d # bs @ drop (4 * ihl) iph" using append_take_drop_id[of "4 * ihl" iph] h by simp
  then have w: "ld32 iph = ld32 [a, b, c, d]" by (metis ld32.simps(1))
  have t: "take (4 * ihl - 4) (drop 4 iph) = bs" using arg_cong[OF h, of "drop 4"] by (simp add: drop_take)
  obtain s cf where x: "adc_words bs (ld32 [a, b, c, d]) False = (s, cf)" by fastforce
  let ?l = "unat (ld16 [a, b])" and ?h = "unat (ld16 [c, d])"
  have l4: "4 dvd length bs" "length bs \<le> 1000" using len assms(2) by simp_all
  have acc0: "acc (ld32 [a, b, c, d], False) = ?l + 65536 * ?h" by (simp add: acc_def unat_ld32 del: ld32.simps ld16.simps)
  have r: "acc_ok (s, cf)" "acc (s, cf) mod 65535 = (?l + 65536 * ?h + unat (sum16 bs)) mod 65535"
    "acc (s, cf) = 0 \<longleftrightarrow> ?l + 65536 * ?h + unat (sum16 bs) = 0"
    using adc_words_acc[OF l4, of "ld32 [a, b, c, d]" False] unfolding x acc0
    by (simp_all add: acc_ok_def del: ld16.simps)
  have sm: "unat (sum16 (a # b # c # d # bs)) = ?l + ?h + unat (sum16 bs)" using unat_sum16_word[OF l4(2)] .
  have "?l + 65536 * ?h + unat (sum16 bs) = ?l + ?h + unat (sum16 bs) + ?h * 65535" by simp
  then have "acc (s, cf) mod 65535 = unat (sum16 (a # b # c # d # bs)) mod 65535"
    unfolding r(2) sm by (simp only: mod_mult_self1)
  moreover have "acc (s, cf) = 0 \<longleftrightarrow> unat (sum16 (a # b # c # d # bs)) = 0" unfolding r(3) sm by linarith
  ultimately have f: "fold16 (acc (s, cf)) = fold16 (unat (sum16 (a # b # c # d # bs)))" by (intro fold16_cong)
  have "acc (s, cf) < 2 ^ 32" using r(1) unat_u32_lt[of s] by (cases cf) (simp_all add: acc_def acc_ok_def)
  then have u: "unat (fst (adc s 0 cf)) = acc (s, cf)"
    unfolding adc_def acc_def Let_def fst_conv snd_conv unat_of_nat by (cases cf) simp_all
  have "unat (ip_fast_csum iph ihl) = 65535 - fold16 (unat (fst (adc s 0 cf)))"
    using assms(1) fold_low[of "fst (adc s 0 cf)"] unfolding ip_fast_csum_def t w x Let_def by simp
  also have "\<dots> = 65535 - fold16 (unat (sum16 (take (4 * ihl) iph)))" unfolding h u f ..
  finally show ?thesis .
qed

text \<open>C16. The assembler routine for the checksum of an IP header (32-bit additions with carry, folded at the
  end) computes the Internet checksum: the complement of the folded sum of the header's 16-bit words.\<close>

theorem ip_fast_csum_equiv:
  assumes "5 \<le> ihl" "ihl \<le> 15" "4 * ihl \<le> length iph"
  shows "ip_fast_csum iph ihl = fold_cksum (sum16 (take (4 * ihl) iph))"
  using unat_ip_fast_csum[OF assms] by (simp only: word_unat_eq_iff unat_fold_cksum)

theorem ip_fast_csum_equiv_witness:
  "ip_fast_csum [0x45, 0, 0, 40, 0, 0, 0x40, 0, 64, 6, 0, 0, 10, 0, 0, 1, 10, 0, 0, 2] 5 =
    fold_cksum (sum16 [0x45, 0, 0, 40, 0, 0, 0x40, 0, 64, 6, 0, 0, 10, 0, 0, 1, 10, 0, 0, 2])"
  using ip_fast_csum_equiv[of 5 "[0x45, 0, 0, 40, 0, 0, 0x40, 0, 64, 6, 0, 0, 10, 0, 0, 1, 10, 0, 0, 2]"] by simp

lemma seal_sum:
  assumes "even (length a)" "0 < unat (sum16 (a @ le16 0 @ b))" "length a + 2 + length b \<le> 1000"
    "c = fold_cksum (sum16 (a @ le16 0 @ b))"
  shows "fold_cksum (sum16 (a @ le16 c @ b)) = 0"
proof -
  define T where "T = sum16 (a @ le16 0 @ b)"
  have "(length (a @ le16 0 @ b) + 1) div 2 \<le> 501" using assms(3) by simp
  then have b: "unat T \<le> 65535 * 501"
    using sum16_bound[of "a @ le16 0 @ b"] assms(3) unfolding T_def length_append length_le16 by linarith
  have uc: "unat c = 65535 - fold16 (unat T)" unfolding assms(4) T_def[symmetric] by (rule unat_fold_cksum)
  have "sum16 (a @ le16 c @ b) = T + ucast c"
    using assms(1) by (simp add: T_def sum16_append sum16_le16)
  moreover have "unat (T + ucast c) = unat T + (65535 - fold16 (unat T))"
    using b uc by (subst unat_add_u32) auto
  ultimately have "unat (fold_cksum (sum16 (a @ le16 c @ b))) = 0"
    using fold16_seal[OF assms(2)] by (simp add: unat_fold_cksum T_def)
  then show ?thesis by (simp add: unat_eq_0)
qed

text \<open>The checksum the stack writes into an IP header is accepted by the check it applies to incoming
  headers.\<close>

theorem ip_sealed_verifies:
  "ip_fast_csum (ip_sealed len ident off ttl proto src dst) 5 = 0"
proof -
  let ?a = "[0x45, 0] @ le16 (htons len) @ le16 ident @ le16 off @ [ttl, proto]" and ?b = "le32 src @ le32 dst"
  have h: "ip_header len ident off ttl proto v src dst = ?a @ le16 v @ ?b" for v by (simp add: ip_header_def)
  have l: "even (length ?a)" "length ?a + 2 + length ?b = 20" by simp_all
  have c: "ip_fast_csum (?a @ le16 v @ ?b) 5 = fold_cksum (sum16 (?a @ le16 v @ ?b))" for v
    using unat_ip_fast_csum[of 5 "?a @ le16 v @ ?b"] by (simp add: word_unat_eq_iff unat_fold_cksum)
  have "0 < unat (sum16 (?a @ le16 0 @ ?b))"
  proof -
    have "\<exists>r. ?a @ le16 0 @ ?b = 0x45 # 0 # r \<and> length r = 18" by simp
    then obtain r where r: "?a @ le16 0 @ ?b = 0x45 # 0 # r" "length r = 18" by blast
    then obtain c d r' where r': "r = c # d # r'" "length r' = 16" by (cases r rule: sum16.cases) auto
    show ?thesis unfolding r(1) r'(1) using r'(2) by (subst unat_sum16_word) auto
  qed
  from seal_sum[OF l(1) this _ refl] show ?thesis unfolding ip_sealed_def h c using l(2) by simp
qed

end
