(* ===== verification/Conn_Lists.thy ===== *)
theory Conn_Lists
  imports Stack_State
begin

text \<open>
  The queues through which the stack schedules its connections: the control, send and ack lists
  of \<^verbatim>\<open>tcp_out.c\<close> and the timeout, timewait and retransmission lists of \<^verbatim>\<open>timer.c\<close>. Every queue comes
  with a flag in the connection and a counter in the context. The theory models all insertions
  and removals, states the consistency of queue, flag and counter (\<open>lists_ok\<close>), and shows that
  every operation keeps it and cannot corrupt a link while it holds.
\<close>

section \<open>Control, send and ack lists\<close>

text \<open>The branch of \<^verbatim>\<open>usnet_add_control_list\<close> taken when the control segment could not be sent at once; the whole
  function follows in \<open>Tcp_Out\<close>.\<close>

definition control_enqueue :: "usn_context \<Rightarrow> nat \<Rightarrow> usn_context option" where
  "control_enqueue ctx p =
     (if \<not> on_control_list (snd_of ctx p) then do {
        let ctx = upd_snd p (\<lambda>s. s\<lparr>on_control_list := True\<rparr>) ctx;
        l \<leftarrow> TAILQ_INSERT_TAIL p (control_list ctx);
        Some (ctx\<lparr>control_list := l, control_list_cnt := control_list_cnt ctx + 1\<rparr>)
      } else Some ctx)"

definition usnet_remove_control_list :: "usn_context \<Rightarrow> nat \<Rightarrow> usn_context option" where
  "usnet_remove_control_list ctx p =
     (if on_control_list (snd_of ctx p) then do {
        let ctx = upd_snd p (\<lambda>s. s\<lparr>on_control_list := False\<rparr>) ctx;
        l \<leftarrow> TAILQ_REMOVE p (control_list ctx);
        Some (ctx\<lparr>control_list := l, control_list_cnt := control_list_cnt ctx - 1\<rparr>)
      } else Some ctx)"

definition usnet_remove_send_list :: "usn_context \<Rightarrow> nat \<Rightarrow> usn_context option" where
  "usnet_remove_send_list ctx p =
     (if on_send_list (snd_of ctx p) then do {
        let ctx = upd_snd p (\<lambda>s. s\<lparr>on_send_list := False\<rparr>) ctx;
        l \<leftarrow> TAILQ_REMOVE p (send_list ctx);
        Some (ctx\<lparr>send_list := l, send_list_cnt := send_list_cnt ctx - 1\<rparr>)
      } else Some ctx)"

definition usnet_add_send_list :: "usn_context \<Rightarrow> nat \<Rightarrow> usn_context option" where
  "usnet_add_send_list ctx p =
     (if sndbuf (snd_of ctx p) = None then Some ctx
      else if \<not> on_send_list (snd_of ctx p) then do {
        let ctx = upd_snd p (\<lambda>s. s\<lparr>on_send_list := True\<rparr>) ctx;
        l \<leftarrow> TAILQ_INSERT_TAIL p (send_list ctx);
        Some (ctx\<lparr>send_list := l, send_list_cnt := send_list_cnt ctx + 1\<rparr>)
      } else Some ctx)"

definition usnet_add_ack_list :: "usn_context \<Rightarrow> nat \<Rightarrow> usn_context option" where
  "usnet_add_ack_list ctx p =
     (if \<not> on_ack_list (snd_of ctx p) then do {
        let ctx = upd_snd p (\<lambda>s. s\<lparr>on_ack_list := True\<rparr>) ctx;
        l \<leftarrow> TAILQ_INSERT_TAIL p (ack_list ctx);
        Some (ctx\<lparr>ack_list := l, ack_list_cnt := ack_list_cnt ctx + 1\<rparr>)
      } else Some ctx)"

definition usnet_remove_ack_list :: "usn_context \<Rightarrow> nat \<Rightarrow> usn_context option" where
  "usnet_remove_ack_list ctx p =
     (if on_ack_list (snd_of ctx p) then do {
        let ctx = upd_snd p (\<lambda>s. s\<lparr>on_ack_list := False\<rparr>) ctx;
        l \<leftarrow> TAILQ_REMOVE p (ack_list ctx);
        Some (ctx\<lparr>ack_list := l, ack_list_cnt := ack_list_cnt ctx - 1\<rparr>)
      } else Some ctx)"

datatype ack_opt = ACK_OPT_NOW | ACK_OPT_AGGREGATE | ACK_OPT_WACK

text \<open>\<^verbatim>\<open>usnet_enqueue_ack\<close>. The guard of the first case compares values promoted to \<^verbatim>\<open>int\<close> and always
  holds, so the 6-bit counter wraps.\<close>

definition usnet_enqueue_ack :: "usn_context \<Rightarrow> nat \<Rightarrow> ack_opt \<Rightarrow> usn_context option" where
  "usnet_enqueue_ack ctx p opt =
     usnet_add_ack_list
       (case opt of
          ACK_OPT_NOW \<Rightarrow> upd_snd p (\<lambda>s. s\<lparr>ack_cnt := ack_cnt s + 1\<rparr>) ctx
        | ACK_OPT_AGGREGATE \<Rightarrow>
            if ack_cnt (snd_of ctx p) = 0 then upd_snd p (\<lambda>s. s\<lparr>ack_cnt := 1\<rparr>) ctx else ctx
        | ACK_OPT_WACK \<Rightarrow> upd_snd p (\<lambda>s. s\<lparr>is_wack := True\<rparr>) ctx) p"

section \<open>Timer lists\<close>

abbreviation RTO_HASH :: nat where
  "RTO_HASH \<equiv> 3000"

definition usnet_rtohash_init :: "usn_context \<Rightarrow> usn_context" where
  "usnet_rtohash_init ctx = ctx\<lparr>rto_now_idx := 0, rto_now_ts := 0, rto_list := (\<lambda>_. [])\<rparr>"

definition usnet_add_rto_list :: "usn_context \<Rightarrow> nat \<Rightarrow> usn_context option" where
  "usnet_add_rto_list ctx p =
     (let ctx = (if rto_list_cnt ctx = 0
                 then ctx\<lparr>rto_now_idx := 0, rto_now_ts := ts_rto (snd_of ctx p)\<rparr> else ctx)
      in if on_rto_idx (tcb_of ctx p) < 0 then
           (if on_timewait_list (tcb_of ctx p) then Some ctx
            else
              let diff = sint (ts_rto (snd_of ctx p) - rto_now_ts ctx);
                  offset = (if diff < int RTO_HASH
                            then unat ((of_int diff + rto_now_idx ctx) mod of_nat RTO_HASH)
                            else RTO_HASH)
              in do {
                let ctx = upd_tcb p (\<lambda>t. t\<lparr>on_rto_idx := int offset\<rparr>) ctx;
                l \<leftarrow> TAILQ_INSERT_TAIL p (rto_list ctx offset);
                Some (ctx\<lparr>rto_list := (rto_list ctx)(offset := l), rto_list_cnt := rto_list_cnt ctx + 1\<rparr>)
              })
         else Some ctx)"

definition usnet_remove_rto_list :: "usn_context \<Rightarrow> nat \<Rightarrow> usn_context option" where
  "usnet_remove_rto_list ctx p =
     (if on_rto_idx (tcb_of ctx p) < 0 then Some ctx
      else do {
        let i = nat (on_rto_idx (tcb_of ctx p));
        l \<leftarrow> TAILQ_REMOVE p (rto_list ctx i);
        let ctx = upd_tcb p (\<lambda>t. t\<lparr>on_rto_idx := - 1\<rparr>) ctx;
        Some (ctx\<lparr>rto_list := (rto_list ctx)(i := l), rto_list_cnt := rto_list_cnt ctx - 1\<rparr>)
      })"

definition usnet_add_timewait_list :: "usn_context \<Rightarrow> nat \<Rightarrow> usn_context option" where
  "usnet_add_timewait_list ctx p =
     (let ctx = upd_rcv p (\<lambda>r. r\<lparr>ts_tw_expire := of_int (cur_time ctx + tcp_timewait ctx)\<rparr>) ctx
      in if on_timewait_list (tcb_of ctx p) then do {
           l \<leftarrow> TAILQ_REMOVE p (timewait_list ctx);
           l \<leftarrow> TAILQ_INSERT_TAIL p l;
           Some (ctx\<lparr>timewait_list := l\<rparr>)
         }
         else if on_rto_idx (tcb_of ctx p) \<ge> 0 then None
         else do {
           let ctx = upd_tcb p (\<lambda>t. t\<lparr>on_timewait_list := True\<rparr>) ctx;
           l \<leftarrow> TAILQ_INSERT_TAIL p (timewait_list ctx);
           Some (ctx\<lparr>timewait_list := l, timewait_list_cnt := timewait_list_cnt ctx + 1\<rparr>)
         })"

definition usnet_remove_timewait_list :: "usn_context \<Rightarrow> nat \<Rightarrow> usn_context option" where
  "usnet_remove_timewait_list ctx p =
     (if \<not> on_timewait_list (tcb_of ctx p) then None
      else do {
        l \<leftarrow> TAILQ_REMOVE p (timewait_list ctx);
        let ctx = upd_tcb p (\<lambda>t. t\<lparr>on_timewait_list := False\<rparr>) ctx;
        Some (ctx\<lparr>timewait_list := l, timewait_list_cnt := timewait_list_cnt ctx - 1\<rparr>)
      })"

definition usnet_add_timeout_list :: "usn_context \<Rightarrow> nat \<Rightarrow> usn_context option" where
  "usnet_add_timeout_list ctx p =
     (if on_timeout_list (tcb_of ctx p) then None
      else do {
        let ctx = upd_tcb p (\<lambda>t. t\<lparr>on_timeout_list := True\<rparr>) ctx;
        l \<leftarrow> TAILQ_INSERT_TAIL p (timeout_list ctx);
        Some (ctx\<lparr>timeout_list := l, timeout_list_cnt := timeout_list_cnt ctx + 1\<rparr>)
      })"

definition usnet_remove_timeout_list :: "usn_context \<Rightarrow> nat \<Rightarrow> usn_context option" where
  "usnet_remove_timeout_list ctx p =
     (if on_timeout_list (tcb_of ctx p) then do {
        let ctx = upd_tcb p (\<lambda>t. t\<lparr>on_timeout_list := False\<rparr>) ctx;
        l \<leftarrow> TAILQ_REMOVE p (timeout_list ctx);
        Some (ctx\<lparr>timeout_list := l, timeout_list_cnt := timeout_list_cnt ctx - 1\<rparr>)
      } else Some ctx)"

definition usnet_update_timeout_list :: "usn_context \<Rightarrow> nat \<Rightarrow> usn_context option" where
  "usnet_update_timeout_list ctx p =
     (if on_timeout_list (tcb_of ctx p) then do {
        l \<leftarrow> TAILQ_REMOVE p (timeout_list ctx);
        l \<leftarrow> TAILQ_INSERT_TAIL p l;
        Some (ctx\<lparr>timeout_list := l\<rparr>)
      } else Some ctx)"

text \<open>The helper of \<^verbatim>\<open>tcp.c\<close> with the same body.\<close>

definition usnet_update_timerlist :: "usn_context \<Rightarrow> nat \<Rightarrow> usn_context option" where
  "usnet_update_timerlist ctx p =
     (if on_timeout_list (tcb_of ctx p) then do {
        l \<leftarrow> TAILQ_REMOVE p (timeout_list ctx);
        l \<leftarrow> TAILQ_INSERT_TAIL p l;
        Some (ctx\<lparr>timeout_list := l\<rparr>)
      } else Some ctx)"

definition usnet_update_retransmission_timer :: "usn_context \<Rightarrow> nat \<Rightarrow> usn_context option" where
  "usnet_update_retransmission_timer ctx p =
     (if \<not> rto (snd_of ctx p) > 0 then None
      else do {
        let ctx = upd_snd p (\<lambda>s. s\<lparr>nrtx := 0\<rparr>) ctx;
        ctx \<leftarrow> (if on_rto_idx (tcb_of ctx p) \<ge> 0 then usnet_remove_rto_list ctx p else Some ctx);
        if TCP_SEQ_GT (snd_nxt (tcb_of ctx p)) (snd_una (snd_of ctx p)) then
          usnet_add_rto_list (upd_snd p (\<lambda>s. s\<lparr>ts_rto := of_int (cur_time ctx) + rto s\<rparr>) ctx) p
        else Some ctx
      })"

section \<open>Consistency of queues, flags and counters\<close>

definition q_ok :: "nat list \<Rightarrow> int \<Rightarrow> (nat \<Rightarrow> bool) \<Rightarrow> bool" where
  "q_ok l c on \<longleftrightarrow> distinct l \<and> c = int (length l) \<and> (\<forall>p. p \<in> set l \<longleftrightarrow> on p)"

lemma q_ok_notin: "q_ok l c on \<Longrightarrow> \<not> on p \<Longrightarrow> p \<notin> set l"
  by (simp add: q_ok_def)

lemma q_ok_in: "q_ok l c on \<Longrightarrow> on p \<Longrightarrow> p \<in> set l"
  by (simp add: q_ok_def)

lemma q_ok_insert:
  "q_ok l c on \<Longrightarrow> \<not> on p \<Longrightarrow> (\<And>q. on' q \<longleftrightarrow> q = p \<or> on q) \<Longrightarrow> q_ok (l @ [p]) (c + 1) on'"
  by (auto simp: q_ok_def)

lemma q_ok_remove:
  "q_ok l c on \<Longrightarrow> on p \<Longrightarrow> (\<And>q. on' q \<longleftrightarrow> q \<noteq> p \<and> on q) \<Longrightarrow> q_ok (remove1 p l) (c - 1) on'"
  by (auto simp: q_ok_def int_length_remove1)

lemma q_ok_move: "q_ok l c on \<Longrightarrow> on p \<Longrightarrow> q_ok (remove1 p l @ [p]) c on"
  using q_ok_insert[OF q_ok_remove[of l c on p "\<lambda>q. q \<noteq> p \<and> on q"], of p on] by auto

text \<open>A slot in use.\<close>

definition live :: "usn_context \<Rightarrow> nat \<Rightarrow> bool" where
  "live ctx p \<longleftrightarrow> tcb_conn (tcb_of ctx p) \<noteq> (0, 0, 0, 0)"

definition rto_ok :: "usn_context \<Rightarrow> bool" where
  "rto_ok ctx \<longleftrightarrow>
     (\<forall>i. distinct (rto_list ctx i)) \<and>
     (\<forall>i p. p \<in> set (rto_list ctx i) \<longrightarrow> on_rto_idx (tcb_of ctx p) = int i) \<and>
     (\<forall>p. live ctx p \<longrightarrow> 0 \<le> on_rto_idx (tcb_of ctx p) \<longrightarrow>
        p \<in> set (rto_list ctx (nat (on_rto_idx (tcb_of ctx p))))) \<and>
     (\<forall>i > RTO_HASH. rto_list ctx i = []) \<and>
     rto_list_cnt ctx = (\<Sum>i \<le> RTO_HASH. int (length (rto_list ctx i))) \<and>
     (\<forall>p. live ctx p \<longrightarrow> on_timewait_list (tcb_of ctx p) \<longrightarrow> on_rto_idx (tcb_of ctx p) < 0)"

definition lists_ok :: "usn_context \<Rightarrow> bool" where
  "lists_ok ctx \<longleftrightarrow>
     q_ok (control_list ctx) (control_list_cnt ctx) (\<lambda>p. on_control_list (snd_of ctx p)) \<and>
     q_ok (send_list ctx) (send_list_cnt ctx) (\<lambda>p. on_send_list (snd_of ctx p)) \<and>
     q_ok (ack_list ctx) (ack_list_cnt ctx) (\<lambda>p. on_ack_list (snd_of ctx p)) \<and>
     q_ok (timeout_list ctx) (timeout_list_cnt ctx) (\<lambda>p. on_timeout_list (tcb_of ctx p)) \<and>
     q_ok (timewait_list ctx) (timewait_list_cnt ctx) (\<lambda>p. on_timewait_list (tcb_of ctx p)) \<and>
     rto_ok ctx"

lemma live_cong: "tcb_conn (tcb_of ctx' p) = tcb_conn (tcb_of ctx p) \<Longrightarrow> live ctx' p = live ctx p"
  by (simp add: live_def)

lemma tcb_conn_upd [simp]:
  "tcb_conn (t\<lparr>sndvar := a\<rparr>) = tcb_conn t" "tcb_conn (t\<lparr>rcvvar := b\<rparr>) = tcb_conn t"
  "tcb_conn (t\<lparr>on_rto_idx := c\<rparr>) = tcb_conn t" "tcb_conn (t\<lparr>on_timewait_list := d\<rparr>) = tcb_conn t"
  "tcb_conn (t\<lparr>on_timeout_list := e\<rparr>) = tcb_conn t" "tcb_conn (t\<lparr>tcb_state := f\<rparr>) = tcb_conn t"
  "tcb_conn (t\<lparr>close_reason := g\<rparr>) = tcb_conn t" "tcb_conn (t\<lparr>snd_nxt := h\<rparr>) = tcb_conn t"
  "tcb_conn (t\<lparr>rcv_nxt := i\<rparr>) = tcb_conn t" "tcb_conn (t\<lparr>last_active_ts := j\<rparr>) = tcb_conn t"
  "tcb_conn (t\<lparr>need_wnd_adv := k\<rparr>) = tcb_conn t" "tcb_conn (t\<lparr>have_reset := l\<rparr>) = tcb_conn t"
  "tcb_conn (t\<lparr>control_list_waiting := m\<rparr>) = tcb_conn t" "tcb_conn (t\<lparr>tcb_fd := n\<rparr>) = tcb_conn t"
  "tcb_conn (t\<lparr>tcb_socket := o'\<rparr>) = tcb_conn t" "tcb_conn (t\<lparr>saw_timestamp := q\<rparr>) = tcb_conn t"
  "tcb_conn (t\<lparr>sack_permit := r\<rparr>) = tcb_conn t" "tcb_conn (t\<lparr>on_hash_table := u\<rparr>) = tcb_conn t"
  "tcb_conn (t\<lparr>tcb_type := v\<rparr>) = tcb_conn t" "tcb_conn (t\<lparr>rcvvar_at := w\<rparr>) = tcb_conn t"
  "tcb_conn (t\<lparr>sndvar_at := x\<rparr>) = tcb_conn t"
  by (simp_all add: tcb_conn_def)

text \<open>The invariant speaks of the queues, the flags and the keys only: what an operation leaves
  alone stays consistent.\<close>

lemma lists_okI:
  assumes "lists_ok ctx"
    "q_ok (control_list ctx') (control_list_cnt ctx') (\<lambda>p. on_control_list (snd_of ctx' p)) \<or>
      control_list ctx' = control_list ctx \<and> control_list_cnt ctx' = control_list_cnt ctx \<and>
      (\<forall>p. on_control_list (snd_of ctx' p) = on_control_list (snd_of ctx p))"
    "q_ok (send_list ctx') (send_list_cnt ctx') (\<lambda>p. on_send_list (snd_of ctx' p)) \<or>
      send_list ctx' = send_list ctx \<and> send_list_cnt ctx' = send_list_cnt ctx \<and>
      (\<forall>p. on_send_list (snd_of ctx' p) = on_send_list (snd_of ctx p))"
    "q_ok (ack_list ctx') (ack_list_cnt ctx') (\<lambda>p. on_ack_list (snd_of ctx' p)) \<or>
      ack_list ctx' = ack_list ctx \<and> ack_list_cnt ctx' = ack_list_cnt ctx \<and>
      (\<forall>p. on_ack_list (snd_of ctx' p) = on_ack_list (snd_of ctx p))"
    "q_ok (timeout_list ctx') (timeout_list_cnt ctx') (\<lambda>p. on_timeout_list (tcb_of ctx' p)) \<or>
      timeout_list ctx' = timeout_list ctx \<and> timeout_list_cnt ctx' = timeout_list_cnt ctx \<and>
      (\<forall>p. on_timeout_list (tcb_of ctx' p) = on_timeout_list (tcb_of ctx p))"
    "q_ok (timewait_list ctx') (timewait_list_cnt ctx') (\<lambda>p. on_timewait_list (tcb_of ctx' p)) \<or>
      timewait_list ctx' = timewait_list ctx \<and> timewait_list_cnt ctx' = timewait_list_cnt ctx \<and>
      (\<forall>p. on_timewait_list (tcb_of ctx' p) = on_timewait_list (tcb_of ctx p))"
    "rto_ok ctx' \<or>
      rto_list ctx' = rto_list ctx \<and> rto_list_cnt ctx' = rto_list_cnt ctx \<and>
      (\<forall>p. on_rto_idx (tcb_of ctx' p) = on_rto_idx (tcb_of ctx p)) \<and>
      (\<forall>p. on_timewait_list (tcb_of ctx' p) = on_timewait_list (tcb_of ctx p)) \<and>
      (\<forall>p. tcb_conn (tcb_of ctx' p) = tcb_conn (tcb_of ctx p))"
  shows "lists_ok ctx'"
proof -
  have q: "q_ok l' c' on'" if "q_ok l c on" "q_ok l' c' on' \<or> l' = l \<and> c' = c \<and> (\<forall>p. on' p = on p)"
    for l c on l' c' on' using that by (auto simp: q_ok_def)
  have "rto_ok ctx'" using assms(1,7) unfolding lists_ok_def rto_ok_def live_def by auto
  then show ?thesis using assms(1) unfolding lists_ok_def
    using q[OF _ assms(2)] q[OF _ assms(3)] q[OF _ assms(4)] q[OF _ assms(5)] q[OF _ assms(6)] by blast
qed

text \<open>Changes that touch no queue, flag or key.\<close>

definition same_queues :: "usn_context \<Rightarrow> usn_context \<Rightarrow> bool" where
  "same_queues ctx ctx' \<longleftrightarrow>
     control_list ctx' = control_list ctx \<and> control_list_cnt ctx' = control_list_cnt ctx \<and>
     send_list ctx' = send_list ctx \<and> send_list_cnt ctx' = send_list_cnt ctx \<and>
     ack_list ctx' = ack_list ctx \<and> ack_list_cnt ctx' = ack_list_cnt ctx \<and>
     timeout_list ctx' = timeout_list ctx \<and> timeout_list_cnt ctx' = timeout_list_cnt ctx \<and>
     timewait_list ctx' = timewait_list ctx \<and> timewait_list_cnt ctx' = timewait_list_cnt ctx \<and>
     rto_list ctx' = rto_list ctx \<and> rto_list_cnt ctx' = rto_list_cnt ctx \<and>
     (\<forall>p. on_control_list (snd_of ctx' p) = on_control_list (snd_of ctx p) \<and>
          on_send_list (snd_of ctx' p) = on_send_list (snd_of ctx p) \<and>
          on_ack_list (snd_of ctx' p) = on_ack_list (snd_of ctx p) \<and>
          on_timeout_list (tcb_of ctx' p) = on_timeout_list (tcb_of ctx p) \<and>
          on_timewait_list (tcb_of ctx' p) = on_timewait_list (tcb_of ctx p) \<and>
          on_rto_idx (tcb_of ctx' p) = on_rto_idx (tcb_of ctx p) \<and>
          tcb_conn (tcb_of ctx' p) = tcb_conn (tcb_of ctx p))"

lemma same_queues_ok: "lists_ok ctx \<Longrightarrow> same_queues ctx ctx' \<Longrightarrow> lists_ok ctx'"
  by (rule lists_okI[of ctx]) (auto simp: same_queues_def)

section \<open>The interface of a connection queue\<close>

text \<open>What the queues with a flag and a counter promise: an insertion or removal changes this queue,
  its counter and its flag, and nothing else that \<open>lists_ok\<close> speaks of.\<close>

locale conn_queue =
  fixes lst :: "usn_context \<Rightarrow> nat list"
    and cnt :: "usn_context \<Rightarrow> int"
    and on :: "usn_context \<Rightarrow> nat \<Rightarrow> bool"
    and ready :: "usn_context \<Rightarrow> nat \<Rightarrow> bool"
    and add :: "usn_context \<Rightarrow> nat \<Rightarrow> usn_context option"
    and remove :: "usn_context \<Rightarrow> nat \<Rightarrow> usn_context option"
  assumes queue_ok: "lists_ok ctx \<Longrightarrow> q_ok (lst ctx) (cnt ctx) (on ctx)"
    and add_off: "ready ctx p \<Longrightarrow> \<not> on ctx p \<Longrightarrow> p \<notin> set (lst ctx) \<Longrightarrow>
      \<exists>ctx'. add ctx p = Some ctx' \<and> lst ctx' = lst ctx @ [p] \<and> cnt ctx' = cnt ctx + 1 \<and>
        (\<forall>q. on ctx' q \<longleftrightarrow> q = p \<or> on ctx q) \<and>
        (lists_ok ctx \<longrightarrow> q_ok (lst ctx') (cnt ctx') (on ctx') \<longrightarrow> lists_ok ctx')"
    and remove_on: "on ctx p \<Longrightarrow> p \<in> set (lst ctx) \<Longrightarrow>
      \<exists>ctx'. remove ctx p = Some ctx' \<and> lst ctx' = remove1 p (lst ctx) \<and> cnt ctx' = cnt ctx - 1 \<and>
        (\<forall>q. on ctx' q \<longleftrightarrow> q \<noteq> p \<and> on ctx q) \<and>
        (lists_ok ctx \<longrightarrow> q_ok (lst ctx') (cnt ctx') (on ctx') \<longrightarrow> lists_ok ctx')"
    and remove_off: "\<not> on ctx p \<Longrightarrow> remove ctx p = Some ctx"
begin

lemma add_new:
  assumes ok: "lists_ok ctx" and off: "ready ctx p" "\<not> on ctx p"
  shows "\<exists>ctx'. add ctx p = Some ctx' \<and> lists_ok ctx' \<and> on ctx' p \<and> lst ctx' = lst ctx @ [p]"
proof -
  note q = queue_ok[OF ok]
  obtain ctx' where c: "add ctx p = Some ctx'" "lst ctx' = lst ctx @ [p]" "cnt ctx' = cnt ctx + 1"
      "\<forall>q. on ctx' q \<longleftrightarrow> q = p \<or> on ctx q"
      "lists_ok ctx \<longrightarrow> q_ok (lst ctx') (cnt ctx') (on ctx') \<longrightarrow> lists_ok ctx'"
    using add_off[OF off q_ok_notin[OF q off(2)]] by blast
  have "q_ok (lst ctx') (cnt ctx') (on ctx')"
    unfolding c(2,3) using c(4) by (intro q_ok_insert[OF q off(2)]) simp
  then show ?thesis using c ok by auto
qed

lemma remove_ok:
  assumes ok: "lists_ok ctx"
  shows "\<exists>ctx'. remove ctx p = Some ctx' \<and> lists_ok ctx' \<and> \<not> on ctx' p \<and> p \<notin> set (lst ctx')"
proof (cases "on ctx p")
  case True
  note q = queue_ok[OF ok]
  obtain ctx' where c: "remove ctx p = Some ctx'" "lst ctx' = remove1 p (lst ctx)" "cnt ctx' = cnt ctx - 1"
      "\<forall>q. on ctx' q \<longleftrightarrow> q \<noteq> p \<and> on ctx q"
      "lists_ok ctx \<longrightarrow> q_ok (lst ctx') (cnt ctx') (on ctx') \<longrightarrow> lists_ok ctx'"
    using remove_on[OF True q_ok_in[OF q True]] by blast
  have q': "q_ok (lst ctx') (cnt ctx') (on ctx')"
    unfolding c(2,3) using c(4) by (intro q_ok_remove[OF q True]) simp
  then show ?thesis using c ok q_ok_notin[OF q', of p] by auto
next
  case False
  then show ?thesis using remove_off ok q_ok_notin[OF queue_ok[OF ok] False] by auto
qed

text \<open>Removing what has just been inserted leaves the queue as it was.\<close>

lemma add_remove:
  assumes "lists_ok ctx" "ready ctx p" "\<not> on ctx p"
  shows "\<exists>c1 c2. add ctx p = Some c1 \<and> remove c1 p = Some c2 \<and> lst c2 = lst ctx \<and> lists_ok c2"
proof -
  obtain c1 where c1: "add ctx p = Some c1" "lists_ok c1" "on c1 p" "lst c1 = lst ctx @ [p]"
    using add_new[OF assms] by blast
  have p: "p \<in> set (lst c1)" "p \<notin> set (lst ctx)"
    using c1(4) q_ok_notin[OF queue_ok[OF assms(1)] assms(3)] by auto
  obtain c2 where c2: "remove c1 p = Some c2" "lists_ok c2" using remove_ok[OF c1(2)] by blast
  moreover have "lst c2 = remove1 p (lst c1)" using remove_on[OF c1(3) p(1)] c2(1) by auto
  ultimately show ?thesis using c1 p by (auto simp: remove1_append)
qed

end

text \<open>Queues whose insertion accepts a connection that is queued already.\<close>

locale idem_queue = conn_queue +
  assumes add_on: "on ctx p \<Longrightarrow> add ctx p = Some ctx"
begin

lemma add_ok:
  assumes "lists_ok ctx" "ready ctx p"
  shows "\<exists>ctx'. add ctx p = Some ctx' \<and> lists_ok ctx' \<and> on ctx' p"
  using add_new[OF assms] add_on[of ctx p] assms(1) by (cases "on ctx p") auto

end

interpretation control_q: idem_queue control_list control_list_cnt "\<lambda>ctx p. on_control_list (snd_of ctx p)"
  "\<lambda>_ _. True" control_enqueue usnet_remove_control_list
proof (unfold_locales, goal_cases)
  case (2 ctx p)
  then show ?case by (auto simp: control_enqueue_def) (rule lists_okI[of ctx], auto)
next
  case (3 ctx p)
  then show ?case by (auto simp: usnet_remove_control_list_def) (rule lists_okI[of ctx], auto)
qed (auto simp: lists_ok_def control_enqueue_def usnet_remove_control_list_def)

interpretation send_q: idem_queue send_list send_list_cnt "\<lambda>ctx p. on_send_list (snd_of ctx p)"
  "\<lambda>ctx p. sndbuf (snd_of ctx p) \<noteq> None" usnet_add_send_list usnet_remove_send_list
proof (unfold_locales, goal_cases)
  case (2 ctx p)
  then show ?case by (auto simp: usnet_add_send_list_def) (rule lists_okI[of ctx], auto)
next
  case (3 ctx p)
  then show ?case by (auto simp: usnet_remove_send_list_def) (rule lists_okI[of ctx], auto)
qed (auto simp: lists_ok_def usnet_add_send_list_def usnet_remove_send_list_def)

interpretation ack_q: idem_queue ack_list ack_list_cnt "\<lambda>ctx p. on_ack_list (snd_of ctx p)"
  "\<lambda>_ _. True" usnet_add_ack_list usnet_remove_ack_list
proof (unfold_locales, goal_cases)
  case (2 ctx p)
  then show ?case by (auto simp: usnet_add_ack_list_def) (rule lists_okI[of ctx], auto)
next
  case (3 ctx p)
  then show ?case by (auto simp: usnet_remove_ack_list_def) (rule lists_okI[of ctx], auto)
qed (auto simp: lists_ok_def usnet_add_ack_list_def usnet_remove_ack_list_def)

interpretation timeout_q: conn_queue timeout_list timeout_list_cnt "\<lambda>ctx p. on_timeout_list (tcb_of ctx p)"
  "\<lambda>_ _. True" usnet_add_timeout_list usnet_remove_timeout_list
proof (unfold_locales, goal_cases)
  case (2 ctx p)
  then show ?case by (auto simp: usnet_add_timeout_list_def) (rule lists_okI[of ctx], auto)
next
  case (3 ctx p)
  then show ?case by (auto simp: usnet_remove_timeout_list_def) (rule lists_okI[of ctx], auto)
qed (auto simp: lists_ok_def usnet_add_timeout_list_def usnet_remove_timeout_list_def)

section \<open>Timewait and retransmission lists\<close>

lemma lists_ok_rto: "lists_ok ctx \<Longrightarrow> rto_ok ctx"
  by (simp add: lists_ok_def)

lemma lists_ok_timewait:
  "lists_ok ctx \<Longrightarrow> q_ok (timewait_list ctx) (timewait_list_cnt ctx) (\<lambda>p. on_timewait_list (tcb_of ctx p))"
  by (simp add: lists_ok_def)

text \<open>Entering the timewait list while on a retransmission list fails an assertion; otherwise the
  connection ends up last in the list.\<close>

lemma add_timewait_list_ok:
  assumes ok: "lists_ok ctx" and p: "on_timewait_list (tcb_of ctx p) \<or> on_rto_idx (tcb_of ctx p) < 0"
  shows "\<exists>ctx'. usnet_add_timewait_list ctx p = Some ctx' \<and> lists_ok ctx' \<and>
    on_timewait_list (tcb_of ctx' p) \<and> last (timewait_list ctx') = p"
proof (cases "on_timewait_list (tcb_of ctx p)")
  case True
  note q = lists_ok_timewait[OF ok]
  have "p \<in> set (timewait_list ctx)" "p \<notin> set (remove1 p (timewait_list ctx))"
    using q True by (auto simp: q_ok_def)
  then have e: "usnet_add_timewait_list ctx p =
      Some ((upd_rcv p (\<lambda>r. r\<lparr>ts_tw_expire := of_int (cur_time ctx + tcp_timewait ctx)\<rparr>) ctx)
        \<lparr>timewait_list := remove1 p (timewait_list ctx) @ [p]\<rparr>)" (is "_ = Some ?c")
    using True by (simp add: usnet_add_timewait_list_def Let_def)
  have "q_ok (timewait_list ?c) (timewait_list_cnt ?c) (\<lambda>p. on_timewait_list (tcb_of ?c p))"
    using q_ok_move[OF q, of p] True by (auto simp: q_ok_def)
  then have "lists_ok ?c" by (intro lists_okI[OF ok]) auto
  then show ?thesis using e True by simp
next
  case False
  note q = lists_ok_timewait[OF ok]
  have "p \<notin> set (timewait_list ctx)" using q False by (auto simp: q_ok_def)
  then have e: "usnet_add_timewait_list ctx p =
      Some ((upd_tcb p (\<lambda>t. t\<lparr>on_timewait_list := True\<rparr>)
          (upd_rcv p (\<lambda>r. r\<lparr>ts_tw_expire := of_int (cur_time ctx + tcp_timewait ctx)\<rparr>) ctx))
        \<lparr>timewait_list := timewait_list ctx @ [p], timewait_list_cnt := timewait_list_cnt ctx + 1\<rparr>)"
    (is "_ = Some ?c")
    using False p by (simp add: usnet_add_timewait_list_def Let_def)
  have "q_ok (timewait_list ?c) (timewait_list_cnt ?c) (\<lambda>p. on_timewait_list (tcb_of ?c p))"
    using q_ok_insert[OF q, of p] False by simp
  moreover have "rto_ok ?c"
    using lists_ok_rto[OF ok] False p unfolding rto_ok_def live_def by auto
  ultimately have "lists_ok ?c" by (intro lists_okI[OF ok]) auto
  then show ?thesis using e by simp
qed

lemma remove_timewait_list_ok:
  assumes ok: "lists_ok ctx" and p: "on_timewait_list (tcb_of ctx p)"
  shows "\<exists>ctx'. usnet_remove_timewait_list ctx p = Some ctx' \<and> lists_ok ctx' \<and>
    \<not> on_timewait_list (tcb_of ctx' p)"
proof -
  note q = lists_ok_timewait[OF ok]
  have e: "usnet_remove_timewait_list ctx p =
      Some ((upd_tcb p (\<lambda>t. t\<lparr>on_timewait_list := False\<rparr>) ctx)
        \<lparr>timewait_list := remove1 p (timewait_list ctx), timewait_list_cnt := timewait_list_cnt ctx - 1\<rparr>)"
    (is "_ = Some ?c")
    using p q_ok_in[OF q, of p] by (simp add: usnet_remove_timewait_list_def)
  have "q_ok (timewait_list ?c) (timewait_list_cnt ?c) (\<lambda>p. on_timewait_list (tcb_of ?c p))"
    using q_ok_remove[OF q, of p] p by simp
  moreover have "rto_ok ?c"
    using lists_ok_rto[OF ok] p unfolding rto_ok_def live_def by auto
  ultimately have "lists_ok ?c" by (intro lists_okI[OF ok]) auto
  then show ?thesis using e by simp
qed

lemma update_timeout_list_ok:
  assumes ok: "lists_ok ctx"
  shows "\<exists>ctx'. usnet_update_timeout_list ctx p = Some ctx' \<and> lists_ok ctx'"
proof (cases "on_timeout_list (tcb_of ctx p)")
  case True
  have q: "q_ok (timeout_list ctx) (timeout_list_cnt ctx) (\<lambda>p. on_timeout_list (tcb_of ctx p))"
    using ok by (simp add: lists_ok_def)
  have e: "usnet_update_timeout_list ctx p = Some (ctx\<lparr>timeout_list := remove1 p (timeout_list ctx) @ [p]\<rparr>)"
    (is "_ = Some ?c")
    using True q by (auto simp: usnet_update_timeout_list_def q_ok_def)
  have "lists_ok ?c" using q_ok_move[OF q, of p] True by (intro lists_okI[OF ok]) auto
  then show ?thesis using e by simp
next
  case False
  then show ?thesis using ok by (simp add: usnet_update_timeout_list_def)
qed

lemma update_timerlist_eq: "usnet_update_timerlist = usnet_update_timeout_list"
  by (simp add: fun_eq_iff usnet_update_timerlist_def usnet_update_timeout_list_def)

text \<open>The bucket of a retransmission timer is one of the \<^verbatim>\<open>RTO_HASH + 1\<close> queues, whatever the
  (possibly negative) distance of its timestamp.\<close>

lemma rto_offset_bound: "unat ((d + i) mod (of_nat RTO_HASH :: u32)) < RTO_HASH"
proof -
  have "unat ((d + i) mod (of_nat RTO_HASH :: u32)) = unat (d + i) mod RTO_HASH"
    by (simp add: unat_mod)
  then show ?thesis by simp
qed

lemma rto_count_upd:
  assumes "k \<le> RTO_HASH"
  shows "(\<Sum>i \<le> RTO_HASH. int (length ((rl(k := l)) i))) =
    (\<Sum>i \<le> RTO_HASH. int (length (rl i))) + int (length l) - int (length (rl k))"
proof -
  have "(\<Sum>i \<le> RTO_HASH. int (length ((rl(k := l)) i))) =
      int (length l) + (\<Sum>i \<in> {..RTO_HASH} - {k}. int (length ((rl(k := l)) i)))"
    using assms by (subst sum.remove[of _ k]) auto
  also have "(\<Sum>i \<in> {..RTO_HASH} - {k}. int (length ((rl(k := l)) i))) =
      (\<Sum>i \<in> {..RTO_HASH} - {k}. int (length (rl i)))"
    by (rule sum.cong) auto
  also have "\<dots> = (\<Sum>i \<le> RTO_HASH. int (length (rl i))) - int (length (rl k))"
    using assms by (subst (2) sum.remove[of _ k]) auto
  finally show ?thesis by simp
qed

lemma rto_insert_ok:
  assumes ok: "lists_ok ctx" and p: "on_rto_idx (tcb_of ctx p) < 0" "\<not> on_timewait_list (tcb_of ctx p)"
    and k: "k \<le> RTO_HASH"
  shows "lists_ok ((upd_tcb p (\<lambda>t. t\<lparr>on_rto_idx := int k\<rparr>) ctx)
    \<lparr>rto_list := (rto_list ctx)(k := rto_list ctx k @ [p]), rto_list_cnt := rto_list_cnt ctx + 1\<rparr>)"
    (is "lists_ok ?c")
proof -
  have r: "rto_ok ctx" using ok by (rule lists_ok_rto)
  have notin: "p \<notin> set (rto_list ctx i)" for i
    using r p(1) unfolding rto_ok_def by fastforce
  have "rto_list_cnt ?c = (\<Sum>i \<le> RTO_HASH. int (length (rto_list ?c i)))"
    using r rto_count_upd[OF k, of "rto_list ctx" "rto_list ctx k @ [p]"] by (simp add: rto_ok_def)
  then have "rto_ok ?c"
    using r p k notin unfolding rto_ok_def live_def by (auto simp: fun_upd_def)
  then show ?thesis by (intro lists_okI[OF ok]) auto
qed

lemma add_rto_list_ok:
  assumes ok: "lists_ok ctx"
  shows "\<exists>ctx'. usnet_add_rto_list ctx p = Some ctx' \<and> lists_ok ctx' \<and>
    (0 \<le> on_rto_idx (tcb_of ctx' p) \<or> on_timewait_list (tcb_of ctx' p)) \<and>
    tcb_state (tcb_of ctx' p) = tcb_state (tcb_of ctx p)"
proof -
  define c where "c = (if rto_list_cnt ctx = 0
    then ctx\<lparr>rto_now_idx := 0, rto_now_ts := ts_rto (snd_of ctx p)\<rparr> else ctx)"
  have c: "tcb_of c = tcb_of ctx" "lists_ok c"
    using ok by (auto simp: c_def intro: same_queues_ok simp: same_queues_def)
  define k where "k = (if sint (ts_rto (snd_of c p) - rto_now_ts c) < int RTO_HASH
    then unat ((of_int (sint (ts_rto (snd_of c p) - rto_now_ts c)) + rto_now_idx c) mod of_nat RTO_HASH)
    else RTO_HASH)"
  have k: "k \<le> RTO_HASH" using rto_offset_bound by (auto simp: k_def intro: less_imp_le)
  have e: "usnet_add_rto_list ctx p =
     (if on_rto_idx (tcb_of c p) < 0 then
        (if on_timewait_list (tcb_of c p) then Some c
         else do {
           l \<leftarrow> TAILQ_INSERT_TAIL p (rto_list c k);
           Some ((upd_tcb p (\<lambda>t. t\<lparr>on_rto_idx := int k\<rparr>) c)
             \<lparr>rto_list := (rto_list c)(k := l), rto_list_cnt := rto_list_cnt c + 1\<rparr>)
         })
      else Some c)"
    unfolding usnet_add_rto_list_def c_def[symmetric] Let_def k_def[symmetric] by simp
  show ?thesis
  proof (cases "on_rto_idx (tcb_of c p) < 0 \<and> \<not> on_timewait_list (tcb_of c p)")
    case True
    have "p \<notin> set (rto_list c k)"
      using lists_ok_rto[OF c(2)] True unfolding rto_ok_def by fastforce
    then show ?thesis
      using True rto_insert_ok[OF c(2) _ _ k, of p] c by (simp add: e)
  next
    case False
    then show ?thesis using c by (auto simp: e)
  qed
qed

lemma remove_rto_list_ok:
  assumes ok: "lists_ok ctx" and p: "live ctx p"
  shows "\<exists>ctx'. usnet_remove_rto_list ctx p = Some ctx' \<and> lists_ok ctx' \<and> on_rto_idx (tcb_of ctx' p) < 0"
proof (cases "on_rto_idx (tcb_of ctx p) < 0")
  case True
  then show ?thesis using ok by (simp add: usnet_remove_rto_list_def)
next
  case False
  let ?k = "nat (on_rto_idx (tcb_of ctx p))"
  have r: "rto_ok ctx" using ok by (rule lists_ok_rto)
  have p': "p \<in> set (rto_list ctx ?k)" using r p False unfolding rto_ok_def by auto
  have k: "?k \<le> RTO_HASH"
  proof (rule ccontr)
    assume "\<not> ?k \<le> RTO_HASH"
    then have "rto_list ctx ?k = []" using r unfolding rto_ok_def by auto
    then show False using p' by simp
  qed
  have e: "usnet_remove_rto_list ctx p = Some ((upd_tcb p (\<lambda>t. t\<lparr>on_rto_idx := - 1\<rparr>) ctx)
      \<lparr>rto_list := (rto_list ctx)(?k := remove1 p (rto_list ctx ?k)), rto_list_cnt := rto_list_cnt ctx - 1\<rparr>)"
    (is "_ = Some ?c")
    using False p' by (simp add: usnet_remove_rto_list_def Let_def)
  have "int (length (remove1 p (rto_list ctx ?k))) = int (length (rto_list ctx ?k)) - 1"
    using p' by (rule int_length_remove1)
  then have cnt: "rto_list_cnt ?c = (\<Sum>i \<le> RTO_HASH. int (length (rto_list ?c i)))"
    using r rto_count_upd[OF k, of "rto_list ctx" "remove1 p (rto_list ctx ?k)"] by (simp add: rto_ok_def)
  have other: "p \<in> set (rto_list ctx i) \<Longrightarrow> i = ?k" for i
    using r False unfolding rto_ok_def by fastforce
  have d: "distinct (rto_list ctx i)" "q \<in> set (rto_list ctx i) \<Longrightarrow> on_rto_idx (tcb_of ctx q) = int i"
    "live ctx q \<Longrightarrow> 0 \<le> on_rto_idx (tcb_of ctx q) \<Longrightarrow> q \<in> set (rto_list ctx (nat (on_rto_idx (tcb_of ctx q))))"
    "RTO_HASH < i \<Longrightarrow> rto_list ctx i = []"
    "live ctx q \<Longrightarrow> on_timewait_list (tcb_of ctx q) \<Longrightarrow> on_rto_idx (tcb_of ctx q) < 0" for i q
    using r unfolding rto_ok_def by blast+
  have lv: "live ?c q = live ctx q" for q by (simp add: live_def)
  have set: "set (rto_list ?c i) = set (rto_list ctx i) - {p}" for i
    using d(1) other[of i] by auto
  have "rto_ok ?c"
    unfolding rto_ok_def
  proof (intro conjI allI impI)
    show "distinct (rto_list ?c i)" for i using d(1) by simp
    show "on_rto_idx (tcb_of ?c q) = int i" if "q \<in> set (rto_list ?c i)" for i q
      using that unfolding set using d(2) by simp
    show "q \<in> set (rto_list ?c (nat (on_rto_idx (tcb_of ?c q))))"
      if "live ?c q" "0 \<le> on_rto_idx (tcb_of ?c q)" for q
      using that unfolding set lv using d(3) by (cases "q = p") auto
    show "rto_list ?c i = []" if "RTO_HASH < i" for i using d(4)[OF that] k that by auto
    show "on_rto_idx (tcb_of ?c q) < 0" if "live ?c q" "on_timewait_list (tcb_of ?c q)" for q
      using that unfolding lv using d(5) by (cases "q = p") auto
  qed (fact cnt)
  then have "lists_ok ?c" by (intro lists_okI[OF ok]) auto
  then show ?thesis using e by simp
qed

lemma update_retransmission_timer_ok:
  assumes ok: "lists_ok ctx" and p: "live ctx p" and rto: "0 < rto (snd_of ctx p)"
  shows "\<exists>ctx'. usnet_update_retransmission_timer ctx p = Some ctx' \<and> lists_ok ctx'"
proof -
  let ?c = "upd_snd p (\<lambda>s. s\<lparr>nrtx := 0\<rparr>) ctx"
  have c: "lists_ok ?c" by (rule same_queues_ok[OF ok]) (auto simp: same_queues_def)
  have "live ?c p" using p by (simp add: live_def)
  then obtain c1 where c1: "usnet_remove_rto_list ?c p = Some c1" "lists_ok c1"
    using remove_rto_list_ok[OF c] by blast
  define c2 where "c2 = (if 0 \<le> on_rto_idx (tcb_of ctx p) then c1 else ?c)"
  have c2: "lists_ok c2" using c c1 by (simp add: c2_def)
  have e: "usnet_update_retransmission_timer ctx p =
      (if TCP_SEQ_GT (snd_nxt (tcb_of c2 p)) (snd_una (snd_of c2 p))
       then usnet_add_rto_list (upd_snd p (\<lambda>s. s\<lparr>ts_rto := of_int (cur_time c2) + rto s\<rparr>) c2) p
       else Some c2)"
    using rto c1 by (simp add: usnet_update_retransmission_timer_def c2_def Let_def)
  have "lists_ok (upd_snd p (\<lambda>s. s\<lparr>ts_rto := of_int (cur_time c2) + rto s\<rparr>) c2)"
    by (rule same_queues_ok[OF c2]) (auto simp: same_queues_def)
  then show ?thesis using add_rto_list_ok c2 unfolding e by (auto split: if_splits)
qed

text \<open>A connection on no queue.\<close>

definition unqueued :: "usn_tcb \<Rightarrow> bool" where
  "unqueued t \<longleftrightarrow> \<not> on_control_list (sndvar t) \<and> \<not> on_send_list (sndvar t) \<and> \<not> on_ack_list (sndvar t) \<and>
     \<not> on_timeout_list t \<and> \<not> on_timewait_list t \<and> on_rto_idx t < 0"

lemma lists_ok_enter:
  assumes ok: "lists_ok ctx" and t: "unqueued t" and p: "\<forall>i. p \<notin> set (rto_list ctx i)"
    "\<not> on_control_list (snd_of ctx p)" "\<not> on_send_list (snd_of ctx p)" "\<not> on_ack_list (snd_of ctx p)"
    "\<not> on_timeout_list (tcb_of ctx p)" "\<not> on_timewait_list (tcb_of ctx p)"
  shows "lists_ok (upd_tcb p (\<lambda>_. t) ctx)"
proof -
  have "rto_ok (upd_tcb p (\<lambda>_. t) ctx)"
    using lists_ok_rto[OF ok] t p(1) unfolding rto_ok_def live_def unqueued_def by auto
  then show ?thesis
    using t p by (intro lists_okI[OF ok]) (auto simp: unqueued_def)
qed

section \<open>Frames\<close>

text \<open>The connections on any queue.\<close>

definition queued :: "usn_context \<Rightarrow> nat set" where
  "queued c = set (control_list c) \<union> set (send_list c) \<union> set (ack_list c) \<union> set (timeout_list c) \<union>
     set (timewait_list c) \<union> (\<Union>i. set (rto_list c i))"

text \<open>\<open>conn_frame p\<close> relates contexts that differ, among the connections, in \<open>p\<close> only, agree on its addresses
  and state, and have no other connection on a queue that was on none.\<close>

definition conn_frame :: "nat \<Rightarrow> usn_context \<Rightarrow> usn_context \<Rightarrow> bool" where
  "conn_frame p c c' \<longleftrightarrow>
     tcb_cache c' = (tcb_cache c)\<lparr>hb_cache := (hb_cache (tcb_cache c))(p := tcb_of c' p)\<rparr> \<and>
     tcb_conn (tcb_of c' p) = tcb_conn (tcb_of c p) \<and> tcb_state (tcb_of c' p) = tcb_state (tcb_of c p) \<and>
     ev_net2app_mq c' = ev_net2app_mq c \<and> tcp_timeout c' = tcp_timeout c \<and> listen_tcb c' = listen_tcb c \<and>
     socket_cache c' = socket_cache c \<and> queued c' \<subseteq> insert p (queued c)"

lemma queued_upd [simp]: "queued (upd_tcb p f c) = queued c" "queued (upd_snd p g c) = queued c"
  "queued (upd_rcv p h c) = queued c"
  by (simp_all add: queued_def)

lemma frame_refl [simp]: "conn_frame p c c"
  by (auto simp: conn_frame_def tcb_of_def)

lemma frame_trans:
  assumes "conn_frame p a b" "conn_frame p b c"
  shows "conn_frame p a c"
proof -
  have "tcb_cache c = (tcb_cache a)\<lparr>hb_cache := (hb_cache (tcb_cache a))(p := tcb_of c p)\<rparr>"
    using assms by (simp add: conn_frame_def)
  moreover have "queued c \<subseteq> insert p (queued a)" using assms unfolding conn_frame_def by blast
  ultimately show ?thesis using assms by (simp add: conn_frame_def)
qed

lemma frame_cells: "conn_frame p c c' \<Longrightarrow> hb_cache (tcb_cache c') = (hb_cache (tcb_cache c))(p := tcb_of c' p)"
  unfolding conn_frame_def by (drule conjunct1, drule arg_cong[where f = hb_cache]) simp

lemma frame_other: "conn_frame p c c' \<Longrightarrow> q \<noteq> p \<Longrightarrow> tcb_of c' q = tcb_of c q"
  by (drule frame_cells, drule fun_cong[of _ _ q]) (simp add: tcb_of_def)

lemma tcb_cache_upd:
  "tcb_cache (upd_tcb p f c) = (tcb_cache c)\<lparr>hb_cache := (hb_cache (tcb_cache c))(p := f (tcb_of c p))\<rparr>"
  by (simp add: upd_tcb_def)

lemma frame_upd:
  "tcb_conn (f (tcb_of c p)) = tcb_conn (tcb_of c p) \<Longrightarrow> tcb_state (f (tcb_of c p)) = tcb_state (tcb_of c p) \<Longrightarrow>
    conn_frame p c (upd_tcb p f c)"
  by (simp add: conn_frame_def subset_insertI) (simp add: upd_tcb_def)

lemma frame_upd_snd [simp]: "conn_frame p c (upd_snd p g c)"
  unfolding upd_snd_def by (rule frame_upd) (simp_all add: tcb_conn_def)

lemma frame_upd_rcv [simp]: "conn_frame p c (upd_rcv p h c)"
  unfolding upd_rcv_def by (rule frame_upd) (simp_all add: tcb_conn_def)

lemma tcb_cache_noop: "(tcb_cache c)\<lparr>hb_cache := (hb_cache (tcb_cache c))(p := tcb_of c p)\<rparr> = tcb_cache c"
  by (simp add: tcb_of_def)

lemmas frame_simps = tcb_cache_noop conn_frame_def tcb_cache_upd upd_snd_def upd_rcv_def tcb_conn_def

lemma TAILQ_sets:
  "TAILQ_INSERT_TAIL x q = Some l \<Longrightarrow> y \<in> set l \<Longrightarrow> y = x \<or> y \<in> set q"
  "TAILQ_REMOVE x q = Some l \<Longrightarrow> y \<in> set l \<Longrightarrow> y \<in> set q"
  by (auto simp: TAILQ_INSERT_TAIL_def TAILQ_REMOVE_def split: if_splits dest: set_remove1_subset[THEN subsetD])

lemma queue_ops_frame:
  "control_enqueue c p = Some c' \<Longrightarrow> conn_frame p c c'"
  "usnet_remove_control_list c p = Some c' \<Longrightarrow> conn_frame p c c'"
  "usnet_add_send_list c p = Some c' \<Longrightarrow> conn_frame p c c'"
  "usnet_remove_send_list c p = Some c' \<Longrightarrow> conn_frame p c c'"
  "usnet_add_ack_list c p = Some c' \<Longrightarrow> conn_frame p c c'"
  "usnet_remove_ack_list c p = Some c' \<Longrightarrow> conn_frame p c c'"
  by (auto simp: bind_eq_Some_conv Let_def control_enqueue_def
      usnet_remove_control_list_def usnet_add_send_list_def usnet_remove_send_list_def
      usnet_add_ack_list_def usnet_remove_ack_list_def frame_simps queued_def split: if_splits dest: TAILQ_sets)

lemma timer_ops_frame:
  "usnet_add_timeout_list c p = Some c' \<Longrightarrow> conn_frame p c c'"
  "usnet_remove_timeout_list c p = Some c' \<Longrightarrow> conn_frame p c c'"
  "usnet_update_timeout_list c p = Some c' \<Longrightarrow> conn_frame p c c'"
  "usnet_remove_timewait_list c p = Some c' \<Longrightarrow> conn_frame p c c'"
  "usnet_remove_rto_list c p = Some c' \<Longrightarrow> conn_frame p c c'"
  by (auto simp: bind_eq_Some_conv Let_def usnet_add_timeout_list_def usnet_remove_timeout_list_def
      usnet_update_timeout_list_def usnet_remove_timewait_list_def usnet_remove_rto_list_def
      frame_simps queued_def split: if_splits dest: TAILQ_sets)

lemma add_rto_list_frame: "usnet_add_rto_list c p = Some c' \<Longrightarrow> conn_frame p c c'"
  by (auto simp: bind_eq_Some_conv Let_def usnet_add_rto_list_def frame_simps queued_def split: if_splits dest: TAILQ_sets)

lemma add_timewait_list_frame: "usnet_add_timewait_list c p = Some c' \<Longrightarrow> conn_frame p c c'"
  by (auto simp: bind_eq_Some_conv Let_def usnet_add_timewait_list_def frame_simps queued_def split: if_splits dest: TAILQ_sets)

lemma table_change:
  assumes t: "tcb_table base" and k: "tcb_conn t = tcb_conn (hb_cache base p)"
  shows "tcb_table (base\<lparr>hb_cache := (hb_cache base)(p := t)\<rparr>)"
proof -
  let ?b = "base\<lparr>hb_cache := (hb_cache base)(p := t)\<rparr>"
  have f: "tcbs.fns base" and w: "cache_wf tcb_conn (0, 0, 0, 0) base" using t by (simp_all add: tcb_table_def)
  have key: "tcb_conn (hb_cache ?b q) = tcb_conn (hb_cache base q)" for q using k by simp
  have slot: "cache_slot ?b (hb_cache ?b q) i = cache_slot base (hb_cache base q) i" for q i
    using tcbs.slot_cong[OF f key] by simp
  have "cache_wf tcb_conn (0, 0, 0, 0) ?b"
    unfolding cache_wf_def key slot using w[unfolded cache_wf_def] by simp
  then show ?thesis using f by (simp add: tcb_table_def cache_fns_def)
qed

end
