(* ===== verification/Setup.thy ===== *)
theory Setup
  imports Net_Out Conn_Lists
begin

text \<open>
  Setting the stack up (\<^verbatim>\<open>core.c\<close> and the init functions of the components): the initial context, its
  tables, pools and queues. Opening the network device and the log file is left to \<^verbatim>\<open>Process_Setup\<close>, \<^verbatim>\<open>Netmap_Tx\<close> and \<^verbatim>\<open>Usn_Log\<close>.
\<close>

section \<open>Initialisation\<close>

text \<open>\<^verbatim>\<open>usnet_create_context\<close> clears only the first eight bytes of the object (\<^verbatim>\<open>sizeof(ctx)\<close> is the size
  of a pointer), so \<open>mem\<close>, what \<^verbatim>\<open>malloc\<close> returned, shows through in every other field.\<close>

definition usnet_create_context :: "usn_context \<Rightarrow> usn_context" where
  "usnet_create_context mem =
     mem\<lparr>g_fd := 1, timewait_list_cnt := 0, timewait_list := [], timeout_list := [],
         control_list := [], send_list := [], ack_list := [], tcp_timewait := 60, tcp_timeout := 120\<rparr>"

definition usnet_arp_init :: "usn_context \<Rightarrow> usn_context" where
  "usnet_arp_init ctx = ctx\<lparr>arp_entries := [\<lparr>arp_ip = 0, arp_haddr = take 6 (if_hwa ctx)\<rparr>]\<rparr>"

definition zero_socket :: usn_socket where
  "zero_socket = \<lparr>so_fd = 0, so_dom = 0, so_type = 0, so_proto = 0, so_state = 0, so_sport = 0, so_dport = 0,
     so_saddr = 0, so_daddr = 0, so_options = 0, so_tcb = None, so_backlogq = None\<rparr>"

definition usnet_socket_init :: "usn_context \<Rightarrow> usn_context option" where
  "usnet_socket_init ctx = do {
     base \<leftarrow> usnet_cache_init 10 100 64 zero_socket usnet_so_eq usnet_so_key usnet_so_isempty usnet_so_setempty;
     Some (ctx\<lparr>socket_cache := base\<rparr>)
   }"

definition usnet_tcp_init :: "usn_context \<Rightarrow> usn_context option" where
  "usnet_tcp_init ctx = do { base \<leftarrow> usnet_tcb_init; Some (ctx\<lparr>tcb_cache := base\<rparr>) }"

text \<open>The objects of the three pools have 16, 72 and 160 bytes; \<open>m\<close> is the memory of a pool.\<close>

definition usnet_ringbuf_init :: "usn_context \<Rightarrow> nat \<Rightarrow> (nat \<Rightarrow> mem_chunk) \<Rightarrow> usn_context option" where
  "usnet_ringbuf_init ctx default_size m = do {
     base \<leftarrow> usnet_cache_init 10 100 (48 + default_size)
       \<lparr>rb_fd = 0, rb_data = 0, rb_head = 0, rb_size = 0, rb_head_seq = 0, rb_last_seq = 0,
        rb_merged_len = 0, rb_win = 0, rb_frags = [], rb_buf = replicate default_size 0\<rparr>
       usnet_rb_eq usnet_rb_key usnet_rb_isempty usnet_rb_setempty;
     fmp \<leftarrow> usn_mempool_create 16 (1024 * 16) 1 m;
     rmp \<leftarrow> usn_mempool_create 72 (1024 * 72) 1 m;
     Some (ctx\<lparr>ringbuf_cache := base, frag_mp := fmp, rcvvars_mp := rmp\<rparr>)
   }"

definition usnet_sendbuf_init :: "usn_context \<Rightarrow> nat \<Rightarrow> (nat \<Rightarrow> mem_chunk) \<Rightarrow> usn_context option" where
  "usnet_sendbuf_init ctx default_size m = do {
     base \<leftarrow> usnet_cache_init 10 100 (56 + default_size)
       \<lparr>sb_fd = 0, sb_head = 0, sb_sent_head = 0, sb_tail = 0, sb_len = 0, sb_cum_len = 0, sb_size = 0,
        sb_head_seq = 0, sb_init_seq = 0, sb_data = replicate default_size 0\<rparr>
       usnet_sb_eq usnet_sb_key usnet_sb_isempty usnet_sb_setempty;
     smp \<leftarrow> usn_mempool_create 160 (1024 * 160) 1 m;
     Some (ctx\<lparr>sndbuf_cache := base, sndvars_mp := smp\<rparr>)
   }"

text \<open>\<^verbatim>\<open>usnet_tcpev_init\<close>; the two calls of \<^verbatim>\<open>usnet_init_shmmq\<close> with the outcome of their system calls
  are arguments.\<close>

definition usnet_tcpev_init ::
  "usn_context \<Rightarrow> (usn_shmmq \<Rightarrow> (usn_shmmq \<times> int) option) \<Rightarrow> (usn_shmmq \<Rightarrow> (usn_shmmq \<times> int) option) \<Rightarrow>
   (usn_context \<times> int) option" where
  "usnet_tcpev_init ctx init_n2a init_a2n = do {
     (mq, ret) \<leftarrow> init_n2a (ev_net2app_mq ctx);
     let ctx = ctx\<lparr>ev_net2app_mq := mq\<rparr>;
     if ret < 0 then Some (ctx, - 1)
     else do {
       (mq, ret) \<leftarrow> init_a2n (ev_app2net_mq ctx);
       Some (ctx\<lparr>ev_app2net_mq := mq\<rparr>, if ret < 0 then - 2 else 0)
     }
   }"

text \<open>\<^verbatim>\<open>usnet_net_setup\<close> up to the call of the dispatch loop, with the buffer sizes of its two calls as
  arguments of the first part; the result of \<^verbatim>\<open>usnet_tcpev_init\<close> is not looked at.\<close>

definition usnet_setup_tables ::
  "usn_context \<Rightarrow> nat \<Rightarrow> nat \<Rightarrow> (nat \<Rightarrow> mem_chunk) \<Rightarrow> usn_context option" where
  "usnet_setup_tables ctx rcv_size snd_size m = do {
     let ctx = usnet_rtohash_init ctx;
     let ctx = usnet_arp_init ctx;
     ctx \<leftarrow> usnet_socket_init ctx;
     ctx \<leftarrow> usnet_tcp_init ctx;
     ctx \<leftarrow> usnet_ringbuf_init ctx rcv_size m;
     usnet_sendbuf_init ctx snd_size m
   }"

definition usnet_net_setup ::
  "usn_context \<Rightarrow> (nat \<Rightarrow> mem_chunk) \<Rightarrow> (usn_shmmq \<Rightarrow> (usn_shmmq \<times> int) option) \<Rightarrow>
   (usn_shmmq \<Rightarrow> (usn_shmmq \<times> int) option) \<Rightarrow> usn_context option" where
  "usnet_net_setup ctx m init_n2a init_a2n = do {
     ctx \<leftarrow> usnet_setup_tables ctx 8096 (4 * 8096) m;
     (ctx, ret) \<leftarrow> usnet_tcpev_init ctx init_n2a init_a2n;
     Some ctx
   }"

section \<open>The initial context\<close>

lemma hashbase_100: "\<exists>ps. hashbase_loop 10 (isqrt 100) 100 [] = Some ps"
proof -
  have "hashbase_loop 10 (isqrt 100) 100 [] \<noteq> None" by code_simp
  then show ?thesis by auto
qed

lemma cache_init_100:
  "\<exists>base. usnet_cache_init 10 100 sz zero eqf keyf emptyf setf = Some base \<and> hb_cache base = (\<lambda>_. zero) \<and>
    hb_time base = 10"
  using hashbase_100 by (auto simp: usnet_cache_init_def usnet_hashbase_init_def)

text \<open>A context with no connection, empty queues and full pools.\<close>

definition ctx_fresh :: "usn_context \<Rightarrow> bool" where
  "ctx_fresh ctx \<longleftrightarrow> lists_ok ctx \<and> tcb_table (tcb_cache ctx) \<and> hb_time (tcb_cache ctx) = 10 \<and>
     rto_list ctx = (\<lambda>_. []) \<and> (\<forall>p. tcb_of ctx p = zero_tcb) \<and>
     cache_fns (sndbuf_cache ctx) usnet_sb_eq usnet_sb_key usnet_sb_isempty usnet_sb_setempty \<and>
     cache_wf sb_fd 0 (sndbuf_cache ctx) \<and>
     cache_fns (ringbuf_cache ctx) usnet_rb_eq usnet_rb_key usnet_rb_isempty usnet_rb_setempty \<and>
     cache_wf rb_fd 0 (ringbuf_cache ctx) \<and>
     cache_fns (socket_cache ctx) usnet_so_eq usnet_so_key usnet_so_isempty usnet_so_setempty \<and>
     cache_wf so_fd 0 (socket_cache ctx) \<and>
     mempool_ok (frag_mp ctx) {..<1024} \<and> mempool_ok (rcvvars_mp ctx) {..<1024} \<and>
     mempool_ok (sndvars_mp ctx) {..<1024}"

lemma fresh_lists_ok:
  assumes "\<forall>p. tcb_of ctx p = zero_tcb" "control_list ctx = []" "control_list_cnt ctx = 0"
    "send_list ctx = []" "send_list_cnt ctx = 0" "ack_list ctx = []" "ack_list_cnt ctx = 0"
    "timeout_list ctx = []" "timeout_list_cnt ctx = 0" "timewait_list ctx = []" "timewait_list_cnt ctx = 0"
    "rto_list ctx = (\<lambda>_. [])" "rto_list_cnt ctx = 0"
  shows "lists_ok ctx"
  using assms by (simp add: lists_ok_def rto_ok_def q_ok_def live_def zero_tcb_def zero_sndvars_def tcb_conn_def)

lemma setup_tables_fresh:
  assumes cnt: "control_list_cnt mem = 0" "send_list_cnt mem = 0" "ack_list_cnt mem = 0"
      "timeout_list_cnt mem = 0" "rto_list_cnt mem = 0"
  shows "\<exists>ctx. usnet_setup_tables (usnet_create_context mem) n1 n2 m = Some ctx \<and> ctx_fresh ctx \<and>
    ev_net2app_mq ctx = ev_net2app_mq mem \<and> ev_app2net_mq ctx = ev_app2net_mq mem \<and>
    g_fd ctx = 1 \<and> tcp_timeout ctx = 120"
proof -
  have pool: "\<exists>mp. usn_mempool_create cs (1024 * cs) 1 m = Some mp \<and> mempool_ok mp {..<1024}"
    if "cs \<in> {16, 72, 160}" for cs
  proof -
    have "\<exists>mp. usn_mempool_create cs (1024 * cs) 1 m = Some mp"
      using that by (auto simp: usn_mempool_create_def Let_def)
    then obtain mp where mp: "usn_mempool_create cs (1024 * cs) 1 m = Some mp" ..
    then show ?thesis using create_ok[OF mp] pool_chunks_small[of cs 1024] that by auto
  qed
  obtain so where so: "usnet_cache_init 10 100 64 zero_socket usnet_so_eq usnet_so_key usnet_so_isempty
      usnet_so_setempty = Some so" using cache_init_100[where zero = zero_socket] by blast
  obtain tb where tb: "usnet_tcb_init = Some tb" "hb_cache tb = (\<lambda>_. zero_tcb)" "hb_time tb = 10"
    unfolding usnet_tcb_init_def using cache_init_100[where zero = zero_tcb] by blast
  define z where "z = \<lparr>rb_fd = 0, rb_data = 0, rb_head = 0, rb_size = 0, rb_head_seq = 0, rb_last_seq = 0,
        rb_merged_len = 0, rb_win = 0, rb_frags = [], rb_buf = replicate n1 0\<rparr>"
  obtain rb where rb: "usnet_cache_init 10 100 (48 + n1) z usnet_rb_eq usnet_rb_key usnet_rb_isempty
      usnet_rb_setempty = Some rb" using cache_init_100[where zero = z] by blast
  define y where "y = \<lparr>sb_fd = 0, sb_head = 0, sb_sent_head = 0, sb_tail = 0, sb_len = 0, sb_cum_len = 0,
      sb_size = 0, sb_head_seq = 0, sb_init_seq = 0, sb_data = replicate n2 0\<rparr>"
  obtain sb where sb: "usnet_cache_init 10 100 (56 + n2) y usnet_sb_eq usnet_sb_key usnet_sb_isempty
      usnet_sb_setempty = Some sb" using cache_init_100[where zero = y] by blast
  obtain fmp rmp smp where mp: "usn_mempool_create 16 (1024 * 16) 1 m = Some fmp" "mempool_ok fmp {..<1024}"
      "usn_mempool_create 72 (1024 * 72) 1 m = Some rmp" "mempool_ok rmp {..<1024}"
      "usn_mempool_create 160 (1024 * 160) 1 m = Some smp" "mempool_ok smp {..<1024}"
    using pool[of 16] pool[of 72] pool[of 160] by blast
  let ?c = "(usnet_arp_init (usnet_rtohash_init (usnet_create_context mem)))
    \<lparr>socket_cache := so, tcb_cache := tb, ringbuf_cache := rb, frag_mp := fmp, rcvvars_mp := rmp,
     sndbuf_cache := sb, sndvars_mp := smp\<rparr>"
  have "usnet_setup_tables (usnet_create_context mem) n1 n2 m = Some ?c"
    unfolding usnet_setup_tables_def usnet_socket_init_def usnet_tcp_init_def usnet_ringbuf_init_def
      usnet_sendbuf_init_def z_def[symmetric] y_def[symmetric] so tb rb sb mp Let_def
    by (simp add: usnet_arp_init_def usnet_rtohash_init_def usnet_create_context_def)
  moreover have "tcb_of ?c p = zero_tcb" for p using tb(2) by (simp add: tcb_of_def)
  moreover have "lists_ok ?c"
    using cnt tb(2) by (intro fresh_lists_ok)
      (simp_all add: usnet_arp_init_def usnet_rtohash_init_def usnet_create_context_def tcb_of_def)
  moreover have "cache_fns sb usnet_sb_eq usnet_sb_key usnet_sb_isempty usnet_sb_setempty \<and> cache_wf sb_fd 0 sb"
    using sendbufs.init_wf[OF sb] by (simp add: y_def)
  moreover have "cache_fns rb usnet_rb_eq usnet_rb_key usnet_rb_isempty usnet_rb_setempty \<and> cache_wf rb_fd 0 rb"
    using ringbufs.init_wf[OF rb] by (simp add: z_def)
  moreover have "cache_fns so usnet_so_eq usnet_so_key usnet_so_isempty usnet_so_setempty \<and> cache_wf so_fd 0 so"
    using sockets.init_wf[OF so] by (simp add: zero_socket_def)
  ultimately show ?thesis
    using tcb_init_table[OF tb(1)] mp tb(3)
    by (intro exI[of _ ?c]) (simp add: ctx_fresh_def usnet_arp_init_def usnet_rtohash_init_def usnet_create_context_def)
qed

text \<open>C33. When the memory of the context object comes zeroed from the allocator, setting the stack up
  gives a context with consistent empty queues, well-formed tables without entries, and pools all of
  whose chunks are free. (The source clears only eight bytes of the object, so the queue counters are
  what the allocator left there.)\<close>

theorem net_setup_fresh:
  assumes cnt: "control_list_cnt mem = 0" "send_list_cnt mem = 0" "ack_list_cnt mem = 0"
      "timeout_list_cnt mem = 0" "rto_list_cnt mem = 0"
    and mq: "init_n2a (ev_net2app_mq mem) = Some (q1, 0)" "init_a2n (ev_app2net_mq mem) = Some (q2, 0)"
  shows "\<exists>ctx. usnet_net_setup (usnet_create_context mem) m init_n2a init_a2n = Some ctx \<and> ctx_fresh ctx \<and>
    ev_net2app_mq ctx = q1 \<and> ev_app2net_mq ctx = q2 \<and> g_fd ctx = 1 \<and> tcp_timeout ctx = 120"
proof -
  obtain c where c: "usnet_setup_tables (usnet_create_context mem) 8096 (4 * 8096) m = Some c" "ctx_fresh c"
      "ev_net2app_mq c = ev_net2app_mq mem" "ev_app2net_mq c = ev_app2net_mq mem" "g_fd c = 1" "tcp_timeout c = 120"
    using setup_tables_fresh[OF cnt] by blast
  let ?c = "c\<lparr>ev_net2app_mq := q1, ev_app2net_mq := q2\<rparr>"
  have "same_queues c ?c" by (simp add: same_queues_def)
  moreover have "lists_ok c" using c(2) by (simp only: ctx_fresh_def)
  ultimately have "lists_ok ?c" by (rule same_queues_ok[rotated])
  then have "ctx_fresh ?c" using c(2) by (simp add: ctx_fresh_def)
  moreover have "usnet_net_setup (usnet_create_context mem) m init_n2a init_a2n = Some ?c"
    unfolding usnet_net_setup_def c(1) by (simp add: usnet_tcpev_init_def c(3,4) mq)
  ultimately show ?thesis using c(5,6) by (intro exI[of _ ?c]) simp
qed

section \<open>Sample contexts\<close>

text \<open>A zeroed context object, a fresh stack with 64-byte buffers, and a stack with one connection.\<close>

definition blank_table :: "'a \<Rightarrow> 'a usn_hashbase" where
  "blank_table z = \<lparr>hb_time = 0, hb_len = 0, hb_objsize = 0, hb_base = [], hb_cache = (\<lambda>_. z),
     hb_eqfn = (\<lambda>_ _. False), hb_keyfn = (\<lambda>_. 0), hb_isemptyfn = (\<lambda>_. False), hb_setemptyfn = (\<lambda>x. x)\<rparr>"

definition blank_ring :: usn_ringbuf where
  "blank_ring = \<lparr>rb_fd = 0, rb_data = 0, rb_head = 0, rb_size = 0, rb_head_seq = 0, rb_last_seq = 0,
     rb_merged_len = 0, rb_win = 0, rb_frags = [], rb_buf = []\<rparr>"

definition blank_context :: usn_context where
  "blank_context = \<lparr>cur_time = 1000, g_fd = 0, flow_cnt = 0, tcp_timewait = 0, tcp_timeout = 0,
     if_hwa = [2, 0, 0, 0, 0, 1], if_addr = 0x0100000A, arp_entries = [], ev_net2app_mq = mq_new 1024,
     ev_app2net_mq = mq_new 1024, tx_frames = [], tcb_cache = blank_table zero_tcb,
     socket_cache = blank_table zero_socket, ringbuf_cache = blank_table blank_ring,
     sndbuf_cache = blank_table (sendbuf_at 0 0 []), rcvvars_mp = frag_pool_new 0, sndvars_mp = frag_pool_new 0,
     frag_mp = frag_pool_new 0, control_list = [], send_list = [], ack_list = [], control_list_cnt = 0,
     send_list_cnt = 0, ack_list_cnt = 0, rto_now_idx = 0, rto_now_ts = 0, rto_list = (\<lambda>_. []),
     rto_list_cnt = 0, timewait_list = [], timeout_list = [], timewait_list_cnt = 0, timeout_list_cnt = 0,
     listen_tcb = None, rand_out = (\<lambda>n. of_nat n), rand_calls = 0, hz = 1000\<rparr>"

definition fresh_context :: usn_context where
  "fresh_context =
     (case usnet_setup_tables (usnet_create_context blank_context) 64 64 blank_chunks of
        Some ctx \<Rightarrow> ctx | None \<Rightarrow> blank_context)"

definition conn_context :: "usn_tcb \<Rightarrow> usn_context" where
  "conn_context tcb =
     fresh_context\<lparr>tcb_cache := fst (usnet_cache_insert (tcb_cache fresh_context) tcb)\<rparr>"

lemma fresh_context_fresh:
  "ctx_fresh fresh_context" "ev_net2app_mq fresh_context = mq_new 1024" "ev_app2net_mq fresh_context = mq_new 1024"
  "tcp_timeout fresh_context = 120"
  using setup_tables_fresh[of blank_context 64 64 blank_chunks]
  by (auto simp: fresh_context_def) (auto simp: blank_context_def)

lemma init_shmmq_created:
  assumes "fd \<le> 1024" "int C_HEAD_SIZE < n"
  shows "\<exists>q. usnet_init_shmmq mq True fd (Some 0) 0 Shm_Created now e ws wu n sync nb = Some (q, 0)"
  using assms by (simp add: usnet_init_shmmq_def Let_def)

definition open_queue :: "u32 \<Rightarrow> usn_shmmq \<Rightarrow> (usn_shmmq \<times> int) option" where
  "open_queue fd mq = usnet_init_shmmq mq True fd (Some 0) 0 Shm_Created 1000 0 0 0 33554432 0 2048"

theorem net_setup_fresh_witness:
  "\<exists>ctx. usnet_net_setup (usnet_create_context blank_context) blank_chunks (open_queue 3) (open_queue 4) = Some ctx \<and>
    ctx_fresh ctx"
proof -
  have "\<exists>q. open_queue fd mq = Some (q, 0)" if "fd \<in> {3, 4}" for fd mq
    unfolding open_queue_def using that by (intro init_shmmq_created[of fd 33554432]) auto
  then obtain q1 q2 where q: "open_queue 3 (ev_net2app_mq blank_context) = Some (q1, 0)"
    "open_queue 4 (ev_app2net_mq blank_context) = Some (q2, 0)" by blast
  show ?thesis
    using net_setup_fresh[where mem = blank_context and m = blank_chunks and init_n2a = "open_queue 3"
        and init_a2n = "open_queue 4", OF _ _ _ _ _ q]
    by (auto simp: blank_context_def)
qed

text \<open>One connection in a fresh stack.\<close>

lemma conn_context_ok:
  assumes "\<not> usnet_tcb_isempty tcb" "unqueued tcb"
  shows "\<exists>p. conn_context tcb = upd_tcb p (\<lambda>_. tcb) fresh_context \<and> tcb_table (tcb_cache (conn_context tcb)) \<and>
    lists_ok (conn_context tcb) \<and> tcb_of (conn_context tcb) p = tcb \<and> live (conn_context tcb) p \<and>
    (\<forall>q. q \<noteq> p \<longrightarrow> tcb_of (conn_context tcb) q = zero_tcb)"
proof -
  let ?b = "tcb_cache fresh_context"
  have z: "tcb_of fresh_context q = zero_tcb" for q using fresh_context_fresh(1) by (simp add: ctx_fresh_def)
  have w: "tcb_table ?b" "hb_time ?b = 10" "lists_ok fresh_context" and r: "rto_list fresh_context = (\<lambda>_. [])"
    using fresh_context_fresh(1) by (simp_all add: ctx_fresh_def)
  have k: "tcb_conn tcb \<noteq> (0, 0, 0, 0)" using assms(1) tcbs.isempty_keyof by auto
  have e: "tcb_conn (hb_cache ?b q) = (0, 0, 0, 0)" for q
    using z[of q] by (simp add: tcb_of_def zero_tcb_def tcb_conn_def)
  have w2: "cache_fns ?b usnet_tcb_eq usnet_tcb_key usnet_tcb_isempty usnet_tcb_setempty"
    "cache_wf tcb_conn (0, 0, 0, 0) ?b" using w(1) by (simp_all add: tcb_table_def)
  have none: "usnet_cache_search ?b tcb = None" using tcbs.search_None_iff[OF w2 k] e k by metis
  have "snd (usnet_cache_insert ?b tcb) \<noteq> None"
    unfolding tcbs.insert_fails_iff[OF w2(1)] using e w(2) by (auto intro: exI[of _ 0])
  then obtain p b' where ins: "usnet_cache_insert ?b tcb = (b', Some p)" by (metis not_Some_eq prod.collapse)
  then have b': "b' = ?b\<lparr>hb_cache := (hb_cache ?b)(p := tcb)\<rparr>"
    by (auto simp: tcbs.insert_get split: option.splits)
  have c: "conn_context tcb = upd_tcb p (\<lambda>_. tcb) fresh_context"
    by (simp add: conn_context_def ins b' upd_tcb_def)
  have "tcb_table b'" using tcbs.insert_wf[OF w2 k none ins] by (simp add: tcb_table_def)
  moreover have "tcb_cache (conn_context tcb) = b'" by (simp add: conn_context_def ins)
  moreover have "lists_ok (conn_context tcb)"
    unfolding c using w(3) assms(2) z[of p] r
    by (intro lists_ok_enter) (simp_all add: zero_tcb_def zero_sndvars_def)
  ultimately show ?thesis using z k by (intro exI[of _ p]) (auto simp: c live_def)
qed

definition sample_tcb :: usn_tcb where
  "sample_tcb = zero_tcb\<lparr>tcb_fd := 5, saddr := 0x0100000A, daddr := 0x0200000A, sport := 0x5000, dport := 0x0A0B,
     tcb_state := TCPS_ESTABLISHED, on_rto_idx := - 1, snd_nxt := 1001, rcv_nxt := 501,
     rcvvar_at := Some 0, sndvar_at := Some 0,
     rcvvar := zero_rcvvars\<lparr>rcv_wnd := 14600, irs := 500\<rparr>,
     sndvar := zero_sndvars\<lparr>mss := 1460, eff_mss := 1448, wscale := 7, snd_una := 1001, peer_wnd := 8000, iss := 1000,
       rto := 500, cwnd := 2920, ssthresh := 14600\<rparr>\<rparr>"

lemma sample_tcb_ok [simp]: "\<not> usnet_tcb_isempty sample_tcb" "unqueued sample_tcb"
  by (simp_all add: sample_tcb_def usnet_tcb_isempty_def unqueued_def zero_tcb_def zero_sndvars_def)

end
