(* ===== verification/Tcp_Out.thy ===== *)
theory Tcp_Out
  imports Setup
begin

text \<open>
  Building and sending segments (\<^verbatim>\<open>tcp_out.c\<close>), and the release of a connection (\<^verbatim>\<open>tcb.c\<close>), which
  sending a reset triggers. \<^verbatim>\<open>Makefile.am\<close> builds the library with \<^verbatim>\<open>TCPOPT_TIMESTAMP_ENABLED\<close> and
  \<^verbatim>\<open>TRY_SEND_BEFORE_QUEUE\<close>, so every segment carries a timestamp option, and a control segment is sent at once
  and queued only if that fails. \<^verbatim>\<open>TCPOPT_SACK_ENABLED\<close> is not defined.
\<close>

section \<open>Headers and options\<close>

abbreviation TH_FIN :: u8 where "TH_FIN \<equiv> 0x01"
abbreviation TH_SYN :: u8 where "TH_SYN \<equiv> 0x02"
abbreviation TH_RST :: u8 where "TH_RST \<equiv> 0x04"
abbreviation TH_PUSH :: u8 where "TH_PUSH \<equiv> 0x08"
abbreviation TH_ACK :: u8 where "TH_ACK \<equiv> 0x10"
abbreviation TH_SACK :: u8 where "TH_SACK \<equiv> 0x40"
abbreviation TH_WACK :: u8 where "TH_WACK \<equiv> 0x80"

definition usnet_get_tcpopt_length :: "u8 \<Rightarrow> nat" where
  "usnet_get_tcpopt_length flags =
     (if flags AND TH_SYN \<noteq> 0 then 4 + (10 + 2) + (3 + 1)
      else 10 + 2 + (if flags AND TH_SACK \<noteq> 0 then 10 + 2 else 0))"

definition usnet_generate_tcpts :: "usn_tcb \<Rightarrow> u32 \<Rightarrow> byte list" where
  "usnet_generate_tcpts tcb cur_ts = [8, 10] @ le32 (htonl cur_ts) @ le32 (htonl (ts_recent (rcvvar tcb)))"

text \<open>The final \<^verbatim>\<open>assert (i == optlen)\<close> compares the bytes written with the length announced.\<close>

definition usnet_generate_tcpopts :: "usn_context \<Rightarrow> usn_tcb \<Rightarrow> u8 \<Rightarrow> nat \<Rightarrow> byte list option" where
  "usnet_generate_tcpopts ctx tcb flags optlen =
     (let ts = usnet_generate_tcpts tcb (of_int (cur_time ctx));
          opts = (if flags AND TH_SYN \<noteq> 0 then
                    [2, 4, ucast (drop_bit 8 (mss (sndvar tcb))), ucast (mss (sndvar tcb))] @
                    [1, 1] @ ts @ [1, 3, 3, wscale (sndvar tcb)]
                  else [1, 1] @ ts)
      in if length opts = optlen then Some opts else None)"

definition tcp_header :: "u16 \<Rightarrow> u16 \<Rightarrow> u32 \<Rightarrow> u32 \<Rightarrow> nat \<Rightarrow> u8 \<Rightarrow> u16 \<Rightarrow> u16 \<Rightarrow> byte list" where
  "tcp_header src dst th_seq th_ack optlen flags th_win th_sum =
     le16 src @ le16 dst @ le32 th_seq @ le32 th_ack @
     [push_bit 4 (of_nat ((20 + optlen) div 4)), flags] @ le16 th_win @ le16 th_sum @ [0, 0]"

text \<open>A segment whose checksum field holds the checksum of the segment with a zero field.\<close>

definition tcp_sealed :: "u16 \<Rightarrow> u16 \<Rightarrow> u32 \<Rightarrow> u32 \<Rightarrow> u8 \<Rightarrow> u16 \<Rightarrow> byte list \<Rightarrow> byte list \<Rightarrow> u32 \<Rightarrow> u32 \<Rightarrow> byte list" where
  "tcp_sealed src dst th_seq th_ack flags th_win opts payload sip dip =
     (let hdr = tcp_header src dst th_seq th_ack (length opts) flags th_win;
          csum = tcp_cksum (hdr 0 @ opts @ payload) sip dip
      in hdr csum @ opts @ payload)"

section \<open>Segments outside a connection\<close>

text \<open>\<^verbatim>\<open>usnet_send_tcp_packet_alone\<close> writes a 12-byte timestamp option behind the header whatever the flags are; the
  rest of the announced option length keeps the zeros of the \<^verbatim>\<open>memset\<close>.\<close>

definition usnet_send_tcp_packet_alone ::
  "usn_context \<Rightarrow> u32 \<Rightarrow> u16 \<Rightarrow> u32 \<Rightarrow> u16 \<Rightarrow> u32 \<Rightarrow> u32 \<Rightarrow> u16 \<Rightarrow> u8 \<Rightarrow> byte list \<Rightarrow> u32 \<Rightarrow> u32 \<Rightarrow>
   (usn_context \<times> int) option" where
  "usnet_send_tcp_packet_alone ctx src sp dst dp seq ack_seq window flags payload cur_ts echo_ts =
     (let optlen = usnet_get_tcpopt_length flags;
          payloadlen = length payload
      in if payloadlen > 1460 + optlen then Some (ctx, - 1)
         else do {
           (ctx, hdr) \<leftarrow> usnet_ipv4_output_alone ctx 0 6 src dst (20 + optlen + payloadlen);
           case hdr of
             None \<Rightarrow> Some (ctx, - 2)
           | Some below \<Rightarrow> do {
               let th_ack = (if flags AND TH_ACK \<noteq> 0 then htonl ack_seq else 0);
               let ts = [1, 1, 8, 10] @ le32 (htonl cur_ts) @ le32 (htonl echo_ts);
               let seg = tcp_sealed sp dp (htonl seq) th_ack flags (htons (min window 65535))
                           (ts @ replicate (optlen - 12) 0) payload src dst;
               ctx \<leftarrow> usnet_send_data ctx (below @ seg);
               Some (ctx, int payloadlen + (if flags AND (TH_SYN OR TH_FIN) \<noteq> 0 then 1 else 0))
             }
         })"

section \<open>Segments of a connection\<close>

text \<open>Filling in the header, the options and the payload behind the IP header.\<close>

definition tcp_build :: "usn_context \<Rightarrow> nat \<Rightarrow> u8 \<Rightarrow> byte list \<Rightarrow> (usn_context \<times> byte list) option" where
  "tcp_build ctx p flags payload = do {
     let th_seq = htonl (if flags AND TH_WACK \<noteq> 0 then snd_nxt (tcb_of ctx p) - 1
                         else if flags AND TH_FIN \<noteq> 0 then fss (snd_of ctx p)
                         else snd_nxt (tcb_of ctx p));
     let ctx = (if flags AND TH_WACK = 0 \<and> flags AND TH_FIN \<noteq> 0
                then upd_snd p (\<lambda>s. s\<lparr>is_fin_sent := True\<rparr>) ctx else ctx);
     let th_ack = (if flags AND TH_ACK \<noteq> 0 then htonl (rcv_nxt (tcb_of ctx p)) else 0);
     ctx \<leftarrow> (if flags AND TH_ACK \<noteq> 0 then
               usnet_update_timeout_list
                 (upd_tcb p (\<lambda>t. t\<lparr>last_active_ts := of_int (cur_time ctx)\<rparr>)
                   (upd_snd p (\<lambda>s. s\<lparr>ts_lastack_sent := of_int (cur_time ctx)\<rparr>) ctx)) p
             else Some ctx);
     let scale = (if flags AND TH_SYN \<noteq> 0 then 0 else wscale (snd_of ctx p));
     let window32 = shr32 (rcv_wnd (rcv_of ctx p)) scale;
     let ctx = (if window32 = 0 then upd_tcb p (\<lambda>t. t\<lparr>need_wnd_adv := True\<rparr>) ctx else ctx);
     opts \<leftarrow> usnet_generate_tcpopts ctx (tcb_of ctx p) flags (usnet_get_tcpopt_length flags);
     Some (ctx, tcp_sealed (sport (tcb_of ctx p)) (dport (tcb_of ctx p)) th_seq th_ack flags
                  (htons (min (ucast window32) 65535)) opts payload
                  (saddr (tcb_of ctx p)) (daddr (tcb_of ctx p)))
   }"

definition usnet_send_tcp_packet ::
  "usn_context \<Rightarrow> nat \<Rightarrow> u8 \<Rightarrow> byte list \<Rightarrow> (usn_context \<times> int) option" where
  "usnet_send_tcp_packet ctx p flags payload =
     (let optlen = usnet_get_tcpopt_length flags;
          payloadlen = length payload
      in if payloadlen > unat (mss (snd_of ctx p)) + optlen then Some (ctx, - 1)
         else do {
           (ctx, hdr) \<leftarrow> usnet_ipv4_output ctx p (20 + optlen + payloadlen);
           case hdr of
             None \<Rightarrow> Some (ctx, - 2)
           | Some below \<Rightarrow> do {
               (ctx, seg) \<leftarrow> tcp_build ctx p flags payload;
               let ctx = upd_tcb p (\<lambda>t. t\<lparr>snd_nxt := snd_nxt t + of_nat payloadlen\<rparr>) ctx;
               let ctx = (if flags AND (TH_SYN OR TH_FIN) \<noteq> 0
                          then upd_tcb p (\<lambda>t. t\<lparr>snd_nxt := snd_nxt t + 1\<rparr>) ctx else ctx);
               let payloadlen = (if flags AND (TH_SYN OR TH_FIN) \<noteq> 0 then payloadlen + 1 else payloadlen);
               ctx \<leftarrow> (if payloadlen > 0 then
                         usnet_add_rto_list
                           (upd_snd p (\<lambda>s. s\<lparr>ts_rto := of_int (cur_time ctx) + rto s\<rparr>) ctx) p
                       else Some ctx);
               ctx \<leftarrow> usnet_send_data ctx (below @ seg);
               Some (ctx, int payloadlen)
             }
         })"

section \<open>Releasing a connection\<close>

text \<open>A connection without its variables (the listening one) is a null pointer access.\<close>

definition usnet_release_tcb :: "usn_context \<Rightarrow> nat \<Rightarrow> usn_context option" where
  "usnet_release_tcb ctx p =
     (if sndvar_at (tcb_of ctx p) = None \<or> rcvvar_at (tcb_of ctx p) = None then None
      else do {
        ctx \<leftarrow> usnet_remove_control_list ctx p;
        ctx \<leftarrow> usnet_remove_send_list ctx p;
        ctx \<leftarrow> usnet_remove_ack_list ctx p;
        ctx \<leftarrow> (if on_rto_idx (tcb_of ctx p) \<ge> 0 then usnet_remove_rto_list ctx p else Some ctx);
        ctx \<leftarrow> (if on_timewait_list (tcb_of ctx p) then usnet_remove_timewait_list ctx p else Some ctx);
        ctx \<leftarrow> (if tcp_timeout ctx > 0 then usnet_remove_timeout_list ctx p else Some ctx);
        let ctx = ctx\<lparr>sndbuf_cache := fst (usnet_cache_remove (sndbuf_cache ctx) (sndbuf (snd_of ctx p)))\<rparr>;
        let ctx = ctx\<lparr>ringbuf_cache := fst (usnet_cache_remove (ringbuf_cache ctx) (rcvbuf (rcv_of ctx p)))\<rparr>;
        let ctx = ctx\<lparr>rcvvars_mp := usnet_mempool_free (rcvvars_mp ctx) (rcvvar_at (tcb_of ctx p))\<rparr>;
        let ctx = ctx\<lparr>sndvars_mp := usnet_mempool_free (sndvars_mp ctx) (sndvar_at (tcb_of ctx p))\<rparr>;
        Some (ctx\<lparr>tcb_cache := fst (usnet_cache_remove (tcb_cache ctx) (Some p))\<rparr>)
      })"

section \<open>Control segments\<close>

definition usnet_send_control_packet :: "usn_context \<Rightarrow> nat \<Rightarrow> (usn_context \<times> int) option" where
  "usnet_send_control_packet ctx p =
     (let busy = on_send_list (snd_of ctx p) \<or> on_ack_list (snd_of ctx p);
          send_ack = (\<lambda>ctx flags. do {
            (ctx, ret) \<leftarrow> usnet_send_tcp_packet ctx p flags [];
            ctx \<leftarrow> usnet_remove_ack_list ctx p;
            Some (ctx, ret)
          })
      in case tcb_state (tcb_of ctx p) of
           TCPS_SYN_SENT \<Rightarrow> usnet_send_tcp_packet ctx p TH_SYN []
         | TCPS_SYN_RECEIVED \<Rightarrow>
             send_ack (upd_tcb p (\<lambda>t. t\<lparr>snd_nxt := iss (sndvar t)\<rparr>) ctx) (TH_SYN OR TH_ACK)
         | TCPS_ESTABLISHED \<Rightarrow> send_ack ctx TH_ACK
         | TCPS_CLOSE_WAIT \<Rightarrow> send_ack ctx TH_ACK
         | TCPS_LAST_ACK \<Rightarrow> if busy then Some (ctx, - 1) else send_ack ctx (TH_FIN OR TH_ACK)
         | TCPS_FIN_WAIT_1 \<Rightarrow> if busy then Some (ctx, - 1) else send_ack ctx (TH_FIN OR TH_ACK)
         | TCPS_FIN_WAIT_2 \<Rightarrow> send_ack ctx TH_ACK
         | TCPS_CLOSING \<Rightarrow>
             if is_fin_sent (snd_of ctx p) then
               (if snd_nxt (tcb_of ctx p) = fss (snd_of ctx p) then send_ack ctx (TH_FIN OR TH_ACK)
                else send_ack ctx TH_ACK)
             else send_ack ctx (TH_FIN OR TH_ACK)
         | TCPS_TIME_WAIT \<Rightarrow> send_ack ctx TH_ACK
         | TCPS_CLOSED \<Rightarrow>
             if busy then Some (ctx, - 1)
             else do {
               (ctx, ret) \<leftarrow> usnet_send_tcp_packet ctx p TH_RST [];
               ctx \<leftarrow> (if ret \<ge> 0 then usnet_release_tcb ctx p else Some ctx);
               Some (ctx, ret)
             }
         | TCPS_LISTEN \<Rightarrow> Some (ctx, 0))"

text \<open>The segment is sent at once, and the connection is queued when that fails and taken off the queue otherwise.
  Sending a reset releases the connection. The flag is then read in the returned chunk of the send variables, of which
  giving the chunk back has overwritten the first bytes only; the release has cleared it.\<close>

definition usnet_add_control_list :: "usn_context \<Rightarrow> nat \<Rightarrow> usn_context option" where
  "usnet_add_control_list ctx p = do {
     (ctx, ret) \<leftarrow> usnet_send_control_packet ctx p;
     if ret < 0 then control_enqueue ctx p
     else if on_control_list (snd_of ctx p) then do {
       let ctx = upd_snd p (\<lambda>s. s\<lparr>on_control_list := False\<rparr>) ctx;
       l \<leftarrow> TAILQ_REMOVE p (control_list ctx);
       Some (ctx\<lparr>control_list := l, control_list_cnt := control_list_cnt ctx - 1\<rparr>)
     }
     else Some ctx
   }"

lemma add_control_list_eq:
  "usnet_add_control_list ctx p = do {
     (ctx, ret) \<leftarrow> usnet_send_control_packet ctx p;
     if ret < 0 then control_enqueue ctx p else usnet_remove_control_list ctx p
   }"
  unfolding usnet_add_control_list_def usnet_remove_control_list_def by (rule refl)

section \<open>Sending buffered data\<close>

definition sb_of :: "usn_context \<Rightarrow> nat \<Rightarrow> usn_sendbuf" where
  "sb_of ctx b = hb_cache (sndbuf_cache ctx) b"

definition upd_sb :: "nat \<Rightarrow> usn_sendbuf \<Rightarrow> usn_context \<Rightarrow> usn_context" where
  "upd_sb b buf ctx =
     ctx\<lparr>sndbuf_cache := (sndbuf_cache ctx)\<lparr>hb_cache := (hb_cache (sndbuf_cache ctx))(b := buf)\<rparr>\<rparr>"

text \<open>One pass of the loop of \<^verbatim>\<open>usnet_flush_tcp_sendbuf\<close>: \<open>Inl\<close> is a \<^verbatim>\<open>break\<close> or \<^verbatim>\<open>return\<close> with its value
  (\<open>None\<close> for the \<^verbatim>\<open>break\<close>, which returns the number of packets), \<open>Inr\<close> the head for the next pass. The
  limit \<^verbatim>\<open>tail_len\<close> is computed from the tail of the buffer, not from \<^verbatim>\<open>head\<close>.\<close>

definition flush_step ::
  "usn_context \<Rightarrow> nat \<Rightarrow> nat \<Rightarrow> u32 \<Rightarrow> u32 \<Rightarrow> u32 \<Rightarrow> u32 \<Rightarrow> (usn_context \<times> (int option + u32)) option" where
  "flush_step ctx p b maxlen window head tail =
     (let buf = sb_of ctx b;
          seq = snd_nxt (tcb_of ctx p);
          buffered_len = (if tail \<ge> head then tail - head else sb_size buf + tail - head);
          len = (if buffered_len > maxlen then ucast maxlen else ucast buffered_len) :: u16;
          tail_len = sint (sb_size buf - sb_tail buf);
          len = (if int (unat len) \<ge> tail_len then of_int tail_len else len);
          inflight = seq - snd_una (snd_of ctx p) + ucast len
      in if TCP_SEQ_LT seq (sb_head_seq buf) then None
         else if buffered_len = 0 then Some (ctx, Inl None)
         else if len = 0 then Some (ctx, Inl None)
         else if inflight > window then do {
           ctx \<leftarrow> (if inflight > peer_wnd (snd_of ctx p) \<and>
                      TS_TO_MSEC ctx (cur_time ctx - int (unat (ts_lastack_sent (snd_of ctx p)))) > 500
                    then usnet_enqueue_ack ctx p ACK_OPT_WACK else Some ctx);
           Some (ctx, Inl (Some (- 3)))
         }
         else do {
           payload \<leftarrow> mem_read (unat head) (unat len) (sb_data buf);
           (ctx, ret) \<leftarrow> usnet_send_tcp_packet ctx p TH_ACK payload;
           let sndlen = sint (of_int ret :: u16);
           if sndlen < 0 then Some (ctx, Inl (Some sndlen))
           else
             let head = head + of_int sndlen;
                 head = (if head \<ge> sb_size buf then head - sb_size buf else head)
             in Some (upd_sb b ((sb_of ctx b)\<lparr>sb_sent_head := head\<rparr>) ctx, Inr head)
         })"

partial_function (option) flush_loop ::
  "usn_context \<Rightarrow> nat \<Rightarrow> nat \<Rightarrow> u32 \<Rightarrow> u32 \<Rightarrow> u32 \<Rightarrow> u32 \<Rightarrow> int \<Rightarrow> (usn_context \<times> int) option" where
  "flush_loop ctx p b maxlen window head tail packets =
     Option.bind (flush_step ctx p b maxlen window head tail) (\<lambda>(ctx, r).
       case r of
         Inl None \<Rightarrow> Some (ctx, packets)
       | Inl (Some ret) \<Rightarrow> Some (ctx, ret)
       | Inr head \<Rightarrow> flush_loop ctx p b maxlen window head tail (packets + 1))"

definition usnet_flush_tcp_sendbuf :: "usn_context \<Rightarrow> nat \<Rightarrow> (usn_context \<times> int) option" where
  "usnet_flush_tcp_sendbuf ctx p =
     (case sndbuf (snd_of ctx p) of
        None \<Rightarrow> None
      | Some b \<Rightarrow>
          let buf = sb_of ctx b; s = snd_of ctx p in
          if sb_head buf = sb_tail buf then Some (ctx, 0)
          else flush_loop ctx p b (of_int (int (unat (mss s)) - int (usnet_get_tcpopt_length TH_ACK))) (min (cwnd s) (peer_wnd s)) (sb_sent_head buf) (sb_tail buf) 0)"

declare flush_loop.simps [code]

section \<open>What the operations leave alone\<close>

text \<open>The parts of a connection that no queueing or sending operation changes, and contexts that
  agree on them for every connection.\<close>

definition same_conn :: "usn_tcb \<Rightarrow> usn_tcb \<Rightarrow> bool" where
  "same_conn t t' \<longleftrightarrow>
     tcb_conn t' = tcb_conn t \<and> tcb_state t' = tcb_state t \<and> tcb_fd t' = tcb_fd t \<and>
     tcb_socket t' = tcb_socket t \<and> rcv_nxt t' = rcv_nxt t \<and>
     sndvar_at t' = sndvar_at t \<and> rcvvar_at t' = rcvvar_at t \<and>
     sndbuf (sndvar t') = sndbuf (sndvar t) \<and> rcvbuf (rcvvar t') = rcvbuf (rcvvar t) \<and>
     iss (sndvar t') = iss (sndvar t) \<and> rto (sndvar t') = rto (sndvar t)"

definition keeps :: "usn_context \<Rightarrow> usn_context \<Rightarrow> bool" where
  "keeps ctx ctx' \<longleftrightarrow> (\<forall>q. same_conn (tcb_of ctx q) (tcb_of ctx' q))"

text \<open>Consistent lists, and nothing but queues and sending variables changed since \<open>c0\<close>.\<close>

definition good :: "usn_context \<Rightarrow> usn_context \<Rightarrow> bool" where
  "good c0 ctx \<longleftrightarrow> lists_ok ctx \<and> keeps c0 ctx"

lemma keeps_refl [simp]: "keeps ctx ctx"
  by (simp add: keeps_def same_conn_def)

lemma keeps_trans: "keeps a b \<Longrightarrow> keeps b c \<Longrightarrow> keeps a c"
  by (simp add: keeps_def same_conn_def)

lemma good_refl: "lists_ok ctx \<Longrightarrow> good ctx ctx"
  by (simp add: good_def)

lemma good_live: "good c0 ctx \<Longrightarrow> live c0 p \<Longrightarrow> live ctx p"
  by (simp add: good_def keeps_def same_conn_def live_def)

lemma good_same_queues: "good c0 ctx \<Longrightarrow> same_queues ctx ctx' \<Longrightarrow> keeps ctx ctx' \<Longrightarrow> good c0 ctx'"
  using same_queues_ok keeps_trans unfolding good_def by blast

lemma good_upd:
  assumes "good c0 ctx" "same_conn (tcb_of ctx p) (f (tcb_of ctx p))"
    "on_control_list (sndvar (f (tcb_of ctx p))) = on_control_list (snd_of ctx p)"
    "on_send_list (sndvar (f (tcb_of ctx p))) = on_send_list (snd_of ctx p)"
    "on_ack_list (sndvar (f (tcb_of ctx p))) = on_ack_list (snd_of ctx p)"
    "on_timeout_list (f (tcb_of ctx p)) = on_timeout_list (tcb_of ctx p)"
    "on_timewait_list (f (tcb_of ctx p)) = on_timewait_list (tcb_of ctx p)"
    "on_rto_idx (f (tcb_of ctx p)) = on_rto_idx (tcb_of ctx p)"
  shows "good c0 (upd_tcb p f ctx)"
  using assms
  by (intro good_same_queues[OF assms(1)]) (auto simp: same_queues_def keeps_def same_conn_def)

lemma wp_queue:
  assumes "good c0 ctx" "lists_ok ctx \<Longrightarrow> \<exists>ctx'. m = Some ctx' \<and> lists_ok ctx'"
    "\<And>ctx'. m = Some ctx' \<Longrightarrow> keeps ctx ctx'"
  shows "wp (good c0) m"
  using assms keeps_trans unfolding wp_def good_def by blast

lemma queue_ops_keep:
  "control_enqueue ctx p = Some ctx' \<Longrightarrow> keeps ctx ctx'"
  "usnet_remove_control_list ctx p = Some ctx' \<Longrightarrow> keeps ctx ctx'"
  "usnet_add_send_list ctx p = Some ctx' \<Longrightarrow> keeps ctx ctx'"
  "usnet_remove_send_list ctx p = Some ctx' \<Longrightarrow> keeps ctx ctx'"
  "usnet_add_ack_list ctx p = Some ctx' \<Longrightarrow> keeps ctx ctx'"
  "usnet_remove_ack_list ctx p = Some ctx' \<Longrightarrow> keeps ctx ctx'"
  "usnet_add_timeout_list ctx p = Some ctx' \<Longrightarrow> keeps ctx ctx'"
  "usnet_remove_timeout_list ctx p = Some ctx' \<Longrightarrow> keeps ctx ctx'"
  "usnet_update_timeout_list ctx p = Some ctx' \<Longrightarrow> keeps ctx ctx'"
  "usnet_add_timewait_list ctx p = Some ctx' \<Longrightarrow> keeps ctx ctx'"
  "usnet_remove_timewait_list ctx p = Some ctx' \<Longrightarrow> keeps ctx ctx'"
  "usnet_add_rto_list ctx p = Some ctx' \<Longrightarrow> keeps ctx ctx'"
  "usnet_remove_rto_list ctx p = Some ctx' \<Longrightarrow> keeps ctx ctx'"
  by (auto simp: keeps_def same_conn_def bind_eq_Some_conv Let_def control_enqueue_def
      usnet_remove_control_list_def usnet_add_send_list_def usnet_remove_send_list_def
      usnet_add_ack_list_def usnet_remove_ack_list_def usnet_add_timeout_list_def
      usnet_remove_timeout_list_def usnet_update_timeout_list_def usnet_add_timewait_list_def
      usnet_remove_timewait_list_def usnet_add_rto_list_def usnet_remove_rto_list_def split: if_splits)

lemma control_enqueue_good [wp_rules]: "good c0 ctx \<Longrightarrow> wp (good c0) (control_enqueue ctx p)"
  by (rule wp_queue) (use control_q.add_ok in \<open>auto intro: queue_ops_keep\<close>)

lemma remove_control_list_good [wp_rules]: "good c0 ctx \<Longrightarrow> wp (good c0) (usnet_remove_control_list ctx p)"
  by (rule wp_queue) (use control_q.remove_ok in \<open>auto intro: queue_ops_keep\<close>)

lemma remove_send_list_good [wp_rules]: "good c0 ctx \<Longrightarrow> wp (good c0) (usnet_remove_send_list ctx p)"
  by (rule wp_queue) (use send_q.remove_ok in \<open>auto intro: queue_ops_keep\<close>)

lemma add_ack_list_good [wp_rules]: "good c0 ctx \<Longrightarrow> wp (good c0) (usnet_add_ack_list ctx p)"
  by (rule wp_queue) (use ack_q.add_ok in \<open>auto intro: queue_ops_keep\<close>)

lemma remove_ack_list_good [wp_rules]: "good c0 ctx \<Longrightarrow> wp (good c0) (usnet_remove_ack_list ctx p)"
  by (rule wp_queue) (use ack_q.remove_ok in \<open>auto intro: queue_ops_keep\<close>)

lemma remove_timeout_list_good [wp_rules]: "good c0 ctx \<Longrightarrow> wp (good c0) (usnet_remove_timeout_list ctx p)"
  by (rule wp_queue) (use timeout_q.remove_ok in \<open>auto intro: queue_ops_keep\<close>)

lemma update_timeout_list_good [wp_rules]: "good c0 ctx \<Longrightarrow> wp (good c0) (usnet_update_timeout_list ctx p)"
  by (rule wp_queue) (use update_timeout_list_ok in \<open>auto intro: queue_ops_keep\<close>)

lemma add_rto_list_good [wp_rules]: "good c0 ctx \<Longrightarrow> wp (good c0) (usnet_add_rto_list ctx p)"
  by (rule wp_queue) (use add_rto_list_ok in \<open>auto intro: queue_ops_keep\<close>)

lemma remove_rto_list_good [wp_rules]: "good c0 ctx \<Longrightarrow> live ctx p \<Longrightarrow> wp (good c0) (usnet_remove_rto_list ctx p)"
  by (rule wp_queue) (use remove_rto_list_ok in \<open>auto intro: queue_ops_keep\<close>)

lemma add_send_list_good [wp_rules]: "good c0 ctx \<Longrightarrow> wp (good c0) (usnet_add_send_list ctx p)"
proof (rule wp_queue)
  assume ok: "lists_ok ctx"
  show "\<exists>ctx'. usnet_add_send_list ctx p = Some ctx' \<and> lists_ok ctx'"
  proof (cases "sndbuf (snd_of ctx p)")
    case None
    then show ?thesis using ok by (simp add: usnet_add_send_list_def)
  next
    case (Some b)
    then show ?thesis using send_q.add_ok[OF ok, of p] by auto
  qed
qed (auto intro: queue_ops_keep)

lemma good_upd_snd:
  assumes "good c0 ctx"
    and "\<And>s. on_control_list (f s) = on_control_list s \<and> on_send_list (f s) = on_send_list s \<and>
      on_ack_list (f s) = on_ack_list s \<and> sndbuf (f s) = sndbuf s \<and> iss (f s) = iss s \<and> rto (f s) = rto s"
  shows "good c0 (upd_snd p f ctx)"
  unfolding upd_snd_def using assms(2) by (intro good_upd[OF assms(1)]) (auto simp: same_conn_def)

lemma good_tx: "good c0 ctx \<Longrightarrow> good c0 (ctx\<lparr>tx_frames := x\<rparr>)"
  by (erule good_same_queues) (auto simp: same_queues_def keeps_def same_conn_def)

lemma enqueue_ack_good [wp_rules]:
  assumes "good c0 ctx"
  shows "wp (good c0) (usnet_enqueue_ack ctx p opt)"
  unfolding usnet_enqueue_ack_def using assms
  by (intro add_ack_list_good) (auto split: ack_opt.split intro: good_upd_snd)

section \<open>Sending keeps the lists consistent\<close>

lemma length_tcp_header [simp]: "length (tcp_header a b c d n f w k) = 20"
  by (simp add: tcp_header_def)

lemma length_tcp_sealed [simp]:
  "length (tcp_sealed a b c d f w opts payload sip dip) = 20 + length opts + length payload"
  by (simp add: tcp_sealed_def Let_def)

lemma send_data_good:
  "good c0 ctx \<Longrightarrow> length frame \<le> 2048 \<Longrightarrow> wp (good c0) (usnet_send_data ctx frame)"
  by (simp add: usnet_send_data_def wp_def good_tx)

lemma arp_request_good [wp_rules]: "good c0 ctx \<Longrightarrow> wp (good c0) (usnet_arp_request ctx ip)"
  unfolding usnet_arp_request_def usnet_arp_output_def
  by (erule send_data_good) (simp add: usnet_eth_output_nm_def)

lemma ipv4_output_good:
  assumes "good c0 ctx"
  shows "wp (\<lambda>(c, hdr). good c0 c \<and> (\<forall>h. hdr = Some h \<longrightarrow> length h \<le> 34)) (usnet_ipv4_output ctx p n)"
  unfolding usnet_ipv4_output_def Let_def
  by (intro wp_rules assms wp_conseq[OF arp_request_good[OF assms]])
     (auto simp: usnet_eth_output_nm_def intro!: good_upd_snd assms)

lemma generate_tcpopts_ok:
  "flags AND TH_SYN \<noteq> 0 \<or> flags AND TH_SACK = 0 \<Longrightarrow>
    wp (\<lambda>opts. length opts \<le> 20) (usnet_generate_tcpopts ctx tcb flags (usnet_get_tcpopt_length flags))"
  by (auto simp: usnet_generate_tcpopts_def usnet_generate_tcpts_def usnet_get_tcpopt_length_def wp_def Let_def)

lemma good_upd_tcb:
  assumes "good c0 ctx"
    and "\<And>t. same_conn t (f t) \<and> sndvar (f t) = sndvar t \<and> on_timeout_list (f t) = on_timeout_list t \<and>
      on_timewait_list (f t) = on_timewait_list t \<and> on_rto_idx (f t) = on_rto_idx t"
  shows "good c0 (upd_tcb p f ctx)"
  using assms(2) by (intro good_upd[OF assms(1)]) auto

lemma same_conn_simps [simp]:
  "same_conn t (t\<lparr>snd_nxt := a\<rparr>)" "same_conn t (t\<lparr>last_active_ts := b\<rparr>)" "same_conn t (t\<lparr>need_wnd_adv := c\<rparr>)"
  "same_conn t (t\<lparr>have_reset := d\<rparr>)" "same_conn t (t\<lparr>control_list_waiting := e\<rparr>)"
  "same_conn t (t\<lparr>close_reason := f\<rparr>)"
  by (simp_all add: same_conn_def)

lemma tcp_build_good:
  assumes "good c0 ctx" and fl: "flags AND TH_SYN \<noteq> 0 \<or> flags AND TH_SACK = 0"
  shows "wp (\<lambda>(c, seg). good c0 c \<and> length seg \<le> 40 + length payload) (tcp_build ctx p flags payload)"
proof -
  define c1 where "c1 = (if flags AND TH_WACK = 0 \<and> flags AND TH_FIN \<noteq> 0
    then upd_snd p (\<lambda>s. s\<lparr>is_fin_sent := True\<rparr>) ctx else ctx)"
  have c1: "good c0 c1" using assms(1) by (auto simp: c1_def intro: good_upd_snd)
  have opts: "wp (\<lambda>(c, seg). good c0 c \<and> length seg \<le> 40 + length payload)
      (do { opts \<leftarrow> usnet_generate_tcpopts d tcb flags (usnet_get_tcpopt_length flags);
            Some (c, tcp_sealed a b s e flags w opts payload x y) })" if "good c0 c"
    for d tcb c a b s e w x y
    using that generate_tcpopts_ok[OF fl, of d tcb] by (intro wp_bind) (auto elim!: wp_conseq simp: wp_def)
  have "wp (good c0) (if flags AND TH_ACK \<noteq> 0 then
      usnet_update_timeout_list (upd_tcb p (\<lambda>t. t\<lparr>last_active_ts := of_int (cur_time c1)\<rparr>)
        (upd_snd p (\<lambda>s. s\<lparr>ts_lastack_sent := of_int (cur_time c1)\<rparr>) c1)) p else Some c1)"
    using c1 by (intro wp_rules good_upd_tcb good_upd_snd) auto
  then show ?thesis
    unfolding tcp_build_def Let_def c1_def[symmetric]
    by (intro wp_bind, elim wp_conseq) (intro opts; auto intro: good_upd_tcb)
qed

lemma send_tcp_packet_good:
  assumes "good c0 ctx" and fl: "flags AND TH_SYN \<noteq> 0 \<or> flags AND TH_SACK = 0"
    and len: "length payload \<le> 1900"
  shows "wp (\<lambda>(c, r). good c0 c) (usnet_send_tcp_packet ctx p flags payload)"
proof -
  have tail: "wp (\<lambda>(c, r). good c0 c)
      (do { ctx \<leftarrow> (if b then usnet_add_rto_list (upd_snd p (\<lambda>s. s\<lparr>ts_rto := k + rto s\<rparr>) ctx) p else Some ctx);
            ctx \<leftarrow> usnet_send_data ctx frame; Some (ctx, r) })"
    if "good c0 ctx" "length frame \<le> 2048" for ctx b k frame and r :: int
    using that by (intro wp_rules wp_conseq[OF send_data_good])
      (auto intro!: add_rto_list_good[THEN wp_conseq] wp_rules send_data_good[THEN wp_conseq] good_upd_snd)
  have rest: "wp (\<lambda>(c, r). good c0 c) (do {
      (ctx, seg) \<leftarrow> tcp_build ctx p flags payload;
      let ctx = upd_tcb p (\<lambda>t. t\<lparr>snd_nxt := snd_nxt t + of_nat n\<rparr>) ctx;
      let ctx = (if b then upd_tcb p (\<lambda>t. t\<lparr>snd_nxt := snd_nxt t + 1\<rparr>) ctx else ctx);
      ctx \<leftarrow> (if d then usnet_add_rto_list (upd_snd p (\<lambda>s. s\<lparr>ts_rto := of_int (cur_time ctx) + rto s\<rparr>) ctx) p
              else Some ctx);
      ctx \<leftarrow> usnet_send_data ctx (below @ seg);
      Some (ctx, r) })" if "good c0 ctx" "length below \<le> 34" for ctx below n b d and r :: int
    unfolding Let_def using that len
    by (intro wp_bind wp_conseq[OF tcp_build_good[OF that(1) fl, of payload]] wp_case_prod tail)
       (auto intro!: good_upd_tcb tail)
  show ?thesis
    unfolding usnet_send_tcp_packet_def Let_def
    by (rule wp_if, rule wp_Some, use assms(1) in simp, rule wp_bind,
        rule wp_conseq[OF ipv4_output_good[OF assms(1)]], rule wp_case_prod, rule wp_case_option,
        rule wp_Some, simp, rule rest[unfolded Let_def]) auto
qed

section \<open>Releasing a connection takes it off every queue\<close>

text \<open>\<open>fewer\<close>: no queue flag has been set; \<open>apart p\<close>: only connection \<open>p\<close> and the queues have changed.\<close>

definition fewer :: "usn_context \<Rightarrow> usn_context \<Rightarrow> bool" where
  "fewer c c' \<longleftrightarrow> (\<forall>q.
     (on_control_list (snd_of c' q) \<longrightarrow> on_control_list (snd_of c q)) \<and>
     (on_send_list (snd_of c' q) \<longrightarrow> on_send_list (snd_of c q)) \<and>
     (on_ack_list (snd_of c' q) \<longrightarrow> on_ack_list (snd_of c q)) \<and>
     (on_timeout_list (tcb_of c' q) \<longrightarrow> on_timeout_list (tcb_of c q)) \<and>
     (on_timewait_list (tcb_of c' q) \<longrightarrow> on_timewait_list (tcb_of c q)) \<and>
     (0 \<le> on_rto_idx (tcb_of c' q) \<longrightarrow> 0 \<le> on_rto_idx (tcb_of c q)))"

definition apart :: "nat \<Rightarrow> usn_context \<Rightarrow> usn_context \<Rightarrow> bool" where
  "apart p c c' \<longleftrightarrow> (\<forall>q. q \<noteq> p \<longrightarrow> tcb_of c' q = tcb_of c q) \<and>
     sndvars_mp c' = sndvars_mp c \<and> rcvvars_mp c' = rcvvars_mp c \<and> frag_mp c' = frag_mp c \<and>
     sndbuf_cache c' = sndbuf_cache c \<and> ringbuf_cache c' = ringbuf_cache c \<and>
     socket_cache c' = socket_cache c \<and> tcp_timeout c' = tcp_timeout c \<and> cur_time c' = cur_time c \<and>
     hb_setemptyfn (tcb_cache c') = hb_setemptyfn (tcb_cache c)"

definition off_step :: "nat \<Rightarrow> usn_context \<Rightarrow> usn_context \<Rightarrow> bool" where
  "off_step p c c' \<longleftrightarrow> lists_ok c' \<and> keeps c c' \<and> fewer c c' \<and> apart p c c' \<and> conn_frame p c c'"

lemma upd_tcb_setempty [simp]:
  "hb_setemptyfn (tcb_cache (upd_tcb p f ctx)) = hb_setemptyfn (tcb_cache ctx)"
  "hb_setemptyfn (tcb_cache (upd_snd p g ctx)) = hb_setemptyfn (tcb_cache ctx)"
  "hb_setemptyfn (tcb_cache (upd_rcv p h ctx)) = hb_setemptyfn (tcb_cache ctx)"
  by (simp_all add: upd_tcb_def upd_snd_def upd_rcv_def)

lemma removals_apart:
  "usnet_remove_control_list c p = Some c' \<Longrightarrow> fewer c c' \<and> apart p c c'"
  "usnet_remove_send_list c p = Some c' \<Longrightarrow> fewer c c' \<and> apart p c c'"
  "usnet_remove_ack_list c p = Some c' \<Longrightarrow> fewer c c' \<and> apart p c c'"
  "usnet_remove_timeout_list c p = Some c' \<Longrightarrow> fewer c c' \<and> apart p c c'"
  "usnet_remove_timewait_list c p = Some c' \<Longrightarrow> fewer c c' \<and> apart p c c'"
  "usnet_remove_rto_list c p = Some c' \<Longrightarrow> fewer c c' \<and> apart p c c'"
  by (auto simp: fewer_def apart_def bind_eq_Some_conv Let_def
      usnet_remove_control_list_def usnet_remove_send_list_def
      usnet_remove_ack_list_def usnet_remove_timeout_list_def usnet_remove_timewait_list_def
      usnet_remove_rto_list_def split: if_splits)

lemma off_step_trans: "off_step p a b \<Longrightarrow> off_step p b c \<Longrightarrow> off_step p a c"
  unfolding off_step_def by (auto intro: keeps_trans frame_trans simp: fewer_def apart_def)

lemma off_stepI:
  assumes "\<exists>c'. m = Some c' \<and> lists_ok c' \<and> Q c'"
    and "\<And>c'. m = Some c' \<Longrightarrow> keeps c c'" "\<And>c'. m = Some c' \<Longrightarrow> fewer c c' \<and> apart p c c'"
    and "\<And>c'. m = Some c' \<Longrightarrow> conn_frame p c c'"
  shows "\<exists>c'. m = Some c' \<and> off_step p c c' \<and> Q c'"
  using assms unfolding off_step_def by blast

lemma removals_off:
  assumes ok: "lists_ok c"
  shows "\<exists>c'. usnet_remove_control_list c p = Some c' \<and> off_step p c c' \<and> \<not> on_control_list (snd_of c' p)"
    and "\<exists>c'. usnet_remove_send_list c p = Some c' \<and> off_step p c c' \<and> \<not> on_send_list (snd_of c' p)"
    and "\<exists>c'. usnet_remove_ack_list c p = Some c' \<and> off_step p c c' \<and> \<not> on_ack_list (snd_of c' p)"
    and "\<exists>c'. usnet_remove_timeout_list c p = Some c' \<and> off_step p c c' \<and> \<not> on_timeout_list (tcb_of c' p)"
    and "on_timewait_list (tcb_of c p) \<Longrightarrow>
      \<exists>c'. usnet_remove_timewait_list c p = Some c' \<and> off_step p c c' \<and> \<not> on_timewait_list (tcb_of c' p)"
    and "live c p \<Longrightarrow> \<exists>c'. usnet_remove_rto_list c p = Some c' \<and> off_step p c c' \<and> on_rto_idx (tcb_of c' p) < 0"
       apply (rule off_stepI; (erule queue_ops_keep removals_apart queue_ops_frame timer_ops_frame)?) using control_q.remove_ok[OF ok] apply blast
      apply (rule off_stepI; (erule queue_ops_keep removals_apart queue_ops_frame timer_ops_frame)?) using send_q.remove_ok[OF ok] apply blast
     apply (rule off_stepI; (erule queue_ops_keep removals_apart queue_ops_frame timer_ops_frame)?) using ack_q.remove_ok[OF ok] apply blast
    apply (rule off_stepI; (erule queue_ops_keep removals_apart queue_ops_frame timer_ops_frame)?) using timeout_q.remove_ok[OF ok] apply blast
   apply (rule off_stepI; (erule queue_ops_keep removals_apart queue_ops_frame timer_ops_frame)?) using remove_timewait_list_ok[OF ok] apply blast
  apply (rule off_stepI; (erule queue_ops_keep removals_apart queue_ops_frame timer_ops_frame)?) using remove_rto_list_ok[OF ok] apply blast
  done

lemma off_step_live: "off_step p c c' \<Longrightarrow> live c' q = live c q"
  by (simp add: off_step_def keeps_def same_conn_def live_def)

lemma off_step_refl: "lists_ok c \<Longrightarrow> off_step p c c"
  by (simp add: off_step_def fewer_def apart_def)

lemma stays_off:
  assumes "off_step p c c'"
  shows "\<not> on_control_list (snd_of c q) \<Longrightarrow> \<not> on_control_list (snd_of c' q)"
    and "\<not> on_send_list (snd_of c q) \<Longrightarrow> \<not> on_send_list (snd_of c' q)"
    and "\<not> on_ack_list (snd_of c q) \<Longrightarrow> \<not> on_ack_list (snd_of c' q)"
    and "\<not> on_timeout_list (tcb_of c q) \<Longrightarrow> \<not> on_timeout_list (tcb_of c' q)"
    and "\<not> on_timewait_list (tcb_of c q) \<Longrightarrow> \<not> on_timewait_list (tcb_of c' q)"
    and "on_rto_idx (tcb_of c q) < 0 \<Longrightarrow> on_rto_idx (tcb_of c' q) < 0"
  using assms unfolding off_step_def fewer_def by (blast, blast, blast, blast, blast, meson not_le)

text \<open>The six removals that \<^verbatim>\<open>usnet_release_tcb\<close> starts with.\<close>

lemma release_queues:
  assumes ok: "lists_ok ctx" and p: "live ctx p" and t: "0 < tcp_timeout ctx"
  shows "\<exists>c. (do {
      ctx \<leftarrow> usnet_remove_control_list ctx p;
      ctx \<leftarrow> usnet_remove_send_list ctx p;
      ctx \<leftarrow> usnet_remove_ack_list ctx p;
      ctx \<leftarrow> (if on_rto_idx (tcb_of ctx p) \<ge> 0 then usnet_remove_rto_list ctx p else Some ctx);
      ctx \<leftarrow> (if on_timewait_list (tcb_of ctx p) then usnet_remove_timewait_list ctx p else Some ctx);
      ctx \<leftarrow> (if tcp_timeout ctx > 0 then usnet_remove_timeout_list ctx p else Some ctx);
      f ctx }) = f c \<and> off_step p ctx c \<and> unqueued (tcb_of c p)"
proof -
  obtain c1 where c1: "usnet_remove_control_list ctx p = Some c1" "off_step p ctx c1" "\<not> on_control_list (snd_of c1 p)"
    using removals_off(1)[OF ok] by blast
  obtain c2 where c2: "usnet_remove_send_list c1 p = Some c2" "off_step p c1 c2" "\<not> on_send_list (snd_of c2 p)"
    using removals_off(2)[of c1 p] c1 by (auto simp: off_step_def)
  obtain c3 where c3: "usnet_remove_ack_list c2 p = Some c3" "off_step p c2 c3" "\<not> on_ack_list (snd_of c3 p)"
    using removals_off(3)[of c2 p] c2 by (auto simp: off_step_def)
  have "live c3 p" using p c1(2) c2(2) c3(2) by (simp add: off_step_live)
  then obtain c4 where c4: "(if on_rto_idx (tcb_of c3 p) \<ge> 0 then usnet_remove_rto_list c3 p else Some c3) = Some c4"
      "off_step p c3 c4" "on_rto_idx (tcb_of c4 p) < 0"
    using removals_off(6)[of c3 p] off_step_refl[of c3 p] c3(2)
    by (cases "0 \<le> on_rto_idx (tcb_of c3 p)") (auto simp: off_step_def)
  obtain c5 where c5: "(if on_timewait_list (tcb_of c4 p) then usnet_remove_timewait_list c4 p else Some c4) = Some c5"
      "off_step p c4 c5" "\<not> on_timewait_list (tcb_of c5 p)"
    using removals_off(5)[of c4 p] off_step_refl[of c4 p] c4(2)
    by (cases "on_timewait_list (tcb_of c4 p)") (auto simp: off_step_def)
  obtain c6 where c6: "usnet_remove_timeout_list c5 p = Some c6" "off_step p c5 c6" "\<not> on_timeout_list (tcb_of c6 p)"
    using removals_off(4)[of c5 p] c5 by (auto simp: off_step_def)
  have "tcp_timeout c5 = tcp_timeout ctx"
    using c1(2) c2(2) c3(2) c4(2) c5(2) by (simp add: off_step_def apart_def)
  then have "tcp_timeout c5 > 0" using t by simp
  moreover have "unqueued (tcb_of c6 p)"
  proof -
    have s: "off_step p c5 c6" "off_step p c4 c6" "off_step p c3 c6" "off_step p c2 c6" "off_step p c1 c6"
      using c2(2) c3(2) c4(2) c5(2) c6(2) off_step_trans by blast+
    show ?thesis
      unfolding unqueued_def
      using c6(3) stays_off(5)[OF s(1) c5(3)] stays_off(6)[OF s(2) c4(3)] stays_off(3)[OF s(3) c3(3)]
        stays_off(2)[OF s(4) c2(3)] stays_off(1)[OF s(5) c1(3)] by blast
  qed
  moreover have "off_step p ctx c6"
    using c1(2) c2(2) c3(2) c4(2) c5(2) c6(2) off_step_trans by blast
  ultimately show ?thesis using c1(1) c2(1) c3(1) c4(1) c5(1) c6(1) by (intro exI[of _ c6]) simp
qed

text \<open>Emptying the slot of a connection that no queue holds.\<close>

lemma lists_ok_setempty:
  assumes ok: "lists_ok c" and c': "tcb_of c' = (tcb_of c)(p := usnet_tcb_setempty (tcb_of c p))"
    and q: "control_list c' = control_list c" "control_list_cnt c' = control_list_cnt c"
      "send_list c' = send_list c" "send_list_cnt c' = send_list_cnt c"
      "ack_list c' = ack_list c" "ack_list_cnt c' = ack_list_cnt c"
      "timeout_list c' = timeout_list c" "timeout_list_cnt c' = timeout_list_cnt c"
      "timewait_list c' = timewait_list c" "timewait_list_cnt c' = timewait_list_cnt c"
      "rto_list c' = rto_list c" "rto_list_cnt c' = rto_list_cnt c"
  shows "lists_ok c'"
proof -
  have "\<not> live c' p" by (simp add: live_def c' usnet_tcb_setempty_def tcb_conn_def)
  moreover have "live c' r = live c r" if "r \<noteq> p" for r using that by (simp add: live_def c')
  ultimately have "rto_ok c'"
    using lists_ok_rto[OF ok] unfolding rto_ok_def q by (auto simp: c' usnet_tcb_setempty_def)
  then show ?thesis by (intro lists_okI[OF ok]) (auto simp: q c' usnet_tcb_setempty_def)
qed

text \<open>What \<^verbatim>\<open>usnet_release_tcb\<close> does once the connection is off its queues.\<close>

definition freed :: "nat \<Rightarrow> usn_context \<Rightarrow> usn_context" where
  "freed p c = (let
      c = c\<lparr>sndbuf_cache := fst (usnet_cache_remove (sndbuf_cache c) (sndbuf (snd_of c p)))\<rparr>;
      c = c\<lparr>ringbuf_cache := fst (usnet_cache_remove (ringbuf_cache c) (rcvbuf (rcv_of c p)))\<rparr>;
      c = c\<lparr>rcvvars_mp := usnet_mempool_free (rcvvars_mp c) (rcvvar_at (tcb_of c p))\<rparr>;
      c = c\<lparr>sndvars_mp := usnet_mempool_free (sndvars_mp c) (sndvar_at (tcb_of c p))\<rparr>
      in c\<lparr>tcb_cache := fst (usnet_cache_remove (tcb_cache c) (Some p))\<rparr>)"

lemma release_tcb_spec:
  assumes ok: "lists_ok ctx" "tcb_table (tcb_cache ctx)" and p: "live ctx p" and t: "0 < tcp_timeout ctx"
    and v: "sndvar_at (tcb_of ctx p) \<noteq> None" "rcvvar_at (tcb_of ctx p) \<noteq> None"
  shows "\<exists>c. usnet_release_tcb ctx p = Some (freed p c) \<and> off_step p ctx c \<and> unqueued (tcb_of c p) \<and>
    lists_ok (freed p c) \<and> tcb_table (tcb_cache (freed p c)) \<and>
    tcb_of (freed p c) = (tcb_of c)(p := usnet_tcb_setempty (tcb_of c p))"
proof -
  obtain c where c: "usnet_release_tcb ctx p = Some (freed p c)" "off_step p ctx c" "unqueued (tcb_of c p)"
    using release_queues[OF ok(1) p t, of "\<lambda>c. Some (freed p c)"] v
    unfolding usnet_release_tcb_def freed_def Let_def by auto
  have e: "tcb_cache c = (tcb_cache ctx)\<lparr>hb_cache := (hb_cache (tcb_cache ctx))(p := tcb_of c p)\<rparr>"
    "tcb_conn (tcb_of c p) = tcb_conn (tcb_of ctx p)" using c(2) by (simp_all add: off_step_def conn_frame_def)
  have w: "tcb_table (tcb_cache c)"
    unfolding e(1) using ok(2) e(2) by (intro table_change) (auto simp: tcb_of_def)
  then have s: "hb_setemptyfn (tcb_cache c) = usnet_tcb_setempty" by (simp add: tcb_table_def cache_fns_def)
  have f: "tcb_of (freed p c) = (tcb_of c)(p := usnet_tcb_setempty (tcb_of c p))"
    by (auto simp: freed_def Let_def tcb_of_def usnet_cache_remove_def s)
  have "tcb_cache (freed p c) = fst (usnet_cache_remove (tcb_cache c) (Some p))" by (simp add: freed_def Let_def)
  then have "tcb_table (tcb_cache (freed p c))"
    using w tcbs.remove_wf[of "tcb_cache c" "Some p"] by (simp add: tcb_table_def) (metis prod.collapse)
  moreover have "lists_ok (freed p c)"
    using c(2) by (intro lists_ok_setempty[OF _ f]) (auto simp: off_step_def freed_def Let_def)
  ultimately show ?thesis using c f by blast
qed

text \<open>C12. Releasing a connection of a consistent context returns, takes the connection off every queue
  (control, send, ack, timeout, timewait, retransmission) and leaves all queues consistent, empties its
  slot and the slots of its two buffers, gives the chunks of its send and receive variables back to
  their pools, and does not touch any other connection.\<close>

theorem release_tcb_correct:
  assumes ok: "lists_ok ctx" "tcb_table (tcb_cache ctx)" and p: "live ctx p" and t: "0 < tcp_timeout ctx"
    and v: "sndvar_at (tcb_of ctx p) = Some a" "rcvvar_at (tcb_of ctx p) = Some b"
  shows "\<exists>ctx'. usnet_release_tcb ctx p = Some ctx' \<and> lists_ok ctx' \<and> unqueued (tcb_of ctx' p) \<and>
    usnet_tcb_isempty (tcb_of ctx' p) \<and> (\<forall>q. q \<noteq> p \<longrightarrow> tcb_of ctx' q = tcb_of ctx q) \<and>
    sndvars_mp ctx' = usnet_mempool_free (sndvars_mp ctx) (Some a) \<and>
    rcvvars_mp ctx' = usnet_mempool_free (rcvvars_mp ctx) (Some b) \<and>
    sndbuf_cache ctx' = fst (usnet_cache_remove (sndbuf_cache ctx) (sndbuf (snd_of ctx p))) \<and>
    ringbuf_cache ctx' = fst (usnet_cache_remove (ringbuf_cache ctx) (rcvbuf (rcv_of ctx p)))"
proof -
  obtain c where c: "usnet_release_tcb ctx p = Some (freed p c)" "off_step p ctx c" "unqueued (tcb_of c p)"
      "lists_ok (freed p c)" and f: "tcb_of (freed p c) = (tcb_of c)(p := usnet_tcb_setempty (tcb_of c p))"
    using release_tcb_spec[OF ok p t] v by auto
  have same: "sndbuf (snd_of c p) = sndbuf (snd_of ctx p)" "rcvbuf (rcv_of c p) = rcvbuf (rcv_of ctx p)"
    "sndvar_at (tcb_of c p) = Some a" "rcvvar_at (tcb_of c p) = Some b"
    using c(2) v by (simp_all add: off_step_def keeps_def same_conn_def)
  have "unqueued (tcb_of (freed p c) p)" "usnet_tcb_isempty (tcb_of (freed p c) p)"
    using c(3) by (simp_all add: f unqueued_def usnet_tcb_setempty_def usnet_tcb_isempty_def)
  then show ?thesis
    using c same by (intro exI[of _ "freed p c"]) (auto simp: f off_step_def apart_def, auto simp: freed_def Let_def)
qed

theorem release_tcb_correct_witness:
  "\<exists>p ctx'. tcb_of (conn_context sample_tcb) p = sample_tcb \<and>
    usnet_release_tcb (conn_context sample_tcb) p = Some ctx' \<and> usnet_tcb_isempty (tcb_of ctx' p)"
proof -
  obtain p where p: "conn_context sample_tcb = upd_tcb p (\<lambda>_. sample_tcb) fresh_context"
      "tcb_table (tcb_cache (conn_context sample_tcb))" "lists_ok (conn_context sample_tcb)"
      "tcb_of (conn_context sample_tcb) p = sample_tcb" "live (conn_context sample_tcb) p"
    using conn_context_ok[of sample_tcb] by auto
  have "0 < tcp_timeout (conn_context sample_tcb)" using fresh_context_fresh(4) by (simp add: p(1))
  from release_tcb_correct[OF p(3,2,5) this, of 0 0] show ?thesis
    using p(4) by (auto simp: sample_tcb_def)
qed

end
