(* ===== verification/Tcp_Events.thy ===== *)
theory Tcp_Events
  imports Tcp_Out
begin

text \<open>
  The events the stack reports to the application (\<^verbatim>\<open>event.c\<close>, the part used by the network stack): each
  is a C structure put into the message queue \<open>ev_net2app_mq\<close>, with the descriptor as the flow. The
  bytes are the little-endian image of the structure, padding cleared by \<^verbatim>\<open>memset\<close>. The result of the
  enqueue operation is not looked at, so an event that does not fit into the queue is lost.
\<close>

datatype usn_events =
    USN_READ_EV | USN_WRITE_EV | USN_ACCEPT_EV | USN_TCPST_EV | USN_ERROR_EV | USN_LISTEN_EV | USN_CONNECT_EV

primrec event_no :: "usn_events \<Rightarrow> u8" where
  "event_no USN_READ_EV = 1"
| "event_no USN_WRITE_EV = 2"
| "event_no USN_ACCEPT_EV = 3"
| "event_no USN_TCPST_EV = 4"
| "event_no USN_ERROR_EV = 5"
| "event_no USN_LISTEN_EV = 6"
| "event_no USN_CONNECT_EV = 7"

section \<open>Event structures\<close>

definition ev_header :: "usn_events \<Rightarrow> u16 \<Rightarrow> byte list" where
  "ev_header ev len = [1, event_no ev] @ le16 len"

definition usn_read_ev :: "u32 \<Rightarrow> byte list" where
  "usn_read_ev fd = ev_header USN_READ_EV 8 @ le32 fd"

definition usn_write_ev :: "u32 \<Rightarrow> byte list" where
  "usn_write_ev fd = ev_header USN_WRITE_EV 8 @ le32 fd"

definition usn_accept_ev :: "u32 \<Rightarrow> u32 \<Rightarrow> u16 \<Rightarrow> u32 \<Rightarrow> byte list" where
  "usn_accept_ev fd ip port result =
     ev_header USN_ACCEPT_EV 20 @ le32 fd @ le32 ip @ le16 port @ [0, 0] @ le32 result"

definition usn_connect_ev :: "u32 \<Rightarrow> u32 \<Rightarrow> u16 \<Rightarrow> u32 \<Rightarrow> u16 \<Rightarrow> u32 \<Rightarrow> byte list" where
  "usn_connect_ev fd src sp dst dp result =
     ev_header USN_CONNECT_EV 28 @ le32 fd @ le32 src @ le16 sp @ [0, 0] @ le32 dst @ le16 dp @ [0, 0] @ le32 result"

definition usn_error_ev :: "u32 \<Rightarrow> u32 \<Rightarrow> byte list" where
  "usn_error_ev fd err = ev_header USN_ERROR_EV 12 @ le32 fd @ le32 err"

definition usn_tcpst_ev :: "u32 \<Rightarrow> u32 \<Rightarrow> byte list" where
  "usn_tcpst_ev fd state = ev_header USN_TCPST_EV 12 @ le32 fd @ le32 state"

definition usn_listen_ev :: "u32 \<Rightarrow> u32 \<Rightarrow> u16 \<Rightarrow> u32 \<Rightarrow> byte list" where
  "usn_listen_ev fd ad port result =
     ev_header USN_LISTEN_EV 20 @ le32 fd @ le32 ad @ le16 port @ [0, 0] @ le32 result"

lemmas event_images = ev_header_def usn_read_ev_def usn_write_ev_def usn_accept_ev_def usn_connect_ev_def
  usn_error_ev_def usn_tcpst_ev_def usn_listen_ev_def

section \<open>Raising events\<close>

definition n2a_enqueue :: "usn_context \<Rightarrow> byte list \<Rightarrow> u32 \<Rightarrow> usn_context option" where
  "n2a_enqueue ctx ev flow = do {
     (mq, ret) \<leftarrow> usnet_shmmq_enqueue (ev_net2app_mq ctx) 0 ev flow;
     Some (ctx\<lparr>ev_net2app_mq := mq\<rparr>)
   }"

definition usnet_raise_read_event :: "usn_context \<Rightarrow> nat \<Rightarrow> usn_context option" where
  "usnet_raise_read_event ctx p =
     n2a_enqueue ctx (usn_read_ev (tcb_fd (tcb_of ctx p))) (tcb_fd (tcb_of ctx p))"

definition usnet_raise_write_event :: "usn_context \<Rightarrow> nat \<Rightarrow> usn_context option" where
  "usnet_raise_write_event ctx p =
     n2a_enqueue ctx (usn_write_ev (tcb_fd (tcb_of ctx p))) (tcb_fd (tcb_of ctx p))"

definition usnet_raise_error_event :: "usn_context \<Rightarrow> nat \<Rightarrow> usn_context option" where
  "usnet_raise_error_event ctx p =
     n2a_enqueue ctx (usn_error_ev (tcb_fd (tcb_of ctx p)) 0) (tcb_fd (tcb_of ctx p))"

definition usnet_raise_accept_event :: "usn_context \<Rightarrow> nat \<Rightarrow> usn_context option" where
  "usnet_raise_accept_event ctx p =
     n2a_enqueue ctx (usn_accept_ev (tcb_fd (tcb_of ctx p)) 0 0 0) (tcb_fd (tcb_of ctx p))"

definition usnet_raise_connect_event :: "usn_context \<Rightarrow> nat \<Rightarrow> usn_context option" where
  "usnet_raise_connect_event ctx p =
     (let t = tcb_of ctx p in
      n2a_enqueue ctx (usn_connect_ev (tcb_fd t) (saddr t) (sport t) (daddr t) (dport t) 0) (tcb_fd t))"

definition usnet_raise_tcp_event :: "usn_context \<Rightarrow> nat \<Rightarrow> usn_context option" where
  "usnet_raise_tcp_event ctx p =
     n2a_enqueue ctx (usn_tcpst_ev (tcb_fd (tcb_of ctx p)) (of_nat (state_no (tcb_state (tcb_of ctx p)))))
       (tcb_fd (tcb_of ctx p))"

lemmas raise_defs = usnet_raise_read_event_def usnet_raise_write_event_def usnet_raise_error_event_def
  usnet_raise_accept_event_def usnet_raise_connect_event_def usnet_raise_tcp_event_def

section \<open>Contexts whose event queue is intact\<close>

text \<open>\<open>ctx_ok\<close> is the invariant of the running stack: consistent queues of live connections, a well-formed
  connection table and an intact event queue.\<close>

definition ctx_ok :: "usn_context \<Rightarrow> bool" where
  "ctx_ok ctx \<longleftrightarrow> lists_ok ctx \<and> tcb_table (tcb_cache ctx) \<and> mq_ok (ev_net2app_mq ctx) \<and>
     (\<forall>q \<in> queued ctx. live ctx q)"

lemma enqueue_mq_ok:
  assumes "mq_ok mq" "length data \<le> 64"
  shows "wp (\<lambda>(mq', r). mq_ok mq') (usnet_shmmq_enqueue mq now data flow)"
proof (cases "length data + C_HEAD_SIZE < length (mq_block mq) - mq_used mq")
  case True
  then show ?thesis
    using enqueue_holds[OF assms(1)[unfolded mq_ok_def] True, of now flow] holds_messages
    by (fastforce simp: wp_def mq_ok_def)
next
  case False
  let ?m = "mq\<lparr>mq_count := mq_count mq + 1\<rparr>"
  have h: "mq_holds ?m (mq_messages mq)" using assms(1) by (simp add: mq_ok_def mq_holds_def)
  then have "usnet_write_mq ?m data flow = Some (?m, - 1)"
    using False assms(2) by (intro write_mq_full) (auto simp: mq_holds_def)
  then show ?thesis using h holds_messages[OF h] by (simp add: usnet_shmmq_enqueue_def wp_def mq_ok_def)
qed

end
