(* ===== verification/Tcb.thy ===== *)
theory Tcb
  imports Tcp_Events
begin

text \<open>
  Creating connections (\<^verbatim>\<open>tcb.c\<close>): the control block of a new connection, the options of the first
  segment, and the listening socket. A segment's header is read from the receive buffer; \<open>th_mem\<close> are
  the bytes of that buffer from the TCP header on (behind the segment the buffer holds old bytes), and
  reading behind the buffer has no result.
\<close>

section \<open>Segment headers\<close>

record usn_tcphdr =
  th_sport :: u16
  th_dport :: u16
  th_seq :: u32
  th_ack :: u32
  th_off :: nat
  th_flags :: u8
  th_win :: u16
  th_mem :: "byte list"

definition read_tcphdr :: "byte list \<Rightarrow> usn_tcphdr option" where
  "read_tcphdr m =
     (if length m < 20 then None
      else Some \<lparr>th_sport = ld16 m, th_dport = ld16 (drop 2 m), th_seq = ld32 (drop 4 m), th_ack = ld32 (drop 8 m),
                 th_off = unat (drop_bit 4 (m ! 12)), th_flags = m ! 13, th_win = ld16 (drop 14 m), th_mem = m\<rparr>)"

definition mem_u8 :: "byte list \<Rightarrow> int \<Rightarrow> u8 option" where
  "mem_u8 m i = (if 0 \<le> i \<and> i < int (length m) then Some (m ! nat i) else None)"

definition mem_u32 :: "byte list \<Rightarrow> int \<Rightarrow> u32 option" where
  "mem_u32 m i = (if 0 \<le> i \<and> i + 4 \<le> int (length m) then Some (ld32 (drop (nat i) m)) else None)"

section \<open>Options of a SYN\<close>

text \<open>One option of the loop in \<^verbatim>\<open>usnet_parse_tcpopts\<close>, at position \<open>i\<close> of the option bytes: the new context and
  position, or \<open>None\<close> in the second component for a \<^verbatim>\<open>break\<close>. An option kind that is not handled advances by
  its length field minus two, which moves back for the lengths 0 and 1. The timestamp option that every
  segment carries takes 12 bytes off the effective segment size.\<close>

definition tcpopt_step ::
  "usn_context \<Rightarrow> nat \<Rightarrow> byte list \<Rightarrow> int \<Rightarrow> int \<Rightarrow> (usn_context \<times> int option) option" where
  "tcpopt_step ctx p tcpopt len i = do {
     opt \<leftarrow> mem_u8 tcpopt i;
     let i = i + 1;
     if opt = 0 then Some (ctx, None)
     else if opt = 1 then Some (ctx, Some i)
     else do {
       optlen \<leftarrow> mem_u8 tcpopt i;
       let i = i + 1;
       if i + int (unat optlen) - 2 > len then Some (ctx, None)
       else if opt = 2 then do {
         a \<leftarrow> mem_u8 tcpopt i;
         b \<leftarrow> mem_u8 tcpopt (i + 1);
         let m = push_bit 8 (ucast a) + ucast b;
         Some (upd_snd p (\<lambda>s. s\<lparr>mss := m, eff_mss := m - 12\<rparr>) ctx, Some (i + 2))
       }
       else if opt = 3 then do {
         w \<leftarrow> mem_u8 tcpopt i;
         Some (upd_snd p (\<lambda>s. s\<lparr>wscale := w\<rparr>) ctx, Some (i + 1))
       }
       else if opt = 4 then Some (upd_tcb p (\<lambda>t. t\<lparr>sack_permit := True\<rparr>) ctx, Some i)
       else if opt = 8 then do {
         v \<leftarrow> mem_u32 tcpopt i;
         Some (upd_rcv p (\<lambda>r. r\<lparr>ts_recent := htonl v, ts_last_ts_upd := of_int (cur_time ctx)\<rparr>)
                 (upd_tcb p (\<lambda>t. t\<lparr>saw_timestamp := True\<rparr>) ctx), Some (i + 8))
       }
       else Some (ctx, Some (i + int (unat optlen) - 2))
     }
   }"

partial_function (option) usnet_parse_tcpopts ::
  "usn_context \<Rightarrow> nat \<Rightarrow> byte list \<Rightarrow> int \<Rightarrow> int \<Rightarrow> usn_context option" where
  "usnet_parse_tcpopts ctx p tcpopt len i =
     (if i < len then
        Option.bind (tcpopt_step ctx p tcpopt len i) (\<lambda>(ctx, r).
          case r of None \<Rightarrow> Some ctx | Some i \<Rightarrow> usnet_parse_tcpopts ctx p tcpopt len i)
      else Some ctx)"

declare usnet_parse_tcpopts.simps [code]

section \<open>New connections\<close>

text \<open>\<^verbatim>\<open>usnet_init_newtcb\<close>. Without a listening connection the descriptor is read through a null pointer.
  \<^verbatim>\<open>rand() % TCP_MAX_SEQ\<close> is the next value of the generator.\<close>

definition fresh_tcb :: "u32 \<Rightarrow> usn_tcb \<Rightarrow> u8 \<Rightarrow> u32 \<Rightarrow> nat \<Rightarrow> nat \<Rightarrow> usn_tcb" where
  "fresh_tcb initial_rto tcb type r a b =
     tcb\<lparr>on_hash_table := True, tcb_type := type, tcb_state := TCPS_LISTEN, on_rto_idx := - 1,
         snd_nxt := r, rcv_nxt := 0, rcvvar_at := Some a, sndvar_at := Some b,
         rcvvar := zero_rcvvars\<lparr>irs := 0, rcv_wnd := 14600, snd_wl1 := 0 - 1\<rparr>,
         sndvar := zero_sndvars\<lparr>ip_id := 0, mss := 1460, wscale := 7, nif_out := 0, iss := r, snd_una := r,
           snd_wnd := 8192, rto := initial_rto\<rparr>\<rparr>"

definition usnet_init_newtcb ::
  "usn_context \<Rightarrow> nat option \<Rightarrow> u8 \<Rightarrow> u32 \<Rightarrow> u16 \<Rightarrow> u32 \<Rightarrow> u16 \<Rightarrow> (usn_context \<times> nat option) option" where
  "usnet_init_newtcb ctx so type sa sp da dp =
     (let stcb = zero_tcb\<lparr>saddr := sa, sport := sp, daddr := da, dport := dp\<rparr>;
          (base, r) = usnet_cache_insert (tcb_cache ctx) stcb
      in case r of
           None \<Rightarrow> Some (ctx, None)
         | Some p \<Rightarrow>
             (case listen_tcb ctx of
                None \<Rightarrow> None
              | Some l \<Rightarrow> do {
                  let fd = tcb_fd (tcb_of (ctx\<lparr>tcb_cache := base\<rparr>) l);
                  let ctx = upd_tcb p (\<lambda>t. t\<lparr>tcb_fd := fd\<rparr>) (ctx\<lparr>tcb_cache := base\<rparr>);
                  (rmp, a) \<leftarrow> usnet_mempool_allocate (rcvvars_mp ctx);
                  let ctx = ctx\<lparr>rcvvars_mp := rmp\<rparr>;
                  case a of
                    None \<Rightarrow> Some (ctx\<lparr>tcb_cache := fst (usnet_cache_remove (tcb_cache ctx) (Some p))\<rparr>, None)
                  | Some a \<Rightarrow> do {
                      (smp, b) \<leftarrow> usnet_mempool_allocate (sndvars_mp ctx);
                      let ctx = ctx\<lparr>sndvars_mp := smp\<rparr>;
                      case b of
                        None \<Rightarrow>
                          Some (ctx\<lparr>rcvvars_mp := usnet_mempool_free (rcvvars_mp ctx) (Some a),
                                    tcb_cache := fst (usnet_cache_remove (tcb_cache ctx) (Some p))\<rparr>, None)
                      | Some b \<Rightarrow> do {
                          let ctx = ctx\<lparr>flow_cnt := flow_cnt ctx + 1\<rparr>;
                          let ctx = (case so of
                              None \<Rightarrow> ctx
                            | Some s \<Rightarrow>
                                upd_tcb p (\<lambda>t. t\<lparr>tcb_socket := Some s, tcb_fd := so_fd (hb_cache (socket_cache ctx) s)\<rparr>)
                                  (ctx\<lparr>socket_cache := (socket_cache ctx)\<lparr>hb_cache :=
                                    (hb_cache (socket_cache ctx))(s := (hb_cache (socket_cache ctx) s)\<lparr>so_tcb := Some p\<rparr>)\<rparr>\<rparr>));
                          let iss = rand_out ctx (rand_calls ctx) mod 0xFFFFFFFF;
                          Some (upd_tcb p (\<lambda>t. fresh_tcb (TCP_INITIAL_RTO ctx) t type iss a b) (ctx\<lparr>rand_calls := rand_calls ctx + 1\<rparr>), Some p)
                        }
                    }
                }))"

definition usnet_create_tcb ::
  "usn_context \<Rightarrow> u32 \<Rightarrow> u32 \<Rightarrow> usn_tcphdr \<Rightarrow> u32 \<Rightarrow> u16 \<Rightarrow> (usn_context \<times> nat option) option" where
  "usnet_create_tcb ctx ip_src ip_dst tcph seq window = do {
     (ctx, r) \<leftarrow> usnet_init_newtcb ctx None 0 ip_dst (th_dport tcph) ip_src (th_sport tcph);
     case r of
       None \<Rightarrow> Some (ctx, None)
     | Some p \<Rightarrow> do {
         let ctx = upd_rcv p (\<lambda>r. r\<lparr>irs := seq\<rparr>) ctx;
         let ctx = upd_snd p (\<lambda>s. s\<lparr>peer_wnd := ucast window\<rparr>) ctx;
         let ctx = upd_tcb p (\<lambda>t. t\<lparr>rcv_nxt := irs (rcvvar t)\<rparr>) ctx;
         let ctx = upd_snd p (\<lambda>s. s\<lparr>cwnd := 1\<rparr>) ctx;
         ctx \<leftarrow> usnet_parse_tcpopts ctx p (drop 20 (th_mem tcph)) (4 * int (th_off tcph) - 20) 0;
         Some (ctx, Some p)
       }
   }"

section \<open>The listening connection\<close>

text \<open>\<^verbatim>\<open>usnet_register_socket\<close> leaves the send and receive variables of the listening connection unallocated.\<close>

definition usnet_register_socket ::
  "usn_context \<Rightarrow> nat option \<Rightarrow> u32 \<Rightarrow> u16 \<Rightarrow> u32 \<Rightarrow> u16 \<Rightarrow> usn_context \<times> int" where
  "usnet_register_socket ctx so sa sp da dp =
     (let stcb = zero_tcb\<lparr>saddr := sa, sport := sp, daddr := da, dport := dp\<rparr>;
          (base, r) = usnet_cache_insert (tcb_cache ctx) stcb
      in case r of
           None \<Rightarrow> (ctx, - 1)
         | Some p \<Rightarrow>
             let ctx = upd_tcb p (\<lambda>t. t\<lparr>on_hash_table := True\<rparr>) (ctx\<lparr>tcb_cache := base\<rparr>) in
             (case so of
                None \<Rightarrow> (ctx\<lparr>tcb_cache := fst (usnet_cache_remove (tcb_cache ctx) (Some p))\<rparr>, - 2)
              | Some s \<Rightarrow>
                  let fd = so_fd (hb_cache (socket_cache ctx) s);
                      ctx = ctx\<lparr>socket_cache := (socket_cache ctx)\<lparr>hb_cache :=
                        (hb_cache (socket_cache ctx))(s := (hb_cache (socket_cache ctx) s)\<lparr>so_tcb := Some p\<rparr>)\<rparr>\<rparr>;
                      ctx = upd_tcb p (\<lambda>t. t\<lparr>tcb_socket := Some s, tcb_fd := fd, tcb_type := 0,
                        tcb_state := TCPS_LISTEN, on_rto_idx := - 1\<rparr>) ctx
                  in (ctx\<lparr>listen_tcb := Some p\<rparr>, 0)))"

section \<open>Looking connections up\<close>

definition usnet_search_tcb :: "usn_context \<Rightarrow> usn_tcb \<Rightarrow> nat option" where
  "usnet_search_tcb ctx sitem = usnet_cache_search (tcb_cache ctx) sitem"

definition usnet_tcb_eq_new :: "usn_tcb \<Rightarrow> usn_tcb \<Rightarrow> bool" where
  "usnet_tcb_eq_new item1 item2 \<longleftrightarrow> tcb_fd item1 = tcb_fd item2"

definition usnet_search_tcb_new :: "usn_context \<Rightarrow> usn_tcb \<Rightarrow> nat option" where
  "usnet_search_tcb_new ctx sitem = usnet_cache_search_new (tcb_cache ctx) sitem usnet_tcb_eq_new"

definition usnet_insert_tcb :: "usn_context \<Rightarrow> usn_tcb \<Rightarrow> usn_context \<times> nat option" where
  "usnet_insert_tcb ctx sitem =
     (let (base, r) = usnet_cache_insert (tcb_cache ctx) sitem in (ctx\<lparr>tcb_cache := base\<rparr>, r))"

definition usnet_remove_tcb :: "usn_context \<Rightarrow> nat option \<Rightarrow> usn_context \<times> int" where
  "usnet_remove_tcb ctx sitem =
     (let (base, r) = usnet_cache_remove (tcb_cache ctx) sitem in (ctx\<lparr>tcb_cache := base\<rparr>, r))"

end
