(* ===== verification/Event_Handlers.thy ===== *)
theory Event_Handlers
  imports Tcb
begin

text \<open>
  Events in the other direction and their consumers (\<^verbatim>\<open>event.c\<close>, \<^verbatim>\<open>socket.c\<close>): the handlers of the network
  process for events of the application, the handlers of the application process, and the two loops
  that take messages off a queue. A loop reads into a static buffer that keeps its bytes from one
  message to the next; it is threaded through as \<open>data\<close>. What the other process does to a queue while a
  call waits is the argument \<open>env\<close>.
\<close>

section \<open>Reading event structures\<close>

definition ev_u16 :: "byte list \<Rightarrow> nat \<Rightarrow> u16 option" where
  "ev_u16 data off = map_option ld16 (mem_read off 2 data)"

definition ev_u32 :: "byte list \<Rightarrow> nat \<Rightarrow> u32 option" where
  "ev_u32 data off = map_option ld32 (mem_read off 4 data)"

definition so_key :: "u32 \<Rightarrow> usn_socket" where
  "so_key fd = zero_socket\<lparr>so_fd := fd\<rparr>"

definition sb_key :: "u32 \<Rightarrow> usn_sendbuf" where
  "sb_key fd = \<lparr>sb_fd = fd, sb_head = 0, sb_sent_head = 0, sb_tail = 0, sb_len = 0, sb_cum_len = 0, sb_size = 0,
     sb_head_seq = 0, sb_init_seq = 0, sb_data = []\<rparr>"

definition so_of :: "usn_context \<Rightarrow> nat \<Rightarrow> usn_socket" where
  "so_of ctx s = hb_cache (socket_cache ctx) s"

definition upd_so :: "nat \<Rightarrow> (usn_socket \<Rightarrow> usn_socket) \<Rightarrow> usn_context \<Rightarrow> usn_context" where
  "upd_so s f ctx =
     ctx\<lparr>socket_cache := (socket_cache ctx)\<lparr>hb_cache := (hb_cache (socket_cache ctx))(s := f (so_of ctx s))\<rparr>\<rparr>"

section \<open>Sockets\<close>

text \<open>\<^verbatim>\<open>usnet_get_socket\<close> gives \<^verbatim>\<open>CACHE_GET\<close> the address of its parameter instead of the key, so that the slot is
  searched with the bytes of a pointer (\<open>addr\<close>), and leaves the descriptor of the slot zero.\<close>

definition usnet_get_socket :: "usn_context \<Rightarrow> usn_socket \<Rightarrow> usn_context \<times> nat option" where
  "usnet_get_socket ctx addr =
     (case usnet_cache_get (socket_cache ctx) addr of
        None \<Rightarrow> (ctx, None)
      | Some s \<Rightarrow> (upd_so s (\<lambda>_. zero_socket) ctx, Some s))"

definition usnet_search_socket :: "usn_context \<Rightarrow> usn_socket \<Rightarrow> nat option" where
  "usnet_search_socket ctx sitem = usnet_cache_search (socket_cache ctx) sitem"

definition usnet_insert_socket :: "usn_context \<Rightarrow> usn_socket \<Rightarrow> usn_context \<times> nat option" where
  "usnet_insert_socket ctx sitem =
     (let (base, r) = usnet_cache_insert (socket_cache ctx) sitem in (ctx\<lparr>socket_cache := base\<rparr>, r))"

definition usnet_remove_socket :: "usn_context \<Rightarrow> nat option \<Rightarrow> usn_context \<times> int" where
  "usnet_remove_socket ctx sitem =
     (let (base, r) = usnet_cache_remove (socket_cache ctx) sitem in (ctx\<lparr>socket_cache := base\<rparr>, r))"

section \<open>Handlers of the network process\<close>

definition usnet_write_net_handler :: "usn_context \<Rightarrow> byte list \<Rightarrow> u32 \<Rightarrow> usn_context option" where
  "usnet_write_net_handler ctx data len =
     (if unat len < 8 then Some ctx
      else do {
        fd \<leftarrow> ev_u32 data 4;
        case usnet_cache_search (sndbuf_cache ctx) (sb_key fd) of
          None \<Rightarrow> Some ctx
        | Some b \<Rightarrow>
            if sb_head (hb_cache (sndbuf_cache ctx) b) = sb_tail (hb_cache (sndbuf_cache ctx) b) then Some ctx
            else (case usnet_search_socket ctx (so_key fd) of
                    None \<Rightarrow> Some ctx
                  | Some s \<Rightarrow>
                      (case so_tcb (so_of ctx s) of
                         None \<Rightarrow> Some ctx
                       | Some p \<Rightarrow> usnet_add_send_list ctx p))
      })"

text \<open>The listening handler puts the result into the event and sends the event back, with \<open>now\<close> the time
  of the call.\<close>

definition usnet_listen_net_handler ::
  "usn_context \<Rightarrow> byte list \<Rightarrow> u32 \<Rightarrow> u32 \<Rightarrow> int \<Rightarrow> (usn_context \<times> byte list) option" where
  "usnet_listen_net_handler ctx data len flow now =
     (if unat len < 20 then Some (ctx, data)
      else do {
        fd \<leftarrow> ev_u32 data 4;
        ad \<leftarrow> ev_u32 data 8;
        port \<leftarrow> ev_u16 data 12;
        let (ctx, result) = (case usnet_search_socket ctx (so_key fd) of
            None \<Rightarrow> (ctx, - 1)
          | Some s \<Rightarrow>
              let (ctx, ret) = usnet_register_socket ctx (Some s) ad port 0 0
              in (ctx, if ret < 0 then - 2 else 0));
        data \<leftarrow> mem_write 16 (le32 result) data;
        (mq, ret) \<leftarrow> usnet_shmmq_enqueue (ev_net2app_mq ctx) now (take 20 data) flow;
        Some (ctx\<lparr>ev_net2app_mq := mq\<rparr>, data)
      })"

text \<open>Accepting a connection binds the control block to the socket, gives it a send buffer and schedules
  the SYN-ACK. The control block of the listening socket has no send variables to look at.\<close>

definition usnet_connect_net_handler :: "usn_context \<Rightarrow> byte list \<Rightarrow> u32 \<Rightarrow> usn_context option" where
  "usnet_connect_net_handler ctx data len =
     (if unat len < 28 then Some ctx
      else do {
        fd \<leftarrow> ev_u32 data 4;
        case usnet_search_socket ctx (so_key fd) of
          None \<Rightarrow> Some ctx
        | Some s \<Rightarrow> do {
            sa \<leftarrow> ev_u32 data 8;
            sp \<leftarrow> ev_u16 data 12;
            da \<leftarrow> ev_u32 data 16;
            dp \<leftarrow> ev_u16 data 20;
            result \<leftarrow> ev_u32 data 24;
            case usnet_search_tcb ctx (zero_tcb\<lparr>saddr := sa, sport := sp, daddr := da, dport := dp\<rparr>) of
              None \<Rightarrow> Some ctx
            | Some p \<Rightarrow>
                if sint result < 0 then Some ctx
                else do {
                  let ctx = upd_tcb p (\<lambda>t. t\<lparr>tcb_socket := Some s\<rparr>) ctx;
                  let ctx = upd_so s (\<lambda>so. so\<lparr>so_tcb := Some p\<rparr>) ctx;
                  let ctx = upd_tcb p (\<lambda>t. t\<lparr>tcb_fd := so_fd (so_of ctx s)\<rparr>) ctx;
                  if sndvar_at (tcb_of ctx p) = None then None
                  else do {
                    let ctx = (case sndbuf (snd_of ctx p) of
                        Some b \<Rightarrow> ctx
                      | None \<Rightarrow>
                          let (base, r) = usnet_get_sendbuf (sndbuf_cache ctx) (tcb_fd (tcb_of ctx p)) (iss (snd_of ctx p) + 1)
                          in upd_snd p (\<lambda>v. v\<lparr>sndbuf := r\<rparr>) (ctx\<lparr>sndbuf_cache := base\<rparr>));
                    if sndbuf (snd_of ctx p) = None then Some ctx
                    else usnet_add_control_list ctx p
                  }
                }
          }
      })"

definition usnet_tcpev_net_handler ::
  "usn_context \<Rightarrow> byte list \<Rightarrow> u32 \<Rightarrow> u32 \<Rightarrow> int \<Rightarrow> (usn_context \<times> byte list) option" where
  "usnet_tcpev_net_handler ctx data len flow now =
     (if unat len < 4 then Some (ctx, data)
      else do {
        type \<leftarrow> mem_u8 data 0;
        event \<leftarrow> mem_u8 data 1;
        if type \<noteq> 1 then Some (ctx, data)
        else if event = event_no USN_WRITE_EV then map_option (\<lambda>ctx. (ctx, data)) (usnet_write_net_handler ctx data len)
        else if event = event_no USN_LISTEN_EV then usnet_listen_net_handler ctx data len flow now
        else if event = event_no USN_CONNECT_EV then map_option (\<lambda>ctx. (ctx, data)) (usnet_connect_net_handler ctx data len)
        else Some (ctx, data)
      })"

text \<open>Waiting for a signal: the return value, and whether the descriptor of the pipe was closed, which \<^verbatim>\<open>mq->_fd\<close> goes on
  naming. \<open>ret\<close> is the result of \<^verbatim>\<open>select\<close>, \<open>isset\<close> whether the descriptor is in the returned set, and \<open>eintr\<close> whether an error
  is \<^verbatim>\<open>EINTR\<close>. The second variant waits without a limit.\<close>

definition usnet_shmmq_select_fifo :: "int \<Rightarrow> bool \<Rightarrow> bool \<Rightarrow> int \<times> bool" where
  "usnet_shmmq_select_fifo ret isset eintr =
     (if ret > 0 then (if isset then ret else - 1, False)
      else if ret = 0 then (0, False)
      else (- 1, \<not> eintr))"

definition usnet_shmmq_select_fifo_wait :: "int \<Rightarrow> bool \<Rightarrow> bool \<Rightarrow> int \<times> bool" where
  "usnet_shmmq_select_fifo_wait ret isset eintr =
     (if ret > 0 then (if isset then ret else - 1, False)
      else if ret = 0 then (0, False)
      else (- 1, \<not> eintr))"

lemma select_reads_iff:
  "fst (usnet_shmmq_select_fifo ret isset eintr) > 0 \<longleftrightarrow> ret > 0 \<and> isset"
  "fst (usnet_shmmq_select_fifo ret isset eintr) = 0 \<longleftrightarrow> ret = 0"
  "snd (usnet_shmmq_select_fifo ret isset eintr) \<longleftrightarrow> ret < 0 \<and> \<not> eintr"
  by (auto simp: usnet_shmmq_select_fifo_def)

text \<open>The surroundings of one call of \<^verbatim>\<open>usnet_shmmq_dequeue\<close>: the outcome of \<^verbatim>\<open>select\<close>, whether the read of the
  signal failed, and what the other process did to the queue meanwhile.\<close>

type_synonym mq_env = "int \<times> bool \<times> (usn_shmmq \<Rightarrow> usn_shmmq)"

text \<open>A dequeue into the static buffer: a message that is too long leaves the buffer as it was and still
  has its length reported.\<close>

definition dequeue_into ::
  "mq_env \<Rightarrow> usn_shmmq \<Rightarrow> byte list \<Rightarrow> (usn_shmmq \<times> byte list \<times> u32 \<times> u32) option" where
  "dequeue_into env mq data =
     (let (sel, rd_failed, other) = env in do {
        (mq, out, len, flow, ret) \<leftarrow> usnet_shmmq_dequeue sel rd_failed other mq 4096;
        Some (mq, out @ drop (length out) data, len, (case flow of None \<Rightarrow> 0 | Some f \<Rightarrow> f))
      })"

text \<open>At most 9999 messages are taken in one call; \<open>n\<close> counts down.\<close>

fun tcpev_net_loop ::
  "(nat \<Rightarrow> mq_env) \<Rightarrow> int \<Rightarrow> nat \<Rightarrow> usn_context \<Rightarrow> byte list \<Rightarrow> (usn_context \<times> byte list) option" where
  "tcpev_net_loop env now 0 ctx data = Some (ctx, data)"
| "tcpev_net_loop env now (Suc n) ctx data = do {
     (mq, data, len, flow) \<leftarrow> dequeue_into (env n) (ev_app2net_mq ctx) data;
     let ctx = ctx\<lparr>ev_app2net_mq := mq\<rparr>;
     if len = 0 then Some (ctx, data)
     else do {
       (ctx, data) \<leftarrow> usnet_tcpev_net_handler ctx data len flow now;
       tcpev_net_loop env now n ctx data
     }
   }"

definition usnet_tcpev_net ::
  "(nat \<Rightarrow> mq_env) \<Rightarrow> int \<Rightarrow> usn_context \<Rightarrow> byte list \<Rightarrow> (usn_context \<times> byte list) option" where
  "usnet_tcpev_net env now ctx data = tcpev_net_loop env now 9999 ctx data"

section \<open>Handlers of the application process\<close>

definition usnet_write_notify :: "usn_context \<Rightarrow> u32 \<Rightarrow> usn_context option" where
  "usnet_write_notify ctx fd = do {
     (mq, ret) \<leftarrow> usnet_shmmq_enqueue (ev_app2net_mq ctx) 0 (usn_write_ev fd) fd;
     Some (ctx\<lparr>ev_app2net_mq := mq\<rparr>)
   }"

text \<open>The application is notified of the network process even when the data was refused.\<close>

definition usnet_write_new :: "usn_context \<Rightarrow> u32 \<Rightarrow> byte list \<Rightarrow> (usn_context \<times> int) option" where
  "usnet_write_new ctx fd data =
     (case usnet_cache_search (sndbuf_cache ctx) (sb_key fd) of
        None \<Rightarrow> Some (ctx, - 1)
      | Some b \<Rightarrow> do {
          (buf, ret) \<leftarrow> usnet_write_data (sb_of ctx b) data;
          ctx \<leftarrow> usnet_write_notify (upd_sb b buf ctx) fd;
          Some (ctx, 0)
        })"

definition usnet_read_proc_handler :: "usn_context \<Rightarrow> byte list \<Rightarrow> u32 \<Rightarrow> usn_context option" where
  "usnet_read_proc_handler ctx data len =
     (if unat len < 8 then Some ctx
      else do {
        fd \<leftarrow> ev_u32 data 4;
        case usnet_cache_search (ringbuf_cache ctx)
            \<lparr>rb_fd = fd, rb_data = 0, rb_head = 0, rb_size = 0, rb_head_seq = 0, rb_last_seq = 0,
             rb_merged_len = 0, rb_win = 0, rb_frags = [], rb_buf = []\<rparr> of
          None \<Rightarrow> Some ctx
        | Some b \<Rightarrow> do {
            let buf = hb_cache (ringbuf_cache ctx) b;
            let head = unat (rb_head buf);
            let start = unat (rb_data buf);
            if head = start then Some ctx
            else do {
              ctx \<leftarrow> (if head > start then do {
                        xs \<leftarrow> mem_read start (head - start) (rb_buf buf);
                        map_option fst (usnet_write_new ctx fd xs)
                      }
                      else if unat (rb_size buf) < start then None
                      else do {
                        xs \<leftarrow> mem_read start (unat (rb_size buf) - start) (rb_buf buf);
                        (ctx, ret) \<leftarrow> usnet_write_new ctx fd xs;
                        ys \<leftarrow> mem_read 0 head (rb_buf buf);
                        map_option fst (usnet_write_new ctx fd ys)
                      });
              let buf = hb_cache (ringbuf_cache ctx) b;
              Some (ctx\<lparr>ringbuf_cache := (ringbuf_cache ctx)\<lparr>hb_cache :=
                (hb_cache (ringbuf_cache ctx))(b := buf\<lparr>rb_data := rb_head buf\<rparr>)\<rparr>\<rparr>)
            }
          }
      })"

text \<open>\<^verbatim>\<open>usnet_tcpst_proc_handler\<close> only logs the new state.\<close>

definition usnet_tcpst_proc_handler :: "usn_context \<Rightarrow> byte list \<Rightarrow> u32 \<Rightarrow> usn_context option" where
  "usnet_tcpst_proc_handler ctx data len = Some ctx"

definition usnet_tcpev_proc_handler :: "usn_context \<Rightarrow> byte list \<Rightarrow> u32 \<Rightarrow> usn_context option" where
  "usnet_tcpev_proc_handler ctx data len =
     (if unat len < 4 then Some ctx
      else do {
        type \<leftarrow> mem_u8 data 0;
        event \<leftarrow> mem_u8 data 1;
        if type \<noteq> 1 then Some ctx
        else if event = event_no USN_READ_EV then usnet_read_proc_handler ctx data len
        else if event = event_no USN_TCPST_EV then usnet_tcpst_proc_handler ctx data len
        else Some ctx
      })"

fun tcpev_process_loop ::
  "(nat \<Rightarrow> mq_env) \<Rightarrow> nat \<Rightarrow> usn_context \<Rightarrow> byte list \<Rightarrow> (usn_context \<times> byte list) option" where
  "tcpev_process_loop env 0 ctx data = Some (ctx, data)"
| "tcpev_process_loop env (Suc n) ctx data = do {
     (mq, data, len, flow) \<leftarrow> dequeue_into (env n) (ev_net2app_mq ctx) data;
     let ctx = ctx\<lparr>ev_net2app_mq := mq\<rparr>;
     if len = 0 then Some (ctx, data)
     else do {
       ctx \<leftarrow> usnet_tcpev_proc_handler ctx data len;
       tcpev_process_loop env n ctx data
     }
   }"

definition usnet_tcpev_process ::
  "(nat \<Rightarrow> mq_env) \<Rightarrow> usn_context \<Rightarrow> byte list \<Rightarrow> (usn_context \<times> byte list) option" where
  "usnet_tcpev_process env ctx data = tcpev_process_loop env 9999 ctx data"

section \<open>Waiting for an answer\<close>

text \<open>\<^verbatim>\<open>usnet_shmmq_dequeue_wait\<close> waits for a signal and then reads until there is a message; \<open>envs\<close> is what the
  other process does before each read. When it never sends anything the call does not return.\<close>

fun mq_reread ::
  "(usn_shmmq \<Rightarrow> usn_shmmq) list \<Rightarrow> usn_shmmq \<Rightarrow> u32 \<Rightarrow>
   (usn_shmmq \<times> byte list \<times> u32 \<times> u32 option \<times> int) option" where
  "mq_reread [] mq buf_size = None"
| "mq_reread (env # envs) mq buf_size = do {
     (mq, out, len, flow, ret) \<leftarrow> usnet_read_mq (env mq) buf_size;
     if len = 0 then mq_reread envs mq buf_size else Some (mq, out, len, flow, ret)
   }"

definition usnet_shmmq_dequeue_wait ::
  "int \<Rightarrow> bool \<Rightarrow> (usn_shmmq \<Rightarrow> usn_shmmq) list \<Rightarrow> usn_shmmq \<Rightarrow> u32 \<Rightarrow>
   (usn_shmmq \<times> byte list \<times> u32 \<times> u32 option \<times> int) option" where
  "usnet_shmmq_dequeue_wait sel rd_failed envs mq buf_size =
     (if sel = 0 then Some (mq, [], 0, None, 0)
      else if sel < 0 then Some (mq, [], 0, None, - 1)
      else if rd_failed then Some (mq, [], 0, None, - 1)
      else mq_reread envs mq buf_size)"

definition usnet_send_listen_event ::
  "int \<Rightarrow> bool \<Rightarrow> (usn_shmmq \<Rightarrow> usn_shmmq) list \<Rightarrow> usn_context \<Rightarrow> byte list \<Rightarrow> u32 \<Rightarrow> u32 \<Rightarrow> u16 \<Rightarrow>
   (usn_context \<times> byte list \<times> int) option" where
  "usnet_send_listen_event sel rd_failed envs ctx data fd ad port = do {
     (mq, ret) \<leftarrow> usnet_shmmq_enqueue (ev_app2net_mq ctx) 0 (usn_listen_ev fd ad port 0) fd;
     let ctx = ctx\<lparr>ev_app2net_mq := mq\<rparr>;
     (mq, out, len, flow, ret) \<leftarrow> usnet_shmmq_dequeue_wait sel rd_failed envs (ev_net2app_mq ctx) 4096;
     let ctx = ctx\<lparr>ev_net2app_mq := mq\<rparr>;
     let data = out @ drop (length out) data;
     if unat len < 20 then Some (ctx, data, - 8)
     else do {
       result \<leftarrow> ev_u32 data 16;
       Some (ctx, data, sint result)
     }
   }"

end
