(* ===== verification/Socket_Api.thy ===== *)
theory Socket_Api
  imports Event_Handlers
begin

text \<open>
  The calls of the application (\<^verbatim>\<open>core.c\<close>, \<^verbatim>\<open>epoll.c\<close>): sockets, the backlog of a listening socket, reading,
  writing and waiting for events. Descriptors are 32-bit numbers; a call returns an \<open>int\<close>. Freed memory
  is a null pointer. \<^verbatim>\<open>usnet_connect\<close> and \<^verbatim>\<open>usnet_close\<close> are stubs of the source that return 0.
\<close>

section \<open>Sockets\<close>

text \<open>A new socket in the slot of the next descriptor; the counter moves on even when there is no slot.\<close>

definition new_socket :: "usn_context \<Rightarrow> usn_context \<times> nat option" where
  "new_socket ctx =
     (let fd = g_fd ctx; ctx = ctx\<lparr>g_fd := g_fd ctx + 1\<rparr> in
      case usnet_cache_get (socket_cache ctx) (so_key fd) of
        None \<Rightarrow> (ctx, None)
      | Some s \<Rightarrow> (upd_so s (\<lambda>_. zero_socket\<lparr>so_fd := fd\<rparr>) ctx, Some s))"

definition usnet_socket :: "usn_context \<Rightarrow> u16 \<Rightarrow> u16 \<Rightarrow> u16 \<Rightarrow> usn_context \<times> int" where
  "usnet_socket ctx domain type proto =
     (case new_socket ctx of
        (ctx, None) \<Rightarrow> (ctx, - 1)
      | (ctx, Some s) \<Rightarrow>
          (upd_so s (\<lambda>so. so\<lparr>so_dom := domain, so_type := type, so_proto := proto\<rparr>) ctx, sint (so_fd (so_of ctx s))))"

definition usnet_bind :: "usn_context \<Rightarrow> u32 \<Rightarrow> u16 \<Rightarrow> u16 \<Rightarrow> u32 \<Rightarrow> int \<Rightarrow> usn_context \<times> int" where
  "usnet_bind ctx fd sin_family sin_port s_addr len =
     (case usnet_search_socket ctx (so_key fd) of
        None \<Rightarrow> (ctx, - 1)
      | Some s \<Rightarrow>
          if len \<noteq> 16 then (ctx, - 2)
          else if so_dom (so_of ctx s) \<noteq> sin_family then (ctx, - 3)
          else (upd_so s (\<lambda>so. so\<lparr>so_sport := sin_port, so_saddr := s_addr, so_options := so_options so OR 1\<rparr>) ctx, 0))"

definition usnet_connect :: "usn_context \<Rightarrow> u32 \<Rightarrow> int" where
  "usnet_connect ctx fd = 0"

definition usnet_close :: "usn_context \<Rightarrow> u32 \<Rightarrow> int" where
  "usnet_close ctx fd = 0"

text \<open>\<^verbatim>\<open>usnet_listen\<close>; \<open>m1\<close> and \<open>m2\<close> are whether the two allocations succeed, \<open>reply\<close> is the exchange with the
  network process. Clearing the size of a pointer clears exactly the two positions of the backlog.\<close>

definition usnet_listen ::
  "usn_context \<Rightarrow> u32 \<Rightarrow> bool \<Rightarrow> bool \<Rightarrow> (usn_context \<Rightarrow> u32 \<Rightarrow> u32 \<Rightarrow> u16 \<Rightarrow> (usn_context \<times> byte list \<times> int) option) \<Rightarrow>
   (usn_context \<times> int) option" where
  "usnet_listen ctx fd m1 m2 reply =
     (case usnet_search_socket ctx (so_key fd) of
        None \<Rightarrow> Some (ctx, - 1)
      | Some s \<Rightarrow>
          if \<not> m1 then Some (upd_so s (\<lambda>so. so\<lparr>so_backlogq := None\<rparr>) ctx, - 2)
          else if \<not> m2 then Some (upd_so s (\<lambda>so. so\<lparr>so_backlogq := None\<rparr>) ctx, - 3)
          else do {
            let q = \<lparr>bq_head = 0, bq_tail = 0, bq_size = 500, bq_connq = replicate 500 0\<rparr>;
            let ctx = upd_so s (\<lambda>so. so\<lparr>so_backlogq := Some q, so_options := so_options so OR 2\<rparr>) ctx;
            (ctx, data, ret) \<leftarrow> reply ctx fd (so_saddr (so_of ctx s)) (so_sport (so_of ctx s));
            if ret < 0 then Some (upd_so s (\<lambda>so. so\<lparr>so_backlogq := None\<rparr>) ctx, - 4)
            else Some (ctx, ret)
          })"

section \<open>The backlog\<close>

text \<open>Adding to and taking from the backlog. The array is indexed before the position is wrapped, and the
  two wrap-around tests differ: the tail may stand one behind the end.\<close>

definition backlog_put :: "backlog_queue \<Rightarrow> u32 \<Rightarrow> backlog_queue option" where
  "backlog_put q fd =
     (if 0 \<le> bq_tail q \<and> bq_tail q < int (length (bq_connq q)) then
        let t = bq_tail q + 1
        in Some (q\<lparr>bq_connq := (bq_connq q)[nat (bq_tail q) := fd], bq_tail := (if t > bq_size q then t - bq_size q else t)\<rparr>)
      else None)"

definition backlog_get :: "backlog_queue \<Rightarrow> (backlog_queue \<times> u32) option" where
  "backlog_get q =
     (if 0 \<le> bq_head q \<and> bq_head q < int (length (bq_connq q)) then
        let h = bq_head q + 1
        in Some (q\<lparr>bq_head := (if h \<ge> bq_size q then h - bq_size q else h)\<rparr>, bq_connq q ! nat (bq_head q))
      else None)"

definition usnet_accept_newconn ::
  "usn_context \<Rightarrow> u32 \<Rightarrow> u32 \<Rightarrow> u16 \<Rightarrow> u32 \<Rightarrow> u16 \<Rightarrow> (usn_context \<times> int) option" where
  "usnet_accept_newconn ctx fd sa sp da dp =
     (case usnet_search_socket ctx (so_key fd) of
        None \<Rightarrow> Some (ctx, - 1)
      | Some a \<Rightarrow>
          if so_options (so_of ctx a) AND 2 = 0 then Some (ctx, - 2)
          else
            case new_socket ctx of
              (ctx, None) \<Rightarrow> Some (ctx, - 3)
            | (ctx, Some s) \<Rightarrow> do {
                let l = so_of ctx a;
                let ctx = upd_so s (\<lambda>so. so\<lparr>so_saddr := sa, so_sport := sp, so_daddr := da, so_dport := dp,
                  so_dom := so_dom l, so_type := so_type l, so_proto := so_proto l, so_state := so_state so OR 4\<rparr>) ctx;
                q \<leftarrow> so_backlogq (so_of ctx a);
                q \<leftarrow> backlog_put q (so_fd (so_of ctx s));
                let ctx = upd_so a (\<lambda>so. so\<lparr>so_backlogq := Some q\<rparr>) ctx;
                Some (ctx, sint (so_fd (so_of ctx s)))
              })"

text \<open>\<^verbatim>\<open>usnet_accept\<close> tells the network process which connection the new descriptor stands for; the length
  field of this event is left zero.\<close>

definition accept_ev :: "u32 \<Rightarrow> usn_socket \<Rightarrow> byte list" where
  "accept_ev fd so =
     [1, event_no USN_CONNECT_EV] @ le16 0 @ le32 fd @ le32 (so_saddr so) @ le16 (so_sport so) @ [0, 0] @
     le32 (so_daddr so) @ le16 (so_dport so) @ [0, 0] @ le32 0"

definition usnet_accept :: "usn_context \<Rightarrow> u32 \<Rightarrow> (usn_context \<times> int) option" where
  "usnet_accept ctx fd =
     (case usnet_search_socket ctx (so_key fd) of
        None \<Rightarrow> Some (ctx, - 1)
      | Some a \<Rightarrow>
          if so_options (so_of ctx a) AND 2 = 0 then Some (ctx, - 2)
          else do {
            q \<leftarrow> so_backlogq (so_of ctx a);
            if bq_head q = bq_tail q then Some (ctx, 0)
            else do {
              (q, con_fd) \<leftarrow> backlog_get q;
              let ctx = upd_so a (\<lambda>so. so\<lparr>so_backlogq := Some q\<rparr>) ctx;
              case usnet_search_socket ctx (so_key con_fd) of
                None \<Rightarrow> Some (ctx, - 3)
              | Some s \<Rightarrow> do {
                  (mq, ret) \<leftarrow> usnet_shmmq_enqueue (ev_app2net_mq ctx) 0 (accept_ev con_fd (so_of ctx s)) con_fd;
                  Some (ctx\<lparr>ev_app2net_mq := mq\<rparr>, sint con_fd)
                }
            }
          })"

section \<open>Writing\<close>

definition usnet_write :: "usn_context \<Rightarrow> u32 \<Rightarrow> byte list \<Rightarrow> (usn_context \<times> int) option" where
  "usnet_write ctx fd data =
     (case usnet_cache_search (sndbuf_cache ctx) (sb_key fd) of
        None \<Rightarrow> Some (ctx, - 1)
      | Some b \<Rightarrow> do {
          (buf, ret) \<leftarrow> usnet_write_data (sb_of ctx b) data;
          let ctx = upd_sb b buf ctx;
          ctx \<leftarrow> (if ret > 0 then usnet_write_notify ctx fd else Some ctx);
          Some (ctx, ret)
        })"

section \<open>Waiting for events\<close>

record usn_epoll_event =
  ee_events :: u32
  ee_data :: u32

record usn_epoll_fd =
  ep_fd :: u32
  ep_epollid :: int
  ep_ev :: usn_epoll_event

definition usnet_ep_eq :: "usn_epoll_fd \<Rightarrow> usn_epoll_fd \<Rightarrow> bool" where
  "usnet_ep_eq item1 item2 \<longleftrightarrow> ep_fd item1 = ep_fd item2"

definition usnet_ep_key :: "usn_epoll_fd \<Rightarrow> u32" where
  "usnet_ep_key item = ep_fd item"

definition usnet_ep_isempty :: "usn_epoll_fd \<Rightarrow> bool" where
  "usnet_ep_isempty item \<longleftrightarrow> ep_fd item = 0"

definition usnet_ep_setempty :: "usn_epoll_fd \<Rightarrow> usn_epoll_fd" where
  "usnet_ep_setempty item = item\<lparr>ep_fd := 0\<rparr>"

interpretation epolls: cache_items ep_fd 0 usnet_ep_eq usnet_ep_key usnet_ep_isempty usnet_ep_setempty
  by unfold_locales (auto simp: usnet_ep_eq_def usnet_ep_key_def usnet_ep_isempty_def usnet_ep_setempty_def)

definition zero_epoll_fd :: usn_epoll_fd where
  "zero_epoll_fd = \<lparr>ep_fd = 0, ep_epollid = 0, ep_ev = \<lparr>ee_events = 0, ee_data = 0\<rparr>\<rparr>"

text \<open>The table of watched descriptors is used by this interface only and kept beside the context.\<close>

definition usnet_epoll_init :: "usn_epoll_fd usn_hashbase option" where
  "usnet_epoll_init =
     usnet_cache_init 10 100 24 zero_epoll_fd usnet_ep_eq usnet_ep_key usnet_ep_isempty usnet_ep_setempty"

definition usnet_epoll_watch :: "usn_epoll_fd usn_hashbase \<Rightarrow> u32 \<Rightarrow> bool" where
  "usnet_epoll_watch epoll_cache fd \<longleftrightarrow> usnet_cache_search epoll_cache (zero_epoll_fd\<lparr>ep_fd := fd\<rparr>) \<noteq> None"

text \<open>Operation 1 is \<^verbatim>\<open>USN_EPOLL_CTL_ADD\<close>; the others do nothing.\<close>

definition usnet_epoll_ctl ::
  "usn_epoll_fd usn_hashbase \<Rightarrow> int \<Rightarrow> int \<Rightarrow> u32 \<Rightarrow> usn_epoll_event \<Rightarrow> usn_epoll_fd usn_hashbase \<times> int" where
  "usnet_epoll_ctl epoll_cache epid op fd ev =
     (if op = 1 then
        (let (base, t) = usnet_cache_insert epoll_cache \<lparr>ep_fd = fd, ep_epollid = epid, ep_ev = ev\<rparr>
         in case t of None \<Rightarrow> (base, - 1) | Some _ \<Rightarrow> (base, 0))
      else (epoll_cache, 0))"

text \<open>One message of the loop of \<^verbatim>\<open>usnet_epoll_wait\<close>: the context and the events reported for it. A connection
  request is reported before it is put into the backlog, and also when that fails.\<close>

definition epoll_event ::
  "usn_context \<Rightarrow> usn_epoll_fd usn_hashbase \<Rightarrow> byte list \<Rightarrow> u32 \<Rightarrow> (usn_context \<times> usn_epoll_event list) option" where
  "epoll_event ctx epoll_cache data len =
     (if unat len < 4 then Some (ctx, [])
      else do {
        type \<leftarrow> mem_u8 data 0;
        event \<leftarrow> mem_u8 data 1;
        if type \<noteq> 1 then Some (ctx, [])
        else if event = event_no USN_READ_EV \<and> unat len \<ge> 8 then do {
          fd \<leftarrow> ev_u32 data 4;
          Some (ctx, if usnet_epoll_watch epoll_cache fd then [\<lparr>ee_events = 1, ee_data = fd\<rparr>] else [])
        }
        else if event = event_no USN_WRITE_EV \<and> unat len \<ge> 8 then do {
          fd \<leftarrow> ev_u32 data 4;
          Some (ctx, [\<lparr>ee_events = 4, ee_data = fd\<rparr>])
        }
        else if event = event_no USN_CONNECT_EV \<and> unat len \<ge> 28 then do {
          fd \<leftarrow> ev_u32 data 4;
          sa \<leftarrow> ev_u32 data 8;
          sp \<leftarrow> ev_u16 data 12;
          da \<leftarrow> ev_u32 data 16;
          dp \<leftarrow> ev_u16 data 20;
          (ctx, new_fd) \<leftarrow> usnet_accept_newconn ctx fd sa sp da dp;
          Some (ctx, [\<lparr>ee_events = 1, ee_data = fd\<rparr>])
        }
        else Some (ctx, [])
      })"

fun epoll_loop ::
  "(nat \<Rightarrow> mq_env) \<Rightarrow> usn_epoll_fd usn_hashbase \<Rightarrow> int \<Rightarrow> nat \<Rightarrow> usn_context \<Rightarrow> byte list \<Rightarrow> usn_epoll_event list \<Rightarrow>
   (usn_context \<times> byte list \<times> usn_epoll_event list) option" where
  "epoll_loop env epoll_cache maxevents 0 ctx data evs = Some (ctx, data, evs)"
| "epoll_loop env epoll_cache maxevents (Suc n) ctx data evs =
     (if int (length evs) \<ge> maxevents then Some (ctx, data, evs)
      else do {
        (mq, data, len, flow) \<leftarrow> dequeue_into (env n) (ev_net2app_mq ctx) data;
        let ctx = ctx\<lparr>ev_net2app_mq := mq\<rparr>;
        if len = 0 then Some (ctx, data, evs)
        else do {
          (ctx, new) \<leftarrow> epoll_event ctx epoll_cache data len;
          epoll_loop env epoll_cache maxevents n ctx data (evs @ new)
        }
      })"

text \<open>The events are the entries of the caller's array; their number is the return value. \<open>ready\<close> is whether
  \<^verbatim>\<open>poll\<close> reported input.\<close>

definition usnet_epoll_wait ::
  "(nat \<Rightarrow> mq_env) \<Rightarrow> bool \<Rightarrow> usn_context \<Rightarrow> usn_epoll_fd usn_hashbase \<Rightarrow> int \<Rightarrow> byte list \<Rightarrow>
   (usn_context \<times> byte list \<times> usn_epoll_event list) option" where
  "usnet_epoll_wait env ready ctx epoll_cache maxevents data =
     (if ready then epoll_loop env epoll_cache maxevents 9999 ctx data [] else Some (ctx, data, []))"

text \<open>The handlers of \<^verbatim>\<open>usnet_epoll_process\<close>. They agree with those of \<^verbatim>\<open>usnet_tcpev_process\<close>.\<close>

definition usnet_epoll_read_handler :: "usn_context \<Rightarrow> byte list \<Rightarrow> u32 \<Rightarrow> usn_context option" where
  "usnet_epoll_read_handler ctx data len =
     (if unat len < 8 then Some ctx
      else do {
        fd \<leftarrow> ev_u32 data 4;
        case usnet_cache_search (ringbuf_cache ctx)
            \<lparr>rb_fd = fd, rb_data = 0, rb_head = 0, rb_size = 0, rb_head_seq = 0, rb_last_seq = 0,
             rb_merged_len = 0, rb_win = 0, rb_frags = [], rb_buf = []\<rparr> of
          None \<Rightarrow> Some ctx
        | Some b \<Rightarrow> do {
            let buf = hb_cache (ringbuf_cache ctx) b;
            let head = unat (rb_head buf);
            let start = unat (rb_data buf);
            if head = start then Some ctx
            else do {
              ctx \<leftarrow> (if head > start then do {
                        xs \<leftarrow> mem_read start (head - start) (rb_buf buf);
                        map_option fst (usnet_write_new ctx fd xs)
                      }
                      else if unat (rb_size buf) < start then None
                      else do {
                        xs \<leftarrow> mem_read start (unat (rb_size buf) - start) (rb_buf buf);
                        (ctx, ret) \<leftarrow> usnet_write_new ctx fd xs;
                        ys \<leftarrow> mem_read 0 head (rb_buf buf);
                        map_option fst (usnet_write_new ctx fd ys)
                      });
              let buf = hb_cache (ringbuf_cache ctx) b;
              Some (ctx\<lparr>ringbuf_cache := (ringbuf_cache ctx)\<lparr>hb_cache :=
                (hb_cache (ringbuf_cache ctx))(b := buf\<lparr>rb_data := rb_head buf\<rparr>)\<rparr>\<rparr>)
            }
          }
      })"

text \<open>\<^verbatim>\<open>usnet_epoll_tcpst_handler\<close> only logs the new state.\<close>

definition usnet_epoll_tcpst_handler :: "usn_context \<Rightarrow> byte list \<Rightarrow> u32 \<Rightarrow> usn_context option" where
  "usnet_epoll_tcpst_handler ctx data len = Some ctx"

definition usnet_epoll_proc_handler :: "usn_context \<Rightarrow> byte list \<Rightarrow> u32 \<Rightarrow> usn_context option" where
  "usnet_epoll_proc_handler ctx data len =
     (if unat len < 4 then Some ctx
      else do {
        type \<leftarrow> mem_u8 data 0;
        event \<leftarrow> mem_u8 data 1;
        if type \<noteq> 1 then Some ctx
        else if event = event_no USN_READ_EV then usnet_epoll_read_handler ctx data len
        else if event = event_no USN_TCPST_EV then usnet_epoll_tcpst_handler ctx data len
        else Some ctx
      })"

lemma epoll_handlers: "usnet_epoll_proc_handler ctx data len = usnet_tcpev_proc_handler ctx data len"
proof -
  have "usnet_epoll_read_handler ctx data len = usnet_read_proc_handler ctx data len"
    unfolding usnet_epoll_read_handler_def usnet_read_proc_handler_def ..
  then show ?thesis
    unfolding usnet_epoll_proc_handler_def usnet_tcpev_proc_handler_def usnet_epoll_tcpst_handler_def usnet_tcpst_proc_handler_def by (simp only:)
qed

text \<open>The return value of \<^verbatim>\<open>usnet_epoll_process\<close> counts the passes. \<open>n\<close> passes are left of 9999.\<close>

fun epoll_process_loop ::
  "(nat \<Rightarrow> mq_env) \<Rightarrow> nat \<Rightarrow> usn_context \<Rightarrow> byte list \<Rightarrow> (usn_context \<times> byte list \<times> int) option" where
  "epoll_process_loop env 0 ctx data = Some (ctx, data, 10000)"
| "epoll_process_loop env (Suc n) ctx data = do {
     (mq, data, len, flow) \<leftarrow> dequeue_into (env n) (ev_net2app_mq ctx) data;
     let ctx = ctx\<lparr>ev_net2app_mq := mq\<rparr>;
     if len = 0 then Some (ctx, data, 9999 - int n)
     else do {
       ctx \<leftarrow> usnet_epoll_proc_handler ctx data len;
       epoll_process_loop env n ctx data
     }
   }"

definition usnet_epoll_process ::
  "(nat \<Rightarrow> mq_env) \<Rightarrow> usn_context \<Rightarrow> byte list \<Rightarrow> (usn_context \<times> byte list \<times> int) option" where
  "usnet_epoll_process env ctx data = epoll_process_loop env 9999 ctx data"

section \<open>The backlog as a queue\<close>

text \<open>Until its last place is used the backlog is a queue of descriptors.\<close>

definition backlog_ok :: "backlog_queue \<Rightarrow> bool" where
  "backlog_ok q \<longleftrightarrow> bq_size q = int (length (bq_connq q)) \<and> 0 \<le> bq_head q \<and> bq_head q \<le> bq_tail q \<and>
     bq_tail q < bq_size q"

definition backlog_content :: "backlog_queue \<Rightarrow> u32 list" where
  "backlog_content q = take (nat (bq_tail q - bq_head q)) (drop (nat (bq_head q)) (bq_connq q))"

definition backlog_room :: "backlog_queue \<Rightarrow> nat" where
  "backlog_room q = nat (bq_size q - bq_tail q - 1)"

text \<open>What \<^verbatim>\<open>usnet_accept\<close> does with the queue: nothing to take when the two positions agree.\<close>

definition backlog_take :: "backlog_queue \<Rightarrow> (backlog_queue \<times> u32 list) option" where
  "backlog_take q =
     (if bq_head q = bq_tail q then None else map_option (\<lambda>(q, fd). (q, [fd])) (backlog_get q))"

lemma take_update_snoc:
  assumes "h \<le> t" "t < length xs"
  shows "take (Suc t - h) (drop h (xs[t := x])) = take (t - h) (drop h xs) @ [x]"
proof -
  have "take (Suc (t - h)) (drop h (xs[t := x])) = take (t - h) (drop h (xs[t := x])) @ [drop h (xs[t := x]) ! (t - h)]"
    using assms by (intro take_Suc_conv_app_nth) simp
  moreover have "take (t - h) (drop h (xs[t := x])) = take (t - h) (drop h xs)"
    using assms by (simp add: drop_update_swap)
  ultimately show ?thesis using assms by (simp add: Suc_diff_le)
qed

interpretation backlog: fifo backlog_ok backlog_content backlog_room "\<lambda>_. 1" "\<lambda>fd. [fd]" backlog_put backlog_take
proof (unfold_locales, goal_cases)
  case (1 q fd)
  let ?t = "nat (bq_tail q)" and ?h = "nat (bq_head q)"
  have t: "?h \<le> ?t" "?t < length (bq_connq q)" "Suc ?t < length (bq_connq q)"
    using 1 by (auto simp: backlog_ok_def backlog_room_def)
  have "nat (bq_tail q + 1 - bq_head q) = Suc ?t - ?h" "nat (bq_tail q - bq_head q) = ?t - ?h"
    "nat (bq_size q - (bq_tail q + 1) - 1) = nat (bq_size q - bq_tail q - 1) - 1"
    "bq_tail q + 1 < bq_size q"
    using 1 by (auto simp: backlog_ok_def backlog_room_def)
  then show ?case using 1 take_update_snoc[OF t(1,2), of fd]
    by (auto simp: algebra_simps backlog_put_def Let_def backlog_ok_def backlog_content_def backlog_room_def)
next
  case (2 q)
  let ?h = "nat (bq_head q)"
  have h: "bq_head q < bq_tail q" "?h < length (bq_connq q)"
    using 2 by (auto simp: backlog_ok_def backlog_content_def)
  have "nat (bq_head q + 1) = Suc ?h" "nat (bq_tail q - bq_head q) = Suc (nat (bq_tail q - (bq_head q + 1)))"
    using 2(1) h(1) by (auto simp: backlog_ok_def)
  moreover have "drop ?h (bq_connq q) = bq_connq q ! ?h # drop (Suc ?h) (bq_connq q)"
    using h(2) by (rule Cons_nth_drop_Suc[symmetric])
  ultimately show ?case using 2(1) h
    by (auto simp: backlog_take_def backlog_get_def Let_def backlog_ok_def backlog_content_def)
qed

definition backlog_new :: backlog_queue where
  "backlog_new = \<lparr>bq_head = 0, bq_tail = 0, bq_size = 500, bq_connq = replicate 500 0\<rparr>"

lemma backlog_new_ok: "backlog_ok backlog_new" "backlog_content backlog_new = []" "backlog_room backlog_new = 499"
  by (simp_all add: backlog_ok_def backlog_content_def backlog_room_def backlog_new_def)

text \<open>C31. Of the backlog \<^verbatim>\<open>usnet_listen\<close> creates the first 499 connections come back in the order they were
  put in, each once.\<close>

theorem backlog_accept_order:
  assumes "length fds \<le> 499"
  shows "\<exists>q1 n q2. puts backlog_put backlog_new fds = Some q1 \<and> gets backlog_take n q1 = Some (q2, fds) \<and>
    backlog_take q2 = None"
proof -
  obtain q1 where q1: "puts backlog_put backlog_new fds = Some q1" "backlog_ok q1" "backlog_content q1 = fds"
    using backlog.puts_fit[OF backlog_new_ok(1), of fds] assms backlog_new_ok by (auto simp: sum_list_triv)
  obtain n q2 where q2: "gets backlog_take n q1 = Some (q2, fds)" "backlog_ok q2" "backlog_content q2 = []"
    using backlog.gets_drain[OF q1(2)] q1(3) by auto
  have "bq_head q2 = bq_tail q2" using q2(2,3) by (auto simp: backlog_ok_def backlog_content_def)
  then show ?thesis using q1(1) q2(1) by (auto simp: backlog_take_def)
qed

theorem backlog_accept_order_witness:
  "\<exists>q1 n q2. puts backlog_put backlog_new [5, 7, 6] = Some q1 \<and> gets backlog_take n q1 = Some (q2, [5, 7, 6]) \<and>
    backlog_take q2 = None"
  using backlog_accept_order[of "[5, 7, 6]"] by simp

lemma backlog_put_head: "puts backlog_put q fds = Some q' \<Longrightarrow> bq_head q' = bq_head q \<and> bq_size q' = bq_size q"
  by (induction fds arbitrary: q)
    (auto simp: backlog_put_def Let_def split: option.splits if_splits)

lemma puts_append: "puts put b (xs @ ys) = (case puts put b xs of None \<Rightarrow> None | Some b' \<Rightarrow> puts put b' ys)"
  by (induction xs arbitrary: b) (auto split: option.splits)

text \<open>Reading a backlog whose tail stands behind the last place.\<close>

lemma backlog_gets_full:
  assumes "bq_size q = int (length (bq_connq q))" "bq_tail q = bq_size q" "0 \<le> bq_head q"
    "nat (bq_head q) + n \<le> length (bq_connq q)" "bq_head q < bq_size q"
  shows "gets backlog_take n q =
    Some (q\<lparr>bq_head := (if bq_head q + int n = bq_size q then 0 else bq_head q + int n)\<rparr>,
      take n (drop (nat (bq_head q)) (bq_connq q)))"
  using assms
proof (induction n arbitrary: q)
  case 0
  then show ?case by simp
next
  case (Suc n)
  let ?h = "nat (bq_head q)" and ?q = "q\<lparr>bq_head := (if bq_head q + 1 \<ge> bq_size q then bq_head q + 1 - bq_size q else bq_head q + 1)\<rparr>"
  have h: "?h < length (bq_connq q)" using Suc.prems by linarith
  have t: "backlog_take q = Some (?q, [bq_connq q ! ?h])"
    using Suc.prems h by (auto simp: backlog_take_def backlog_get_def Let_def)
  have d: "drop ?h (bq_connq q) = bq_connq q ! ?h # drop (Suc ?h) (bq_connq q)"
    using h by (rule Cons_nth_drop_Suc[symmetric])
  show ?case
  proof (cases n)
    case 0
    then show ?thesis using t d Suc.prems by auto
  next
    case (Suc m)
    have b: "bq_head q + 1 < bq_size q" using Suc.prems Suc by linarith
    have q: "?q = q\<lparr>bq_head := bq_head q + 1\<rparr>" using b by simp
    have n: "nat (bq_head q + 1) = Suc ?h" using Suc.prems by linarith
    have "gets backlog_take n ?q = Some (q\<lparr>bq_head := (if bq_head q + 1 + int n = bq_size q then 0 else bq_head q + 1 + int n)\<rparr>,
        take n (drop (Suc ?h) (bq_connq q)))"
      using Suc.IH[of ?q] Suc.prems b n unfolding q by simp
    then show ?thesis using t d by (simp add: ac_simps)
  qed
qed

lemma bq_same: "bq_head q = h \<Longrightarrow> q\<lparr>bq_connq := xs, bq_tail := t, bq_head := h\<rparr> = q\<lparr>bq_connq := xs, bq_tail := t\<rparr>"
  by (cases q) simp

text \<open>C32. The 500th connection breaks the backlog: its tail stays behind the last place, so the next
  connection is written past the array, and once the 500 connections have been accepted the backlog never
  appears empty again: \<^verbatim>\<open>usnet_accept\<close> hands out the same 500 descriptors again and again.\<close>

theorem backlog_stale:
  assumes "length fds = 500"
  shows "\<exists>q1 q2. puts backlog_put backlog_new fds = Some q1 \<and> gets backlog_take 500 q1 = Some (q2, fds) \<and>
    gets backlog_take 500 q2 = Some (q2, fds) \<and> backlog_put q1 fd = None \<and> backlog_put q2 fd = None"
proof -
  obtain xs x where f: "fds = xs @ [x]" "length xs = 499" using assms by (cases fds rule: rev_cases) auto
  obtain q where q: "puts backlog_put backlog_new xs = Some q" "backlog_ok q" "backlog_content q = xs" "backlog_room q = 0"
    using backlog.puts_fit[OF backlog_new_ok(1), of xs] f(2) backlog_new_ok by (auto simp: sum_list_triv)
  have h: "bq_head q = 0" "bq_size q = 500" using backlog_put_head[OF q(1)] by (simp_all add: backlog_new_def)
  then have t: "bq_tail q = 499" using q(2,4) by (simp add: backlog_ok_def backlog_room_def)
  then have t: "bq_tail q = 499" "length (bq_connq q) = 500" "take 499 (bq_connq q) = xs"
    using h q(2,3) by (auto simp: backlog_ok_def backlog_content_def)
  let ?q = "q\<lparr>bq_connq := (bq_connq q)[499 := x], bq_tail := 500\<rparr>"
  have p: "puts backlog_put backlog_new fds = Some ?q"
    using q(1) h t by (simp add: f(1) puts_append backlog_put_def)
  have c: "(bq_connq q)[499 := x] = fds"
    using take_update_snoc[of 0 499 "bq_connq q" x] t by (simp add: f(1))
  have "gets backlog_take 500 ?q = Some (?q, fds)"
    using backlog_gets_full[of ?q 500] h t c assms by (simp add: bq_same)
  moreover have "backlog_put ?q fd = None" using t by (simp add: backlog_put_def)
  ultimately show ?thesis using p by blast
qed

theorem backlog_stale_witness:
  "\<exists>q1 q2. puts backlog_put backlog_new (replicate 500 7) = Some q1 \<and> gets backlog_take 500 q1 = Some (q2, replicate 500 7) \<and>
    gets backlog_take 500 q2 = Some (q2, replicate 500 7)"
  using backlog_stale[of "replicate 500 7" 8] by auto

end
