(* ===== verification/Tcp_In.thy ===== *)
theory Tcp_In
  imports Tcb
begin

text \<open>
  Segment input (\<^verbatim>\<open>tcp.c\<close>): RTT estimation, acknowledgement and payload processing, sequence validation,
  one handler per connection state, passive opening, and \<^verbatim>\<open>usnet_tcp_input\<close>, which composes them. The
  handlers return the new context; values the callers ignore are dropped.
\<close>

section \<open>Timestamps and round-trip time\<close>

record tcp_timestamp =
  ts_val :: u32
  ts_ref :: u32

text \<open>One option of the loop of \<^verbatim>\<open>usnet_parse_tcptimestamp\<close>: \<open>Inl\<close> the result (\<open>None\<close> for -1), \<open>Inr\<close> the next
  position.\<close>

definition tcpts_step :: "byte list \<Rightarrow> int \<Rightarrow> int \<Rightarrow> (tcp_timestamp option + int) option" where
  "tcpts_step tcpopt len i = do {
     opt \<leftarrow> mem_u8 tcpopt i;
     let i = i + 1;
     if opt = 0 then Some (Inl None)
     else if opt = 1 then Some (Inr i)
     else do {
       optlen \<leftarrow> mem_u8 tcpopt i;
       let i = i + 1;
       if i + int (unat optlen) - 2 > len then Some (Inl None)
       else if opt = 8 then do {
         v \<leftarrow> mem_u32 tcpopt i;
         r \<leftarrow> mem_u32 tcpopt (i + 4);
         Some (Inl (Some \<lparr>ts_val = htonl v, ts_ref = htonl r\<rparr>))
       }
       else Some (Inr (i + int (unat optlen) - 2))
     }
   }"

partial_function (option) usnet_parse_tcptimestamp :: "byte list \<Rightarrow> int \<Rightarrow> int \<Rightarrow> tcp_timestamp option option" where
  "usnet_parse_tcptimestamp tcpopt len i =
     (if i < len then
        Option.bind (tcpts_step tcpopt len i) (\<lambda>r.
          case r of Inl res \<Rightarrow> Some res | Inr i \<Rightarrow> usnet_parse_tcptimestamp tcpopt len i)
      else Some None)"

declare usnet_parse_tcptimestamp.simps [code]

text \<open>\<^verbatim>\<open>usnet_estimate_rtt\<close>; \<^verbatim>\<open>m\<close> is a 64-bit \<^verbatim>\<open>long\<close>, the variables are 32-bit.\<close>

definition usnet_estimate_rtt :: "usn_tcb \<Rightarrow> u32 \<Rightarrow> usn_tcb" where
  "usnet_estimate_rtt tcb mrtt =
     (let m = (if mrtt = 0 then 1 else int (unat mrtt));
          r = rcvvar tcb
      in if srtt r \<noteq> 0 then
           let m = m - int (unat (drop_bit 3 (srtt r)));
               r = r\<lparr>srtt := srtt r + of_int m\<rparr>;
               m = (if m < 0 then
                      let m = - m - int (unat (drop_bit 2 (mdev r))) in (if m > 0 then m div 8 else m)
                    else m - int (unat (drop_bit 2 (mdev r))));
               r = r\<lparr>mdev := mdev r + of_int m\<rparr>;
               r = (if mdev r > mdev_max r then
                      let r = r\<lparr>mdev_max := mdev r\<rparr>
                      in (if mdev_max r > rttvar r then r\<lparr>rttvar := mdev_max r\<rparr> else r)
                    else r);
               r = (if TCP_SEQ_GT (snd_una (sndvar tcb)) (rtt_seq r) then
                      let r = (if mdev_max r < rttvar r
                               then r\<lparr>rttvar := rttvar r - drop_bit 2 (rttvar r - mdev_max r)\<rparr> else r)
                      in r\<lparr>rtt_seq := snd_nxt tcb, mdev_max := 0\<rparr>
                    else r)
           in tcb\<lparr>rcvvar := r\<rparr>
         else
           let r = r\<lparr>srtt := of_int (m * 8), mdev := of_int (m * 2)\<rparr>
           in tcb\<lparr>rcvvar := r\<lparr>rttvar := max (mdev r) 0, mdev_max := max (mdev r) 0, rtt_seq := snd_nxt tcb\<rparr>\<rparr>)"

section \<open>Acknowledgements\<close>

text \<open>The phases of \<^verbatim>\<open>usnet_process_ack\<close>. First the window update; \<open>cwindow\<close> is the window after
  scaling.\<close>

definition ack_window :: "usn_context \<Rightarrow> nat \<Rightarrow> u32 \<Rightarrow> u32 \<Rightarrow> u32 \<Rightarrow> usn_context option" where
  "ack_window ctx p seq ack_seq cwindow =
     (let r = rcv_of ctx p; s = snd_of ctx p in
      if TCP_SEQ_LT (snd_wl1 r) seq \<or> (snd_wl1 r = seq \<and> TCP_SEQ_LT (snd_wl2 r) ack_seq) \<or>
         (snd_wl2 r = ack_seq \<and> cwindow > peer_wnd s) then
        let cwindow_prev = peer_wnd s;
            ctx = upd_snd p (\<lambda>s. s\<lparr>peer_wnd := cwindow\<rparr>) ctx;
            ctx = upd_rcv p (\<lambda>r. r\<lparr>snd_wl1 := seq, snd_wl2 := ack_seq\<rparr>) ctx;
            inflight = snd_nxt (tcb_of ctx p) - snd_una (snd_of ctx p)
        in (if cwindow_prev < inflight \<and> peer_wnd (snd_of ctx p) \<ge> inflight
            then usnet_raise_write_event ctx p else Some ctx)
      else Some ctx)"

text \<open>Counting duplicate acknowledgements, with whether this one is a duplicate.\<close>

definition ack_dup :: "usn_context \<Rightarrow> nat \<Rightarrow> u32 \<Rightarrow> int \<Rightarrow> u32 \<Rightarrow> usn_context \<times> bool" where
  "ack_dup ctx p ack_seq payloadlen right_wnd_edge =
     (let t = tcb_of ctx p; r = rcvvar t;
          dup = (TCP_SEQ_LT ack_seq (snd_nxt t) \<and> ack_seq = last_ack_seq r \<and> payloadlen = 0 \<and>
                 snd_wl2 r + peer_wnd (sndvar t) = right_wnd_edge)
      in (upd_rcv p (\<lambda>r. if dup then r\<lparr>dup_acks := dup_acks r + 1\<rparr> else r\<lparr>dup_acks := 0, last_ack_seq := ack_seq\<rparr>) ctx,
          dup))"

text \<open>Fast retransmission on the third duplicate, window inflation on later ones.\<close>

definition halved_ssthresh :: "usn_sndvars \<Rightarrow> u32" where
  "halved_ssthresh s =
     (let t = min (cwnd s) (peer_wnd s) div 2 in if t < 2 * ucast (mss s) then 2 * ucast (mss s) else t)"

definition ack_fast_rtx :: "usn_context \<Rightarrow> nat \<Rightarrow> u32 \<Rightarrow> bool \<Rightarrow> usn_context option" where
  "ack_fast_rtx ctx p ack_seq dup =
     (if dup \<and> dup_acks (rcv_of ctx p) = 3 then
        let ctx = (if TCP_SEQ_LT ack_seq (snd_nxt (tcb_of ctx p))
                   then upd_tcb p (\<lambda>t. t\<lparr>snd_nxt := ack_seq\<rparr>) ctx else ctx);
            ctx = upd_snd p (\<lambda>s. s\<lparr>ssthresh := halved_ssthresh s\<rparr>) ctx;
            ctx = upd_snd p (\<lambda>s. s\<lparr>cwnd := ssthresh s + 3 * ucast (mss s)\<rparr>) ctx;
            ctx = (if nrtx (snd_of ctx p) < 16 then upd_snd p (\<lambda>s. s\<lparr>nrtx := nrtx s + 1\<rparr>) ctx else ctx)
        in usnet_add_send_list ctx p
      else if dup_acks (rcv_of ctx p) > 3 then
        Some (if cwnd (snd_of ctx p) + ucast (mss (snd_of ctx p)) > cwnd (snd_of ctx p)
              then upd_snd p (\<lambda>s. s\<lparr>cwnd := cwnd s + ucast (mss s)\<rparr>) ctx else ctx)
      else Some ctx)"

text \<open>An acknowledgement beyond \<^verbatim>\<open>snd_nxt\<close> moves it.\<close>

definition ack_snd_nxt :: "usn_context \<Rightarrow> nat \<Rightarrow> nat \<Rightarrow> u32 \<Rightarrow> usn_context option" where
  "ack_snd_nxt ctx p b ack_seq =
     (if TCP_SEQ_GT ack_seq (snd_nxt (tcb_of ctx p)) then
        let ctx = upd_tcb p (\<lambda>t. t\<lparr>snd_nxt := ack_seq\<rparr>) ctx
        in if sb_len (sb_of ctx b) = 0 then usnet_remove_send_list ctx p else Some ctx
      else Some ctx)"

text \<open>The congestion window after \<open>packets\<close> newly acknowledged segments. The products are \<^verbatim>\<open>int\<close> products
  in the source; a congestion window of zero divides by zero.\<close>

definition ack_cwnd :: "usn_tcb \<Rightarrow> u16 \<Rightarrow> u32 option" where
  "ack_cwnd tcb packets =
     (let s = sndvar tcb in
      if tcb_state tcb \<ge> TCPS_ESTABLISHED then
        if cwnd s < ssthresh s then
          Some (if cwnd s + ucast (mss s) > cwnd s then cwnd s + ucast (mss s) * ucast packets else cwnd s)
        else if cwnd s = 0 then None
        else
          let new_cwnd = cwnd s + ucast packets * ucast (mss s) * ucast (mss s) div cwnd s
          in Some (if new_cwnd > cwnd s then new_cwnd else cwnd s)
      else Some (cwnd s))"

text \<open>Removing the acknowledged bytes from the send buffer \<open>b\<close>. An effective segment size of zero
  divides by zero; a retransmission timeout of zero fails an assertion.\<close>

definition ack_remove :: "usn_context \<Rightarrow> nat \<Rightarrow> nat \<Rightarrow> u32 \<Rightarrow> usn_context option" where
  "ack_remove ctx p b ack_seq = do {
     let rmlen = ack_seq - sb_head_seq (sb_of ctx b);
     let eff = (ucast (eff_mss (snd_of ctx p)) :: u32);
     if eff = 0 then None
     else do {
       let packets = (ucast (rmlen div eff) + (if rmlen div eff * eff > rmlen then 1 else 0) :: u16);
       ctx \<leftarrow> (if saw_timestamp (tcb_of ctx p) then
                 let ctx = upd_tcb p (\<lambda>t. usnet_estimate_rtt t (of_int (cur_time ctx) - ts_lastack_rcvd (rcvvar t))) ctx;
                     ctx = upd_snd p (\<lambda>s. s\<lparr>rto := drop_bit 3 (srtt (rcv_of ctx p)) + rttvar (rcv_of ctx p)\<rparr>) ctx
                 in (if rto (snd_of ctx p) > 0 then Some ctx else None)
               else Some ctx);
       w \<leftarrow> ack_cwnd (tcb_of ctx p) packets;
       let ctx = upd_snd p (\<lambda>s. s\<lparr>cwnd := w\<rparr>) ctx;
       let ctx = upd_sb b (fst (usnet_remove_data (sb_of ctx b) (sint rmlen))) ctx;
       let snd_wnd_prev = snd_wnd (snd_of ctx p);
       let ctx = upd_snd p (\<lambda>s. s\<lparr>snd_una := ack_seq, snd_wnd := sb_size (sb_of ctx b) - sb_len (sb_of ctx b)\<rparr>) ctx;
       ctx \<leftarrow> (if snd_wnd_prev = 0 then usnet_raise_write_event ctx p else Some ctx);
       usnet_update_retransmission_timer ctx p
     }
   }"

text \<open>\<^verbatim>\<open>usnet_process_ack\<close>. Its parameter \<^verbatim>\<open>int16_t window\<close> is sign-extended when it is widened.\<close>

definition usnet_process_ack ::
  "usn_context \<Rightarrow> nat \<Rightarrow> usn_tcphdr \<Rightarrow> u32 \<Rightarrow> u32 \<Rightarrow> u16 \<Rightarrow> int \<Rightarrow> (usn_context \<times> int) option" where
  "usnet_process_ack ctx p tcph seq ack_seq window payloadlen =
     (case sndbuf (snd_of ctx p) of
        None \<Rightarrow> None
      | Some b \<Rightarrow>
          let s = snd_of ctx p;
              cwindow = scast window;
              cwindow = (if th_flags tcph AND TH_SYN = 0 then shl32 cwindow (wscale s) else cwindow);
              right_wnd_edge = peer_wnd s + snd_wl2 (rcv_of ctx p);
              ack_seq = (if tcb_state (tcb_of ctx p) \<in> {TCPS_FIN_WAIT_1, TCPS_FIN_WAIT_2, TCPS_CLOSING,
                               TCPS_CLOSE_WAIT, TCPS_LAST_ACK} \<and> is_fin_sent s \<and> ack_seq = fss s + 1
                         then ack_seq - 1 else ack_seq)
          in if TCP_SEQ_GT ack_seq (sb_head_seq (sb_of ctx b) + sb_len (sb_of ctx b)) then Some (ctx, - 1)
             else do {
               ctx \<leftarrow> ack_window ctx p seq ack_seq cwindow;
               let (ctx, dup) = ack_dup ctx p ack_seq payloadlen right_wnd_edge;
               ctx \<leftarrow> ack_fast_rtx ctx p ack_seq dup;
               ctx \<leftarrow> ack_snd_nxt ctx p b ack_seq;
               if TCP_SEQ_GEQ (sb_head_seq (sb_of ctx b)) ack_seq then Some (ctx, - 2)
               else do {
                 ctx \<leftarrow> ack_remove ctx p b ack_seq;
                 Some (ctx, 0)
               }
             })"

section \<open>Payload\<close>

definition rb_of :: "usn_context \<Rightarrow> nat \<Rightarrow> usn_ringbuf" where
  "rb_of ctx b = hb_cache (ringbuf_cache ctx) b"

definition upd_rb :: "nat \<Rightarrow> usn_ringbuf \<Rightarrow> usn_context \<Rightarrow> usn_context" where
  "upd_rb b buf ctx =
     ctx\<lparr>ringbuf_cache := (ringbuf_cache ctx)\<lparr>hb_cache := (hb_cache (ringbuf_cache ctx))(b := buf)\<rparr>\<rparr>"

text \<open>The receive buffer is allocated with the first payload.\<close>

definition payload_buffer :: "usn_context \<Rightarrow> nat \<Rightarrow> usn_context \<times> nat option" where
  "payload_buffer ctx p =
     (case rcvbuf (rcv_of ctx p) of
        Some b \<Rightarrow> (ctx, Some b)
      | None \<Rightarrow>
          let (base, r) = usnet_get_ringbuf (ringbuf_cache ctx) (tcb_fd (tcb_of ctx p)) (irs (rcv_of ctx p) + 1)
          in (upd_rcv p (\<lambda>v. v\<lparr>rcvbuf := r\<rparr>) (ctx\<lparr>ringbuf_cache := base\<rparr>), r))"

definition usnet_process_tcp_payload ::
  "usn_context \<Rightarrow> nat \<Rightarrow> byte list \<Rightarrow> u32 \<Rightarrow> (usn_context \<times> int) option" where
  "usnet_process_tcp_payload ctx p payload seq =
     (let seg_end = seq + of_nat (length payload) in
      if TCP_SEQ_LT seg_end (rcv_nxt (tcb_of ctx p)) then Some (ctx, - 1)
      else if TCP_SEQ_GT seg_end (rcv_nxt (tcb_of ctx p) + rcv_wnd (rcv_of ctx p)) then Some (ctx, - 2)
      else case payload_buffer ctx p of
        (ctx, None) \<Rightarrow> do {
          ctx \<leftarrow> usnet_raise_error_event (upd_tcb p (\<lambda>t. t\<lparr>tcb_state := TCPS_CLOSED, close_reason := TCP_NO_MEM\<rparr>) ctx) p;
          Some (ctx, - 3)
        }
      | (ctx, Some b) \<Rightarrow> do {
          let prev_rcv_nxt = rcv_nxt (tcb_of ctx p);
          (mp, buf, ret) \<leftarrow> usnet_insert_fragment (frag_mp ctx) (rb_of ctx b) payload seq;
          let ctx = upd_rb b buf (ctx\<lparr>frag_mp := mp\<rparr>);
          let ctx = upd_tcb p (\<lambda>t. t\<lparr>rcv_nxt := rb_head_seq buf\<rparr>) ctx;
          let ctx = upd_rcv p (\<lambda>r. r\<lparr>rcv_wnd := rb_win buf\<rparr>) ctx;
          if TCP_SEQ_LEQ (rcv_nxt (tcb_of ctx p)) prev_rcv_nxt then Some (ctx, - 1)
          else do {
            ctx \<leftarrow> (if tcb_state (tcb_of ctx p) = TCPS_ESTABLISHED then usnet_raise_read_event ctx p else Some ctx);
            Some (ctx, 0)
          }
        })"

section \<open>Sequence validation\<close>

text \<open>\<^verbatim>\<open>usnet_validate_seq\<close>: the timestamp check (PAWS), \<open>Inl\<close> its error, then the window check.\<close>

definition validate_paws :: "usn_context \<Rightarrow> nat \<Rightarrow> usn_tcphdr \<Rightarrow> (usn_context \<times> int) option" where
  "validate_paws ctx p tcph =
     (if th_flags tcph AND TH_RST = 0 \<and> saw_timestamp (tcb_of ctx p) then do {
        ts \<leftarrow> usnet_parse_tcptimestamp (drop 20 (th_mem tcph)) (4 * int (th_off tcph) - 20) 0;
        case ts of
          None \<Rightarrow> Some (ctx, - 1)
        | Some ts \<Rightarrow>
            if TCP_SEQ_LT (ts_val ts) (ts_recent (rcv_of ctx p)) then do {
              ctx \<leftarrow> usnet_enqueue_ack ctx p ACK_OPT_NOW;
              Some (ctx, - 2)
            }
            else
              let ctx = (if TCP_SEQ_GT (ts_val ts) (ts_recent (rcv_of ctx p))
                         then upd_rcv p (\<lambda>r. r\<lparr>ts_last_ts_upd := of_int (cur_time ctx)\<rparr>) ctx else ctx)
              in Some (upd_rcv p (\<lambda>r. r\<lparr>ts_recent := ts_val ts, ts_lastack_rcvd := ts_ref ts\<rparr>) ctx, 0)
      }
      else Some (ctx, 0))"

definition usnet_validate_seq ::
  "usn_context \<Rightarrow> nat \<Rightarrow> usn_tcphdr \<Rightarrow> u32 \<Rightarrow> nat \<Rightarrow> (usn_context \<times> int) option" where
  "usnet_validate_seq ctx p tcph seq payloadlen =
     (if rcvvar_at (tcb_of ctx p) = None then None
      else do {
        (ctx, ret) \<leftarrow> validate_paws ctx p tcph;
        if ret < 0 then Some (ctx, ret)
        else if \<not> TCP_SEQ_BETWEEN (seq + of_nat payloadlen) (rcv_nxt (tcb_of ctx p))
               (rcv_nxt (tcb_of ctx p) + rcv_wnd (rcv_of ctx p) - 1) then
          if th_flags tcph AND TH_RST \<noteq> 0 then Some (ctx, - 3)
          else if tcb_state (tcb_of ctx p) = TCPS_ESTABLISHED then
            if seq + 1 = rcv_nxt (tcb_of ctx p) then do {
              ctx \<leftarrow> usnet_enqueue_ack ctx p ACK_OPT_AGGREGATE;
              Some (ctx, - 4)
            }
            else do {
              ctx \<leftarrow> usnet_enqueue_ack ctx p
                (if TCP_SEQ_LEQ seq (rcv_nxt (tcb_of ctx p)) then ACK_OPT_AGGREGATE else ACK_OPT_NOW);
              Some (ctx, - 5)
            }
          else do {
            ctx \<leftarrow> (if tcb_state (tcb_of ctx p) = TCPS_TIME_WAIT then usnet_add_timewait_list ctx p else Some ctx);
            ctx \<leftarrow> usnet_add_control_list ctx p;
            Some (ctx, - 5)
          }
        else Some (ctx, 0)
      })"

section \<open>State handlers\<close>

definition set_state :: "nat \<Rightarrow> tcp_state \<Rightarrow> usn_context \<Rightarrow> usn_context" where
  "set_state p st = upd_tcb p (\<lambda>t. t\<lparr>tcb_state := st\<rparr>)"

definition set_closed :: "nat \<Rightarrow> tcp_state \<Rightarrow> close_reason \<Rightarrow> usn_context \<Rightarrow> usn_context" where
  "set_closed p st why = upd_tcb p (\<lambda>t. t\<lparr>tcb_state := st, close_reason := why\<rparr>)"

definition usnet_handle_rst :: "usn_context \<Rightarrow> nat \<Rightarrow> u32 \<Rightarrow> (usn_context \<times> int) option" where
  "usnet_handle_rst ctx p ack_seq =
     (let st = tcb_state (tcb_of ctx p); s = snd_of ctx p in
      if st \<le> TCPS_SYN_SENT then Some (ctx, - 1)
      else if st = TCPS_SYN_RECEIVED then do {
        ctx \<leftarrow> (if ack_seq = rcv_nxt (tcb_of ctx p)
                then usnet_release_tcb (set_closed p TCPS_CLOSED TCP_RESET ctx) p else Some ctx);
        Some (ctx, 0)
      }
      else if st \<in> {TCPS_FIN_WAIT_1, TCPS_FIN_WAIT_2, TCPS_LAST_ACK, TCPS_CLOSING, TCPS_TIME_WAIT} then do {
        ctx \<leftarrow> usnet_release_tcb (set_closed p TCPS_CLOSED TCP_ACTIVE_CLOSE ctx) p;
        Some (ctx, 0)
      }
      else if \<not> (on_closeq s \<or> on_closeq_int s \<or> on_resetq s \<or> on_resetq_int s) then do {
        ctx \<leftarrow> usnet_raise_tcp_event (set_closed p TCPS_CLOSE_WAIT TCP_RESET ctx) p;
        Some (ctx, 0)
      }
      else Some (ctx, 0))"

definition usnet_handle_listen :: "usn_context \<Rightarrow> nat \<Rightarrow> usn_tcphdr \<Rightarrow> usn_context option" where
  "usnet_handle_listen ctx p tcph =
     (if th_flags tcph AND TH_SYN \<noteq> 0 then
        usnet_raise_connect_event (upd_tcb p (\<lambda>t. t\<lparr>tcb_state := TCPS_SYN_RECEIVED, rcv_nxt := rcv_nxt t + 1\<rparr>) ctx) p
      else Some ctx)"

definition usnet_handle_active_open :: "usn_context \<Rightarrow> nat \<Rightarrow> int" where
  "usnet_handle_active_open ctx p = 0"

text \<open>A segment without payload sent in answer to a segment of \<open>ip_src\<close>.\<close>

definition send_reply :: "usn_context \<Rightarrow> u32 \<Rightarrow> u32 \<Rightarrow> usn_tcphdr \<Rightarrow> u32 \<Rightarrow> u32 \<Rightarrow> u8 \<Rightarrow> usn_context option" where
  "send_reply ctx ip_src ip_dst tcph seq ack_seq flags = do {
     (ctx, ret) \<leftarrow> usnet_send_tcp_packet_alone ctx ip_dst (th_dport tcph) ip_src (th_sport tcph) seq ack_seq 0
       flags [] (of_int (cur_time ctx)) 0;
     Some ctx
   }"

definition usnet_handle_syn_sent ::
  "usn_context \<Rightarrow> nat \<Rightarrow> u32 \<Rightarrow> u32 \<Rightarrow> usn_tcphdr \<Rightarrow> u32 \<Rightarrow> u32 \<Rightarrow> nat \<Rightarrow> usn_context option" where
  "usnet_handle_syn_sent ctx p ip_src ip_dst tcph seq ack_seq payloadlen =
     (let fl = th_flags tcph in
      if fl AND TH_ACK \<noteq> 0 \<and> (TCP_SEQ_LEQ ack_seq (iss (snd_of ctx p)) \<or> TCP_SEQ_GT ack_seq (snd_nxt (tcb_of ctx p))) then
        (if fl AND TH_RST = 0 then send_reply ctx ip_src ip_dst tcph ack_seq 0 TH_RST else Some ctx)
      else
        let ctx = (if fl AND TH_ACK \<noteq> 0 then upd_snd p (\<lambda>s. s\<lparr>snd_una := snd_una s + 1\<rparr>) ctx else ctx) in
        if fl AND TH_RST \<noteq> 0 then
          if fl AND TH_ACK \<noteq> 0 then
            let ctx = set_closed p TCPS_CLOSE_WAIT TCP_RESET ctx in
            (if tcb_socket (tcb_of ctx p) \<noteq> None then usnet_raise_error_event ctx p else usnet_release_tcb ctx p)
          else Some ctx
        else if fl AND TH_SYN \<noteq> 0 then
          if fl AND TH_ACK \<noteq> 0 then
            if usnet_handle_active_open ctx p = 0 then Some ctx
            else do {
              let ctx = upd_snd p (\<lambda>s. s\<lparr>nrtx := 0\<rparr>) ctx;
              ctx \<leftarrow> usnet_remove_rto_list ctx p;
              let ctx = set_state p TCPS_ESTABLISHED ctx;
              ctx \<leftarrow> (if tcb_socket (tcb_of ctx p) \<noteq> None then usnet_raise_accept_event ctx p
                      else do {
                        ctx \<leftarrow> send_reply ctx ip_src ip_dst tcph 0 (seq + of_nat payloadlen + 1) (TH_RST OR TH_ACK);
                        usnet_release_tcb (upd_tcb p (\<lambda>t. t\<lparr>close_reason := TCP_ACTIVE_CLOSE\<rparr>) ctx) p
                      });
              ctx \<leftarrow> usnet_add_control_list ctx p;
              if tcp_timeout ctx > 0 then usnet_add_timeout_list ctx p else Some ctx
            }
          else
            usnet_add_control_list
              (upd_tcb p (\<lambda>t. t\<lparr>tcb_state := TCPS_SYN_RECEIVED, snd_nxt := iss (sndvar t)\<rparr>) ctx) p
        else Some ctx)"

definition usnet_handle_syn_received :: "usn_context \<Rightarrow> nat \<Rightarrow> usn_tcphdr \<Rightarrow> u32 \<Rightarrow> usn_context option" where
  "usnet_handle_syn_received ctx p tcph ack_seq =
     (if th_flags tcph AND TH_ACK \<noteq> 0 then
        if ack_seq \<noteq> iss (snd_of ctx p) + 1 then Some ctx
        else do {
          let ctx = upd_snd p (\<lambda>s. s\<lparr>snd_una := snd_una s + 1\<rparr>) ctx;
          let ctx = upd_tcb p (\<lambda>t. t\<lparr>snd_nxt := ack_seq\<rparr>) ctx;
          let ctx = upd_snd p (\<lambda>s. s\<lparr>cwnd := (if cwnd s = 1 then ucast (mss s) * 2 else ucast (mss s)), nrtx := 0\<rparr>) ctx;
          ctx \<leftarrow> usnet_remove_rto_list ctx p;
          let ctx = set_state p TCPS_ESTABLISHED ctx;
          if tcp_timeout ctx > 0 then usnet_add_timeout_list ctx p else Some ctx
        }
      else usnet_add_control_list (upd_tcb p (\<lambda>t. t\<lparr>snd_nxt := iss (sndvar t)\<rparr>) ctx) p)"

text \<open>The common part of the handlers: process the acknowledgement when there is a send buffer.\<close>

definition ack_if_sndbuf ::
  "usn_context \<Rightarrow> nat \<Rightarrow> usn_tcphdr \<Rightarrow> u32 \<Rightarrow> u32 \<Rightarrow> u16 \<Rightarrow> int \<Rightarrow> usn_context option" where
  "ack_if_sndbuf ctx p tcph seq ack_seq window payloadlen =
     (if sndbuf (snd_of ctx p) \<noteq> None then do {
        (ctx, ret) \<leftarrow> usnet_process_ack ctx p tcph seq ack_seq window payloadlen;
        Some ctx
      } else Some ctx)"

definition usnet_handle_established ::
  "usn_context \<Rightarrow> nat \<Rightarrow> usn_tcphdr \<Rightarrow> u32 \<Rightarrow> u32 \<Rightarrow> byte list \<Rightarrow> u16 \<Rightarrow> usn_context option" where
  "usnet_handle_established ctx p tcph seq ack_seq payload window =
     (if th_flags tcph AND TH_SYN \<noteq> 0 then
        usnet_add_control_list (upd_tcb p (\<lambda>t. t\<lparr>snd_nxt := ack_seq\<rparr>) ctx) p
      else do {
        ctx \<leftarrow> (if length payload > 0 then do {
                  (ctx, ret) \<leftarrow> usnet_process_tcp_payload ctx p payload seq;
                  usnet_enqueue_ack ctx p (if ret = 0 then ACK_OPT_AGGREGATE else ACK_OPT_NOW)
                } else Some ctx);
        ctx \<leftarrow> (if th_flags tcph AND TH_ACK \<noteq> 0
                then ack_if_sndbuf ctx p tcph seq ack_seq window (int (length payload)) else Some ctx);
        if th_flags tcph AND TH_FIN \<noteq> 0 then
          if seq = rcv_nxt (tcb_of ctx p) then do {
            ctx \<leftarrow> usnet_add_control_list
              (upd_tcb p (\<lambda>t. t\<lparr>tcb_state := TCPS_CLOSE_WAIT, rcv_nxt := rcv_nxt t + 1\<rparr>) ctx) p;
            usnet_raise_tcp_event ctx p
          }
          else usnet_enqueue_ack ctx p ACK_OPT_NOW
        else Some ctx
      })"

definition usnet_handle_close_wait ::
  "usn_context \<Rightarrow> nat \<Rightarrow> usn_tcphdr \<Rightarrow> u32 \<Rightarrow> u32 \<Rightarrow> nat \<Rightarrow> u16 \<Rightarrow> usn_context option" where
  "usnet_handle_close_wait ctx p tcph seq ack_seq payloadlen window =
     (if TCP_SEQ_LT seq (rcv_nxt (tcb_of ctx p)) then usnet_add_control_list ctx p
      else ack_if_sndbuf ctx p tcph seq ack_seq window (int payloadlen))"

text \<open>Payload in the two FIN-WAIT states; the choice of the acknowledgement is the reverse of the one
  made in the established state.\<close>

definition fin_wait_payload :: "usn_context \<Rightarrow> nat \<Rightarrow> byte list \<Rightarrow> u32 \<Rightarrow> usn_context option" where
  "fin_wait_payload ctx p payload seq =
     (if length payload > 0 then do {
        (ctx, ret) \<leftarrow> usnet_process_tcp_payload ctx p payload seq;
        usnet_enqueue_ack ctx p (if ret \<noteq> 0 then ACK_OPT_AGGREGATE else ACK_OPT_NOW)
      } else Some ctx)"

definition usnet_handle_fin_wait1 ::
  "usn_context \<Rightarrow> nat \<Rightarrow> usn_tcphdr \<Rightarrow> u32 \<Rightarrow> u32 \<Rightarrow> byte list \<Rightarrow> u16 \<Rightarrow> usn_context option" where
  "usnet_handle_fin_wait1 ctx p tcph seq ack_seq payload window =
     (if TCP_SEQ_LT seq (rcv_nxt (tcb_of ctx p)) then usnet_add_control_list ctx p
      else if th_flags tcph AND TH_ACK = 0 then Some ctx
      else do {
        ctx \<leftarrow> ack_if_sndbuf ctx p tcph seq ack_seq window (int (length payload));
        ctx \<leftarrow> (if is_fin_sent (snd_of ctx p) \<and> ack_seq = fss (snd_of ctx p) + 1 then do {
                  let ctx = upd_snd p (\<lambda>s. s\<lparr>snd_una := ack_seq\<rparr>) ctx;
                  let ctx = (if TCP_SEQ_GT ack_seq (snd_nxt (tcb_of ctx p))
                             then upd_tcb p (\<lambda>t. t\<lparr>snd_nxt := ack_seq\<rparr>) ctx else ctx);
                  let ctx = upd_snd p (\<lambda>s. s\<lparr>nrtx := 0\<rparr>) ctx;
                  ctx \<leftarrow> usnet_remove_rto_list ctx p;
                  Some (set_state p TCPS_FIN_WAIT_2 ctx)
                } else Some ctx);
        ctx \<leftarrow> fin_wait_payload ctx p payload seq;
        if th_flags tcph AND TH_FIN \<noteq> 0 \<and> seq = rcv_nxt (tcb_of ctx p) then do {
          let ctx = upd_tcb p (\<lambda>t. t\<lparr>rcv_nxt := rcv_nxt t + 1\<rparr>) ctx;
          ctx \<leftarrow> (if tcb_state (tcb_of ctx p) = TCPS_FIN_WAIT_1 then Some (set_state p TCPS_CLOSING ctx)
                  else if tcb_state (tcb_of ctx p) = TCPS_FIN_WAIT_2
                  then usnet_add_timewait_list (set_state p TCPS_TIME_WAIT ctx) p
                  else Some ctx);
          usnet_add_control_list ctx p
        }
        else Some ctx
      })"

definition usnet_handle_closing ::
  "usn_context \<Rightarrow> nat \<Rightarrow> usn_tcphdr \<Rightarrow> u32 \<Rightarrow> u32 \<Rightarrow> nat \<Rightarrow> u16 \<Rightarrow> usn_context option" where
  "usnet_handle_closing ctx p tcph seq ack_seq payloadlen window =
     (if th_flags tcph AND TH_ACK = 0 then Some ctx
      else do {
        ctx \<leftarrow> ack_if_sndbuf ctx p tcph seq ack_seq window (int payloadlen);
        if \<not> is_fin_sent (snd_of ctx p) then Some ctx
        else if ack_seq \<noteq> fss (snd_of ctx p) + 1 then Some ctx
        else do {
          let ctx = upd_snd p (\<lambda>s. s\<lparr>snd_una := ack_seq\<rparr>) ctx;
          let ctx = upd_tcb p (\<lambda>t. t\<lparr>snd_nxt := ack_seq\<rparr>) ctx;
          ctx \<leftarrow> usnet_update_retransmission_timer ctx p;
          usnet_add_timewait_list (set_state p TCPS_TIME_WAIT ctx) p
        }
      })"

definition usnet_handle_last_ack ::
  "usn_context \<Rightarrow> nat \<Rightarrow> usn_tcphdr \<Rightarrow> u32 \<Rightarrow> u32 \<Rightarrow> nat \<Rightarrow> u16 \<Rightarrow> usn_context option" where
  "usnet_handle_last_ack ctx p tcph seq ack_seq payloadlen window =
     (if TCP_SEQ_LT seq (rcv_nxt (tcb_of ctx p)) then Some ctx
      else if th_flags tcph AND TH_ACK = 0 then usnet_add_control_list ctx p
      else do {
        ctx \<leftarrow> ack_if_sndbuf ctx p tcph seq ack_seq window (int payloadlen);
        if \<not> is_fin_sent (snd_of ctx p) then Some ctx
        else if ack_seq = fss (snd_of ctx p) + 1 then do {
          let ctx = upd_snd p (\<lambda>s. s\<lparr>snd_una := snd_una s + 1\<rparr>) ctx;
          ctx \<leftarrow> usnet_update_retransmission_timer ctx p;
          usnet_release_tcb (set_closed p TCPS_CLOSED TCP_PASSIVE_CLOSE ctx) p
        }
        else usnet_add_control_list ctx p
      })"

definition usnet_handle_fin_wait2 ::
  "usn_context \<Rightarrow> nat \<Rightarrow> usn_tcphdr \<Rightarrow> u32 \<Rightarrow> u32 \<Rightarrow> byte list \<Rightarrow> u16 \<Rightarrow> usn_context option" where
  "usnet_handle_fin_wait2 ctx p tcph seq ack_seq payload window =
     (if th_flags tcph AND TH_ACK = 0 then Some ctx
      else do {
        ctx \<leftarrow> ack_if_sndbuf ctx p tcph seq ack_seq window (int (length payload));
        ctx \<leftarrow> fin_wait_payload ctx p payload seq;
        if th_flags tcph AND TH_FIN \<noteq> 0 \<and> seq = rcv_nxt (tcb_of ctx p) then do {
          let ctx = upd_tcb p (\<lambda>t. t\<lparr>tcb_state := TCPS_TIME_WAIT, rcv_nxt := rcv_nxt t + 1\<rparr>) ctx;
          ctx \<leftarrow> usnet_add_timewait_list ctx p;
          usnet_add_control_list ctx p
        }
        else Some ctx
      })"

definition usnet_handle_time_wait :: "usn_context \<Rightarrow> nat \<Rightarrow> usn_context option" where
  "usnet_handle_time_wait ctx p = do {
     ctx \<leftarrow> (if on_timewait_list (tcb_of ctx p) then do {
               ctx \<leftarrow> usnet_remove_timewait_list ctx p;
               usnet_add_timewait_list ctx p
             } else Some ctx);
     usnet_add_control_list ctx p
   }"

section \<open>Passive opening\<close>

definition usnet_handle_syn_pkt :: "usn_context \<Rightarrow> u32 \<Rightarrow> u16 \<Rightarrow> bool" where
  "usnet_handle_syn_pkt ctx ip port =
     (case listen_tcb ctx of
        None \<Rightarrow> False
      | Some l \<Rightarrow> ip = saddr (tcb_of ctx l) \<and> port = sport (tcb_of ctx l))"

definition usnet_handle_passive_open ::
  "usn_context \<Rightarrow> u32 \<Rightarrow> u32 \<Rightarrow> usn_tcphdr \<Rightarrow> u32 \<Rightarrow> u32 \<Rightarrow> nat \<Rightarrow> u16 \<Rightarrow> (usn_context \<times> nat option) option" where
  "usnet_handle_passive_open ctx ip_src ip_dst tcph seq ack_seq payloadlen window =
     (let reply = (\<lambda>ctx seq ack_seq flags. do {
            ctx \<leftarrow> send_reply ctx ip_src ip_dst tcph seq ack_seq flags;
            Some (ctx, None) })
      in if th_flags tcph AND (TH_SYN OR TH_ACK) = TH_SYN then
           if \<not> usnet_handle_syn_pkt ctx ip_dst (th_dport tcph) then
             reply ctx 0 (seq + of_nat payloadlen + 1) (TH_RST OR TH_ACK)
           else do {
             (ctx, r) \<leftarrow> usnet_create_tcb ctx ip_src ip_dst tcph seq window;
             case r of
               None \<Rightarrow> reply ctx 0 (seq + of_nat payloadlen + 1) (TH_RST OR TH_ACK)
             | Some p \<Rightarrow> Some (ctx, Some p)
           }
         else if th_flags tcph AND TH_RST \<noteq> 0 then Some (ctx, None)
         else if th_flags tcph AND TH_ACK \<noteq> 0 then reply ctx ack_seq 0 TH_RST
         else reply ctx 0 (seq + of_nat payloadlen) (TH_RST OR TH_ACK))"

section \<open>Input\<close>

text \<open>The dispatch on the connection's state at the end of \<^verbatim>\<open>usnet_tcp_input\<close>.\<close>

definition tcp_dispatch ::
  "usn_context \<Rightarrow> nat \<Rightarrow> u32 \<Rightarrow> u32 \<Rightarrow> usn_tcphdr \<Rightarrow> u32 \<Rightarrow> u32 \<Rightarrow> byte list \<Rightarrow> u16 \<Rightarrow> usn_context option" where
  "tcp_dispatch ctx p ip_src ip_dst tcph seq ack_seq payload window =
     (case tcb_state (tcb_of ctx p) of
        TCPS_LISTEN \<Rightarrow> usnet_handle_listen ctx p tcph
      | TCPS_SYN_SENT \<Rightarrow> usnet_handle_syn_sent ctx p ip_src ip_dst tcph seq ack_seq (length payload)
      | TCPS_SYN_RECEIVED \<Rightarrow> usnet_handle_syn_received ctx p tcph ack_seq
      | TCPS_ESTABLISHED \<Rightarrow> usnet_handle_established ctx p tcph seq ack_seq payload window
      | TCPS_CLOSE_WAIT \<Rightarrow> usnet_handle_close_wait ctx p tcph seq ack_seq (length payload) window
      | TCPS_FIN_WAIT_1 \<Rightarrow> usnet_handle_fin_wait1 ctx p tcph seq ack_seq payload window
      | TCPS_CLOSING \<Rightarrow> usnet_handle_closing ctx p tcph seq ack_seq (length payload) window
      | TCPS_LAST_ACK \<Rightarrow> usnet_handle_last_ack ctx p tcph seq ack_seq (length payload) window
      | TCPS_FIN_WAIT_2 \<Rightarrow> usnet_handle_fin_wait2 ctx p tcph seq ack_seq payload window
      | TCPS_TIME_WAIT \<Rightarrow> usnet_handle_time_wait ctx p
      | TCPS_CLOSED \<Rightarrow> Some ctx)"

text \<open>What \<^verbatim>\<open>usnet_tcp_input\<close> does with a segment once its connection is known.\<close>

definition tcp_segment ::
  "usn_context \<Rightarrow> nat \<Rightarrow> u32 \<Rightarrow> u32 \<Rightarrow> usn_tcphdr \<Rightarrow> byte list \<Rightarrow> (usn_context \<times> int) option" where
  "tcp_segment ctx p ip_src ip_dst tcph payload = do {
     let seq = htonl (th_seq tcph);
     let ack_seq = htonl (th_ack tcph);
     let window = htons (th_win tcph);
     (ctx, ret) \<leftarrow> (if tcb_state (tcb_of ctx p) \<ge> TCPS_SYN_RECEIVED
                    then usnet_validate_seq ctx p tcph seq (length payload) else Some (ctx, 0));
     if ret < 0 then Some (ctx, - 3)
     else if sndvar_at (tcb_of ctx p) = None then None
     else do {
       let ctx = upd_snd p (\<lambda>s. s\<lparr>peer_wnd := (if th_flags tcph AND TH_SYN \<noteq> 0 then ucast window
                                             else shl32 (ucast window) (wscale s))\<rparr>) ctx;
       let ctx = upd_tcb p (\<lambda>t. t\<lparr>last_active_ts := of_int (cur_time ctx)\<rparr>) ctx;
       ctx \<leftarrow> usnet_update_timerlist ctx p;
       (ctx, stop) \<leftarrow> (if th_flags tcph AND TH_RST \<noteq> 0 then do {
           let ctx = upd_tcb p (\<lambda>t. t\<lparr>have_reset := True\<rparr>) ctx;
           if tcb_state (tcb_of ctx p) > TCPS_SYN_SENT then do {
             (ctx, r) \<leftarrow> usnet_handle_rst ctx p ack_seq;
             Some (ctx, r \<noteq> 0)
           } else Some (ctx, False)
         } else Some (ctx, False));
       if stop then Some (ctx, 0)
       else do {
         ctx \<leftarrow> tcp_dispatch ctx p ip_src ip_dst tcph seq ack_seq payload window;
         Some (ctx, 0)
       }
     }
   }"

text \<open>\<^verbatim>\<open>usnet_tcp_input\<close>; \<open>m\<close> is the receive buffer, \<open>iph\<close> the offset of the IP header in it and \<open>hl\<close> the
  header-length field as a signed number (the field is a signed bit field).\<close>

definition usnet_tcp_input ::
  "usn_context \<Rightarrow> byte list \<Rightarrow> nat \<Rightarrow> int \<Rightarrow> int \<Rightarrow> u32 \<Rightarrow> u32 \<Rightarrow> (usn_context \<times> int) option" where
  "usnet_tcp_input ctx m iph hl iplen ip_src ip_dst = do {
     let at = int iph + 4 * hl;
     if at < 0 then None
     else do {
       tcph \<leftarrow> read_tcphdr (drop (nat at) m);
       let off = 4 * th_off tcph;
       let payloadlen = iplen - 4 * hl - int off;
       if payloadlen < 0 then Some (ctx, - 1)
       else do {
         seg \<leftarrow> mem_read 0 (off + nat payloadlen) (th_mem tcph);
         if tcp_cksum seg ip_src ip_dst \<noteq> 0 then Some (ctx, - 2)
         else do {
           let payload = drop off seg;
           let key = zero_tcb\<lparr>saddr := ip_dst, sport := th_dport tcph, daddr := ip_src, dport := th_sport tcph\<rparr>;
           (ctx, r) \<leftarrow> (case usnet_cache_search (tcb_cache ctx) key of
               Some p \<Rightarrow> Some (ctx, Some p)
             | None \<Rightarrow> usnet_handle_passive_open ctx ip_src ip_dst tcph (htonl (th_seq tcph)) (htonl (th_ack tcph))
                 (length payload) (htons (th_win tcph)));
           case r of
             None \<Rightarrow> Some (ctx, 0)
           | Some p \<Rightarrow> tcp_segment ctx p ip_src ip_dst tcph payload
         }
       }
     }
   }"

end
