(* ===== verification/Net_In.thy ===== *)
theory Net_In
  imports Tcp_In
begin

text \<open>
  The way up from the wire: Ethernet and ARP input, IP input and its protocols (\<^verbatim>\<open>eth.c\<close>, \<^verbatim>\<open>arp.c\<close>, \<^verbatim>\<open>ip.c\<close>,
  \<^verbatim>\<open>ip_icmp.c\<close>, \<^verbatim>\<open>udp.c\<close>). A frame is the memory of its receive buffer; reading behind the buffer has no
  result. The length of the frame is not checked by the source against the lengths in its headers.
\<close>

section \<open>ICMP checksums\<close>

text \<open>\<^verbatim>\<open>cksum\<close>; an odd last byte is left out, since the test for it repeats the condition of the loop.\<close>

fun cksum_sum :: "byte list \<Rightarrow> u32" where
  "cksum_sum (a # b # bs) = ucast (ld16 [a, b]) + cksum_sum bs"
| "cksum_sum _ = 0"

function cksum_fold :: "u32 \<Rightarrow> u32" where
  "cksum_fold s = (if drop_bit 16 s \<noteq> 0 then cksum_fold ((s AND 0xFFFF) + drop_bit 16 s) else s)"
  by auto

lemma cksum_fold_less:
  assumes "drop_bit 16 (s :: u32) \<noteq> 0"
  shows "unat ((s AND 0xFFFF) + drop_bit 16 s) < unat s"
proof -
  have d: "unat (drop_bit 16 s) = unat s div 65536" by (rule unat_drop16)
  have e: "unat (s AND 0xFFFF) = unat s mod 65536" by (rule unat_and_ffff)
  have pos: "0 < unat s div 65536" using assms d by (metis unat_gt_0)
  have "unat ((s AND 0xFFFF) + drop_bit 16 s) \<le> unat (s AND 0xFFFF) + unat (drop_bit 16 s)"
    by (simp add: unat_plus_if')
  also have "\<dots> = unat s mod 65536 + unat s div 65536" using d e by simp
  also have "\<dots> < unat s mod 65536 + 65536 * (unat s div 65536)" using pos by linarith
  finally show ?thesis by simp
qed

termination cksum_fold
  by (relation "measure unat") (auto intro: cksum_fold_less)

definition cksum :: "byte list \<Rightarrow> u16" where
  "cksum buf = ucast (NOT (cksum_fold (cksum_sum buf)))"

text \<open>\<^verbatim>\<open>in_cksum\<close> adds 16-bit words as signed numbers; \<^verbatim>\<open>ADDCARRY\<close> folds when the high half of the 32-bit sum is
  not zero. For an odd length the word that is added last has only its second byte set; its first byte
  is indeterminate on an aligned buffer (\<open>u0\<close>).\<close>

definition ADDCARRY :: "u32 \<Rightarrow> u32" where
  "ADDCARRY s = (if s AND 0xFFFF0000 \<noteq> 0 then (s AND 0xFFFF) + 1 else s)"

fun in_cksum_sum :: "u8 \<Rightarrow> byte list \<Rightarrow> u32 \<Rightarrow> u32" where
  "in_cksum_sum u0 (a # b # bs) s = in_cksum_sum u0 bs (ADDCARRY (s + scast (ld16 [a, b])))"
| "in_cksum_sum u0 [a] s = ADDCARRY (s + scast (ld16 [u0, 0]))"
| "in_cksum_sum u0 [] s = s"

definition in_cksum :: "u8 \<Rightarrow> byte list \<Rightarrow> u16" where
  "in_cksum u0 buf = ucast (NOT (in_cksum_sum u0 buf 0) AND 0xFFFF)"

section \<open>IP headers\<close>

record usn_iphdr =
  ip_hl :: int
  ip_v :: nat
  ip_len :: u16
  ip_ident :: u16
  ip_p :: u8
  ip_src :: u32
  ip_dst :: u32

definition nibble_signed :: "u8 \<Rightarrow> int" where
  "nibble_signed b = (let n = int (unat (b AND 15)) in if n < 8 then n else n - 16)"

definition read_iphdr :: "byte list \<Rightarrow> usn_iphdr option" where
  "read_iphdr m =
     (if length m < 34 then None
      else let h = drop 14 m in
        Some \<lparr>ip_hl = nibble_signed (h ! 0), ip_v = unat (drop_bit 4 (h ! 0)), ip_len = htons (ld16 (drop 2 h)),
              ip_ident = ld16 (drop 4 h), ip_p = h ! 9, ip_src = ld32 (drop 12 h), ip_dst = ld32 (drop 16 h)\<rparr>)"

text \<open>\<open>n\<close> bytes from the end of the IP header on.\<close>

definition ip_body :: "byte list \<Rightarrow> usn_iphdr \<Rightarrow> int \<Rightarrow> byte list option" where
  "ip_body m iph n = (if 14 + 4 * ip_hl iph < 0 \<or> n < 0 then None else mem_read (nat (14 + 4 * ip_hl iph)) (nat n) m)"

section \<open>ICMP and UDP\<close>

definition usnet_icmp_reflect ::
  "usn_context \<Rightarrow> u8 \<Rightarrow> byte list \<Rightarrow> usn_iphdr \<Rightarrow> int \<Rightarrow> (usn_context \<times> int) option" where
  "usnet_icmp_reflect ctx u0 m iph icmplen = do {
     icmp \<leftarrow> ip_body m iph icmplen;
     let icmp = [0] @ take 1 (drop 1 icmp) @ le16 0 @ drop 4 icmp;
     let icmp = take 2 icmp @ le16 (in_cksum u0 icmp) @ drop 4 icmp;
     (ctx, hdr) \<leftarrow> usnet_ipv4_output_alone ctx (ip_ident iph) 1 (ip_dst iph) (ip_src iph) (nat icmplen);
     case hdr of
       None \<Rightarrow> Some (ctx, 0)
     | Some below \<Rightarrow> do {
         ctx \<leftarrow> usnet_send_data ctx (below @ icmp);
         Some (ctx, 0)
       }
   }"

definition usnet_icmp_input ::
  "usn_context \<Rightarrow> u8 \<Rightarrow> byte list \<Rightarrow> usn_iphdr \<Rightarrow> int \<Rightarrow> (usn_context \<times> int) option" where
  "usnet_icmp_input ctx u0 m iph iplen = do {
     let icmplen = iplen - 4 * ip_hl iph;
     if icmplen < 8 then Some (ctx, - 1)
     else do {
       icmp \<leftarrow> ip_body m iph icmplen;
       if cksum icmp \<noteq> 0 then Some (ctx, - 2)
       else if icmp ! 0 \<noteq> 8 then Some (ctx, - 3)
       else do {
         (ctx, ret) \<leftarrow> usnet_icmp_reflect ctx u0 m iph icmplen;
         Some (ctx, 0)
       }
     }
   }"

text \<open>\<^verbatim>\<open>usnet_udp_input\<close> returns every datagram to its sender. The eight header bytes are rewritten whatever the
  length is; a negative length makes \<^verbatim>\<open>memcpy\<close> run out of the buffer.\<close>

definition usnet_udp_input :: "usn_context \<Rightarrow> byte list \<Rightarrow> usn_iphdr \<Rightarrow> int \<Rightarrow> (usn_context \<times> int) option" where
  "usnet_udp_input ctx m iph iplen = do {
     let udplen = iplen - 4 * ip_hl iph;
     (ctx, hdr) \<leftarrow> usnet_ipv4_output_alone ctx (ip_ident iph) 17 (ip_dst iph) (ip_src iph) (nat udplen);
     case hdr of
       None \<Rightarrow> Some (ctx, - 1)
     | Some below \<Rightarrow>
         if udplen < 0 then None
         else do {
           udp \<leftarrow> ip_body m iph (max 8 udplen);
           let udp = take 2 (drop 2 udp) @ take 2 udp @ take 2 (drop 4 udp) @ le16 0 @ drop 8 udp;
           let sm = udp_cksum (take (nat udplen) udp) (ip_dst iph) (ip_src iph);
           let udp = take 6 udp @ le16 sm @ drop 8 udp;
           ctx \<leftarrow> usnet_send_data ctx (below @ take (nat udplen) udp);
           Some (ctx, 0)
         }
   }"

section \<open>IP input\<close>

text \<open>A header-length field of 8 or more is a negative number, and the checksum loop runs out of the
  buffer.\<close>

definition usnet_ipv4_input :: "usn_context \<Rightarrow> u8 \<Rightarrow> byte list \<Rightarrow> (usn_context \<times> int) option" where
  "usnet_ipv4_input ctx u0 m = do {
     iph \<leftarrow> read_iphdr m;
     let iplen = int (unat (ip_len iph));
     if iplen < 20 then Some (ctx, - 1)
     else if ip_hl iph < 0 then None
     else do {
       hdr \<leftarrow> mem_read 14 (4 * max 1 (nat (ip_hl iph))) m;
       if ip_fast_csum hdr (nat (ip_hl iph)) \<noteq> 0 then Some (ctx, - 2)
       else if ip_v iph \<noteq> 4 then Some (ctx, - 3)
       else if ip_p iph = 6 then usnet_tcp_input ctx m 14 (ip_hl iph) iplen (ip_src iph) (ip_dst iph)
       else if ip_p iph = 17 then usnet_udp_input ctx m iph iplen
       else if ip_p iph = 1 then usnet_icmp_input ctx u0 m iph iplen
       else Some (ctx, 0)
     }
   }"

section \<open>ARP input\<close>

record usn_arphdr =
  ar_op :: u16
  ar_sha :: "byte list"
  ar_spa :: u32
  ar_tpa :: u32

definition read_arphdr :: "byte list \<Rightarrow> usn_arphdr option" where
  "read_arphdr m =
     (if length m < 42 then None
      else let h = drop 14 m in
        Some \<lparr>ar_op = htons (ld16 (drop 6 h)), ar_sha = take 6 (drop 8 h), ar_spa = ld32 (drop 14 h),
              ar_tpa = ld32 (drop 24 h)\<rparr>)"

definition usnet_arp_req_handler :: "usn_context \<Rightarrow> usn_arphdr \<Rightarrow> usn_context option" where
  "usnet_arp_req_handler ctx arph = do {
     ctx \<leftarrow> (if usnet_get_arp ctx (ar_spa arph) = None then usnet_register_arp ctx (ar_spa arph) (ar_sha arph) else Some ctx);
     usnet_arp_output ctx 2 (ar_spa arph) (ar_sha arph)
   }"

definition usnet_arp_reply_handler :: "usn_context \<Rightarrow> usn_arphdr \<Rightarrow> usn_context option" where
  "usnet_arp_reply_handler ctx arph =
     (if usnet_get_arp ctx (ar_spa arph) = None then usnet_register_arp ctx (ar_spa arph) (ar_sha arph) else Some ctx)"

definition usnet_arp_input :: "usn_context \<Rightarrow> byte list \<Rightarrow> (usn_context \<times> int) option" where
  "usnet_arp_input ctx m = do {
     arph \<leftarrow> read_arphdr m;
     if ar_tpa arph \<noteq> if_addr ctx then Some (ctx, - 1)
     else do {
       ctx \<leftarrow> (if ar_op arph = 1 then usnet_arp_req_handler ctx arph
               else if ar_op arph = 2 then usnet_arp_reply_handler ctx arph
               else Some ctx);
       Some (ctx, 0)
     }
   }"

section \<open>Frames\<close>

definition usnet_eth_input :: "usn_context \<Rightarrow> u8 \<Rightarrow> byte list \<Rightarrow> usn_context option" where
  "usnet_eth_input ctx u0 m =
     (if length m < 14 then None
      else
        let type = htons (ld16 (drop 12 m)) in
        if type = 0x0800 then map_option fst (usnet_ipv4_input ctx u0 m)
        else if type = 0x0806 then map_option fst (usnet_arp_input ctx m)
        else Some ctx)"

text \<open>\<^verbatim>\<open>usnet_recv_frame\<close> over the filled slots of a receive ring, at most \<open>limit\<close> of them.\<close>

fun usnet_recv_frame :: "usn_context \<Rightarrow> u8 \<Rightarrow> byte list list \<Rightarrow> nat \<Rightarrow> usn_context option" where
  "usnet_recv_frame ctx u0 (m # ring) (Suc limit) = do {
     ctx \<leftarrow> usnet_eth_input ctx u0 m;
     usnet_recv_frame ctx u0 ring limit
   }"
| "usnet_recv_frame ctx u0 _ _ = Some ctx"

end
