(* ===== verification/Timer.thy ===== *)
theory Timer
  imports Tcp_Events
begin

text \<open>
  Expiry of timers (\<^verbatim>\<open>timer.c\<close>): retransmission timeouts with back-off, the end of the timewait period and
  idle connections. The lists are walked with a saved successor; since a handler changes only the
  connection it is called for, the walk visits the elements the list had at the start.
\<close>

section \<open>Retransmission timeouts\<close>

definition closed_with :: "nat \<Rightarrow> close_reason \<Rightarrow> usn_context \<Rightarrow> usn_context" where
  "closed_with p why = upd_tcb p (\<lambda>t. t\<lparr>tcb_state := TCPS_CLOSED, close_reason := why\<rparr>)"

definition error_or_release :: "usn_context \<Rightarrow> nat \<Rightarrow> usn_context option" where
  "error_or_release ctx p =
     (if tcb_socket (tcb_of ctx p) \<noteq> None then usnet_raise_error_event ctx p else usnet_release_tcb ctx p)"

text \<open>The new timeout, back-off and congestion variables.\<close>

definition rto_backoff :: "usn_tcb \<Rightarrow> usn_tcb" where
  "rto_backoff t =
     (if tcb_state t \<ge> TCPS_ESTABLISHED then
        let backoff = min (nrtx (sndvar t)) 7;
            r = push_bit (unat backoff) (drop_bit 3 (srtt (rcvvar t)) + rttvar (rcvvar t))
        in (if r = 0 then t else t\<lparr>sndvar := (sndvar t)\<lparr>rto := r\<rparr>\<rparr>)
      else t)"

definition rto_shrink :: "usn_sndvars \<Rightarrow> usn_sndvars" where
  "rto_shrink s =
     (let th = min (cwnd s) (peer_wnd s) div 2
      in s\<lparr>ssthresh := (if th < 2 * ucast (mss s) then ucast (mss s) * 2 else th), cwnd := ucast (mss s)\<rparr>)"

text \<open>What is queued again: data, or a control segment.\<close>

definition rto_requeue :: "usn_context \<Rightarrow> nat \<Rightarrow> usn_context option" where
  "rto_requeue ctx p =
     (let ctx = upd_tcb p (\<lambda>t. t\<lparr>snd_nxt := snd_una (sndvar t)\<rparr>) ctx; st = tcb_state (tcb_of ctx p) in
      if st \<in> {TCPS_ESTABLISHED, TCPS_CLOSE_WAIT} then usnet_add_send_list ctx p
      else if st \<in> {TCPS_FIN_WAIT_1, TCPS_CLOSING, TCPS_LAST_ACK} then
        if TCP_SEQ_LT (snd_nxt (tcb_of ctx p)) (fss (snd_of ctx p)) then do {
          ctx \<leftarrow> (if on_control_list (snd_of ctx p) then usnet_remove_control_list ctx p else Some ctx);
          usnet_add_send_list (upd_tcb p (\<lambda>t. t\<lparr>control_list_waiting := True\<rparr>) ctx) p
        }
        else usnet_add_control_list ctx p
      else usnet_add_control_list ctx p)"

definition usnet_handle_rto :: "usn_context \<Rightarrow> nat \<Rightarrow> (usn_context \<times> int) option" where
  "usnet_handle_rto ctx p =
     (if \<not> rto (snd_of ctx p) > 0 then None
      else if \<not> nrtx (snd_of ctx p) < 16 then do {
        ctx \<leftarrow> (if tcb_state (tcb_of ctx p) < TCPS_ESTABLISHED
                then usnet_release_tcb (closed_with p TCP_CONN_FAIL ctx) p
                else error_or_release (closed_with p TCP_CONN_LOST ctx) p);
        Some (ctx, - 1)
      }
      else do {
        let ctx = upd_snd p (\<lambda>s. s\<lparr>nrtx := nrtx s + 1\<rparr>) ctx;
        let ctx = upd_snd p (\<lambda>s. if nrtx s > max_nrtx s then s\<lparr>max_nrtx := nrtx s\<rparr> else s) ctx;
        let ctx = upd_tcb p rto_backoff ctx;
        let ctx = upd_snd p rto_shrink ctx;
        let st = tcb_state (tcb_of ctx p);
        if st = TCPS_SYN_SENT \<and> nrtx (snd_of ctx p) > 7 then do {
          ctx \<leftarrow> error_or_release (closed_with p TCP_CONN_FAIL ctx) p;
          Some (ctx, - 2)
        }
        else if st \<notin> {TCPS_SYN_SENT, TCPS_SYN_RECEIVED, TCPS_ESTABLISHED, TCPS_CLOSE_WAIT, TCPS_LAST_ACK,
                     TCPS_FIN_WAIT_1, TCPS_CLOSING} then do {
          ctx \<leftarrow> usnet_raise_error_event ctx p;
          ctx \<leftarrow> usnet_release_tcb ctx p;
          Some (ctx, - 3)
        }
        else do {
          ctx \<leftarrow> rto_requeue ctx p;
          Some (ctx, 0)
        }
      })"

section \<open>The timer wheel\<close>

text \<open>\<^verbatim>\<open>usnet_rearrange_rto_store\<close> moves far timers into the wheel; the difference is taken the other way round
  than when a timer is inserted.\<close>

fun rearrange_walk :: "usn_context \<Rightarrow> nat list \<Rightarrow> usn_context option" where
  "rearrange_walk ctx [] = Some ctx"
| "rearrange_walk ctx (walk # ws) =
     (let diff = sint (rto_now_ts ctx - ts_rto (snd_of ctx walk)) in
      if diff < int RTO_HASH then do {
        let offset = unat ((of_int diff + rto_now_idx ctx) mod of_nat RTO_HASH);
        l \<leftarrow> TAILQ_REMOVE walk (rto_list ctx RTO_HASH);
        let ctx = upd_tcb walk (\<lambda>t. t\<lparr>on_rto_idx := int offset\<rparr>) (ctx\<lparr>rto_list := (rto_list ctx)(RTO_HASH := l)\<rparr>);
        l \<leftarrow> TAILQ_INSERT_TAIL walk (rto_list ctx offset);
        rearrange_walk (ctx\<lparr>rto_list := (rto_list ctx)(offset := l)\<rparr>) ws
      }
      else rearrange_walk ctx ws)"

definition usnet_rearrange_rto_store :: "usn_context \<Rightarrow> usn_context option" where
  "usnet_rearrange_rto_store ctx = rearrange_walk ctx (rto_list ctx RTO_HASH)"

text \<open>One bucket: every connection in it has timed out. When \<^verbatim>\<open>usnet_handle_rto\<close> has released the connection it
  is off the list already; the second removal rewrites the same links and changes nothing, but the
  counter is decremented again.\<close>

fun rtm_walk :: "usn_context \<Rightarrow> nat \<Rightarrow> int \<Rightarrow> int \<Rightarrow> nat list \<Rightarrow> (usn_context \<times> int) option" where
  "rtm_walk ctx idx thresh cnt [] = Some (ctx, cnt)"
| "rtm_walk ctx idx thresh cnt (walk # ws) =
     (if cnt + 1 > thresh then Some (ctx, cnt + 1)
      else do {
        ctx \<leftarrow> (if on_rto_idx (tcb_of ctx walk) \<ge> 0 then do {
                  (ctx, ret) \<leftarrow> usnet_handle_rto ctx walk;
                  let ctx = ctx\<lparr>rto_list := (rto_list ctx)(idx := remove1 walk (rto_list ctx idx)),
                                rto_list_cnt := rto_list_cnt ctx - 1\<rparr>;
                  Some (upd_tcb walk (\<lambda>t. t\<lparr>on_rto_idx := - 1\<rparr>) ctx)
                } else Some ctx);
        rtm_walk ctx idx thresh (cnt + 1) ws
      })"

definition rtm_tick :: "usn_context \<Rightarrow> usn_context option" where
  "rtm_tick ctx =
     (let ctx = ctx\<lparr>rto_now_idx := (rto_now_idx ctx + 1) mod of_nat RTO_HASH, rto_now_ts := rto_now_ts ctx + 1\<rparr>
      in if rto_now_idx ctx mod 1000 = 0 then usnet_rearrange_rto_store ctx else Some ctx)"

partial_function (option) rtm_loop :: "usn_context \<Rightarrow> int \<Rightarrow> int \<Rightarrow> (usn_context \<times> int) option" where
  "rtm_loop ctx thresh cnt =
     (if sint (of_int (cur_time ctx) - rto_now_ts ctx) < 0 then Some (ctx, cnt)
      else Option.bind
        (rtm_walk ctx (unat (rto_now_idx ctx)) thresh cnt (rto_list ctx (unat (rto_now_idx ctx)))) (\<lambda>(ctx, cnt).
        if cnt > thresh then Some (ctx, cnt)
        else Option.bind (rtm_tick ctx) (\<lambda>ctx. rtm_loop ctx thresh cnt)))"

declare rtm_loop.simps [code]

definition usnet_check_rtm_timeout :: "usn_context \<Rightarrow> int \<Rightarrow> usn_context option" where
  "usnet_check_rtm_timeout ctx thresh =
     (if rto_list_cnt ctx = 0 then Some ctx else map_option fst (rtm_loop ctx thresh 0))"

section \<open>Timewait and idle connections\<close>

fun timewait_walk :: "usn_context \<Rightarrow> int \<Rightarrow> int \<Rightarrow> nat list \<Rightarrow> usn_context option" where
  "timewait_walk ctx thresh cnt [] = Some ctx"
| "timewait_walk ctx thresh cnt (walk # ws) =
     (if cnt + 1 > thresh then Some ctx
      else if on_timewait_list (tcb_of ctx walk) then
        if sint (of_int (cur_time ctx) - ts_tw_expire (rcv_of ctx walk)) \<ge> 0 then do {
          ctx \<leftarrow> (if \<not> on_control_list (snd_of ctx walk) then do {
                    l \<leftarrow> TAILQ_REMOVE walk (timewait_list ctx);
                    let ctx = upd_tcb walk (\<lambda>t. t\<lparr>on_timewait_list := False\<rparr>)
                      (ctx\<lparr>timewait_list := l, timewait_list_cnt := timewait_list_cnt ctx - 1\<rparr>);
                    usnet_release_tcb (closed_with walk TCP_ACTIVE_CLOSE ctx) walk
                  } else Some ctx);
          timewait_walk ctx thresh (cnt + 1) ws
        }
        else Some ctx
      else timewait_walk ctx thresh (cnt + 1) ws)"

definition usnet_check_timewait_expire :: "usn_context \<Rightarrow> int \<Rightarrow> usn_context option" where
  "usnet_check_timewait_expire ctx thresh = timewait_walk ctx thresh 0 (timewait_list ctx)"

fun timeout_walk :: "usn_context \<Rightarrow> int \<Rightarrow> int \<Rightarrow> nat list \<Rightarrow> usn_context option" where
  "timeout_walk ctx thresh cnt [] = Some ctx"
| "timeout_walk ctx thresh cnt (walk # ws) =
     (if cnt + 1 > thresh then Some ctx
      else if sint (of_int (cur_time ctx) - last_active_ts (tcb_of ctx walk)) \<ge> tcp_timeout ctx then do {
        let ctx = upd_tcb walk (\<lambda>t. t\<lparr>on_timeout_list := False\<rparr>) ctx;
        l \<leftarrow> TAILQ_REMOVE walk (timeout_list ctx);
        let ctx = ctx\<lparr>timeout_list := l, timeout_list_cnt := timeout_list_cnt ctx - 1\<rparr>;
        ctx \<leftarrow> error_or_release (closed_with walk TCP_TIMEDOUT ctx) walk;
        timeout_walk ctx thresh (cnt + 1) ws
      }
      else Some ctx)"

definition usnet_check_connection_timeout :: "usn_context \<Rightarrow> int \<Rightarrow> usn_context option" where
  "usnet_check_connection_timeout ctx thresh = timeout_walk ctx thresh 0 (timeout_list ctx)"

end
