(* ===== verification/Main_Loop.thy ===== *)
theory Main_Loop
  imports Net_In Timer Event_Handlers
begin

text \<open>
  The main loop of the network process (\<^verbatim>\<open>core.c\<close>): sending what the three send queues hold, and one pass of
  \<^verbatim>\<open>usnet_dispatch_net\<close>, which composes input, timers, sending and the events of the application. A queue is
  walked from its first to its last element at the start of the call, with a saved successor; elements
  behind the current one are not touched while it is processed, so the walk is over that list.
\<close>

section \<open>Control segments\<close>

fun control_walk :: "usn_context \<Rightarrow> int \<Rightarrow> int \<Rightarrow> nat list \<Rightarrow> (usn_context \<times> int) option" where
  "control_walk ctx thresh cnt [] = Some (ctx, cnt)"
| "control_walk ctx thresh cnt (cur # ws) =
     (if cnt + 1 > thresh then Some (ctx, cnt + 1)
      else do {
        l \<leftarrow> TAILQ_REMOVE cur (control_list ctx);
        let ctx = ctx\<lparr>control_list := l, control_list_cnt := control_list_cnt ctx - 1\<rparr>;
        if on_control_list (snd_of ctx cur) then do {
          (ctx, ret) \<leftarrow> usnet_send_control_packet (upd_snd cur (\<lambda>s. s\<lparr>on_control_list := False\<rparr>) ctx) cur;
          if ret < 0 then do {
            l \<leftarrow> TAILQ_INSERT_HEAD cur (control_list ctx);
            Some (upd_snd cur (\<lambda>s. s\<lparr>on_control_list := True\<rparr>)
                    (ctx\<lparr>control_list := l, control_list_cnt := control_list_cnt ctx + 1\<rparr>), cnt + 1)
          }
          else control_walk ctx thresh (cnt + 1) ws
        }
        else control_walk ctx thresh (cnt + 1) ws
      })"

definition usnet_send_tcp_control_list :: "usn_context \<Rightarrow> int \<Rightarrow> (usn_context \<times> int) option" where
  "usnet_send_tcp_control_list ctx thresh =
     control_walk ctx (min thresh (control_list_cnt ctx)) 0 (control_list ctx)"

section \<open>Acknowledgements\<close>

text \<open>The queued acknowledgements of one connection: a 6-bit counter, so the loop ends within 64 steps.\<close>

fun ack_burst :: "usn_context \<Rightarrow> nat \<Rightarrow> nat \<Rightarrow> usn_context option" where
  "ack_burst ctx p 0 = None"
| "ack_burst ctx p (Suc n) =
     (if ack_cnt (snd_of ctx p) > 0 then do {
        (ctx, ret) \<leftarrow> usnet_send_tcp_packet ctx p TH_ACK [];
        if ret < 0 then Some ctx
        else ack_burst (upd_snd p (\<lambda>s. s\<lparr>ack_cnt := ack_cnt s - 1\<rparr>) ctx) p n
      }
      else Some ctx)"

definition ack_window_probe :: "usn_context \<Rightarrow> nat \<Rightarrow> usn_context option" where
  "ack_window_probe ctx p =
     (if is_wack (snd_of ctx p) then do {
        (ctx, ret) \<leftarrow> usnet_send_tcp_packet (upd_snd p (\<lambda>s. s\<lparr>is_wack := False\<rparr>) ctx) p (TH_ACK OR TH_WACK) [];
        Some (if ret < 0 then upd_snd p (\<lambda>s. s\<lparr>is_wack := True\<rparr>) ctx else ctx)
      }
      else Some ctx)"

definition ack_unlink :: "usn_context \<Rightarrow> nat \<Rightarrow> usn_context option" where
  "ack_unlink ctx p = do {
     l \<leftarrow> TAILQ_REMOVE p (ack_list ctx);
     Some (ctx\<lparr>ack_list := l, ack_list_cnt := ack_list_cnt ctx - 1\<rparr>)
   }"

definition to_ack :: "usn_context \<Rightarrow> nat \<Rightarrow> bool" where
  "to_ack ctx p \<longleftrightarrow>
     tcb_state (tcb_of ctx p) \<in> {TCPS_ESTABLISHED, TCPS_CLOSE_WAIT, TCPS_FIN_WAIT_1, TCPS_FIN_WAIT_2, TCPS_TIME_WAIT} \<and>
     (case rcvbuf (rcv_of ctx p) of
        None \<Rightarrow> False
      | Some b \<Rightarrow> TCP_SEQ_LEQ (rcv_nxt (tcb_of ctx p)) (rb_head_seq (rb_of ctx b)))"

definition ack_one :: "usn_context \<Rightarrow> nat \<Rightarrow> usn_context option" where
  "ack_one ctx p =
     (if on_ack_list (snd_of ctx p) then do {
        ctx \<leftarrow> (if to_ack ctx p then do {
                  ctx \<leftarrow> ack_burst ctx p 64;
                  ctx \<leftarrow> ack_window_probe ctx p;
                  if \<not> (ack_cnt (snd_of ctx p) \<noteq> 0 \<or> is_wack (snd_of ctx p))
                  then ack_unlink (upd_snd p (\<lambda>s. s\<lparr>on_ack_list := False\<rparr>) ctx) p
                  else Some ctx
                }
                else ack_unlink (upd_snd p (\<lambda>s. s\<lparr>on_ack_list := False, ack_cnt := 0, is_wack := False\<rparr>) ctx) p);
        if control_list_waiting (tcb_of ctx p) \<and> \<not> on_send_list (snd_of ctx p)
        then usnet_add_control_list (upd_tcb p (\<lambda>t. t\<lparr>control_list_waiting := False\<rparr>) ctx) p
        else Some ctx
      }
      else ack_unlink ctx p)"

fun ack_walk :: "usn_context \<Rightarrow> int \<Rightarrow> int \<Rightarrow> nat list \<Rightarrow> (usn_context \<times> int) option" where
  "ack_walk ctx thresh cnt [] = Some (ctx, cnt)"
| "ack_walk ctx thresh cnt (cur # ws) =
     (if cnt + 1 > thresh then Some (ctx, cnt + 1)
      else do {
        ctx \<leftarrow> ack_one ctx cur;
        ack_walk ctx thresh (cnt + 1) ws
      })"

definition usnet_send_tcp_ack_list :: "usn_context \<Rightarrow> int \<Rightarrow> (usn_context \<times> int) option" where
  "usnet_send_tcp_ack_list ctx thresh = ack_walk ctx thresh 0 (ack_list ctx)"

section \<open>Data\<close>

definition data_flush :: "usn_context \<Rightarrow> nat \<Rightarrow> (usn_context \<times> int) option" where
  "data_flush ctx p =
     (if tcb_state (tcb_of ctx p) = TCPS_ESTABLISHED then
        if on_control_list (snd_of ctx p) then Some (ctx, - 1) else usnet_flush_tcp_sendbuf ctx p
      else if tcb_state (tcb_of ctx p) \<in> {TCPS_CLOSE_WAIT, TCPS_FIN_WAIT_1, TCPS_LAST_ACK}
      then usnet_flush_tcp_sendbuf ctx p
      else Some (ctx, 0))"

fun data_walk :: "usn_context \<Rightarrow> int \<Rightarrow> int \<Rightarrow> nat list \<Rightarrow> (usn_context \<times> int) option" where
  "data_walk ctx thresh cnt [] = Some (ctx, cnt)"
| "data_walk ctx thresh cnt (cur # ws) =
     (if cnt + 1 > thresh then Some (ctx, cnt + 1)
      else do {
        l \<leftarrow> TAILQ_REMOVE cur (send_list ctx);
        let ctx = ctx\<lparr>send_list := l\<rparr>;
        if on_send_list (snd_of ctx cur) then do {
          (ctx, ret) \<leftarrow> data_flush ctx cur;
          if ret < 0 then do {
            l \<leftarrow> TAILQ_INSERT_TAIL cur (send_list ctx);
            Some (ctx\<lparr>send_list := l\<rparr>, cnt + 1)
          }
          else do {
            let ctx = upd_snd cur (\<lambda>s. s\<lparr>on_send_list := False\<rparr>) (ctx\<lparr>send_list_cnt := send_list_cnt ctx - 1\<rparr>);
            ctx \<leftarrow> (if control_list_waiting (tcb_of ctx cur) \<and> \<not> on_ack_list (snd_of ctx cur)
                    then usnet_add_control_list (upd_tcb cur (\<lambda>t. t\<lparr>control_list_waiting := False\<rparr>) ctx) cur
                    else Some ctx);
            data_walk ctx thresh (cnt + 1) ws
          }
        }
        else data_walk ctx thresh (cnt + 1) ws
      })"

definition usnet_send_tcp_data_list :: "usn_context \<Rightarrow> int \<Rightarrow> (usn_context \<times> int) option" where
  "usnet_send_tcp_data_list ctx thresh = data_walk ctx thresh 0 (send_list ctx)"

section \<open>One pass of the main loop\<close>

text \<open>What the outside world gives one pass: the time, whether \<^verbatim>\<open>poll\<close> reported anything, the frames of each
  receive ring if the device is readable, and whether the event queue is, with the behaviour of the
  other process. \<open>pass_junk\<close> is an indeterminate byte the ICMP checksum reads.\<close>

record net_pass =
  pass_time :: int
  pass_ready :: bool
  pass_rings :: "byte list list list"
  pass_events :: bool
  pass_env :: "nat \<Rightarrow> mq_env"
  pass_junk :: u8

definition dispatch_timers :: "usn_context \<Rightarrow> usn_context option" where
  "dispatch_timers ctx = do {
     ctx \<leftarrow> usnet_check_rtm_timeout ctx 512;
     ctx \<leftarrow> usnet_check_timewait_expire ctx 512;
     usnet_check_connection_timeout ctx 512
   }"

fun dispatch_rings :: "usn_context \<Rightarrow> u8 \<Rightarrow> byte list list list \<Rightarrow> usn_context option" where
  "dispatch_rings ctx u0 [] = Some ctx"
| "dispatch_rings ctx u0 (ring # rings) = do {
     ctx \<leftarrow> usnet_recv_frame ctx u0 ring 512;
     dispatch_rings ctx u0 rings
   }"

definition dispatch_pass :: "net_pass \<Rightarrow> usn_context \<Rightarrow> byte list \<Rightarrow> (usn_context \<times> byte list) option" where
  "dispatch_pass inp ctx data =
     (let ctx = ctx\<lparr>cur_time := pass_time inp\<rparr> in
      if \<not> pass_ready inp then do {
        ctx \<leftarrow> dispatch_timers ctx;
        Some (ctx, data)
      }
      else do {
        ctx \<leftarrow> dispatch_rings ctx (pass_junk inp) (pass_rings inp);
        ctx \<leftarrow> dispatch_timers ctx;
        (ctx, n) \<leftarrow> usnet_send_tcp_control_list ctx 512;
        (ctx, n) \<leftarrow> usnet_send_tcp_ack_list ctx 512;
        (ctx, data) \<leftarrow> (if pass_events inp then usnet_tcpev_net (pass_env inp) (pass_time inp) ctx data
                        else Some (ctx, data));
        (ctx, n) \<leftarrow> usnet_send_tcp_data_list ctx 512;
        Some (ctx, data)
      })"

text \<open>\<^verbatim>\<open>usnet_dispatch_net\<close> never returns; after the given passes it has reached this state.\<close>

fun usnet_dispatch_net :: "net_pass list \<Rightarrow> usn_context \<Rightarrow> byte list \<Rightarrow> (usn_context \<times> byte list) option" where
  "usnet_dispatch_net [] ctx data = Some (ctx, data)"
| "usnet_dispatch_net (inp # inps) ctx data = do {
     (ctx, data) \<leftarrow> dispatch_pass inp ctx data;
     usnet_dispatch_net inps ctx data
   }"

end
