(* ===== verification/Conn_Step.thy ===== *)
theory Conn_Step
  imports Tcb
begin

text \<open>
  Steps of one connection. \<open>conn_frame p\<close> relates contexts that differ, among the connections, in \<open>p\<close> only
  and agree on its addresses and state. \<open>at_conn p c0 S\<close> says of a context reached from \<open>c0\<close> while processing
  connection \<open>p\<close> that the invariant \<open>ctx_ok\<close> holds, that no other connection has changed, and that \<open>p\<close> is
  live in a state of \<open>S\<close>. The operations the handlers are composed of keep it, and the rules \<open>at_rules\<close>
  carry it through a handler.
\<close>

section \<open>Contexts reached while processing a connection\<close>

definition at_conn :: "nat \<Rightarrow> usn_context \<Rightarrow> tcp_state set \<Rightarrow> usn_context \<Rightarrow> bool" where
  "at_conn p c0 S c \<longleftrightarrow> ctx_ok c \<and> live c p \<and> 0 < tcp_timeout c \<and> listen_tcb c = listen_tcb c0 \<and>
     (\<forall>q. q \<noteq> p \<longrightarrow> tcb_of c q = tcb_of c0 q) \<and> tcb_conn (tcb_of c p) = tcb_conn (tcb_of c0 p) \<and>
     tcb_state (tcb_of c p) \<in> S"

named_theorems at_rules \<open>operations that keep a connection's surroundings\<close>

lemma at_frame:
  assumes a: "at_conn p c0 S c" and f: "conn_frame p c c'" and ok: "lists_ok c'"
  shows "at_conn p c0 S c'"
proof -
  have e: "tcb_cache c' = (tcb_cache c)\<lparr>hb_cache := (hb_cache (tcb_cache c))(p := tcb_of c' p)\<rparr>"
    and k: "tcb_conn (tcb_of c' p) = tcb_conn (tcb_of c p)" "tcb_state (tcb_of c' p) = tcb_state (tcb_of c p)"
      "ev_net2app_mq c' = ev_net2app_mq c" "tcp_timeout c' = tcp_timeout c" "listen_tcb c' = listen_tcb c"
    using f unfolding conn_frame_def by blast+
  have "tcb_table (tcb_cache c')"
    using table_change[of "tcb_cache c" "tcb_of c' p" p] a k unfolding e[symmetric]
    by (simp add: at_conn_def ctx_ok_def tcb_of_def)
  moreover have lv: "live c' q = live c q" for q
    using k(1) frame_other[OF f, of q] by (cases "q = p") (simp_all add: live_def)
  moreover have "\<forall>q \<in> queued c'. live c' q"
    using f a unfolding lv conn_frame_def at_conn_def ctx_ok_def by blast
  ultimately show ?thesis
    using a k ok frame_other[OF f] by (simp add: at_conn_def ctx_ok_def)
qed

lemma at_lists_ok: "at_conn p c0 S c \<Longrightarrow> lists_ok c" and at_live: "at_conn p c0 S c \<Longrightarrow> live c p"
  by (simp_all add: at_conn_def ctx_ok_def)

lemma post_at:
  assumes "at_conn p c0 S c" "\<And>c'. m = Some c' \<Longrightarrow> conn_frame p c c'" "\<And>c'. m = Some c' \<Longrightarrow> lists_ok c'"
  shows "post (at_conn p c0 S) m"
  using assms at_frame by (auto simp: post_def split: option.split)

lemma wp_at:
  assumes "at_conn p c0 S c" "\<And>c'. m = Some c' \<Longrightarrow> conn_frame p c c'"
    "lists_ok c \<Longrightarrow> live c p \<Longrightarrow> \<exists>c'. m = Some c' \<and> lists_ok c'"
  shows "wp (at_conn p c0 S) m"
  using assms at_frame at_lists_ok at_live unfolding wp_def by metis

lemma at_weaken: "at_conn p c0 S c \<Longrightarrow> S \<subseteq> T \<Longrightarrow> at_conn p c0 T c"
  by (auto simp: at_conn_def)

subsection \<open>Updates of the connection\<close>

lemma at_upd:
  assumes a: "at_conn p c0 S c"
    and f: "\<And>t. tcb_conn (f t) = tcb_conn t \<and> on_control_list (sndvar (f t)) = on_control_list (sndvar t) \<and>
      on_send_list (sndvar (f t)) = on_send_list (sndvar t) \<and> on_ack_list (sndvar (f t)) = on_ack_list (sndvar t) \<and>
      on_timeout_list (f t) = on_timeout_list t \<and> on_timewait_list (f t) = on_timewait_list t \<and>
      on_rto_idx (f t) = on_rto_idx t"
    and s: "\<And>t. tcb_state t \<in> S \<Longrightarrow> tcb_state (f t) \<in> T"
  shows "at_conn p c0 T (upd_tcb p f c)"
proof -
  have "same_queues c (upd_tcb p f c)" using f by (simp add: same_queues_def)
  then have "lists_ok (upd_tcb p f c)" using a same_queues_ok by (blast intro: at_lists_ok)
  moreover have "tcb_table (tcb_cache (upd_tcb p f c))"
    unfolding tcb_cache_upd using a f by (intro table_change) (auto simp: at_conn_def ctx_ok_def tcb_of_def)
  moreover have "live (upd_tcb p f c) q = live c q" for q using f by (simp add: live_def)
  ultimately show ?thesis
    using a f s[of "tcb_of c p"] by (simp add: at_conn_def ctx_ok_def)
qed

lemma at_upd_snd:
  assumes "at_conn p c0 S c"
    and "\<And>s. on_control_list (g s) = on_control_list s \<and> on_send_list (g s) = on_send_list s \<and>
      on_ack_list (g s) = on_ack_list s"
  shows "at_conn p c0 S (upd_snd p g c)"
  unfolding upd_snd_def using assms(2) by (intro at_upd[OF assms(1)]) (auto simp: tcb_conn_def)

lemma at_upd_rcv: "at_conn p c0 S c \<Longrightarrow> at_conn p c0 S (upd_rcv p h c)"
  unfolding upd_rcv_def by (erule at_upd) (auto simp: tcb_conn_def)

lemma at_same:
  assumes "at_conn p c0 S c" "same_queues c c'" "tcb_cache c' = tcb_cache c" "mq_ok (ev_net2app_mq c')"
    "tcp_timeout c' = tcp_timeout c" "listen_tcb c' = listen_tcb c"
  shows "at_conn p c0 S c'"
proof -
  have "lists_ok c'" using assms(1,2) same_queues_ok at_lists_ok by blast
  moreover have "tcb_of c' = tcb_of c" using assms(3) by (simp add: tcb_of_def fun_eq_iff)
  moreover have "queued c' = queued c" using assms(2) by (simp add: same_queues_def queued_def)
  ultimately show ?thesis using assms unfolding at_conn_def ctx_ok_def live_def by metis
qed

lemma at_mq: "at_conn p c0 S c \<Longrightarrow> mq_ok (ev_net2app_mq c)"
  by (simp add: at_conn_def ctx_ok_def)

lemma at_rest:
  assumes "at_conn p c0 S c"
  shows "at_conn p c0 S (c\<lparr>tx_frames := a\<rparr>)" "at_conn p c0 S (c\<lparr>sndbuf_cache := b\<rparr>)"
    "at_conn p c0 S (c\<lparr>ringbuf_cache := d\<rparr>)" "at_conn p c0 S (c\<lparr>frag_mp := e\<rparr>)"
  using at_mq[OF assms] by (auto intro!: at_same[OF assms] simp: same_queues_def)

subsection \<open>Queues and timers\<close>

lemma control_enqueue_at: "at_conn p c0 S c \<Longrightarrow> wp (at_conn p c0 S) (control_enqueue c p)"
  by (rule wp_at) (use control_q.add_ok in \<open>auto intro: queue_ops_frame\<close>)

lemma remove_control_list_at: "at_conn p c0 S c \<Longrightarrow> wp (at_conn p c0 S) (usnet_remove_control_list c p)"
  by (rule wp_at) (use control_q.remove_ok in \<open>auto intro: queue_ops_frame\<close>)

lemma add_send_list_at: "at_conn p c0 S c \<Longrightarrow> wp (at_conn p c0 S) (usnet_add_send_list c p)"
  by (rule wp_at)
    (use add_send_list_good[OF good_refl] in \<open>auto intro: queue_ops_frame simp: wp_def good_def\<close>)

lemma remove_send_list_at: "at_conn p c0 S c \<Longrightarrow> wp (at_conn p c0 S) (usnet_remove_send_list c p)"
  by (rule wp_at) (use send_q.remove_ok in \<open>auto intro: queue_ops_frame\<close>)

lemma add_ack_list_at: "at_conn p c0 S c \<Longrightarrow> wp (at_conn p c0 S) (usnet_add_ack_list c p)"
  by (rule wp_at) (use ack_q.add_ok in \<open>auto intro: queue_ops_frame\<close>)

lemma enqueue_ack_at: "at_conn p c0 S c \<Longrightarrow> wp (at_conn p c0 S) (usnet_enqueue_ack c p opt)"
  unfolding usnet_enqueue_ack_def
  by (rule add_ack_list_at) (auto split: ack_opt.split intro!: at_upd_snd)

lemma update_timeout_list_at: "at_conn p c0 S c \<Longrightarrow> wp (at_conn p c0 S) (usnet_update_timeout_list c p)"
  by (rule wp_at) (use update_timeout_list_ok in \<open>auto intro: timer_ops_frame\<close>)

lemma update_timerlist_at: "at_conn p c0 S c \<Longrightarrow> wp (at_conn p c0 S) (usnet_update_timerlist c p)"
  unfolding update_timerlist_eq by (rule update_timeout_list_at)

lemma add_rto_list_at: "at_conn p c0 S c \<Longrightarrow> wp (at_conn p c0 S) (usnet_add_rto_list c p)"
  by (rule wp_at) (use add_rto_list_ok in \<open>auto intro: add_rto_list_frame\<close>)

lemma remove_rto_list_at: "at_conn p c0 S c \<Longrightarrow> wp (at_conn p c0 S) (usnet_remove_rto_list c p)"
  by (rule wp_at) (use remove_rto_list_ok in \<open>auto intro: timer_ops_frame\<close>)

lemma add_timeout_list_at:
  "at_conn p c0 S c \<Longrightarrow> \<not> on_timeout_list (tcb_of c p) \<Longrightarrow> wp (at_conn p c0 S) (usnet_add_timeout_list c p)"
  by (rule wp_at) (use timeout_q.add_new in \<open>auto intro: timer_ops_frame\<close>)

lemma add_timewait_list_at:
  "at_conn p c0 S c \<Longrightarrow> on_timewait_list (tcb_of c p) \<or> on_rto_idx (tcb_of c p) < 0 \<Longrightarrow>
    wp (at_conn p c0 S) (usnet_add_timewait_list c p)"
  by (rule wp_at) (use add_timewait_list_ok in \<open>auto intro: add_timewait_list_frame\<close>)

lemma remove_timewait_list_at:
  "at_conn p c0 S c \<Longrightarrow> on_timewait_list (tcb_of c p) \<Longrightarrow> wp (at_conn p c0 S) (usnet_remove_timewait_list c p)"
  by (rule wp_at) (use remove_timewait_list_ok in \<open>auto intro: timer_ops_frame\<close>)

lemma update_retransmission_timer_at:
  "at_conn p c0 S c \<Longrightarrow> 0 < rto (snd_of c p) \<Longrightarrow> wp (at_conn p c0 S) (usnet_update_retransmission_timer c p)"
  unfolding usnet_update_retransmission_timer_def Let_def
  by (intro wp_rules wp_conseq[OF remove_rto_list_at[of p c0 S]])
     (auto intro!: add_rto_list_at at_upd_snd wp_rules)

subsection \<open>Events\<close>

lemma n2a_enqueue_at:
  assumes a: "at_conn p c0 S c" and len: "length ev \<le> 64"
  shows "wp (at_conn p c0 S) (n2a_enqueue c ev flow)"
  unfolding n2a_enqueue_def
  by (intro wp_rules wp_conseq[OF enqueue_mq_ok[OF at_mq[OF a] len]])
     (auto intro!: wp_rules at_same[OF a] simp: same_queues_def)

lemma raise_event_at:
  assumes "at_conn p c0 S c"
  shows "wp (at_conn p c0 S) (usnet_raise_read_event c p)" "wp (at_conn p c0 S) (usnet_raise_write_event c p)"
    "wp (at_conn p c0 S) (usnet_raise_error_event c p)" "wp (at_conn p c0 S) (usnet_raise_accept_event c p)"
    "wp (at_conn p c0 S) (usnet_raise_connect_event c p)" "wp (at_conn p c0 S) (usnet_raise_tcp_event c p)"
  unfolding raise_defs Let_def by (rule n2a_enqueue_at[OF assms]; simp add: event_images)+

subsection \<open>Release\<close>

text \<open>\<open>gone\<close>: the connection has left the table.\<close>

definition gone :: "nat \<Rightarrow> usn_context \<Rightarrow> tcp_state set \<Rightarrow> usn_context \<Rightarrow> bool" where
  "gone p c0 S c \<longleftrightarrow> ctx_ok c \<and> 0 < tcp_timeout c \<and> listen_tcb c = listen_tcb c0 \<and>
     (\<forall>q. q \<noteq> p \<longrightarrow> tcb_of c q = tcb_of c0 q) \<and> usnet_tcb_isempty (tcb_of c p) \<and> unqueued (tcb_of c p) \<and>
     tcb_state (tcb_of c p) \<in> S"

definition settled :: "nat \<Rightarrow> usn_context \<Rightarrow> tcp_state set \<Rightarrow> usn_context \<Rightarrow> bool" where
  "settled p c0 S c \<longleftrightarrow> at_conn p c0 S c \<or> gone p c0 S c"

lemma unqueued_notin:
  assumes "lists_ok c" "unqueued (tcb_of c p)"
  shows "p \<notin> queued c"
proof -
  have "p \<notin> set (rto_list c i)" for i
    using lists_ok_rto[OF assms(1)] assms(2) unfolding rto_ok_def unqueued_def by fastforce
  then show ?thesis using assms by (auto simp: lists_ok_def q_ok_def unqueued_def queued_def)
qed

lemma release_gone:
  assumes a: "at_conn p c0 S c" and v: "sndvar_at (tcb_of c p) \<noteq> None" "rcvvar_at (tcb_of c p) \<noteq> None"
  shows "wp (gone p c0 S) (usnet_release_tcb c p)"
proof -
  have ok: "lists_ok c" "tcb_table (tcb_cache c)" "live c p" "0 < tcp_timeout c" "mq_ok (ev_net2app_mq c)"
    using a by (simp_all add: at_conn_def ctx_ok_def)
  obtain d where d: "usnet_release_tcb c p = Some (freed p d)" "off_step p c d" "unqueued (tcb_of d p)"
      "lists_ok (freed p d)" "tcb_table (tcb_cache (freed p d))"
      "tcb_of (freed p d) = (tcb_of d)(p := usnet_tcb_setempty (tcb_of d p))"
    using release_tcb_spec[OF ok(1-4) v] by blast
  have fr: "conn_frame p c d" using d(2) by (simp add: off_step_def)
  have rest: "ev_net2app_mq (freed p d) = ev_net2app_mq d" "tcp_timeout (freed p d) = tcp_timeout d"
    "listen_tcb (freed p d) = listen_tcb d" "queued (freed p d) = queued d"
    by (simp_all add: freed_def Let_def queued_def)
  have "p \<notin> queued (freed p d)"
    by (rule unqueued_notin) (use d in \<open>simp_all add: usnet_tcb_setempty_def unqueued_def\<close>)
  moreover have "live (freed p d) q" if "q \<in> queued d" "q \<noteq> p" for q
  proof -
    have "q \<in> queued c" using that fr unfolding conn_frame_def by blast
    then have "live c q" using a by (simp add: at_conn_def ctx_ok_def)
    then show ?thesis using that frame_other[OF fr, of q] by (simp add: live_def d(6))
  qed
  ultimately have lv: "\<forall>q \<in> queued (freed p d). live (freed p d) q" using rest(4) by metis
  have "tcb_of (freed p d) q = tcb_of c0 q" if "q \<noteq> p" for q
    using that frame_other[OF fr that] a by (simp add: d(6) at_conn_def)
  moreover have "tcb_state (tcb_of (freed p d) p) \<in> S"
    using fr a by (simp add: d(6) usnet_tcb_setempty_def conn_frame_def at_conn_def)
  moreover have "usnet_tcb_isempty (tcb_of (freed p d) p)" "unqueued (tcb_of (freed p d) p)"
    using d(3) by (simp_all add: d(6) usnet_tcb_setempty_def usnet_tcb_isempty_def unqueued_def)
  ultimately show ?thesis
    using d ok fr a rest(1-3) lv by (simp add: wp_def gone_def ctx_ok_def conn_frame_def at_conn_def)
qed

lemma release_post: "at_conn p c0 S c \<Longrightarrow> post (gone p c0 S) (usnet_release_tcb c p)"
  using release_gone[THEN wp_post] by (cases "sndvar_at (tcb_of c p) = None \<or> rcvvar_at (tcb_of c p) = None")
    (auto simp: usnet_release_tcb_def)

subsection \<open>Partial correctness\<close>

lemma post_seq: "post Q m \<Longrightarrow> (\<And>x. Q x \<Longrightarrow> post P (f x)) \<Longrightarrow> post P (Option.bind m f)"
  by (auto simp: post_def bind_eq_Some_conv)

lemma add_timewait_list_post: "at_conn p c0 S c \<Longrightarrow> post (at_conn p c0 S) (usnet_add_timewait_list c p)"
  using add_timewait_list_at[THEN wp_post]
  by (cases "on_timewait_list (tcb_of c p) \<or> on_rto_idx (tcb_of c p) < 0") (auto simp: usnet_add_timewait_list_def)

lemma remove_timewait_list_post: "at_conn p c0 S c \<Longrightarrow> post (at_conn p c0 S) (usnet_remove_timewait_list c p)"
  using remove_timewait_list_at[THEN wp_post]
  by (cases "on_timewait_list (tcb_of c p)") (auto simp: usnet_remove_timewait_list_def)

lemma add_timeout_list_post: "at_conn p c0 S c \<Longrightarrow> post (at_conn p c0 S) (usnet_add_timeout_list c p)"
  using add_timeout_list_at[THEN wp_post]
  by (cases "on_timeout_list (tcb_of c p)") (auto simp: usnet_add_timeout_list_def)

lemma update_retransmission_timer_post:
  "at_conn p c0 S c \<Longrightarrow> post (at_conn p c0 S) (usnet_update_retransmission_timer c p)"
  using update_retransmission_timer_at[THEN wp_post]
  by (cases "0 < rto (snd_of c p)") (auto simp: usnet_update_retransmission_timer_def)

lemmas at_posts [at_rules] = remove_control_list_at[THEN wp_post]
  add_send_list_at[THEN wp_post] remove_send_list_at[THEN wp_post] enqueue_ack_at[THEN wp_post]
  update_timerlist_at[THEN wp_post] remove_rto_list_at[THEN wp_post] add_timewait_list_post
  remove_timewait_list_post add_timeout_list_post update_retransmission_timer_post
  raise_event_at[THEN wp_post]

lemma post_pair: "post (\<lambda>x. P (fst x)) m \<Longrightarrow> (\<And>c r. P c \<Longrightarrow> post Q (f c r)) \<Longrightarrow> post Q (Option.bind m (\<lambda>(c, r). f c r))"
  by (auto simp: post_def bind_eq_Some_conv)

lemma post_settled_at: "post (at_conn p c0 S) m \<Longrightarrow> S \<subseteq> T \<Longrightarrow> post (settled p c0 T) m"
  by (erule post_conseq) (auto simp: settled_def intro: at_weaken)

lemma gone_weaken: "gone p c0 S c \<Longrightarrow> S \<subseteq> T \<Longrightarrow> gone p c0 T c"
  by (auto simp: gone_def)

lemma post_settled_gone: "post (gone p c0 S) m \<Longrightarrow> S \<subseteq> T \<Longrightarrow> post (settled p c0 T) m"
  by (erule post_conseq) (auto simp: settled_def intro: gone_weaken)

lemma settled_weaken: "settled p c0 S c \<Longrightarrow> S \<subseteq> T \<Longrightarrow> settled p c0 T c"
  by (auto simp: settled_def intro: at_weaken gone_weaken)

lemma at_settled: "at_conn p c0 S c \<Longrightarrow> S \<subseteq> T \<Longrightarrow> settled p c0 T c"
  by (auto simp: settled_def intro: at_weaken)

section \<open>Sending\<close>

lemma at_upd_nxt: "at_conn p c0 S c \<Longrightarrow> at_conn p c0 S (upd_tcb p (\<lambda>t. t\<lparr>snd_nxt := x t\<rparr>) c)"
  by (erule at_upd) (auto simp: tcb_conn_def)

lemma send_data_at: "at_conn p c0 S c \<Longrightarrow> post (at_conn p c0 S) (usnet_send_data c frame)"
  by (simp add: usnet_send_data_def post_def at_rest)

lemma arp_request_at: "at_conn p c0 S c \<Longrightarrow> post (at_conn p c0 S) (usnet_arp_request c ip)"
  by (simp add: usnet_arp_request_def usnet_arp_output_def send_data_at)

lemma ipv4_output_at: "at_conn p c0 S c \<Longrightarrow> post (\<lambda>x. at_conn p c0 S (fst x)) (usnet_ipv4_output c p n)"
  unfolding usnet_ipv4_output_def Let_def
  by (intro post_case_option post_seq[OF arp_request_at] post_Some) (auto intro: at_upd_snd)

lemma tcp_build_at:
  assumes "at_conn p c0 S c"
  shows "post (\<lambda>x. at_conn p c0 S (fst x)) (tcp_build c p flags payload)"
proof -
  have upd: "at_conn p c0 S d \<Longrightarrow> at_conn p c0 S (upd_tcb p (\<lambda>t. t\<lparr>last_active_ts := x\<rparr>) d)"
    "at_conn p c0 S d \<Longrightarrow> at_conn p c0 S (upd_tcb p (\<lambda>t. t\<lparr>need_wnd_adv := b\<rparr>) d)" for d x b
    by (auto elim!: at_upd simp: tcb_conn_def)
  have out: "at_conn p c0 S d \<Longrightarrow> post (\<lambda>x. at_conn p c0 S (fst x)) (Option.bind m (\<lambda>opts. Some (d, f opts)))" for d m f
    by (auto simp: post_def bind_eq_Some_conv)
  show ?thesis
    unfolding tcp_build_def Let_def
    by (intro post_seq[of "at_conn p c0 S"] post_if post_Some out update_timeout_list_at[THEN wp_post])
      (auto intro!: upd at_upd_snd assms)
qed

lemma send_tcp_packet_at:
  assumes "at_conn p c0 S c"
  shows "post (\<lambda>x. at_conn p c0 S (fst x)) (usnet_send_tcp_packet c p flags payload)"
  unfolding usnet_send_tcp_packet_def Let_def
  by (rule post_if, rule post_Some, simp add: assms, rule post_pair[OF ipv4_output_at[OF assms]],
      rule post_case_option, rule post_Some, simp, rule post_pair[OF tcp_build_at], assumption,
      intro post_seq[of "at_conn p c0 S"] post_if post_Some send_data_at add_rto_list_at[THEN wp_post])
    (auto intro!: at_upd_snd at_upd_nxt send_data_at)

lemma remove_ack_list_at: "at_conn p c0 S c \<Longrightarrow> wp (at_conn p c0 S) (usnet_remove_ack_list c p)"
  by (rule wp_at) (use ack_q.remove_ok in \<open>auto intro: queue_ops_frame\<close>)

lemma send_ack_at:
  assumes "at_conn p c0 S c"
  shows "post (\<lambda>x. at_conn p c0 S (fst x)) (do {
    (ctx, ret) \<leftarrow> usnet_send_tcp_packet c p flags [];
    ctx \<leftarrow> usnet_remove_ack_list ctx p;
    Some (ctx, ret) })"
  by (rule post_pair[OF send_tcp_packet_at[OF assms]], rule post_seq[OF remove_ack_list_at[THEN wp_post]])
    (auto intro: post_Some)

text \<open>Only a reset that has been sent releases the connection.\<close>

lemma send_control_packet_at:
  assumes "at_conn p c0 S c"
  shows "post (\<lambda>(d, r). at_conn p c0 S d \<or> gone p c0 S d \<and> 0 \<le> r) (usnet_send_control_packet c p)"
proof -
  have s: "post (\<lambda>x. at_conn p c0 S (fst x)) m \<Longrightarrow> post (\<lambda>(d, r). at_conn p c0 S d \<or> gone p c0 S d \<and> 0 \<le> r) m"
    for m :: "(usn_context \<times> int) option"
    by (erule post_conseq) auto
  have rst: "post (\<lambda>(d, r). at_conn p c0 S d \<or> gone p c0 S d \<and> 0 \<le> r) (do {
      (ctx, ret) \<leftarrow> usnet_send_tcp_packet c p TH_RST [];
      ctx \<leftarrow> (if ret \<ge> 0 then usnet_release_tcb ctx p else Some ctx);
      Some (ctx, ret) })"
  proof (rule post_pair[OF send_tcp_packet_at[OF assms]])
    fix d and r :: int
    assume "at_conn p c0 S d"
    then show "post (\<lambda>(d, r). at_conn p c0 S d \<or> gone p c0 S d \<and> 0 \<le> r)
        (Option.bind (if r \<ge> 0 then usnet_release_tcb d p else Some d) (\<lambda>ctx. Some (ctx, r)))"
      using release_post[of p c0 S d] by (auto simp: post_def bind_eq_Some_conv)
  qed
  show ?thesis
    unfolding usnet_send_control_packet_def Let_def
    by (cases "tcb_state (tcb_of c p)")
      (auto intro!: post_if post_Some rst s[OF send_ack_at] s[OF send_tcp_packet_at] at_upd_nxt assms)
qed

lemma send_control_packet_open:
  assumes "at_conn p c0 S c" "tcb_state (tcb_of c p) \<noteq> TCPS_CLOSED"
  shows "post (\<lambda>x. at_conn p c0 S (fst x)) (usnet_send_control_packet c p)"
  using assms(2) unfolding usnet_send_control_packet_def Let_def
  by (cases "tcb_state (tcb_of c p)")
    (auto intro!: post_if post_Some send_ack_at send_tcp_packet_at at_upd_nxt assms(1))

text \<open>Scheduling a control segment: outside CLOSED the connection stays, in CLOSED a reset may release it.\<close>

lemma control_rest_at:
  assumes "at_conn p c0 S c"
  shows "post (at_conn p c0 S) (if r < 0 then control_enqueue c p else usnet_remove_control_list c p)"
  by (intro post_if control_enqueue_at[THEN wp_post] remove_control_list_at[THEN wp_post] assms)

lemma add_control_list_settled:
  assumes "at_conn p c0 S c"
  shows "post (settled p c0 S) (usnet_add_control_list c p)"
proof -
  have "post (settled p c0 S) (if r < 0 then control_enqueue d p else usnet_remove_control_list d p)"
    if "at_conn p c0 S d \<or> gone p c0 S d \<and> 0 \<le> r" for d and r :: int
  proof (cases "at_conn p c0 S d")
    case True
    then show ?thesis by (intro post_settled_at[OF control_rest_at]) auto
  next
    case False
    then have "gone p c0 S d" "\<not> r < 0" using that by auto
    moreover from this have "usnet_remove_control_list d p = Some d"
      by (simp add: usnet_remove_control_list_def gone_def unqueued_def)
    ultimately show ?thesis by (simp add: post_Some settled_def)
  qed
  then show ?thesis
    unfolding add_control_list_eq by (intro post_seq[OF send_control_packet_at[OF assms]]) auto
qed

lemma add_control_list_open:
  assumes "at_conn p c0 S c" "TCPS_CLOSED \<notin> S"
  shows "post (at_conn p c0 S) (usnet_add_control_list c p)"
proof -
  have "tcb_state (tcb_of c p) \<noteq> TCPS_CLOSED" using assms by (auto simp: at_conn_def)
  then show ?thesis
    unfolding add_control_list_eq by (intro post_pair[OF send_control_packet_open[OF assms(1)]] control_rest_at)
qed

text \<open>Outside CLOSED scheduling returns.\<close>

lemma post_returns: "post P m \<Longrightarrow> wp Q m \<Longrightarrow> wp P m"
  by (auto simp: wp_def post_def)

lemma send_tcp_packet_returns:
  assumes "at_conn p c0 S c" "flags AND TH_SYN \<noteq> 0 \<or> flags AND TH_SACK = 0"
  shows "wp (\<lambda>x. at_conn p c0 S (fst x)) (usnet_send_tcp_packet c p flags [])"
  by (rule post_returns[OF send_tcp_packet_at[OF assms(1)]
        send_tcp_packet_good[OF good_refl[OF at_lists_ok[OF assms(1)]] assms(2)]]) simp

lemma send_ack_returns:
  assumes "at_conn p c0 S c" "flags AND TH_SYN \<noteq> 0 \<or> flags AND TH_SACK = 0"
  shows "wp (\<lambda>x. at_conn p c0 S (fst x)) (do {
    (ctx, ret) \<leftarrow> usnet_send_tcp_packet c p flags [];
    ctx \<leftarrow> usnet_remove_ack_list ctx p;
    Some (ctx, ret) })"
  using send_tcp_packet_returns[OF assms] remove_ack_list_at[of p c0 S] by (fastforce simp: wp_def bind_eq_Some_conv)

lemma send_control_packet_returns:
  assumes "at_conn p c0 S c" "tcb_state (tcb_of c p) \<noteq> TCPS_CLOSED"
  shows "wp (\<lambda>x. at_conn p c0 S (fst x)) (usnet_send_control_packet c p)"
  using assms(2) unfolding usnet_send_control_packet_def Let_def
  by (cases "tcb_state (tcb_of c p)")
    (auto intro!: wp_if wp_Some send_ack_returns send_tcp_packet_returns at_upd_nxt assms(1))

lemma add_control_list_returns:
  assumes "at_conn p c0 S c" "tcb_state (tcb_of c p) \<noteq> TCPS_CLOSED"
  shows "wp (at_conn p c0 S) (usnet_add_control_list c p)"
  unfolding add_control_list_eq
  by (rule wp_bind, rule wp_conseq[OF send_control_packet_returns[OF assms]])
    (auto intro!: wp_if control_enqueue_at remove_control_list_at)

end
