(* ===== verification/Tcp_Machine.thy ===== *)
theory Tcp_Machine
  imports Tcp_In Conn_Step
begin

text \<open>
  The TCP state machine. \<open>tcp_step\<close> is the specification: the transitions a segment may cause. Every handler
  of \<^verbatim>\<open>tcp.c\<close>, the dispatch and the processing of a whole segment follow it, keep the invariant \<open>ctx_ok\<close> and
  touch no other connection.
\<close>

section \<open>Acknowledgements, payload and validation\<close>

lemma ack_window_post: "at_conn p c0 S c \<Longrightarrow> post (at_conn p c0 S) (ack_window c p seq ack w)"
  unfolding ack_window_def Let_def by (intro post_rules at_rules at_upd_snd at_upd_rcv) auto

lemma ack_dup_at: "at_conn p c0 S c \<Longrightarrow> at_conn p c0 S (fst (ack_dup c p ack n edge))"
  unfolding ack_dup_def Let_def by (simp add: at_upd_rcv)

lemma ack_fast_rtx_post: "at_conn p c0 S c \<Longrightarrow> post (at_conn p c0 S) (ack_fast_rtx c p ack dup)"
  unfolding ack_fast_rtx_def Let_def
  by (intro post_rules at_rules) (auto intro!: at_upd_snd at_upd_nxt)

lemma ack_snd_nxt_post: "at_conn p c0 S c \<Longrightarrow> post (at_conn p c0 S) (ack_snd_nxt c p b ack)"
  unfolding ack_snd_nxt_def Let_def by (intro post_rules at_rules at_upd_nxt)

lemma upd_sb_at: "at_conn p c0 S c \<Longrightarrow> at_conn p c0 S (upd_sb b x c)"
  unfolding upd_sb_def by (rule at_rest)

lemma upd_rb_at: "at_conn p c0 S c \<Longrightarrow> at_conn p c0 S (upd_rb b x c)"
  unfolding upd_rb_def by (rule at_rest)

lemma estimate_rtt_quiet:
  "usnet_estimate_rtt t m = t\<lparr>rcvvar := rcvvar (usnet_estimate_rtt t m)\<rparr>"
  by (simp add: usnet_estimate_rtt_def Let_def)

lemma at_estimate_rtt:
  "at_conn p c0 S c \<Longrightarrow> at_conn p c0 S (upd_tcb p (\<lambda>t. usnet_estimate_rtt t (x t)) c)"
  by (subst estimate_rtt_quiet, erule at_upd) (auto simp: tcb_conn_def)

lemma ack_remove_post:
  assumes "at_conn p c0 S c"
  shows "post (at_conn p c0 S) (ack_remove c p b ack)"
proof -
  have 1: "post (at_conn p c0 S) (if saw_timestamp (tcb_of c p) then
      let c = upd_tcb p (\<lambda>t. usnet_estimate_rtt t (of_int (cur_time c) - ts_lastack_rcvd (rcvvar t))) c;
          c = upd_snd p (\<lambda>s. s\<lparr>rto := drop_bit 3 (srtt (rcv_of c p)) + rttvar (rcv_of c p)\<rparr>) c
      in (if rto (snd_of c p) > 0 then Some c else None) else Some c)"
    unfolding Let_def by (intro post_rules at_upd_snd at_estimate_rtt assms) auto
  have 2: "post (at_conn p c0 S) (do {
       ctx \<leftarrow> (if a then usnet_raise_write_event ctx p else Some ctx);
       usnet_update_retransmission_timer ctx p })" if "at_conn p c0 S ctx" for ctx a
    using that by (intro post_seq[of "at_conn p c0 S"]) (auto intro!: post_rules at_rules)
  show ?thesis
    unfolding ack_remove_def
    apply (subst (1 2 3) Let_def)
    apply (rule post_if, rule post_None)
    apply (rule post_seq[OF 1])
    apply (rule post_seq[of "\<lambda>_. True"], rule post_any, rule TrueI)
    unfolding Let_def
    apply (rule 2)
    apply (intro at_upd_snd upd_sb_at; simp)
    done
qed

lemma post_fst: "post (\<lambda>x. P (fst x)) m \<Longrightarrow> post P (Option.bind m (\<lambda>(c, r). Some c))"
  by (auto simp: post_def bind_eq_Some_conv)

lemma process_ack_post:
  assumes "at_conn p c0 S c"
  shows "post (\<lambda>x. at_conn p c0 S (fst x)) (usnet_process_ack c p tcph seq ack w n)"
proof -
  have tail: "post (\<lambda>x. at_conn p c0 S (fst x)) (do {
      ctx \<leftarrow> ack_window ctx p seq a cw;
      let (ctx, dup) = ack_dup ctx p a n edge;
      ctx \<leftarrow> ack_fast_rtx ctx p a dup;
      ctx \<leftarrow> ack_snd_nxt ctx p b a;
      if TCP_SEQ_GEQ (sb_head_seq (sb_of ctx b)) a then Some (ctx, - 2)
      else do { ctx \<leftarrow> ack_remove ctx p b a; Some (ctx, 0) } })"
    if "at_conn p c0 S ctx" for ctx a cw edge b
    by (rule post_seq[OF ack_window_post[OF that]], simp add: Let_def split_beta,
        rule post_seq[OF ack_fast_rtx_post[OF ack_dup_at]], assumption,
        rule post_seq[OF ack_snd_nxt_post], assumption, rule post_if, simp add: post_Some,
        rule post_seq[OF ack_remove_post]) (auto simp: post_Some)
  show ?thesis
    unfolding usnet_process_ack_def
    by (rule post_case_option, rule post_None, subst Let_def, subst Let_def, subst Let_def, subst Let_def,
        subst Let_def, rule post_if, simp add: post_Some assms, rule tail[OF assms])
qed

lemma ack_if_sndbuf_post: "at_conn p c0 S c \<Longrightarrow> post (at_conn p c0 S) (ack_if_sndbuf c p tcph seq ack w n)"
  unfolding ack_if_sndbuf_def by (intro post_if post_fst process_ack_post post_Some)

lemma payload_buffer_at: "at_conn p c0 S c \<Longrightarrow> at_conn p c0 S (fst (payload_buffer c p))"
  unfolding payload_buffer_def Let_def
  by (auto split: option.split prod.split intro!: at_upd_rcv at_rest)

lemma at_closed:
  "at_conn p c0 S c \<Longrightarrow> at_conn p c0 {st} (upd_tcb p (\<lambda>t. t\<lparr>tcb_state := st, close_reason := why\<rparr>) c)"
  by (erule at_upd) (auto simp: tcb_conn_def)

lemma at_rcv_nxt: "at_conn p c0 S c \<Longrightarrow> at_conn p c0 S (upd_tcb p (\<lambda>t. t\<lparr>rcv_nxt := x t\<rparr>) c)"
  by (erule at_upd) (auto simp: tcb_conn_def)

lemma process_payload_post:
  assumes "at_conn p c0 S c"
  shows "post (\<lambda>x. at_conn p c0 (insert TCPS_CLOSED S) (fst x)) (usnet_process_tcp_payload c p payload seq)"
proof -
  let ?P = "at_conn p c0 (insert TCPS_CLOSED S)"
  have w: "at_conn p c0 S x \<Longrightarrow> ?P x" for x by (erule at_weaken) auto
  have k: "at_conn p c0 {TCPS_CLOSED} x \<Longrightarrow> ?P x" for x by (erule at_weaken) auto
  obtain d r where d: "payload_buffer c p = (d, r)" by fastforce
  have at: "at_conn p c0 S d" using payload_buffer_at[OF assms] d by simp
  have none: "post (\<lambda>x. ?P (fst x)) (do {
      ctx \<leftarrow> usnet_raise_error_event (upd_tcb p (\<lambda>t. t\<lparr>tcb_state := TCPS_CLOSED, close_reason := TCP_NO_MEM\<rparr>) d) p;
      Some (ctx, - 3 :: int) })"
    by (rule post_seq[OF raise_event_at(3)[THEN wp_post, OF at_closed[OF at]]]) (simp add: post_Some k)
  have some: "post (\<lambda>x. ?P (fst x)) (do {
          (mp, buf, ret) \<leftarrow> usnet_insert_fragment (frag_mp d) (rb_of d b) payload seq;
          let ctx = upd_rb b buf (d\<lparr>frag_mp := mp\<rparr>);
          let ctx = upd_tcb p (\<lambda>t. t\<lparr>rcv_nxt := rb_head_seq buf\<rparr>) ctx;
          let ctx = upd_rcv p (\<lambda>r. r\<lparr>rcv_wnd := rb_win buf\<rparr>) ctx;
          if TCP_SEQ_LEQ (rcv_nxt (tcb_of ctx p)) n then Some (ctx, - 1 :: int)
          else do {
            ctx \<leftarrow> (if tcb_state (tcb_of ctx p) = TCPS_ESTABLISHED then usnet_raise_read_event ctx p else Some ctx);
            Some (ctx, 0)
          } })" for b n
  proof -
    have step: "post (\<lambda>x. ?P (fst x)) (if q then Some (e, - 1 :: int) else do {
            ctx \<leftarrow> (if q' then usnet_raise_read_event e p else Some e); Some (ctx, 0) })"
      if "at_conn p c0 S e" for e q q'
      by (rule post_if, simp add: post_Some that w, rule post_seq[of "at_conn p c0 S"])
        (use that in \<open>auto intro!: post_rules at_rules w\<close>)
    show ?thesis
      by (rule post_seq[of "\<lambda>_. True"], simp add: post_def, simp only: Let_def split_beta,
          rule step, intro at_upd_rcv at_rcv_nxt upd_rb_at at_rest at)
  qed
  show ?thesis
    unfolding usnet_process_tcp_payload_def d
    apply (subst Let_def)
    apply (rule post_if, simp add: post_Some assms w)
    apply (rule post_if, simp add: post_Some assms w)
    using none some by (cases r) (simp_all add: Let_def)
qed

lemma validate_seq_post:
  assumes "at_conn p c0 S c" and S: "TCPS_CLOSED \<notin> S"
  shows "post (\<lambda>x. at_conn p c0 S (fst x)) (usnet_validate_seq c p tcph seq n)"
proof -
  have paws: "post (\<lambda>x. at_conn p c0 S (fst x)) (validate_paws c p tcph)"
    unfolding validate_paws_def Let_def
    apply (rule post_if)
     apply (rule post_seq[of "\<lambda>_. True"], simp add: post_def)
     apply (rule post_case_option, simp add: post_Some assms)
     apply (rule post_if)
      apply (rule post_seq[OF enqueue_ack_at[THEN wp_post, OF assms(1)]], simp add: post_Some)
    by (auto intro!: post_Some at_upd_rcv assms)
  have ack: "post (\<lambda>x. at_conn p c0 S (fst x)) (do { ctx \<leftarrow> usnet_enqueue_ack d p opt; Some (ctx, r) })"
    if "at_conn p c0 S d" for d opt and r :: int
    by (rule post_seq[OF enqueue_ack_at[THEN wp_post, OF that]]) (simp add: post_Some)
  have last: "post (\<lambda>x. at_conn p c0 S (fst x)) (do {
      ctx \<leftarrow> (if q then usnet_add_timewait_list d p else Some d);
      ctx \<leftarrow> usnet_add_control_list ctx p; Some (ctx, r) })" if "at_conn p c0 S d" for d q and r :: int
    by (rule post_seq[of "at_conn p c0 S"], intro post_rules at_rules that that,
        rule post_seq[OF add_control_list_open[OF _ S]]) (auto simp: post_Some)
  show ?thesis
    unfolding usnet_validate_seq_def
    by (intro post_if post_None, rule post_seq[OF paws], simp only: split_beta, intro post_if)
      (rule post_Some ack last, simp)+
qed

section \<open>The state machine\<close>

inductive tcp_step :: "tcp_state \<Rightarrow> tcp_state \<Rightarrow> bool" where
  passive_open: "tcp_step TCPS_LISTEN TCPS_SYN_RECEIVED"
| simultaneous_open: "tcp_step TCPS_SYN_SENT TCPS_SYN_RECEIVED"
| refused: "tcp_step TCPS_SYN_SENT TCPS_CLOSE_WAIT"
| handshake_done: "tcp_step TCPS_SYN_RECEIVED TCPS_ESTABLISHED"
| fin_received: "tcp_step TCPS_ESTABLISHED TCPS_CLOSE_WAIT"
| fin_acked: "tcp_step TCPS_FIN_WAIT_1 TCPS_FIN_WAIT_2"
| simultaneous_close: "tcp_step TCPS_FIN_WAIT_1 TCPS_CLOSING"
| fin_after_ack: "tcp_step TCPS_FIN_WAIT_2 TCPS_TIME_WAIT"
| closing_acked: "tcp_step TCPS_CLOSING TCPS_TIME_WAIT"
| closed: "s \<in> {TCPS_SYN_RECEIVED, TCPS_ESTABLISHED, TCPS_FIN_WAIT_1, TCPS_FIN_WAIT_2, TCPS_CLOSING,
    TCPS_LAST_ACK, TCPS_TIME_WAIT} \<Longrightarrow> tcp_step s TCPS_CLOSED"

definition reach :: "tcp_state \<Rightarrow> tcp_state set" where
  "reach s = {t. tcp_step\<^sup>*\<^sup>* s t}"

lemma reach_refl [simp]: "s \<in> reach s" and reach_step: "tcp_step s t \<Longrightarrow> t \<in> reach s"
  and reach_trans: "t \<in> reach s \<Longrightarrow> u \<in> reach t \<Longrightarrow> u \<in> reach s"
  by (auto simp: reach_def)

lemma reach_mono: "t \<in> reach s \<Longrightarrow> reach t \<subseteq> reach s"
  using reach_trans by blast

lemma reach_sets:
  "{TCPS_LISTEN, TCPS_SYN_RECEIVED} \<subseteq> reach TCPS_LISTEN"
  "{TCPS_SYN_SENT, TCPS_SYN_RECEIVED, TCPS_CLOSE_WAIT} \<subseteq> reach TCPS_SYN_SENT"
  "{TCPS_SYN_RECEIVED, TCPS_ESTABLISHED, TCPS_CLOSED} \<subseteq> reach TCPS_SYN_RECEIVED"
  "{TCPS_ESTABLISHED, TCPS_CLOSE_WAIT, TCPS_CLOSED} \<subseteq> reach TCPS_ESTABLISHED"
  "{TCPS_FIN_WAIT_1, TCPS_FIN_WAIT_2, TCPS_CLOSING, TCPS_TIME_WAIT, TCPS_CLOSED} \<subseteq> reach TCPS_FIN_WAIT_1"
  "{TCPS_FIN_WAIT_2, TCPS_TIME_WAIT, TCPS_CLOSED} \<subseteq> reach TCPS_FIN_WAIT_2"
  "{TCPS_CLOSING, TCPS_TIME_WAIT, TCPS_CLOSED} \<subseteq> reach TCPS_CLOSING"
  "{TCPS_LAST_ACK, TCPS_CLOSED} \<subseteq> reach TCPS_LAST_ACK"
  "{TCPS_TIME_WAIT, TCPS_CLOSED} \<subseteq> reach TCPS_TIME_WAIT"
  using reach_trans[OF reach_step[OF fin_acked] reach_step[OF fin_after_ack]]
  by (auto intro: reach_step tcp_step.intros)

section \<open>The handlers follow it\<close>

lemma at_set_closed: "at_conn p c0 S c \<Longrightarrow> at_conn p c0 {st} (set_closed p st why c)"
  unfolding set_closed_def by (rule at_closed)

lemma at_set_state: "at_conn p c0 S c \<Longrightarrow> at_conn p c0 {st} (set_state p st c)"
  unfolding set_state_def by (erule at_upd) (auto simp: tcb_conn_def)

lemma handle_rst_post:
  assumes "at_conn p c0 {s} c"
  shows "post (\<lambda>x. settled p c0 (reach s) (fst x) \<and>
    (gone p c0 {TCPS_CLOSED} (fst x) \<or> at_conn p c0 (reach s) (fst x))) (usnet_handle_rst c p ack)"
proof -
  let ?P = "\<lambda>x. settled p c0 (reach s) (fst x) \<and>
    (gone p c0 {TCPS_CLOSED} (fst x) \<or> at_conn p c0 (reach s) (fst x))"
  have st: "tcb_state (tcb_of c p) = s" using assms by (simp add: at_conn_def)
  have stay: "post ?P (Some (c, r))" for r :: int
    using assms at_weaken[OF assms, of "reach s"] by (auto simp: post_def settled_def)
  have rel: "post ?P (do { ctx \<leftarrow> usnet_release_tcb (set_closed p TCPS_CLOSED why c) p; Some (ctx, r) })"
    if "tcp_step s TCPS_CLOSED" for why and r :: int
    by (rule post_seq[OF release_post[OF at_set_closed[OF assms]]])
      (use reach_step[OF that] in \<open>auto simp: post_def settled_def intro: gone_weaken\<close>)
  have cw: "post ?P (do { ctx \<leftarrow> usnet_raise_tcp_event (set_closed p TCPS_CLOSE_WAIT why c) p; Some (ctx, r) })"
    if "TCPS_CLOSE_WAIT \<in> reach s" for why and r :: int
    by (rule post_seq[OF raise_event_at(6)[THEN wp_post, OF at_set_closed[OF assms]]])
      (use that in \<open>auto simp: post_def settled_def intro: at_weaken\<close>)
  consider "s \<le> TCPS_SYN_SENT" | "s = TCPS_SYN_RECEIVED"
    | "s \<in> {TCPS_FIN_WAIT_1, TCPS_FIN_WAIT_2, TCPS_LAST_ACK, TCPS_CLOSING, TCPS_TIME_WAIT}"
    | "s = TCPS_ESTABLISHED" | "s = TCPS_CLOSE_WAIT" by (cases s) (auto simp: state_order)
  then show ?thesis
  proof cases
    case 1
    then show ?thesis using stay by (simp add: usnet_handle_rst_def st)
  next
    case 2
    then show ?thesis
      using rel[of TCP_RESET 0] stay[of 0] by (simp add: usnet_handle_rst_def st state_order tcp_step.closed)
  next
    case 3
    then have "tcp_step s TCPS_CLOSED" by (auto intro: tcp_step.closed)
    then show ?thesis using 3 rel[of TCP_ACTIVE_CLOSE 0] by (auto simp: usnet_handle_rst_def st state_order)
  next
    case 4
    then show ?thesis
      using cw[of TCP_RESET 0] stay[of 0] reach_sets(4) by (simp add: usnet_handle_rst_def st state_order Let_def)
  next
    case 5
    then show ?thesis
      using cw[of TCP_RESET 0] stay[of 0] by (simp add: usnet_handle_rst_def st state_order Let_def)
  qed
qed

lemma handle_listen_post:
  "at_conn p c0 {TCPS_LISTEN} c \<Longrightarrow> post (settled p c0 (reach TCPS_LISTEN)) (usnet_handle_listen c p tcph)"
  unfolding usnet_handle_listen_def
  by (rule post_settled_at[OF _ reach_sets(1)])
    (intro post_rules at_rules, auto intro!: at_upd simp: tcb_conn_def elim: at_weaken)

text \<open>A reply without a connection changes the transmitted frames only.\<close>

lemma send_reply_frames:
  assumes P: "P c" "\<And>a. P (c\<lparr>tx_frames := a\<rparr>)"
  shows "wp P (send_reply c ip_src ip_dst tcph seq ack flags)"
proof -
  have send: "wp P (usnet_send_data c fr)" if "length fr \<le> 2048" for fr
    using that P by (simp add: usnet_send_data_def wp_def)
  then have arp: "wp P (usnet_arp_request c ip)" for ip
    by (simp add: usnet_arp_request_def usnet_arp_output_def usnet_eth_output_nm_def)
  have opt: "usnet_get_tcpopt_length flags \<le> 24" by (simp add: usnet_get_tcpopt_length_def)
  have alone: "wp (\<lambda>(c, hdr). P c \<and> (\<forall>h. hdr = Some h \<longrightarrow> c = d \<and> length h \<le> 34))
      (usnet_ipv4_output_alone d ident proto src dst n)" if "d = c" for d ident proto src dst n
    unfolding usnet_ipv4_output_alone_def that using P arp[of dst]
    by (auto simp: usnet_eth_output_nm_def wp_def split: option.split)
  show ?thesis
    unfolding send_reply_def usnet_send_tcp_packet_alone_def Let_def
    using opt by (intro wp_rules wp_conseq[OF alone[OF refl]] wp_conseq[OF send])
      (auto intro!: wp_rules wp_conseq[OF send] simp: P)
qed

lemma send_reply_at: "at_conn p c0 S c \<Longrightarrow> wp (at_conn p c0 S) (send_reply c ip_src ip_dst tcph seq ack flags)"
  by (rule send_reply_frames) (simp_all add: at_rest)

lemma handle_syn_sent_post:
  assumes "at_conn p c0 {TCPS_SYN_SENT} c"
  shows "post (settled p c0 (reach TCPS_SYN_SENT)) (usnet_handle_syn_sent c p ip_src ip_dst tcph seq ack n)"
proof -
  let ?S = "{TCPS_SYN_SENT, TCPS_SYN_RECEIVED, TCPS_CLOSE_WAIT}"
  let ?c = "if th_flags tcph AND TH_ACK \<noteq> 0 then upd_snd p (\<lambda>s. s\<lparr>snd_una := snd_una s + 1\<rparr>) c else c"
  have c: "at_conn p c0 {TCPS_SYN_SENT} ?c" using assms by (auto intro: at_upd_snd)
  have same: "at_conn p c0 {TCPS_SYN_SENT} x \<Longrightarrow> settled p c0 ?S x" for x by (erule at_settled) simp
  have rst: "post (settled p c0 ?S) (let ctx = set_closed p TCPS_CLOSE_WAIT TCP_RESET ?c in
      (if tcb_socket (tcb_of ctx p) \<noteq> None then usnet_raise_error_event ctx p else usnet_release_tcb ctx p))"
    unfolding Let_def
    by (intro post_if post_settled_at[OF raise_event_at(3)[THEN wp_post, OF at_set_closed[OF c]]]
        post_settled_gone[OF release_post[OF at_set_closed[OF c]]]) auto
  have syn: "post (settled p c0 ?S) (usnet_add_control_list
      (upd_tcb p (\<lambda>t. t\<lparr>tcb_state := TCPS_SYN_RECEIVED, snd_nxt := iss (sndvar t)\<rparr>) ?c) p)"
    by (rule post_settled_at[OF add_control_list_open[OF at_upd[OF c, where T = "{TCPS_SYN_RECEIVED}"]]])
      (auto simp: tcb_conn_def)
  have reply: "post (settled p c0 ?S) (send_reply c ip_src ip_dst tcph ack 0 TH_RST)"
    by (rule post_conseq[OF send_reply_at[THEN wp_post, OF assms]]) (rule same)
  have "post (settled p c0 ?S) (usnet_handle_syn_sent c p ip_src ip_dst tcph seq ack n)"
    unfolding usnet_handle_syn_sent_def
    by (subst Let_def, subst Let_def, intro post_if reply post_Some same[OF assms] same[OF c] rst syn)
      (simp_all add: usnet_handle_active_open_def post_Some same[OF c])
  then show ?thesis by (rule post_conseq) (erule settled_weaken, rule reach_sets)
qed

lemma handle_syn_received_post:
  assumes "at_conn p c0 {TCPS_SYN_RECEIVED} c"
  shows "post (settled p c0 (reach TCPS_SYN_RECEIVED)) (usnet_handle_syn_received c p tcph ack)"
proof -
  have est: "post (at_conn p c0 {TCPS_ESTABLISHED}) (do {
          ctx \<leftarrow> usnet_remove_rto_list d p;
          let ctx = set_state p TCPS_ESTABLISHED ctx;
          if tcp_timeout ctx > 0 then usnet_add_timeout_list ctx p else Some ctx })"
    if "at_conn p c0 {TCPS_SYN_RECEIVED} d" for d
    by (rule post_seq[OF remove_rto_list_at[THEN wp_post, OF that]])
      (auto simp: Let_def intro!: post_rules at_rules at_set_state)
  have upd: "at_conn p c0 {TCPS_SYN_RECEIVED} (upd_snd p g (upd_tcb p (\<lambda>t. t\<lparr>snd_nxt := x t\<rparr>) (upd_snd p h c)))"
    if "\<And>s. on_control_list (g s) = on_control_list s \<and> on_send_list (g s) = on_send_list s \<and> on_ack_list (g s) = on_ack_list s"
      "\<And>s. on_control_list (h s) = on_control_list s \<and> on_send_list (h s) = on_send_list s \<and> on_ack_list (h s) = on_ack_list s"
    for g h x using that by (intro at_upd_snd at_upd_nxt assms)
  show ?thesis
    unfolding usnet_handle_syn_received_def
    apply (rule post_if, rule post_if)
      apply (rule post_Some, rule at_settled[OF assms], simp)
     apply (subst Let_def, subst Let_def, subst Let_def)
     apply (rule post_settled_at[OF est], rule upd; simp)
    using reach_sets(3) apply blast
    by (rule post_settled_at[OF add_control_list_open[OF at_upd_nxt[OF assms]]]) simp_all
qed

lemma at_fin:
  "at_conn p c0 S c \<Longrightarrow> at_conn p c0 {st} (upd_tcb p (\<lambda>t. t\<lparr>tcb_state := st, rcv_nxt := x t\<rparr>) c)"
  by (erule at_upd) (auto simp: tcb_conn_def)

text \<open>Payload and its acknowledgement, in the established and the FIN-WAIT states.\<close>

lemma payload_ack_post:
  assumes "at_conn p c0 S c"
  shows "post (at_conn p c0 (insert TCPS_CLOSED S)) (if b then do {
      (ctx, ret) \<leftarrow> usnet_process_tcp_payload c p payload seq;
      usnet_enqueue_ack ctx p (opt ret) } else Some c)"
  by (rule post_if, rule post_seq[OF process_payload_post[OF assms]])
    (auto intro!: post_rules at_rules at_weaken[OF assms] split: prod.split)

lemma handle_established_post:
  assumes "at_conn p c0 {TCPS_ESTABLISHED} c"
  shows "post (settled p c0 (reach TCPS_ESTABLISHED)) (usnet_handle_established c p tcph seq ack payload w)"
proof -
  let ?S = "{TCPS_ESTABLISHED, TCPS_CLOSE_WAIT, TCPS_CLOSED}"
  have fin: "post (at_conn p c0 ?S) (if f then
      if q then do {
        ctx \<leftarrow> usnet_add_control_list (upd_tcb p (\<lambda>t. t\<lparr>tcb_state := TCPS_CLOSE_WAIT, rcv_nxt := rcv_nxt t + 1\<rparr>) d) p;
        usnet_raise_tcp_event ctx p }
      else usnet_enqueue_ack d p ACK_OPT_NOW else Some d)"
    if d: "at_conn p c0 {TCPS_CLOSED, TCPS_ESTABLISHED} d" for d f q
    by (intro post_if post_seq[OF add_control_list_open[OF at_fin[OF d]]] post_Some
        post_conseq[OF raise_event_at(6)[THEN wp_post]] post_conseq[OF enqueue_ack_at[THEN wp_post, OF d]])
      (auto elim: at_weaken intro: at_weaken[OF d])
  have rest: "post (at_conn p c0 ?S) (do {
      ctx \<leftarrow> (if length payload > 0 then do {
                (ctx, ret) \<leftarrow> usnet_process_tcp_payload c p payload seq;
                usnet_enqueue_ack ctx p (if ret = 0 then ACK_OPT_AGGREGATE else ACK_OPT_NOW)
              } else Some c);
      ctx \<leftarrow> (if th_flags tcph AND TH_ACK \<noteq> 0
              then ack_if_sndbuf ctx p tcph seq ack w (int (length payload)) else Some ctx);
      if th_flags tcph AND TH_FIN \<noteq> 0 then
        if seq = rcv_nxt (tcb_of ctx p) then do {
          ctx \<leftarrow> usnet_add_control_list
            (upd_tcb p (\<lambda>t. t\<lparr>tcb_state := TCPS_CLOSE_WAIT, rcv_nxt := rcv_nxt t + 1\<rparr>) ctx) p;
          usnet_raise_tcp_event ctx p
        }
        else usnet_enqueue_ack ctx p ACK_OPT_NOW
      else Some ctx })"
    by (rule post_seq[OF payload_ack_post[OF assms]],
        rule post_seq[of "at_conn p c0 {TCPS_CLOSED, TCPS_ESTABLISHED}"], intro post_if post_Some ack_if_sndbuf_post)
      (assumption | rule fin)+
  have syn: "post (at_conn p c0 ?S) (usnet_add_control_list (upd_tcb p (\<lambda>t. t\<lparr>snd_nxt := ack\<rparr>) c) p)"
    by (rule post_conseq[OF add_control_list_open[OF at_upd_nxt[OF assms]]]) (auto elim: at_weaken)
  show ?thesis
    unfolding usnet_handle_established_def
    by (rule post_settled_at[OF _ reach_sets(4)]) (intro post_if syn rest)
qed

lemma handle_close_wait_post:
  assumes "at_conn p c0 {TCPS_CLOSE_WAIT} c"
  shows "post (settled p c0 (reach TCPS_CLOSE_WAIT)) (usnet_handle_close_wait c p tcph seq ack n w)"
  unfolding usnet_handle_close_wait_def
  by (rule post_settled_at[where S = "{TCPS_CLOSE_WAIT}"])
    (auto intro!: post_if add_control_list_open ack_if_sndbuf_post assms)

lemma fin_wait_payload_post:
  "at_conn p c0 S c \<Longrightarrow> post (at_conn p c0 (insert TCPS_CLOSED S)) (fin_wait_payload c p payload seq)"
  unfolding fin_wait_payload_def by (rule payload_ack_post)

lemma handle_fin_wait1_post:
  assumes "at_conn p c0 {TCPS_FIN_WAIT_1} c"
  shows "post (settled p c0 (reach TCPS_FIN_WAIT_1)) (usnet_handle_fin_wait1 c p tcph seq ack payload w)"
proof -
  let ?S = "{TCPS_FIN_WAIT_1, TCPS_FIN_WAIT_2, TCPS_CLOSING, TCPS_TIME_WAIT, TCPS_CLOSED}"
  let ?W = "{TCPS_FIN_WAIT_1, TCPS_FIN_WAIT_2}"
  have acked: "post (at_conn p c0 ?W) (if b then do {
        let ctx = upd_snd p (\<lambda>s. s\<lparr>snd_una := ack\<rparr>) d;
        let ctx = (if q ctx then upd_tcb p (\<lambda>t. t\<lparr>snd_nxt := ack\<rparr>) ctx else ctx);
        let ctx = upd_snd p (\<lambda>s. s\<lparr>nrtx := 0\<rparr>) ctx;
        ctx \<leftarrow> usnet_remove_rto_list ctx p;
        Some (set_state p TCPS_FIN_WAIT_2 ctx) } else Some d)"
    if d: "at_conn p c0 {TCPS_FIN_WAIT_1} d" for d b q
    unfolding Let_def
    by (rule post_if, rule post_seq[of "at_conn p c0 {TCPS_FIN_WAIT_1}"], rule remove_rto_list_at[THEN wp_post])
      (auto intro!: post_Some at_upd_snd at_upd_nxt d at_weaken[OF d] at_weaken[OF at_set_state])
  have fin: "post (settled p c0 ?S) (if b then do {
        let ctx = upd_tcb p (\<lambda>t. t\<lparr>rcv_nxt := rcv_nxt t + 1\<rparr>) d;
        ctx \<leftarrow> (if tcb_state (tcb_of ctx p) = TCPS_FIN_WAIT_1 then Some (set_state p TCPS_CLOSING ctx)
                else if tcb_state (tcb_of ctx p) = TCPS_FIN_WAIT_2
                then usnet_add_timewait_list (set_state p TCPS_TIME_WAIT ctx) p
                else Some ctx);
        usnet_add_control_list ctx p } else Some d)"
    if d: "at_conn p c0 (insert TCPS_CLOSED ?W) d" for d b
    unfolding Let_def
    by (rule post_if, rule post_seq[of "at_conn p c0 ?S"], intro post_if post_Some,
        rule at_weaken[OF at_set_state[OF at_rcv_nxt[OF d]]], simp,
        rule post_conseq[OF add_timewait_list_post[OF at_set_state[OF at_rcv_nxt[OF d]]]], erule at_weaken, simp,
        rule at_weaken[OF at_rcv_nxt[OF d]], simp, erule add_control_list_settled,
        rule post_Some, rule at_settled[OF d], simp)
  have "post (settled p c0 ?S) (usnet_handle_fin_wait1 c p tcph seq ack payload w)"
    unfolding usnet_handle_fin_wait1_def
    apply (rule post_if)
     apply (rule post_settled_at[OF add_control_list_open[OF assms]], simp, simp)
    apply (rule post_if, rule post_Some, rule at_settled[OF assms], simp)
    by (rule post_seq[OF ack_if_sndbuf_post[OF assms]], rule post_seq[OF acked], assumption,
        rule post_seq[OF fin_wait_payload_post], assumption, rule fin)
  then show ?thesis by (rule post_conseq) (erule settled_weaken, rule reach_sets)
qed

lemma handle_closing_post:
  assumes "at_conn p c0 {TCPS_CLOSING} c"
  shows "post (settled p c0 (reach TCPS_CLOSING)) (usnet_handle_closing c p tcph seq ack n w)"
proof -
  let ?S = "{TCPS_CLOSING, TCPS_TIME_WAIT, TCPS_CLOSED}"
  have w: "at_conn p c0 {TCPS_CLOSING} x \<Longrightarrow> at_conn p c0 ?S x" for x by (erule at_weaken) simp
  have tw: "post (at_conn p c0 ?S) (do {
      ctx \<leftarrow> usnet_update_retransmission_timer d p;
      usnet_add_timewait_list (set_state p TCPS_TIME_WAIT ctx) p })" if "at_conn p c0 {TCPS_CLOSING} d" for d
    by (rule post_seq[OF update_retransmission_timer_post[OF that]],
        rule post_conseq[OF add_timewait_list_post[OF at_set_state]]) (auto elim: at_weaken)
  have "post (at_conn p c0 ?S) (usnet_handle_closing c p tcph seq ack n w)"
    unfolding usnet_handle_closing_def Let_def
    by (rule post_if, rule post_Some, rule w[OF assms], rule post_seq[OF ack_if_sndbuf_post[OF assms]],
        intro post_if post_Some w tw at_upd_nxt at_upd_snd) auto
  then show ?thesis by (rule post_settled_at) (rule reach_sets)
qed

lemma handle_last_ack_post:
  assumes "at_conn p c0 {TCPS_LAST_ACK} c"
  shows "post (settled p c0 (reach TCPS_LAST_ACK)) (usnet_handle_last_ack c p tcph seq ack n w)"
proof -
  let ?S = "{TCPS_LAST_ACK, TCPS_CLOSED}"
  have s: "at_conn p c0 {TCPS_LAST_ACK} x \<Longrightarrow> settled p c0 ?S x" for x by (erule at_settled) simp
  have ctl: "post (settled p c0 ?S) (usnet_add_control_list d p)" if "at_conn p c0 {TCPS_LAST_ACK} d" for d
    by (rule post_settled_at[OF add_control_list_open[OF that]]) simp_all
  have rel: "post (settled p c0 ?S) (do {
      ctx \<leftarrow> usnet_update_retransmission_timer d p;
      usnet_release_tcb (set_closed p TCPS_CLOSED TCP_PASSIVE_CLOSE ctx) p })" if "at_conn p c0 {TCPS_LAST_ACK} d" for d
    by (rule post_seq[OF update_retransmission_timer_post[OF that]],
        rule post_settled_gone[OF release_post[OF at_set_closed]]) auto
  have "post (settled p c0 ?S) (usnet_handle_last_ack c p tcph seq ack n w)"
    unfolding usnet_handle_last_ack_def Let_def
    by (rule post_if, rule post_Some, rule s[OF assms], rule post_if, rule ctl[OF assms],
        rule post_seq[OF ack_if_sndbuf_post[OF assms]], intro post_if post_Some s rel ctl at_upd_snd) auto
  then show ?thesis by (rule post_conseq) (erule settled_weaken, rule reach_sets)
qed

lemma handle_fin_wait2_post:
  assumes "at_conn p c0 {TCPS_FIN_WAIT_2} c"
  shows "post (settled p c0 (reach TCPS_FIN_WAIT_2)) (usnet_handle_fin_wait2 c p tcph seq ack payload w)"
proof -
  let ?S = "{TCPS_FIN_WAIT_2, TCPS_TIME_WAIT, TCPS_CLOSED}"
  have fin: "post (at_conn p c0 ?S) (do {
      ctx \<leftarrow> usnet_add_timewait_list (upd_tcb p (\<lambda>t. t\<lparr>tcb_state := TCPS_TIME_WAIT, rcv_nxt := rcv_nxt t + 1\<rparr>) d) p;
      usnet_add_control_list ctx p })" if "at_conn p c0 {TCPS_CLOSED, TCPS_FIN_WAIT_2} d" for d
    by (rule post_seq[OF add_timewait_list_post[OF at_fin[OF that]]],
        rule post_conseq[OF add_control_list_open[where S = "{TCPS_TIME_WAIT}"]]) (auto elim: at_weaken)
  have "post (at_conn p c0 ?S) (usnet_handle_fin_wait2 c p tcph seq ack payload w)"
    unfolding usnet_handle_fin_wait2_def Let_def
    by (rule post_if, rule post_Some, rule at_weaken[OF assms], simp, rule post_seq[OF ack_if_sndbuf_post[OF assms]],
        rule post_seq[OF fin_wait_payload_post], assumption, intro post_if post_Some fin) (auto elim: at_weaken)
  then show ?thesis by (rule post_settled_at) (rule reach_sets)
qed

lemma handle_time_wait_post:
  assumes "at_conn p c0 {TCPS_TIME_WAIT} c"
  shows "post (settled p c0 (reach TCPS_TIME_WAIT)) (usnet_handle_time_wait c p)"
  unfolding usnet_handle_time_wait_def
  by (rule post_settled_at[where S = "{TCPS_TIME_WAIT}"], rule post_seq[of "at_conn p c0 {TCPS_TIME_WAIT}"],
      intro post_if post_seq[OF remove_timewait_list_post[OF assms]] add_timewait_list_post post_Some assms)
    (auto intro: add_control_list_open)

section \<open>Segments\<close>

lemma at_exact: "at_conn p c0 S c \<Longrightarrow> at_conn p c0 {tcb_state (tcb_of c p)} c"
  by (simp add: at_conn_def)

lemma dispatch_post:
  assumes "at_conn p c0 {s} c"
  shows "post (settled p c0 (reach s)) (tcp_dispatch c p ip_src ip_dst tcph seq ack payload w)"
proof -
  have st: "tcb_state (tcb_of c p) = s" using assms by (simp add: at_conn_def)
  have "post (settled p c0 (reach TCPS_CLOSED)) (Some c)" if "s = TCPS_CLOSED"
    using assms that by (auto intro!: post_Some at_settled)
  then show ?thesis
    using assms handle_listen_post handle_syn_sent_post handle_syn_received_post handle_established_post
      handle_close_wait_post handle_fin_wait1_post handle_closing_post handle_last_ack_post
      handle_fin_wait2_post handle_time_wait_post
    by (cases s) (simp_all add: tcp_dispatch_def st)
qed

lemma dispatch_gone:
  "gone p c0 {TCPS_CLOSED} c \<Longrightarrow> tcp_dispatch c p ip_src ip_dst tcph seq ack payload w = Some c"
  by (simp add: gone_def tcp_dispatch_def)

lemma at_have_reset: "at_conn p c0 S c \<Longrightarrow> at_conn p c0 S (upd_tcb p (\<lambda>t. t\<lparr>have_reset := True\<rparr>) c)"
  and at_last_active: "at_conn p c0 S c \<Longrightarrow> at_conn p c0 S (upd_tcb p (\<lambda>t. t\<lparr>last_active_ts := x\<rparr>) c)"
  by (erule at_upd; auto simp: tcb_conn_def)+

lemma segment_post:
  assumes "at_conn p c0 {s} c"
  shows "post (\<lambda>x. settled p c0 (reach s) (fst x)) (tcp_segment c p ip_src ip_dst tcph payload)"
proof -
  let ?P = "\<lambda>x. settled p c0 (reach s) (fst x)"
  let ?Q = "\<lambda>d. settled p c0 (reach s) d \<and> (gone p c0 {TCPS_CLOSED} d \<or> at_conn p c0 (reach s) d)"
  have w: "at_conn p c0 {s} d \<Longrightarrow> ?Q d" for d
    using at_settled[of p c0 "{s}" d "reach s"] at_weaken[of p c0 "{s}" d "reach s"] by simp
  have disp: "post ?P (do { ctx \<leftarrow> tcp_dispatch d p ip_src ip_dst tcph seq ack payload v; Some (ctx, r) })"
    if "?Q d" for d seq ack v and r :: int
  proof (cases "gone p c0 {TCPS_CLOSED} d")
    case True
    then show ?thesis using that by (simp add: dispatch_gone post_Some)
  next
    case False
    let ?t = "tcb_state (tcb_of d p)"
    have a: "at_conn p c0 (reach s) d" using that False by blast
    then have t: "reach ?t \<subseteq> reach s" by (intro reach_mono) (simp add: at_conn_def)
    show ?thesis
      by (rule post_seq[OF dispatch_post[OF at_exact[OF a]]], rule post_Some) (simp add: settled_weaken[OF _ t])
  qed
  have rst: "post (\<lambda>x. ?Q (fst x)) (if b then do {
        let ctx = upd_tcb p (\<lambda>t. t\<lparr>have_reset := True\<rparr>) d;
        if tcb_state (tcb_of ctx p) > TCPS_SYN_SENT then do {
          (ctx, r) \<leftarrow> usnet_handle_rst ctx p ack; Some (ctx, r \<noteq> 0)
        } else Some (ctx, False) } else Some (d, False))" if d: "at_conn p c0 {s} d" for b d ack
    unfolding Let_def
    by (intro post_if post_seq[OF handle_rst_post[OF at_have_reset[OF d]]])
      (use w[OF d] w[OF at_have_reset[OF d]] in \<open>auto simp: post_Some\<close>)
  have val: "post (\<lambda>x. at_conn p c0 {s} (fst x)) (if tcb_state (tcb_of c p) \<ge> TCPS_SYN_RECEIVED
      then usnet_validate_seq c p tcph seq n else Some (c, 0))" for seq n
    using assms by (intro post_if validate_seq_post[OF assms]) (auto simp: post_Some at_conn_def state_order)
  show ?thesis
    unfolding tcp_segment_def
    apply (subst (1 2 3) Let_def)
    apply (rule post_seq[OF val], unfold split_beta)
    apply (rule post_if, rule post_Some, simp add: at_settled)
    apply (rule post_if, rule post_None)
    apply (subst (1 2) Let_def)
    apply (rule post_seq[OF update_timerlist_at[THEN wp_post, OF at_last_active[OF at_upd_snd]]], assumption, simp)
    apply (rule post_seq[OF rst[unfolded split_beta]], assumption)
    apply (rule post_if, simp add: post_Some)
    by (rule disp)
qed

end
