(* ===== verification/Tcp_Input.thy ===== *)
theory Tcp_Input
  imports Tcp_Machine Setup
begin

text \<open>
  Segment input as a whole: option parsing and passive opening put a connection in a free slot of the table,
  and \<^verbatim>\<open>usnet_tcp_input\<close> keeps the invariant of the stack and touches one connection only.
\<close>

section \<open>Options\<close>

lemma tcpopt_step_at:
  "at_conn p c0 S c \<Longrightarrow> tcpopt_step c p o' len i = Some (c', r) \<Longrightarrow> at_conn p c0 S c'"
  unfolding tcpopt_step_def Let_def
  by (auto simp: bind_eq_Some_conv split: if_splits
      intro!: at_upd_snd at_upd_rcv elim!: at_upd simp: tcb_conn_def)

lemma parse_tcpopts_at:
  assumes "usnet_parse_tcpopts c p o' len i = Some c'" "at_conn p c0 S c"
  shows "at_conn p c0 S c'"
proof -
  let ?P = "\<lambda>c p (_ :: byte list) (_ :: int) (_ :: int) c'. \<forall>c0 S. at_conn p c0 S c \<longrightarrow> at_conn p c0 S c'"
  have "?P c p o' len i c'"
  proof (rule usnet_parse_tcpopts.raw_induct[of ?P, OF _ assms(1)], intro allI impI, goal_cases)
    case (1 rec c p o' len i c' c0 S)
    note IH = 1(1)[rule_format]
    show ?case
    proof (cases "i < len")
      case True
      then obtain d r where d: "tcpopt_step c p o' len i = Some (d, r)"
          "(case r of None \<Rightarrow> Some d | Some i \<Rightarrow> rec d p o' len i) = Some c'"
        using 1(2) by (auto simp: bind_eq_Some_conv)
      have "at_conn p c0 S d" using tcpopt_step_at[OF 1(3) d(1)] .
      then show ?thesis using d(2) IH by (cases r) auto
    next
      case False
      then show ?thesis using 1(2,3) by simp
    qed
  qed
  then show ?thesis using assms(2) by blast
qed

section \<open>New connections\<close>

text \<open>A slot outside the table of live connections carries no flag, so a control block may enter it.\<close>

lemma dead_slot:
  assumes "ctx_ok c" "\<not> live c p"
  shows "\<forall>i. p \<notin> set (rto_list c i)" "\<not> on_control_list (snd_of c p)" "\<not> on_send_list (snd_of c p)"
    "\<not> on_ack_list (snd_of c p)" "\<not> on_timeout_list (tcb_of c p)" "\<not> on_timewait_list (tcb_of c p)"
proof -
  have "p \<notin> queued c" "lists_ok c" using assms by (auto simp: ctx_ok_def)
  then show "\<forall>i. p \<notin> set (rto_list c i)" "\<not> on_control_list (snd_of c p)" "\<not> on_send_list (snd_of c p)"
    "\<not> on_ack_list (snd_of c p)" "\<not> on_timeout_list (tcb_of c p)" "\<not> on_timewait_list (tcb_of c p)"
    by (auto simp: queued_def lists_ok_def q_ok_def)
qed

definition off_queues :: "usn_tcb \<Rightarrow> bool" where
  "off_queues t \<longleftrightarrow> \<not> on_control_list (sndvar t) \<and> \<not> on_send_list (sndvar t) \<and> \<not> on_ack_list (sndvar t) \<and>
     \<not> on_timeout_list t \<and> \<not> on_timewait_list t \<and> (on_rto_idx t < 0 \<or> tcb_conn t = (0, 0, 0, 0))"

text \<open>\<open>only_slot p t c d\<close>: from \<open>c\<close> to \<open>d\<close> slot \<open>p\<close> of the connection table now holds \<open>t\<close>, and pools, buffers
  and frames may have changed; the other slots, the queues, the event queue and the time-out have not.\<close>

definition only_slot :: "nat \<Rightarrow> usn_tcb \<Rightarrow> usn_context \<Rightarrow> usn_context \<Rightarrow> bool" where
  "only_slot p t c d \<longleftrightarrow>
     tcb_cache d = (tcb_cache c)\<lparr>hb_cache := (hb_cache (tcb_cache c))(p := t)\<rparr> \<and>
     control_list d = control_list c \<and> control_list_cnt d = control_list_cnt c \<and>
     send_list d = send_list c \<and> send_list_cnt d = send_list_cnt c \<and>
     ack_list d = ack_list c \<and> ack_list_cnt d = ack_list_cnt c \<and>
     timeout_list d = timeout_list c \<and> timeout_list_cnt d = timeout_list_cnt c \<and>
     timewait_list d = timewait_list c \<and> timewait_list_cnt d = timewait_list_cnt c \<and>
     rto_list d = rto_list c \<and> rto_list_cnt d = rto_list_cnt c \<and>
     ev_net2app_mq d = ev_net2app_mq c \<and> tcp_timeout d = tcp_timeout c \<and> listen_tcb d = listen_tcb c"

lemma only_slot_tcb: "only_slot p t c d \<Longrightarrow> tcb_of d q = (if q = p then t else tcb_of c q)"
  by (simp add: only_slot_def tcb_of_def)

lemma only_slot_ok:
  assumes c: "ctx_ok c" "\<not> live c p" and d: "only_slot p t c d" and t: "off_queues t" and w: "tcb_table (tcb_cache d)"
  shows "ctx_ok d"
proof -
  have ok: "lists_ok c" using c(1) by (simp add: ctx_ok_def)
  note o = only_slot_tcb[OF d]
  have r: "rto_list d = rto_list c" "rto_list_cnt d = rto_list_cnt c" using d by (simp_all add: only_slot_def)
  have "rto_ok d"
    using lists_ok_rto[OF ok] t dead_slot(1)[OF c] unfolding rto_ok_def live_def off_queues_def r o by auto
  then have "lists_ok d"
    using t dead_slot[OF c] d by (intro lists_okI[OF ok]) (auto simp: off_queues_def only_slot_def o)
  moreover have "queued d = queued c" using d by (simp add: only_slot_def queued_def)
  moreover have "live d q" if "q \<in> queued c" for q
    using that c o[of q] by (auto simp: live_def ctx_ok_def)
  ultimately show ?thesis using c(1) w d by (simp add: ctx_ok_def only_slot_def)
qed

text \<open>A control block that has just been put in a free slot under a key that was absent.\<close>

lemma insert_slot:
  assumes c: "ctx_ok c" and k: "tcb_conn s \<noteq> (0, 0, 0, 0)" "usnet_cache_search (tcb_cache c) s = None"
    and ins: "usnet_cache_insert (tcb_cache c) s = (base, Some p)"
  shows "\<not> live c p" "base = (tcb_cache c)\<lparr>hb_cache := (hb_cache (tcb_cache c))(p := s)\<rparr>"
    "tcb_conn t = tcb_conn s \<Longrightarrow> tcb_table (base\<lparr>hb_cache := (hb_cache base)(p := t)\<rparr>)"
    "tcb_table (base\<lparr>hb_cache := (hb_cache base)(p := usnet_tcb_setempty t)\<rparr>)"
proof -
  have w: "tcbs.fns (tcb_cache c)" "tcbs.wf (tcb_cache c)" using c by (simp_all add: ctx_ok_def tcb_table_def)
  show b: "base = (tcb_cache c)\<lparr>hb_cache := (hb_cache (tcb_cache c))(p := s)\<rparr>"
    using ins by (auto simp: tcbs.insert_get split: option.splits)
  show "\<not> live c p"
    using ins tcbs.get_slot[OF w(1), of s p] by (auto simp: live_def tcb_of_def tcbs.insert_get split: option.splits)
  have tb: "tcb_table base" using tcbs.insert_wf[OF w k ins] by (simp add: tcb_table_def)
  then show t: "tcb_conn t = tcb_conn s \<Longrightarrow> tcb_table (base\<lparr>hb_cache := (hb_cache base)(p := t)\<rparr>)" for t
    by (rule table_change) (simp add: b)
  let ?b = "base\<lparr>hb_cache := (hb_cache base)(p := t\<lparr>saddr := saddr s, sport := sport s, daddr := daddr s, dport := dport s\<rparr>)\<rparr>"
  have "tcb_table ?b" by (rule t) (simp add: tcb_conn_def)
  then have "tcb_table (fst (usnet_cache_remove ?b (Some p)))"
    using tcbs.remove_wf[of ?b "Some p"] by (simp add: tcb_table_def usnet_cache_remove_def)
  moreover have "hb_setemptyfn base = usnet_tcb_setempty" using tb by (simp add: tcb_table_def cache_fns_def)
  ultimately show "tcb_table (base\<lparr>hb_cache := (hb_cache base)(p := usnet_tcb_setempty t)\<rparr>)"
    by (simp add: usnet_cache_remove_def usnet_tcb_setempty_def)
qed

text \<open>\<open>kept c d\<close>: the invariant holds in \<open>d\<close>, no connection that was live in \<open>c\<close> has changed, and a connection
  that is new is in its first state.\<close>

definition kept :: "usn_context \<Rightarrow> usn_context \<Rightarrow> bool" where
  "kept c d \<longleftrightarrow> ctx_ok d \<and> (0 < tcp_timeout c \<longrightarrow> 0 < tcp_timeout d) \<and> listen_tcb d = listen_tcb c \<and>
     (\<forall>q. live c q \<longrightarrow> tcb_of d q = tcb_of c q) \<and>
     (\<forall>q. live d q \<longrightarrow> live c q \<or> tcb_state (tcb_of d q) = TCPS_LISTEN)"

definition opened :: "usn_tcb \<Rightarrow> usn_context \<Rightarrow> usn_context \<times> nat option \<Rightarrow> bool" where
  "opened key c x \<longleftrightarrow> kept c (fst x) \<and>
     (\<forall>p. snd x = Some p \<longrightarrow> \<not> live c p \<and> live (fst x) p \<and> tcb_conn (tcb_of (fst x) p) = tcb_conn key \<and>
        tcb_state (tcb_of (fst x) p) = TCPS_LISTEN \<and> (\<forall>q. q \<noteq> p \<longrightarrow> tcb_of (fst x) q = tcb_of c q))"

lemma only_slot_kept:
  assumes c: "ctx_ok c" "\<not> live c p" and d: "only_slot p t c d" and t: "off_queues t" "tcb_conn t = (0, 0, 0, 0) \<or> tcb_state t = TCPS_LISTEN"
    and w: "tcb_table (tcb_cache d)"
  shows "kept c d"
  using only_slot_ok[OF c d t(1) w] only_slot_tcb[OF d] d c(2) t(2) by (auto simp: kept_def only_slot_def live_def)

lemma init_newtcb_post:
  assumes c: "ctx_ok c"
    and key: "key = zero_tcb\<lparr>saddr := sa, sport := sp, daddr := da, dport := dp\<rparr>" "tcb_conn key \<noteq> (0, 0, 0, 0)"
      "usnet_cache_search (tcb_cache c) key = None"
  shows "post (opened key c) (usnet_init_newtcb c None type sa sp da dp)"
proof -
  have fl: "off_queues (fresh_tcb x0 (key\<lparr>tcb_fd := fd\<rparr>) type r a b)" "off_queues (usnet_tcb_setempty (key\<lparr>tcb_fd := fd\<rparr>))"
    "tcb_conn (fresh_tcb x0 (key\<lparr>tcb_fd := fd\<rparr>) type r a b) = tcb_conn key"
    "tcb_state (fresh_tcb x0 (key\<lparr>tcb_fd := fd\<rparr>) type r a b) = TCPS_LISTEN"
    "tcb_conn (usnet_tcb_setempty (key\<lparr>tcb_fd := fd\<rparr>)) = (0, 0, 0, 0)" for fd r a b x0
    by (simp_all add: off_queues_def fresh_tcb_def key(1) zero_tcb_def zero_sndvars_def tcb_conn_def usnet_tcb_setempty_def)
  obtain base r where ins: "usnet_cache_insert (tcb_cache c) key = (base, r)" by fastforce
  show ?thesis
  proof (cases r)
    case None
    then show ?thesis using c ins
      by (simp add: usnet_init_newtcb_def key(1)[symmetric] post_Some opened_def kept_def)
  next
    case (Some p)
    note sl = insert_slot[OF c key(2,3) ins[unfolded Some]]
    have em: "hb_setemptyfn (tcb_cache c) = usnet_tcb_setempty"
      using c by (simp add: ctx_ok_def tcb_table_def cache_fns_def)
    have fail: "opened key c (d, None)" if "only_slot p (usnet_tcb_setempty (key\<lparr>tcb_fd := fd\<rparr>)) c d" for d fd
      using only_slot_kept[OF c sl(1) that fl(2) disjI1[OF fl(5)]] sl(4)[of "key\<lparr>tcb_fd := fd\<rparr>"] that
      by (simp add: opened_def only_slot_def sl(2))
    have succ: "opened key c (d, Some p)" if "only_slot p (fresh_tcb x0 (key\<lparr>tcb_fd := fd\<rparr>) type x a b) c d" for d fd x a b x0
      using only_slot_kept[OF c sl(1) that fl(1) disjI2[OF fl(4)]] sl(3)[OF fl(3)[of x0 fd x a b]] that only_slot_tcb[OF that] fl(3,4) key(2) sl(1)
      by (simp add: opened_def only_slot_def sl(2) live_def)
    have any: "(\<And>x. post P (f x)) \<Longrightarrow> post P (Option.bind m f)" for P :: "usn_context \<times> nat option \<Rightarrow> bool"
        and f :: "usn_mempool \<times> nat option \<Rightarrow> (usn_context \<times> nat option) option" and m
      by (rule post_seq[of "\<lambda>_. True"]) (auto simp: post_def)
    show ?thesis
    proof (cases "listen_tcb c")
      case None
      then show ?thesis by (simp add: usnet_init_newtcb_def key(1)[symmetric] ins Some)
    next
      case l: (Some l)
      let ?fd = "tcb_fd (tcb_of (c\<lparr>tcb_cache := base\<rparr>) l)"
      show ?thesis
        unfolding usnet_init_newtcb_def key(1)[symmetric] Let_def ins Some
        by (simp only: split_beta fst_conv snd_conv option.case l, intro any post_None post_Some post_case_option post_case_prod)
          (rule fail[of ?fd] succ[of "TCP_INITIAL_RTO c" ?fd],
            simp add: only_slot_def upd_tcb_def usnet_cache_remove_def em sl(2) tcb_of_def TCP_INITIAL_RTO_def TIME_TICK_def)+
    qed
  qed
qed

lemma opened_at: "opened key c (d, Some p) \<Longrightarrow> 0 < tcp_timeout c \<Longrightarrow> at_conn p d {TCPS_LISTEN} d"
  by (simp add: opened_def kept_def at_conn_def)

lemma at_opened:
  assumes "opened key c (d, Some p)" "at_conn p d {TCPS_LISTEN} e"
  shows "opened key c (e, Some p)"
proof -
  have "tcb_of e q = tcb_of c q" if "q \<noteq> p" for q using that assms by (simp add: at_conn_def opened_def)
  moreover from this have "tcb_of e q = tcb_of c q" if "live c q" for q
    using that assms(1) by (cases "q = p") (simp_all add: opened_def)
  moreover have "tcb_conn (tcb_of e p) = tcb_conn key"
    using assms by (simp add: at_conn_def opened_def)
  moreover have "live c q \<or> tcb_state (tcb_of e q) = TCPS_LISTEN" if "live e q" for q
    using that assms by (cases "q = p") (simp_all add: opened_def at_conn_def live_def)
  ultimately show ?thesis using assms unfolding opened_def kept_def at_conn_def by simp
qed

lemma create_tcb_post:
  assumes c: "ctx_ok c" "0 < tcp_timeout c"
    and key: "key = zero_tcb\<lparr>saddr := ip_dst, sport := th_dport tcph, daddr := ip_src, dport := th_sport tcph\<rparr>"
      "tcb_conn key \<noteq> (0, 0, 0, 0)" "usnet_cache_search (tcb_cache c) key = None"
  shows "post (opened key c) (usnet_create_tcb c ip_src ip_dst tcph seq window)"
proof -
  have opts: "post (opened key c) (do {
      ctx \<leftarrow> usnet_parse_tcpopts (upd_snd p (\<lambda>s. s\<lparr>cwnd := 1\<rparr>) (upd_tcb p (\<lambda>t. t\<lparr>rcv_nxt := irs (rcvvar t)\<rparr>)
        (upd_snd p (\<lambda>s. s\<lparr>peer_wnd := ucast window\<rparr>) (upd_rcv p (\<lambda>r. r\<lparr>irs := seq\<rparr>) d)))) p o' len 0;
      Some (ctx, Some p) })" if "opened key c (d, Some p)" for d p o' len
  proof -
    note a = opened_at[OF that c(2)]
    show ?thesis
      by (auto simp: post_def bind_eq_Some_conv intro!: at_opened[OF that] elim!: parse_tcpopts_at
          intro!: at_upd_snd at_upd[OF at_upd_snd[OF at_upd_rcv[OF a]]] simp: tcb_conn_def)
  qed
  show ?thesis
    unfolding usnet_create_tcb_def Let_def
    by (rule post_seq[OF init_newtcb_post[OF c(1) key]]) (auto intro!: post_rules opts)
qed

lemma kept_frames: "kept c d \<Longrightarrow> kept c (d\<lparr>tx_frames := a\<rparr>)"
  using same_queues_ok[of d "d\<lparr>tx_frames := a\<rparr>"]
  by (auto simp: kept_def ctx_ok_def same_queues_def queued_def live_def tcb_of_def)

lemma reply_opened:
  assumes "kept c d"
  shows "post (opened key c) (do { ctx \<leftarrow> send_reply d ip_src ip_dst tcph seq ack flags; Some (ctx, None) })"
  by (rule post_seq[OF send_reply_frames[of "kept c", THEN wp_post]])
    (auto simp: assms kept_frames opened_def intro: post_Some)

lemma passive_open_post:
  assumes c: "ctx_ok c" "0 < tcp_timeout c"
    and key: "key = zero_tcb\<lparr>saddr := ip_dst, sport := th_dport tcph, daddr := ip_src, dport := th_sport tcph\<rparr>"
      "tcb_conn key \<noteq> (0, 0, 0, 0)" "usnet_cache_search (tcb_cache c) key = None"
  shows "post (opened key c) (usnet_handle_passive_open c ip_src ip_dst tcph seq ack n window)"
proof -
  have k: "kept c c" using c by (simp add: kept_def)
  show ?thesis
    unfolding usnet_handle_passive_open_def Let_def
    by (intro post_if reply_opened[OF k] post_seq[OF create_tcb_post[OF c key]])
      (auto intro!: post_rules reply_opened simp: opened_def k)
qed

text \<open>A segment for the connection in slot \<open>p\<close>.\<close>

lemma segment_kept:
  assumes "ctx_ok c" "0 < tcp_timeout c" "live c p"
  shows "post (\<lambda>(d, _). ctx_ok d \<and> 0 < tcp_timeout d \<and> listen_tcb d = listen_tcb c \<and>
      (\<forall>q. q \<noteq> p \<longrightarrow> tcb_of d q = tcb_of c q) \<and> tcb_state (tcb_of d p) \<in> reach (tcb_state (tcb_of c p)))
    (tcp_segment c p ip_src ip_dst tcph payload)"
  by (rule post_conseq[OF segment_post[where c0 = c and s = "tcb_state (tcb_of c p)"]])
    (use assms in \<open>auto simp: at_conn_def settled_def gone_def\<close>)

text \<open>Connections move along the state machine, and new ones start in LISTEN.\<close>

definition follows :: "usn_context \<Rightarrow> usn_context \<Rightarrow> bool" where
  "follows c d \<longleftrightarrow>
     (\<forall>q. live d q \<longrightarrow> tcb_state (tcb_of d q) \<in> reach (if live c q then tcb_state (tcb_of c q) else TCPS_LISTEN))"

lemma kept_follows: "kept c d \<Longrightarrow> follows c d"
  by (auto simp: kept_def follows_def)

lemma segment_follows:
  assumes "follows c d" "live d p" "\<forall>q. q \<noteq> p \<longrightarrow> tcb_of e q = tcb_of d q"
    "tcb_state (tcb_of e p) \<in> reach (tcb_state (tcb_of d p))"
  shows "follows c e"
  unfolding follows_def
proof (intro allI impI)
  fix q
  assume "live e q"
  then show "tcb_state (tcb_of e q) \<in> reach (if live c q then tcb_state (tcb_of c q) else TCPS_LISTEN)"
    using assms reach_trans by (cases "q = p") (auto simp: follows_def live_def)
qed

definition input_kept :: "usn_context \<Rightarrow> u32 \<Rightarrow> u32 \<Rightarrow> usn_context \<Rightarrow> bool" where
  "input_kept c ip_src ip_dst d \<longleftrightarrow> ctx_ok d \<and> 0 < tcp_timeout d \<and> listen_tcb d = listen_tcb c \<and> follows c d \<and>
     (\<exists>p. \<forall>q. live c q \<longrightarrow> q \<noteq> p \<or> saddr (tcb_of c q) \<noteq> ip_dst \<or> daddr (tcb_of c q) \<noteq> ip_src \<longrightarrow> tcb_of d q = tcb_of c q)"

lemma tcp_input_post:
  assumes c: "ctx_ok c" "0 < tcp_timeout c" and ip: "ip_src \<noteq> 0"
  shows "post (\<lambda>x. input_kept c ip_src ip_dst (fst x)) (usnet_tcp_input c m iph hl iplen ip_src ip_dst)"
proof -
  have self: "kept c d \<Longrightarrow> input_kept c ip_src ip_dst d" for d
    using c kept_follows by (simp add: input_kept_def kept_def)
  have k: "kept c c" using c by (simp add: kept_def)
  define key where "key t = zero_tcb\<lparr>saddr := ip_dst, sport := th_dport t, daddr := ip_src, dport := th_sport t\<rparr>" for t :: usn_tcphdr
  have kt: "tcb_conn (key t) \<noteq> (0, 0, 0, 0)" "tcb_conn (key t) = (ip_dst, ip_src, th_dport t, th_sport t)" for t
    using ip by (simp_all add: key_def tcb_conn_def)
  have w: "tcbs.fns (tcb_cache c)" "tcbs.wf (tcb_cache c)" using c by (simp_all add: ctx_ok_def tcb_table_def)
  have old: "post (\<lambda>x. input_kept c ip_src ip_dst (fst x)) (tcp_segment c p ip_src ip_dst t payload)"
    if "usnet_cache_search (tcb_cache c) (key t) = Some p" for p t payload
  proof -
    have "tcb_conn (tcb_of c p) = tcb_conn (key t)" using that tcbs.search_iff[OF w kt(1)] by (simp add: tcb_of_def)
    then have p: "live c p" "saddr (tcb_of c p) = ip_dst" "daddr (tcb_of c p) = ip_src"
      using kt(1) by (simp_all add: live_def kt(2)) (simp_all add: tcb_conn_def)
    show ?thesis by (rule post_conseq[OF segment_kept[OF c p(1)]]) (use p in \<open>auto simp: input_kept_def intro!: exI[of _ p] intro: segment_follows[OF kept_follows[OF k] p(1)]\<close>)
  qed
  have new: "post (\<lambda>x. input_kept c ip_src ip_dst (fst x)) (tcp_segment d p ip_src ip_dst t payload)"
    if d: "opened (key t) c (d, Some p)" for d p t payload
  proof -
    have kd: "kept c d" and p: "\<not> live c p" "live d p" and o: "\<forall>q. q \<noteq> p \<longrightarrow> tcb_of d q = tcb_of c q"
      using d by (simp_all add: opened_def)
    have cd: "ctx_ok d" "0 < tcp_timeout d" "listen_tcb d = listen_tcb c" using kd c by (simp_all add: kept_def)
    have "input_kept c ip_src ip_dst e" if e: "ctx_ok e" "0 < tcp_timeout e" "listen_tcb e = listen_tcb d"
      "\<forall>q. q \<noteq> p \<longrightarrow> tcb_of e q = tcb_of d q" "tcb_state (tcb_of e p) \<in> reach (tcb_state (tcb_of d p))" for e
    proof -
      have "tcb_of e q = tcb_of c q" if "live c q" for q using that e(4) o p(1) by (cases "q = p") simp_all
      then show ?thesis using e cd(3) segment_follows[OF kept_follows[OF kd] p(2) e(4,5)] by (simp add: input_kept_def)
    qed
    then show ?thesis by (intro post_conseq[OF segment_kept[OF cd(1,2) p(2)]]) auto
  qed
  have seg: "post (\<lambda>x. input_kept c ip_src ip_dst (fst x)) (do {
      (ctx, r) \<leftarrow> (case usnet_cache_search (tcb_cache c) (key t) of
          Some p \<Rightarrow> Some (c, Some p)
        | None \<Rightarrow> usnet_handle_passive_open c ip_src ip_dst t (htonl (th_seq t)) (htonl (th_ack t))
            (length payload) (htons (th_win t)));
      case r of None \<Rightarrow> Some (ctx, 0) | Some p \<Rightarrow> tcp_segment ctx p ip_src ip_dst t payload })" for t payload
  proof (cases "usnet_cache_search (tcb_cache c) (key t)")
    case None
    then show ?thesis
      by (simp, intro post_seq[OF passive_open_post[OF c key_def kt(1) None]])
        (auto intro!: post_rules new self simp: opened_def)
  next
    case (Some p)
    then show ?thesis using old by simp
  qed
  have any: "(\<And>x. post P (f x)) \<Longrightarrow> post P (Option.bind m f)" for P :: "usn_context \<times> int \<Rightarrow> bool"
      and f :: "'z \<Rightarrow> (usn_context \<times> int) option" and m
    by (rule post_seq[of "\<lambda>_. True"]) (auto simp: post_def)
  show ?thesis
    unfolding usnet_tcp_input_def key_def[symmetric]
    by (subst (1) Let_def, rule post_if, rule post_None, rule any, subst (1 2) Let_def, rule post_if, rule post_Some,
        simp add: self k, rule any, rule post_if, rule post_Some, simp add: self k, subst (1 2) Let_def, rule seg)
qed

section \<open>Correctness of segment input\<close>

lemma conn_context_ctx_ok:
  assumes "\<not> usnet_tcb_isempty tcb" "unqueued tcb"
  shows "\<exists>p. ctx_ok (conn_context tcb) \<and> 0 < tcp_timeout (conn_context tcb) \<and> live (conn_context tcb) p \<and>
    tcb_of (conn_context tcb) p = tcb \<and> ev_net2app_mq (conn_context tcb) = mq_new 1024"
proof -
  obtain p where p: "conn_context tcb = upd_tcb p (\<lambda>_. tcb) fresh_context" "tcb_table (tcb_cache (conn_context tcb))"
      "lists_ok (conn_context tcb)" "tcb_of (conn_context tcb) p = tcb" "live (conn_context tcb) p"
      "\<forall>q. q \<noteq> p \<longrightarrow> tcb_of (conn_context tcb) q = zero_tcb"
    using conn_context_ok[OF assms] by auto
  have mq: "ev_net2app_mq (conn_context tcb) = mq_new 1024" "tcp_timeout (conn_context tcb) = 120"
    "rto_list (conn_context tcb) = (\<lambda>_. [])"
    using fresh_context_fresh by (simp_all add: p(1) ctx_fresh_def)
  have "live (conn_context tcb) q" if "q \<in> queued (conn_context tcb)" for q
  proof -
    have "q \<notin> queued (conn_context tcb)" if "q \<noteq> p"
      using p(3) p(6)[rule_format, OF that] mq(3)
      by (auto simp: queued_def lists_ok_def q_ok_def zero_tcb_def zero_sndvars_def)
    then show ?thesis using that p(5) by metis
  qed
  then show ?thesis using p mq mq_new_holds(2)[of 1024] by (intro exI[of _ p]) (simp add: ctx_ok_def)
qed

text \<open>C3. A segment takes its connection along the TCP state machine: the state it leaves the connection in
  is reached by transitions of \<open>tcp_step\<close>. The invariant of the stack holds afterwards, the connection
  is either still in its slot or has been emptied and is on no queue, and no other connection has changed.\<close>

theorem tcp_segment_refines:
  assumes "ctx_ok c" "0 < tcp_timeout c" "live c p" "tcp_segment c p ip_src ip_dst tcph payload = Some (d, r)"
  shows "tcp_step\<^sup>*\<^sup>* (tcb_state (tcb_of c p)) (tcb_state (tcb_of d p)) \<and> ctx_ok d \<and>
    (tcb_conn (tcb_of d p) = tcb_conn (tcb_of c p) \<or> usnet_tcb_isempty (tcb_of d p) \<and> unqueued (tcb_of d p)) \<and>
    (\<forall>q. q \<noteq> p \<longrightarrow> tcb_of d q = tcb_of c q)"
proof -
  have "at_conn p c {tcb_state (tcb_of c p)} c" using assms by (simp add: at_conn_def)
  from segment_post[OF this] have "settled p c (reach (tcb_state (tcb_of c p))) d"
    using assms(4) by (fastforce simp: post_def)
  then show ?thesis unfolding settled_def at_conn_def gone_def reach_def by blast
qed

text \<open>C2. Whatever bytes arrive in a TCP segment from a non-zero address, processing them keeps the invariant
  of the stack (consistent queues of live connections, a well-formed connection table, an intact event
  queue), keeps the listening connection, changes at most one of the connections that existed, which is
  one between the two addresses of the packet, and moves it along the TCP state machine; a connection that is
  new has come from LISTEN.\<close>

theorem tcp_input_invariant:
  assumes "ctx_ok c" "0 < tcp_timeout c" "ip_src \<noteq> 0" "usnet_tcp_input c m iph hl iplen ip_src ip_dst = Some (d, r)"
  shows "ctx_ok d \<and> 0 < tcp_timeout d \<and> listen_tcb d = listen_tcb c \<and>
    (\<exists>p. \<forall>q. live c q \<longrightarrow> q \<noteq> p \<or> saddr (tcb_of c q) \<noteq> ip_dst \<or> daddr (tcb_of c q) \<noteq> ip_src \<longrightarrow>
      tcb_of d q = tcb_of c q) \<and>
    (\<forall>q. live d q \<longrightarrow> tcp_step\<^sup>*\<^sup>* (if live c q then tcb_state (tcb_of c q) else TCPS_LISTEN) (tcb_state (tcb_of d q)))"
  using tcp_input_post[OF assms(1-3), of ip_dst m iph hl iplen] assms(4) by (simp add: post_def input_kept_def follows_def reach_def)

section \<open>The handshake\<close>

lemma n2a_enqueue_messages:
  assumes "mq_ok (ev_net2app_mq c)" "length ev \<le> 64"
  shows "\<exists>q. n2a_enqueue c ev flow = Some (c\<lparr>ev_net2app_mq := q\<rparr>) \<and> mq_ok q \<and>
    mq_messages q = mq_messages (ev_net2app_mq c) @
      (if length ev + C_HEAD_SIZE \<le> mq_room (ev_net2app_mq c) then [(flow, ev)] else [])"
proof (cases "length ev + C_HEAD_SIZE < length (mq_block (ev_net2app_mq c)) - mq_used (ev_net2app_mq c)")
  case True
  then show ?thesis
    using enqueue_holds[OF assms(1)[unfolded mq_ok_def] True, of 0 flow] holds_messages
    by (fastforce simp: n2a_enqueue_def mq_ok_def mq_room_def)
next
  case False
  let ?mq = "ev_net2app_mq c"
  let ?m = "?mq\<lparr>mq_count := mq_count ?mq + 1\<rparr>"
  have h: "mq_holds ?m (mq_messages ?mq)" using assms(1) by (simp add: mq_ok_def mq_holds_def)
  then have "usnet_write_mq ?m ev flow = Some (?m, - 1)"
    using False assms(2) by (intro write_mq_full) (auto simp: mq_holds_def)
  then show ?thesis
    using h holds_messages[OF h] False by (auto simp: n2a_enqueue_def usnet_shmmq_enqueue_def mq_ok_def mq_room_def)
qed

lemma update_timerlist_Some:
  assumes "lists_ok c"
  shows "\<exists>l. usnet_update_timerlist c p = Some (c\<lparr>timeout_list := l\<rparr>)"
proof -
  obtain d where d: "usnet_update_timeout_list c p = Some d" using update_timeout_list_ok[OF assms] by blast
  show ?thesis
  proof (cases "on_timeout_list (tcb_of c p)")
    case True
    then obtain l where "d = c\<lparr>timeout_list := l\<rparr>"
      using d by (auto simp: usnet_update_timeout_list_def bind_eq_Some_conv)
    then show ?thesis using d update_timerlist_eq by metis
  next
    case False
    then show ?thesis
      by (intro exI[of _ "timeout_list c"]) (simp add: update_timerlist_eq usnet_update_timeout_list_def)
  qed
qed

text \<open>C14. A SYN for a connection that has just been opened: the segment is processed, the connection is in
  SYN-RECEIVED and expects the byte after the SYN, the peer's window is the one of the segment, and the
  application is told by one connect event carrying the four addresses and ports; the event is lost when the
  event queue has no room for it.\<close>

theorem listen_syn_segment:
  assumes c: "ctx_ok c" "0 < tcp_timeout c" "live c p" "tcb_state (tcb_of c p) = TCPS_LISTEN"
      "sndvar_at (tcb_of c p) \<noteq> None"
    and f: "th_flags tcph AND TH_SYN \<noteq> 0" "th_flags tcph AND TH_RST = 0"
  shows "\<exists>d. tcp_segment c p ip_src ip_dst tcph payload = Some (d, 0) \<and> ctx_ok d \<and>
    tcb_state (tcb_of d p) = TCPS_SYN_RECEIVED \<and> rcv_nxt (tcb_of d p) = rcv_nxt (tcb_of c p) + 1 \<and>
    peer_wnd (snd_of d p) = ucast (htons (th_win tcph)) \<and> (\<forall>q. q \<noteq> p \<longrightarrow> tcb_of d q = tcb_of c q) \<and>
    mq_messages (ev_net2app_mq d) = mq_messages (ev_net2app_mq c) @
      (if 28 + C_HEAD_SIZE \<le> mq_room (ev_net2app_mq c)
       then [(tcb_fd (tcb_of c p), usn_connect_ev (tcb_fd (tcb_of c p)) (saddr (tcb_of c p)) (sport (tcb_of c p))
               (daddr (tcb_of c p)) (dport (tcb_of c p)) 0)] else [])"
proof -
  let ?t = "tcb_of c p"
  let ?ev = "usn_connect_ev (tcb_fd ?t) (saddr ?t) (sport ?t) (daddr ?t) (dport ?t) 0"
  let ?c = "upd_tcb p (\<lambda>t. t\<lparr>last_active_ts := of_int (cur_time c)\<rparr>)
    (upd_snd p (\<lambda>s. s\<lparr>peer_wnd := ucast (htons (th_win tcph))\<rparr>) c)"
  have a: "at_conn p c {TCPS_LISTEN} ?c"
    using c by (intro at_last_active at_upd_snd) (auto simp: at_conn_def)
  obtain l where l: "usnet_update_timerlist ?c p = Some (?c\<lparr>timeout_list := l\<rparr>)"
    using update_timerlist_Some[OF at_lists_ok[OF a]] by blast
  let ?d = "upd_tcb p (\<lambda>t. t\<lparr>tcb_state := TCPS_SYN_RECEIVED, rcv_nxt := rcv_nxt t + 1\<rparr>) (?c\<lparr>timeout_list := l\<rparr>)"
  have mq: "mq_ok (ev_net2app_mq c)" using c(1) by (simp add: ctx_ok_def)
  have len: "length ?ev = 28" by (simp add: event_images)
  obtain q where q: "n2a_enqueue ?d ?ev (tcb_fd ?t) = Some (?d\<lparr>ev_net2app_mq := q\<rparr>)"
      "mq_messages q = mq_messages (ev_net2app_mq c) @
        (if 28 + C_HEAD_SIZE \<le> mq_room (ev_net2app_mq c) then [(tcb_fd ?t, ?ev)] else [])"
    using n2a_enqueue_messages[of ?d ?ev "tcb_fd ?t"] mq len by auto
  let ?e = "?d\<lparr>ev_net2app_mq := q\<rparr>"
  have "tcp_segment c p ip_src ip_dst tcph payload = Some (?e, 0)"
    using c f l q(1) by (simp add: tcp_segment_def Let_def tcp_dispatch_def usnet_handle_listen_def
        usnet_raise_connect_event_def state_order)
  moreover from this have "ctx_ok ?e"
    using segment_kept[OF c(1-3), of ip_src ip_dst tcph payload] by (simp add: post_def)
  ultimately show ?thesis using q(2) by (intro exI[of _ ?e]) simp
qed

lemma remove_rto_list_tcb:
  "usnet_remove_rto_list c p = Some d \<Longrightarrow> \<exists>x < 0. tcb_of d = (tcb_of c)(p := (tcb_of c p)\<lparr>on_rto_idx := x\<rparr>)"
  unfolding usnet_remove_rto_list_def
  by (cases "on_rto_idx (tcb_of c p) < 0")
    (auto simp: Let_def bind_eq_Some_conv fun_eq_iff intro: exI[of _ "on_rto_idx (tcb_of c p)"] exI[of _ "- 1"])

lemma add_timeout_list_tcb:
  "usnet_add_timeout_list c p = Some d \<Longrightarrow> tcb_of d = (tcb_of c)(p := (tcb_of c p)\<lparr>on_timeout_list := True\<rparr>)"
  unfolding usnet_add_timeout_list_def by (auto simp: Let_def bind_eq_Some_conv fun_eq_iff split: if_splits)

lemma syn_received_ack:
  assumes a: "at_conn p c0 {TCPS_SYN_RECEIVED} c" and n: "\<not> on_timeout_list (tcb_of c p)"
    and f: "th_flags tcph AND TH_ACK \<noteq> 0" "ack = iss (snd_of c p) + 1"
  shows "\<exists>d. usnet_handle_syn_received c p tcph ack = Some d \<and> tcb_state (tcb_of d p) = TCPS_ESTABLISHED \<and>
    snd_una (snd_of d p) = snd_una (snd_of c p) + 1 \<and> snd_nxt (tcb_of d p) = ack \<and>
    rcv_nxt (tcb_of d p) = rcv_nxt (tcb_of c p) \<and> on_timeout_list (tcb_of d p) \<and> on_rto_idx (tcb_of d p) < 0 \<and>
    cwnd (snd_of d p) = (if cwnd (snd_of c p) = 1 then 2 else 1) * ucast (mss (snd_of c p))"
proof -
  let ?c = "upd_snd p (\<lambda>s. s\<lparr>cwnd := (if cwnd s = 1 then ucast (mss s) * 2 else ucast (mss s)), nrtx := 0\<rparr>)
    (upd_tcb p (\<lambda>t. t\<lparr>snd_nxt := ack\<rparr>) (upd_snd p (\<lambda>s. s\<lparr>snd_una := snd_una s + 1\<rparr>) c))"
  have ac: "at_conn p c0 {TCPS_SYN_RECEIVED} ?c" using a by (intro at_upd_snd at_upd_nxt) auto
  obtain d where d: "usnet_remove_rto_list ?c p = Some d" and ad: "at_conn p c0 {TCPS_SYN_RECEIVED} d"
    using remove_rto_list_at[OF ac] by (auto simp: wp_def)
  obtain x where x: "x < 0" "tcb_of d = (tcb_of ?c)(p := (tcb_of ?c p)\<lparr>on_rto_idx := x\<rparr>)"
    using remove_rto_list_tcb[OF d] by blast
  let ?d = "set_state p TCPS_ESTABLISHED d"
  have ae: "at_conn p c0 {TCPS_ESTABLISHED} ?d" using ad by (rule at_set_state)
  have nd: "\<not> on_timeout_list (tcb_of ?d p)" using n by (simp add: set_state_def x(2))
  obtain e where e: "usnet_add_timeout_list ?d p = Some e" using add_timeout_list_at[OF ae nd] by (auto simp: wp_def)
  have t: "0 < tcp_timeout ?d" using ae by (simp add: at_conn_def)
  have "usnet_handle_syn_received c p tcph ack = Some e"
    using f d e t by (simp add: usnet_handle_syn_received_def Let_def)
  then show ?thesis using x by (intro exI[of _ e]) (simp add: add_timeout_list_tcb[OF e] set_state_def)
qed

lemma validate_exact:
  assumes "rcvvar_at (tcb_of c p) \<noteq> None" "\<not> saw_timestamp (tcb_of c p)" "0 < rcv_wnd (rcv_of c p)"
    "rcv_wnd (rcv_of c p) \<le> 2 ^ 31"
  shows "usnet_validate_seq c p tcph (rcv_nxt (tcb_of c p)) 0 = Some (c, 0)"
proof -
  let ?w = "rcv_wnd (rcv_of c p)"
  have w: "0 < unat ?w" "unat ?w \<le> 2 ^ 31" using assms(3,4) by (simp_all add: word_less_nat_alt word_le_nat_alt)
  have "(- of_nat (unat ?w - 1) :: u32) = 1 - ?w" using w(1) by (simp add: of_nat_diff)
  then have "sint (1 - ?w) = - int (unat ?w - 1)" using sint_minus_of_nat_small[of "unat ?w - 1"] w(2) by simp
  then have "sint (1 - ?w) \<le> 0" by linarith
  then have "TCP_SEQ_BETWEEN (rcv_nxt (tcb_of c p)) (rcv_nxt (tcb_of c p)) (rcv_nxt (tcb_of c p) + ?w - 1)"
    by (simp add: seq_defs)
  then show ?thesis using assms(1,2) by (simp add: usnet_validate_seq_def validate_paws_def)
qed

text \<open>C15. The acknowledgement of the SYN completes the handshake: an empty segment with the expected sequence
  number and the acknowledgement number \<^verbatim>\<open>iss + 1\<close> takes a connection from SYN-RECEIVED to ESTABLISHED, moves
  \<^verbatim>\<open>snd_una\<close> and \<^verbatim>\<open>snd_nxt\<close> past the SYN, opens the congestion window to one or two segments, stops the
  retransmission timer and puts the connection on the inactivity list. The RST flag does not prevent it: a
  reset with that acknowledgement number establishes the connection unless the number happens to equal
  \<^verbatim>\<open>rcv_nxt\<close>.\<close>

theorem syn_ack_establishes:
  assumes c: "ctx_ok c" "0 < tcp_timeout c" "live c p" "tcb_state (tcb_of c p) = TCPS_SYN_RECEIVED"
      "sndvar_at (tcb_of c p) \<noteq> None" "rcvvar_at (tcb_of c p) \<noteq> None" "\<not> on_timeout_list (tcb_of c p)"
      "\<not> saw_timestamp (tcb_of c p)" "0 < rcv_wnd (rcv_of c p)" "rcv_wnd (rcv_of c p) \<le> 2 ^ 31"
    and f: "th_flags tcph AND TH_ACK \<noteq> 0" "htonl (th_seq tcph) = rcv_nxt (tcb_of c p)"
      "htonl (th_ack tcph) = iss (snd_of c p) + 1" "th_flags tcph AND TH_RST = 0 \<or> htonl (th_ack tcph) \<noteq> rcv_nxt (tcb_of c p)"
  shows "\<exists>d. tcp_segment c p ip_src ip_dst tcph [] = Some (d, 0) \<and> ctx_ok d \<and>
    tcb_state (tcb_of d p) = TCPS_ESTABLISHED \<and> snd_una (snd_of d p) = snd_una (snd_of c p) + 1 \<and>
    snd_nxt (tcb_of d p) = iss (snd_of c p) + 1 \<and> rcv_nxt (tcb_of d p) = rcv_nxt (tcb_of c p) \<and>
    cwnd (snd_of d p) = (if cwnd (snd_of c p) = 1 then 2 else 1) * ucast (mss (snd_of c p)) \<and>
    on_rto_idx (tcb_of d p) < 0 \<and> p \<in> set (timeout_list d)"
proof -
  let ?c = "upd_tcb p (\<lambda>t. t\<lparr>last_active_ts := of_int (cur_time c)\<rparr>)
    (upd_snd p (\<lambda>s. s\<lparr>peer_wnd := (if th_flags tcph AND TH_SYN \<noteq> 0 then ucast (htons (th_win tcph))
      else shl32 (ucast (htons (th_win tcph))) (wscale s))\<rparr>) c)"
  have a: "at_conn p c {TCPS_SYN_RECEIVED} ?c"
    using c by (intro at_last_active at_upd_snd) (auto simp: at_conn_def)
  obtain l where l: "usnet_update_timerlist ?c p = Some (?c\<lparr>timeout_list := l\<rparr>)"
    using update_timerlist_Some[OF at_lists_ok[OF a]] by blast
  then have al: "at_conn p c {TCPS_SYN_RECEIVED} (?c\<lparr>timeout_list := l\<rparr>)"
    using update_timerlist_at[OF a] by (simp add: wp_def)
  define d where "d = (if th_flags tcph AND TH_RST \<noteq> 0
    then upd_tcb p (\<lambda>t. t\<lparr>have_reset := True\<rparr>) (?c\<lparr>timeout_list := l\<rparr>) else ?c\<lparr>timeout_list := l\<rparr>)"
  have ad: "at_conn p c {TCPS_SYN_RECEIVED} d" unfolding d_def using al at_have_reset by auto
  have same: "iss (snd_of d p) = iss (snd_of c p)" "snd_una (snd_of d p) = snd_una (snd_of c p)"
    "cwnd (snd_of d p) = cwnd (snd_of c p)" "mss (snd_of d p) = mss (snd_of c p)"
    "rcv_nxt (tcb_of d p) = rcv_nxt (tcb_of c p)" "\<not> on_timeout_list (tcb_of d p)"
    using c(7) by (simp_all add: d_def)
  obtain e where e: "usnet_handle_syn_received d p tcph (iss (snd_of c p) + 1) = Some e"
      "tcb_state (tcb_of e p) = TCPS_ESTABLISHED" "snd_una (snd_of e p) = snd_una (snd_of c p) + 1"
      "snd_nxt (tcb_of e p) = iss (snd_of c p) + 1" "rcv_nxt (tcb_of e p) = rcv_nxt (tcb_of c p)"
      "on_timeout_list (tcb_of e p)" "on_rto_idx (tcb_of e p) < 0"
      "cwnd (snd_of e p) = (if cwnd (snd_of c p) = 1 then 2 else 1) * ucast (mss (snd_of c p))"
    using syn_received_ack[OF ad same(6) f(1) refl] unfolding same by blast
  have seg: "tcp_segment c p ip_src ip_dst tcph [] = Some (e, 0)"
  proof (cases "th_flags tcph AND TH_RST = 0")
    case True
    then show ?thesis
      using c(4,5) f(2,3) validate_exact[OF c(6,8-10), of tcph] l e(1)
      by (simp add: tcp_segment_def Let_def tcp_dispatch_def state_order d_def)
  next
    case False
    then show ?thesis
      using c(4,5) f(2-4) validate_exact[OF c(6,8-10), of tcph] l e(1)
      by (simp add: tcp_segment_def Let_def tcp_dispatch_def usnet_handle_rst_def state_order d_def)
  qed
  then have ok: "ctx_ok e"
    using segment_kept[OF c(1-3), of ip_src ip_dst tcph "[]"] by (simp add: post_def)
  then have "p \<in> set (timeout_list e)" using ok e(6) by (simp add: ctx_ok_def lists_ok_def q_ok_def)
  then show ?thesis using seg ok e by blast
qed

section \<open>Witnesses\<close>

text \<open>The sample connection in another state, a SYN from its peer, and a header with given flags.\<close>

abbreviation sample_in :: "tcp_state \<Rightarrow> usn_tcb" where
  "sample_in s \<equiv> sample_tcb\<lparr>tcb_state := s\<rparr>"

definition syn_bytes :: "byte list" where
  "syn_bytes = [0x0B, 0x0A, 0, 0x50, 0, 0, 1, 0xF5, 0, 0, 0, 0, 0x50, 2, 0x20, 0, 0x6E, 0x91, 0, 0]"

definition sample_hdr :: "u8 \<Rightarrow> usn_tcphdr" where
  "sample_hdr fl = \<lparr>th_sport = 0x0A0B, th_dport = 0x5000, th_seq = htonl 501, th_ack = htonl 1001, th_off = 5,
     th_flags = fl, th_win = 32, th_mem = syn_bytes\<rparr>"

lemma sample_in_ok [simp]: "\<not> usnet_tcb_isempty (sample_in s)" "unqueued (sample_in s)"
  using sample_tcb_ok by (simp_all add: usnet_tcb_isempty_def unqueued_def)

lemma syn_bytes_ok:
  "tcp_cksum syn_bytes 0x0200000A 0x0100000A = 0"
  "read_tcphdr syn_bytes = Some \<lparr>th_sport = 0x0A0B, th_dport = 0x5000, th_seq = 0xF5010000, th_ack = 0, th_off = 5,
     th_flags = TH_SYN, th_win = 32, th_mem = syn_bytes\<rparr>"
  by code_simp+

lemma sample_syn_runs:
  assumes "ctx_ok c" "tcb_of c p = sample_in TCPS_LISTEN" "th_flags tcph = TH_SYN"
  shows "\<exists>d. tcp_segment c p ip_src ip_dst tcph payload = Some (d, 0) \<and> tcb_state (tcb_of d p) = TCPS_SYN_RECEIVED"
proof -
  have mq: "mq_ok (ev_net2app_mq c)" using assms(1) by (simp add: ctx_ok_def)
  let ?c = "upd_tcb p (\<lambda>t. t\<lparr>tcb_state := TCPS_SYN_RECEIVED, rcv_nxt := rcv_nxt t + 1\<rparr>)
    (upd_tcb p (\<lambda>t. t\<lparr>last_active_ts := of_int (cur_time c)\<rparr>)
      (upd_snd p (\<lambda>s. s\<lparr>peer_wnd := ucast (htons (th_win tcph))\<rparr>) c))"
  let ?t = "tcb_of ?c p"
  let ?ev = "usn_connect_ev (tcb_fd ?t) (saddr ?t) (sport ?t) (daddr ?t) (dport ?t) 0"
  have "length ?ev \<le> 64" "mq_ok (ev_net2app_mq ?c)" using mq by (simp_all add: event_images)
  then have "\<exists>q. n2a_enqueue ?c ?ev (tcb_fd ?t) = Some (?c\<lparr>ev_net2app_mq := q\<rparr>)"
    using n2a_enqueue_messages by blast
  then have "\<exists>q. usnet_raise_connect_event ?c p = Some (?c\<lparr>ev_net2app_mq := q\<rparr>)"
    by (simp add: usnet_raise_connect_event_def)
  moreover have "\<not> on_timeout_list sample_tcb" "sndvar_at sample_tcb = Some 0"
    by (simp_all add: sample_tcb_def zero_tcb_def)
  ultimately show ?thesis using assms(2,3)
    by (auto simp: tcp_segment_def Let_def tcp_dispatch_def usnet_handle_listen_def state_order
        usnet_update_timerlist_def)
qed

theorem tcp_segment_refines_witness:
  "\<exists>p d. tcp_segment (conn_context (sample_in TCPS_LISTEN)) p 0x0200000A 0x0100000A (sample_hdr TH_SYN) [] = Some (d, 0) \<and>
    ctx_ok d \<and> tcp_step\<^sup>*\<^sup>* TCPS_LISTEN (tcb_state (tcb_of d p)) \<and> tcb_state (tcb_of d p) = TCPS_SYN_RECEIVED"
proof -
  let ?c = "conn_context (sample_in TCPS_LISTEN)"
  obtain p where p: "ctx_ok ?c" "0 < tcp_timeout ?c" "live ?c p" "tcb_of ?c p = sample_in TCPS_LISTEN"
    using conn_context_ctx_ok[of "sample_in TCPS_LISTEN"] by auto
  obtain d where d: "tcp_segment ?c p 0x0200000A 0x0100000A (sample_hdr TH_SYN) [] = Some (d, 0)"
      "tcb_state (tcb_of d p) = TCPS_SYN_RECEIVED"
    using sample_syn_runs[OF p(1,4), of "sample_hdr TH_SYN" "0x0200000A" "0x0100000A" "[]"] by (auto simp: sample_hdr_def)
  show ?thesis using tcp_segment_refines[OF p(1-3) d(1)] d p(4) by (intro exI[of _ p] exI[of _ d]) simp
qed

theorem tcp_input_invariant_witness:
  "\<exists>d. usnet_tcp_input (conn_context (sample_in TCPS_LISTEN)) syn_bytes 0 0 20 0x0200000A 0x0100000A = Some (d, 0) \<and>
    ctx_ok d"
proof -
  let ?c = "conn_context (sample_in TCPS_LISTEN)"
  let ?k = "zero_tcb\<lparr>saddr := 0x0100000A, sport := 0x5000, daddr := 0x0200000A, dport := 0x0A0B\<rparr>"
  obtain p where p: "ctx_ok ?c" "0 < tcp_timeout ?c" "live ?c p" "tcb_of ?c p = sample_in TCPS_LISTEN"
    using conn_context_ctx_ok[of "sample_in TCPS_LISTEN"] by auto
  have w: "tcbs.fns (tcb_cache ?c)" "tcbs.wf (tcb_cache ?c)" using p(1) by (simp_all add: ctx_ok_def tcb_table_def)
  have s: "usnet_cache_search (tcb_cache ?c) ?k = Some p"
    using p(4) by (subst tcbs.search_iff[OF w]) (simp_all add: tcb_of_def tcb_conn_def sample_tcb_def)
  have "mem_read 0 20 syn_bytes = Some syn_bytes" by (simp add: mem_read_def syn_bytes_def)
  then obtain d where d: "usnet_tcp_input ?c syn_bytes 0 0 20 0x0200000A 0x0100000A = Some (d, 0)"
    using sample_syn_runs[OF p(1,4), of "the (read_tcphdr syn_bytes)" "0x0200000A" "0x0100000A" "drop 20 syn_bytes"] s
    by (auto simp: usnet_tcp_input_def syn_bytes_ok Let_def)
  show ?thesis using tcp_input_invariant[OF p(1,2) _ d] d by simp
qed

theorem listen_syn_segment_witness:
  "\<exists>p d. tcp_segment (conn_context (sample_in TCPS_LISTEN)) p 0x0200000A 0x0100000A (sample_hdr TH_SYN) [] = Some (d, 0) \<and>
    tcb_state (tcb_of d p) = TCPS_SYN_RECEIVED \<and>
    mq_messages (ev_net2app_mq d) = [(5, usn_connect_ev 5 0x0100000A 0x5000 0x0200000A 0x0A0B 0)]"
proof -
  let ?c = "conn_context (sample_in TCPS_LISTEN)"
  obtain p where p: "ctx_ok ?c" "0 < tcp_timeout ?c" "live ?c p" "tcb_of ?c p = sample_in TCPS_LISTEN"
      "ev_net2app_mq ?c = mq_new 1024"
    using conn_context_ctx_ok[of "sample_in TCPS_LISTEN"] by auto
  from listen_syn_segment[OF p(1-3), of "sample_hdr TH_SYN" "0x0200000A" "0x0100000A" "[]"] show ?thesis
    using p(4,5) mq_new_holds[of 1024] by (auto simp: sample_hdr_def sample_tcb_def)
qed

theorem syn_ack_establishes_witness:
  "\<exists>p d. tcp_segment (conn_context (sample_in TCPS_SYN_RECEIVED)) p 0x0200000A 0x0100000A (sample_hdr (TH_RST OR TH_ACK)) [] = Some (d, 0) \<and>
    tcb_state (tcb_of d p) = TCPS_ESTABLISHED"
proof -
  let ?c = "conn_context (sample_in TCPS_SYN_RECEIVED)"
  obtain p where p: "ctx_ok ?c" "0 < tcp_timeout ?c" "live ?c p" "tcb_of ?c p = sample_in TCPS_SYN_RECEIVED"
    using conn_context_ctx_ok[of "sample_in TCPS_SYN_RECEIVED"] by auto
  from syn_ack_establishes[OF p(1-3), of "sample_hdr (TH_RST OR TH_ACK)" "0x0200000A" "0x0100000A"] show ?thesis
    using p(4) by (auto simp: sample_hdr_def sample_tcb_def zero_tcb_def)
qed

end
