(* ===== verification/Send_Steps.thy ===== *)
theory Send_Steps
  imports Main_Loop Tcp_Input
begin

text \<open>
  The walks of the main loop keep the invariant. The theory states the
  invariant \<open>net_inv\<close> of the network process (the invariant of the stack, and every connection in a state
  of a passively opened connection), and shows that the walks over the control, ack and send
  lists of \<^verbatim>\<open>core.c\<close> keep it.
\<close>

section \<open>The invariant of a run\<close>

definition passive_states :: "tcp_state set" where
  "passive_states = {TCPS_LISTEN, TCPS_SYN_RECEIVED, TCPS_ESTABLISHED, TCPS_CLOSE_WAIT, TCPS_CLOSED}"

definition net_inv :: "usn_context \<Rightarrow> bool" where
  "net_inv c \<longleftrightarrow> ctx_ok c \<and> 0 < tcp_timeout c \<and> (\<forall>q. live c q \<longrightarrow> tcb_state (tcb_of c q) \<in> passive_states)"

lemma passive_closed:
  assumes "t \<in> reach s" "s \<in> passive_states"
  shows "t \<in> passive_states"
proof -
  have "tcp_step\<^sup>*\<^sup>* s t" using assms(1) by (simp add: reach_def)
  then show ?thesis using assms(2) by induction (auto simp: passive_states_def elim: tcp_step.cases)
qed

lemma inv_at: "net_inv c \<Longrightarrow> live c p \<Longrightarrow> at_conn p c passive_states c"
  by (simp add: net_inv_def at_conn_def)

lemma settled_inv:
  assumes "net_inv c" "settled p c passive_states d"
  shows "net_inv d"
proof -
  have "tcb_state (tcb_of d q) \<in> passive_states" if "live d q" for q
    using that assms by (cases "q = p") (auto simp: settled_def at_conn_def gone_def net_inv_def live_def)
  then show ?thesis using assms by (auto simp: net_inv_def settled_def at_conn_def gone_def)
qed

lemma at_inv: "net_inv c \<Longrightarrow> at_conn p c passive_states d \<Longrightarrow> net_inv d"
  by (rule settled_inv[of c p]) (simp_all add: settled_def)

lemma queued_live: "net_inv c \<Longrightarrow> p \<in> queued c \<Longrightarrow> live c p"
  by (simp add: net_inv_def ctx_ok_def)

section \<open>The control list\<close>

text \<open>Unlinking the element the walk stands on is the removal of the connection from its list.\<close>

lemma control_unlink:
  assumes "net_inv c" "TAILQ_REMOVE p (control_list c) = Some l"
  shows "on_control_list (snd_of c p)" "live c p"
    "usnet_remove_control_list c p =
      Some (upd_snd p (\<lambda>s. s\<lparr>on_control_list := False\<rparr>) (c\<lparr>control_list := l, control_list_cnt := control_list_cnt c - 1\<rparr>))"
proof -
  have p: "p \<in> set (control_list c)" "l = remove1 p (control_list c)"
    using assms(2) by (auto simp: TAILQ_REMOVE_def split: if_splits)
  show on: "on_control_list (snd_of c p)"
    using p(1) assms(1) by (simp add: net_inv_def ctx_ok_def lists_ok_def q_ok_def)
  show "live c p" using p(1) by (auto intro!: queued_live[OF assms(1)] simp: queued_def)
  show "usnet_remove_control_list c p =
      Some (upd_snd p (\<lambda>s. s\<lparr>on_control_list := False\<rparr>) (c\<lparr>control_list := l, control_list_cnt := control_list_cnt c - 1\<rparr>))"
    using on p by (simp add: usnet_remove_control_list_def upd_snd_def upd_tcb_def tcb_of_def)
qed

text \<open>Putting it back at the head of the list.\<close>

lemma control_requeue:
  assumes a: "at_conn p c0 S c" and off: "\<not> on_control_list (snd_of c p)"
  shows "at_conn p c0 S (upd_snd p (\<lambda>s. s\<lparr>on_control_list := True\<rparr>)
    (c\<lparr>control_list := p # control_list c, control_list_cnt := control_list_cnt c + 1\<rparr>))"
proof -
  define d where "d = upd_snd p (\<lambda>s. s\<lparr>on_control_list := True\<rparr>)
    (c\<lparr>control_list := p # control_list c, control_list_cnt := control_list_cnt c + 1\<rparr>)"
  have t: "tcb_of d q = (if q = p then (tcb_of c p)\<lparr>sndvar := (snd_of c p)\<lparr>on_control_list := True\<rparr>\<rparr> else tcb_of c q)" for q
    by (simp add: d_def)
  have f: "conn_frame p c d" by (auto simp: frame_simps queued_def d_def)
  have q: "q_ok (control_list d) (control_list_cnt d) (\<lambda>q. on_control_list (snd_of d q))"
    using at_lists_ok[OF a] off by (simp add: t lists_ok_def q_ok_def) (simp add: d_def)
  have "lists_ok d"
    by (rule lists_okI[OF at_lists_ok[OF a]], rule disjI1, rule q) (simp_all add: t, simp_all add: d_def)
  then show ?thesis using at_frame[OF a f] by (simp add: d_def)
qed


lemma control_list_off:
  assumes "lists_ok c" "TAILQ_INSERT_HEAD p (control_list c) = Some l"
  shows "l = p # control_list c" "\<not> on_control_list (snd_of c p)"
  using assms by (auto simp: TAILQ_INSERT_HEAD_def lists_ok_def q_ok_def split: if_splits)

lemma control_walk_inv: "net_inv c \<Longrightarrow> post (\<lambda>x. net_inv (fst x)) (control_walk c thresh cnt ws)"
proof (induction ws arbitrary: c cnt)
  case (Cons p ws)
  have one: "post (\<lambda>x. net_inv (fst x)) (do {
      (ctx, ret) \<leftarrow> usnet_send_control_packet (upd_snd p (\<lambda>s. s\<lparr>on_control_list := False\<rparr>)
        (c\<lparr>control_list := l, control_list_cnt := control_list_cnt c - 1\<rparr>)) p;
      if ret < 0 then do {
        l \<leftarrow> TAILQ_INSERT_HEAD p (control_list ctx);
        Some (upd_snd p (\<lambda>s. s\<lparr>on_control_list := True\<rparr>)
                (ctx\<lparr>control_list := l, control_list_cnt := control_list_cnt ctx + 1\<rparr>), cnt + 1)
      }
      else control_walk ctx thresh (cnt + 1) ws })"
    if l: "TAILQ_REMOVE p (control_list c) = Some l" for l
  proof -
    note u = control_unlink[OF Cons.prems l]
    let ?c1 = "upd_snd p (\<lambda>s. s\<lparr>on_control_list := False\<rparr>) (c\<lparr>control_list := l, control_list_cnt := control_list_cnt c - 1\<rparr>)"
    have a: "at_conn p c passive_states ?c1"
      using remove_control_list_at[OF inv_at[OF Cons.prems u(2)]] u(3) by (simp add: wp_def)
    show ?thesis
    proof (rule post_seq[OF send_control_packet_at[OF a]], clarify)
      fix d and r :: int
      assume d: "at_conn p c passive_states d \<or> gone p c passive_states d \<and> 0 \<le> r"
      then have "net_inv d" by (intro settled_inv[OF Cons.prems]) (auto simp: settled_def)
      moreover have "net_inv (upd_snd p (\<lambda>s. s\<lparr>on_control_list := True\<rparr>)
          (d\<lparr>control_list := l', control_list_cnt := control_list_cnt d + 1\<rparr>))"
        if "r < 0" "TAILQ_INSERT_HEAD p (control_list d) = Some l'" for l'
        using d that control_list_off[OF at_lists_ok that(2)] at_inv[OF Cons.prems control_requeue] by auto
      ultimately show "post (\<lambda>x. net_inv (fst x)) (if r < 0 then do {
          l \<leftarrow> TAILQ_INSERT_HEAD p (control_list d);
          Some (upd_snd p (\<lambda>s. s\<lparr>on_control_list := True\<rparr>)
                  (d\<lparr>control_list := l, control_list_cnt := control_list_cnt d + 1\<rparr>), cnt + 1)
        } else control_walk d thresh (cnt + 1) ws)"
        using Cons.IH by (auto simp: post_def bind_eq_Some_conv)
    qed
  qed
  show ?case
  proof (cases "TAILQ_REMOVE p (control_list c)")
    case (Some l)
    then show ?thesis using control_unlink(1)[OF Cons.prems Some] one[OF Some] Cons.prems
      by (auto simp: post_Some)
  qed (use Cons.prems in \<open>auto simp: post_def\<close>)
qed (simp add: post_Some)

section \<open>The ack list\<close>

lemma ack_burst_at: "at_conn p c0 S c \<Longrightarrow> post (at_conn p c0 S) (ack_burst c p n)"
proof (induction n arbitrary: c)
  case (Suc n)
  have step: "post (at_conn p c0 S) (if ret < 0 then Some d else ack_burst (upd_snd p (\<lambda>s. s\<lparr>ack_cnt := ack_cnt s - 1\<rparr>) d) p n)"
    if "at_conn p c0 S d" for d and ret :: int
    using that by (intro post_if post_Some Suc.IH at_upd_snd) auto
  show ?case
    by (simp only: ack_burst.simps, rule post_if, rule post_pair[OF send_tcp_packet_at[OF Suc.prems]], rule step,
        assumption, rule post_Some, rule Suc.prems)
qed simp

lemma ack_window_probe_at:
  assumes "at_conn p c0 S c"
  shows "post (at_conn p c0 S) (ack_window_probe c p)"
proof -
  have "at_conn p c0 S (upd_snd p (\<lambda>s. s\<lparr>is_wack := b\<rparr>) d)" if "at_conn p c0 S d" for b d
    using that by (rule at_upd_snd) simp
  then show ?thesis
    unfolding ack_window_probe_def using assms by (auto intro!: post_if post_Some post_pair[OF send_tcp_packet_at])
qed

text \<open>Unlinking with the flag cleared is the removal from the ack list; a connection that is not on the
  list cannot be unlinked.\<close>

lemma ack_unlink_at:
  assumes "at_conn p c0 S c"
  shows "post (at_conn p c0 S) (ack_unlink (upd_snd p (\<lambda>s. s\<lparr>on_ack_list := False\<rparr>) c) p)"
proof (cases "on_ack_list (snd_of c p)")
  case True
  then have "ack_unlink (upd_snd p (\<lambda>s. s\<lparr>on_ack_list := False\<rparr>) c) p = usnet_remove_ack_list c p"
    by (simp add: ack_unlink_def usnet_remove_ack_list_def)
  then show ?thesis using remove_ack_list_at[OF assms, THEN wp_post] by simp
next
  case False
  then have "p \<notin> set (ack_list c)" using at_lists_ok[OF assms] by (simp add: lists_ok_def q_ok_def)
  then show ?thesis by (simp add: ack_unlink_def)
qed

lemma upd_snd_twice: "(\<And>s. h s = f (g s)) \<Longrightarrow> upd_snd p h c = upd_snd p f (upd_snd p g c)"
  by (simp add: upd_snd_def upd_tcb_def tcb_of_def)

lemma ack_drop_at:
  assumes "at_conn p c0 S c"
  shows "post (at_conn p c0 S) (ack_unlink (upd_snd p (\<lambda>s. s\<lparr>on_ack_list := False, ack_cnt := 0, is_wack := False\<rparr>) c) p)"
proof -
  have "upd_snd p (\<lambda>s. s\<lparr>on_ack_list := False, ack_cnt := 0, is_wack := False\<rparr>) c =
      upd_snd p (\<lambda>s. s\<lparr>on_ack_list := False\<rparr>) (upd_snd p (\<lambda>s. s\<lparr>ack_cnt := 0, is_wack := False\<rparr>) c)"
    by (rule upd_snd_twice) simp
  moreover have "at_conn p c0 S (upd_snd p (\<lambda>s. s\<lparr>ack_cnt := 0, is_wack := False\<rparr>) c)"
    using assms by (rule at_upd_snd) simp
  ultimately show ?thesis using ack_unlink_at by simp
qed

text \<open>A control segment that waited for the data and the acknowledgements.\<close>

lemma control_waiting_at:
  assumes "at_conn p c0 S c"
  shows "post (settled p c0 S) (if b then usnet_add_control_list (upd_tcb p (\<lambda>t. t\<lparr>control_list_waiting := False\<rparr>) c) p
    else Some c)"
  using assms by (intro post_if post_Some add_control_list_settled at_settled[of p c0 S] at_upd[of _ _ S]) (auto simp: tcb_conn_def)

lemma ack_one_at:
  assumes "at_conn p c0 S c"
  shows "post (settled p c0 S) (ack_one c p)"
proof (cases "on_ack_list (snd_of c p)")
  case True
  have burst: "post (at_conn p c0 S) (do {
      ctx \<leftarrow> ack_burst c p 64;
      ctx \<leftarrow> ack_window_probe ctx p;
      if \<not> (ack_cnt (snd_of ctx p) \<noteq> 0 \<or> is_wack (snd_of ctx p))
      then ack_unlink (upd_snd p (\<lambda>s. s\<lparr>on_ack_list := False\<rparr>) ctx) p
      else Some ctx })"
    by (rule post_seq[OF ack_burst_at[OF assms]], rule post_seq[OF ack_window_probe_at], assumption)
      (auto intro!: post_if post_Some ack_unlink_at)
  show ?thesis
    unfolding ack_one_def using True
    by (simp only: if_True, intro post_seq[of "at_conn p c0 S" _ "settled p c0 S"])
      (intro post_if burst ack_drop_at assms, erule control_waiting_at)
next
  case False
  then have "p \<notin> set (ack_list c)" using at_lists_ok[OF assms] by (simp add: lists_ok_def q_ok_def)
  then show ?thesis using False by (simp add: ack_one_def ack_unlink_def)
qed

lemma ack_one_inv:
  assumes "net_inv c"
  shows "post net_inv (ack_one c p)"
proof (cases "p \<in> set (ack_list c)")
  case True
  then have "live c p" by (auto intro!: queued_live[OF assms] simp: queued_def)
  then show ?thesis using ack_one_at[OF inv_at[OF assms]] settled_inv[OF assms] by (blast intro: post_conseq)
next
  case False
  then have "\<not> on_ack_list (snd_of c p)" using assms by (simp add: net_inv_def ctx_ok_def lists_ok_def q_ok_def)
  then show ?thesis using False by (simp add: ack_one_def ack_unlink_def)
qed

lemma ack_walk_inv: "net_inv c \<Longrightarrow> post (\<lambda>x. net_inv (fst x)) (ack_walk c thresh cnt ws)"
proof (induction ws arbitrary: c cnt)
  case (Cons p ws)
  show ?case using Cons
    by (simp only: ack_walk.simps) (intro post_if post_Some post_seq[OF ack_one_inv], auto)
qed (simp add: post_Some)

section \<open>The send list\<close>

text \<open>The walk over the send list takes the connection off the list before it sends its data, and leaves
  flag and counter alone. What sending does is independent of the send list, so it may be seen as
  done while the connection is still listed.\<close>

lemma tcb_of_resend [simp]: "tcb_of (c\<lparr>send_list := l\<rparr>) = tcb_of c"
  by (simp add: tcb_of_def fun_eq_iff)

lemma upd_tcb_resend: "upd_tcb p f (c\<lparr>send_list := l\<rparr>) = (upd_tcb p f c)\<lparr>send_list := l\<rparr>"
  by (simp add: upd_tcb_def)

lemma upd_snd_resend: "upd_snd p f (c\<lparr>send_list := l\<rparr>) = (upd_snd p f c)\<lparr>send_list := l\<rparr>"
  by (simp add: upd_snd_def upd_tcb_resend)

lemma fields_resend:
  "c\<lparr>send_list := l, tx_frames := a\<rparr> = c\<lparr>tx_frames := a, send_list := l\<rparr>"
  "c\<lparr>send_list := l, rto_now_idx := b\<rparr> = c\<lparr>rto_now_idx := b, send_list := l\<rparr>"
  "c\<lparr>send_list := l, rto_now_ts := b\<rparr> = c\<lparr>rto_now_ts := b, send_list := l\<rparr>"
  "c\<lparr>send_list := l, rto_list := d\<rparr> = c\<lparr>rto_list := d, send_list := l\<rparr>"
  "c\<lparr>send_list := l, rto_list_cnt := e\<rparr> = c\<lparr>rto_list_cnt := e, send_list := l\<rparr>"
  "c\<lparr>send_list := l, ack_list := f\<rparr> = c\<lparr>ack_list := f, send_list := l\<rparr>"
  "c\<lparr>send_list := l, ack_list_cnt := e\<rparr> = c\<lparr>ack_list_cnt := e, send_list := l\<rparr>"
  "c\<lparr>send_list := l, timeout_list := f\<rparr> = c\<lparr>timeout_list := f, send_list := l\<rparr>"
  "c\<lparr>send_list := l, sndbuf_cache := g\<rparr> = c\<lparr>sndbuf_cache := g, send_list := l\<rparr>"
  by simp_all

lemma fields_same: "cur_time (c\<lparr>send_list := l\<rparr>) = cur_time c" "TS_TO_MSEC (c\<lparr>send_list := l\<rparr>) = TS_TO_MSEC c"
  "usnet_generate_tcpopts (c\<lparr>send_list := l\<rparr>) = usnet_generate_tcpopts c"
  by (simp_all add: TS_TO_MSEC_def TIME_TICK_def usnet_generate_tcpopts_def fun_eq_iff)

lemma map_bind: "Option.bind (map_option f m) g = Option.bind m (\<lambda>x. g (f x))"
  by (cases m) simp_all

lemma bind_map: "map_option f (Option.bind m g) = Option.bind m (\<lambda>x. map_option f (g x))"
  by (cases m) simp_all

lemma if_resend: "(if b then x\<lparr>send_list := l\<rparr> else y\<lparr>send_list := l\<rparr>) = (if b then x else y)\<lparr>send_list := l\<rparr>"
  by simp

lemmas resend = if_resend upd_tcb_resend upd_snd_resend fields_resend map_bind bind_map

lemma send_data_resend: "usnet_send_data (c\<lparr>send_list := l\<rparr>) fr = map_option (\<lambda>c. c\<lparr>send_list := l\<rparr>) (usnet_send_data c fr)"
  by (simp add: usnet_send_data_def)

lemma arp_request_resend:
  "usnet_arp_request (c\<lparr>send_list := l\<rparr>) ip = map_option (\<lambda>c. c\<lparr>send_list := l\<rparr>) (usnet_arp_request c ip)"
  by (simp add: usnet_arp_request_def usnet_arp_output_def send_data_resend usnet_eth_output_nm_def)

lemma ipv4_output_resend:
  "usnet_ipv4_output (c\<lparr>send_list := l\<rparr>) p n = map_option (apfst (\<lambda>c. c\<lparr>send_list := l\<rparr>)) (usnet_ipv4_output c p n)"
  by (simp add: usnet_ipv4_output_def arp_request_resend usnet_get_hwaddr_def usnet_eth_output_nm_def Let_def resend
      split: option.split)

lemma add_rto_list_resend:
  "usnet_add_rto_list (c\<lparr>send_list := l\<rparr>) p = map_option (\<lambda>c. c\<lparr>send_list := l\<rparr>) (usnet_add_rto_list c p)"
  by (simp add: usnet_add_rto_list_def Let_def resend)

lemma update_timeout_list_resend:
  "usnet_update_timeout_list (c\<lparr>send_list := l\<rparr>) p = map_option (\<lambda>c. c\<lparr>send_list := l\<rparr>) (usnet_update_timeout_list c p)"
  by (simp add: usnet_update_timeout_list_def resend)

lemma enqueue_ack_resend:
  "usnet_enqueue_ack (c\<lparr>send_list := l\<rparr>) p opt = map_option (\<lambda>c. c\<lparr>send_list := l\<rparr>) (usnet_enqueue_ack c p opt)"
  by (simp add: usnet_enqueue_ack_def usnet_add_ack_list_def resend split: ack_opt.split)

lemma tcp_build_resend:
  "tcp_build (c\<lparr>send_list := l\<rparr>) p flags payload = map_option (apfst (\<lambda>c. c\<lparr>send_list := l\<rparr>)) (tcp_build c p flags payload)"
  unfolding tcp_build_def Let_def
  by (simp add: resend fields_same update_timeout_list_resend if_distrib[where f = "map_option _"] cong: if_cong)

lemma send_tcp_packet_resend:
  "usnet_send_tcp_packet (c\<lparr>send_list := l\<rparr>) p flags payload =
    map_option (apfst (\<lambda>c. c\<lparr>send_list := l\<rparr>)) (usnet_send_tcp_packet c p flags payload)"
proof -
  have rest: "(case hdr of None \<Rightarrow> Some (d\<lparr>send_list := l\<rparr>, - 2)
      | Some below \<Rightarrow> do {
          (ctx, seg) \<leftarrow> tcp_build (d\<lparr>send_list := l\<rparr>) p flags payload;
          let ctx = upd_tcb p (\<lambda>t. t\<lparr>snd_nxt := snd_nxt t + of_nat n\<rparr>) ctx;
          let ctx = (if b then upd_tcb p (\<lambda>t. t\<lparr>snd_nxt := snd_nxt t + 1\<rparr>) ctx else ctx);
          let n = (if b then n + 1 else n);
          ctx \<leftarrow> (if n > 0 then
            usnet_add_rto_list (upd_snd p (\<lambda>s. s\<lparr>ts_rto := of_int (cur_time ctx) + rto s\<rparr>) ctx) p else Some ctx);
          ctx \<leftarrow> usnet_send_data ctx (below @ seg);
          Some (ctx, int n) }) =
    map_option (apfst (\<lambda>c. c\<lparr>send_list := l\<rparr>)) (case hdr of None \<Rightarrow> Some (d, - 2)
      | Some below \<Rightarrow> do {
          (ctx, seg) \<leftarrow> tcp_build d p flags payload;
          let ctx = upd_tcb p (\<lambda>t. t\<lparr>snd_nxt := snd_nxt t + of_nat n\<rparr>) ctx;
          let ctx = (if b then upd_tcb p (\<lambda>t. t\<lparr>snd_nxt := snd_nxt t + 1\<rparr>) ctx else ctx);
          let n = (if b then n + 1 else n);
          ctx \<leftarrow> (if n > 0 then
            usnet_add_rto_list (upd_snd p (\<lambda>s. s\<lparr>ts_rto := of_int (cur_time ctx) + rto s\<rparr>) ctx) p else Some ctx);
          ctx \<leftarrow> usnet_send_data ctx (below @ seg);
          Some (ctx, int n) })" for hdr d b n
    by (cases hdr; simp; cases "tcp_build d p flags payload")
      (simp_all add: tcp_build_resend resend add_rto_list_resend send_data_resend split_beta Let_def
        if_distrib[where f = "map_option _"] cong: if_cong)
  show ?thesis
    unfolding usnet_send_tcp_packet_def Let_def[of "usnet_get_tcpopt_length flags"] Let_def[of "length payload"]
    by (cases "usnet_ipv4_output c p (20 + usnet_get_tcpopt_length flags + length payload)")
      (simp_all add: ipv4_output_resend rest split_beta)
qed

lemma sb_of_resend [simp]: "sb_of (c\<lparr>send_list := l\<rparr>) b = sb_of c b"
  by (simp add: sb_of_def)

lemma upd_sb_resend: "upd_sb b x (c\<lparr>send_list := l\<rparr>) = (upd_sb b x c)\<lparr>send_list := l\<rparr>"
  by (simp add: upd_sb_def)

lemma flush_step_resend:
  "flush_step (c\<lparr>send_list := l\<rparr>) p b maxlen window head tail =
    map_option (apfst (\<lambda>c. c\<lparr>send_list := l\<rparr>)) (flush_step c p b maxlen window head tail)"
proof -
  have send: "(do {
      payload \<leftarrow> m;
      (ctx, ret) \<leftarrow> usnet_send_tcp_packet (c\<lparr>send_list := l\<rparr>) p TH_ACK payload;
      let sndlen = sint (of_int ret :: u16);
      if sndlen < 0 then Some (ctx, Inl (Some sndlen))
      else let h = head + of_int sndlen; h = (if h \<ge> sz then h - sz else h)
           in Some (upd_sb b ((sb_of ctx b)\<lparr>sb_sent_head := h\<rparr>) ctx, Inr h) }) =
    map_option (apfst (\<lambda>c. c\<lparr>send_list := l\<rparr>)) (do {
      payload \<leftarrow> m;
      (ctx, ret) \<leftarrow> usnet_send_tcp_packet c p TH_ACK payload;
      let sndlen = sint (of_int ret :: u16);
      if sndlen < 0 then Some (ctx, Inl (Some sndlen))
      else let h = head + of_int sndlen; h = (if h \<ge> sz then h - sz else h)
           in Some (upd_sb b ((sb_of ctx b)\<lparr>sb_sent_head := h\<rparr>) ctx, Inr h) })" for m sz
    by (cases m) (simp_all add: send_tcp_packet_resend resend upd_sb_resend split_beta Let_def
        if_distrib[where f = "map_option _"] cong: if_cong)
  have ack: "(do { ctx \<leftarrow> (if g then usnet_enqueue_ack (c\<lparr>send_list := l\<rparr>) p ACK_OPT_WACK else Some (c\<lparr>send_list := l\<rparr>));
        Some (ctx, r) }) =
      map_option (apfst (\<lambda>c. c\<lparr>send_list := l\<rparr>)) (do { ctx \<leftarrow> (if g then usnet_enqueue_ack c p ACK_OPT_WACK else Some c);
        Some (ctx, r) })" for g and r :: "int option + u32"
    by (simp add: enqueue_ack_resend resend)
  show ?thesis
    unfolding flush_step_def Let_def
    by (simp only: tcb_of_resend sb_of_resend fields_same send[unfolded Let_def] ack if_distrib[where f = "map_option _"]
        option.map apfst_conv)
qed

lemma flush_step_at:
  assumes "at_conn p c0 S c"
  shows "post (\<lambda>x. at_conn p c0 S (fst x)) (flush_step c p b maxlen window head tail)"
proof -
  have send: "post (\<lambda>x. at_conn p c0 S (fst x)) (do {
      payload \<leftarrow> m;
      (ctx, ret) \<leftarrow> usnet_send_tcp_packet c p TH_ACK payload;
      if sint (of_int ret :: u16) < 0 then Some (ctx, Inl (Some (sint (of_int ret :: u16))))
      else Some (upd_sb b (f ctx ret) ctx, Inr (h ret)) })" for m f and h :: "int \<Rightarrow> u32"
    by (rule post_seq[of "\<lambda>_. True"], simp add: post_def, rule post_pair[OF send_tcp_packet_at[OF assms]])
      (auto intro!: post_if post_Some upd_sb_at)
  have ack: "post (\<lambda>x. at_conn p c0 S (fst x)) (do {
      ctx \<leftarrow> (if g then usnet_enqueue_ack c p ACK_OPT_WACK else Some c); Some (ctx, r) })" for g and r :: "int option + u32"
    by (rule post_seq[of "at_conn p c0 S"]) (auto intro!: post_if post_Some enqueue_ack_at[THEN wp_post] assms)
  show ?thesis
    unfolding flush_step_def Let_def
    by (intro post_if post_None send ack) (simp_all add: post_Some assms)
qed

text \<open>The same while the send list is another one.\<close>

lemma flush_step_listed:
  assumes "flush_step c p b maxlen window head tail = Some (d, r)"
  shows "send_list d = send_list c" "at_conn p c0 S (c\<lparr>send_list := l\<rparr>) \<Longrightarrow> at_conn p c0 S (d\<lparr>send_list := l\<rparr>)"
proof -
  have "flush_step (c\<lparr>send_list := l\<rparr>) p b maxlen window head tail = Some (d\<lparr>send_list := l\<rparr>, r)" for l
    using assms by (simp add: flush_step_resend)
  note e = this
  have "d\<lparr>send_list := send_list c\<rparr> = d" using e[of "send_list c"] assms by simp
  then show "send_list d = send_list c" by (auto dest: arg_cong[of _ _ send_list])
  show "at_conn p c0 S (c\<lparr>send_list := l\<rparr>) \<Longrightarrow> at_conn p c0 S (d\<lparr>send_list := l\<rparr>)"
    using flush_step_at[of p c0 S "c\<lparr>send_list := l\<rparr>" b maxlen window head tail] e[of l] by (simp add: post_def)
qed

lemma flush_loop_listed:
  assumes "flush_loop c p b maxlen window head tail k = Some y"
  shows "send_list (fst y) = send_list c \<and>
    (\<forall>c0 S l. at_conn p c0 S (c\<lparr>send_list := l\<rparr>) \<longrightarrow> at_conn p c0 S ((fst y)\<lparr>send_list := l\<rparr>))"
proof -
  let ?P = "\<lambda>c p (_ :: nat) (_ :: u32) (_ :: u32) (_ :: u32) (_ :: u32) (_ :: int) (y :: usn_context \<times> int).
    send_list (fst y) = send_list c \<and>
    (\<forall>c0 S l. at_conn p c0 S (c\<lparr>send_list := l\<rparr>) \<longrightarrow> at_conn p c0 S ((fst y)\<lparr>send_list := l\<rparr>))"
  show ?thesis
  proof (rule flush_loop.raw_induct[of ?P, OF _ assms], goal_cases)
    case (1 rec c p b maxlen window head tail k y)
    obtain d r where d: "flush_step c p b maxlen window head tail = Some (d, r)"
        "(case r of Inl None \<Rightarrow> Some (d, k) | Inl (Some ret) \<Rightarrow> Some (d, ret)
          | Inr head \<Rightarrow> rec d p b maxlen window head tail (k + 1)) = Some y"
      using 1(2) by (auto simp: bind_eq_Some_conv)
    note s = flush_step_listed[OF d(1)]
    show ?case using d(2) s 1(1) by (auto split: sum.splits option.splits)
  qed
qed

lemma data_flush_listed:
  assumes "data_flush c p = Some (d, r)"
  shows "send_list d = send_list c" "at_conn p c0 S (c\<lparr>send_list := l\<rparr>) \<Longrightarrow> at_conn p c0 S (d\<lparr>send_list := l\<rparr>)"
  using assms flush_loop_listed
  by (fastforce simp: data_flush_def usnet_flush_tcp_sendbuf_def Let_def split: if_splits option.splits)+

text \<open>Back on the list, or off it with flag and counter.\<close>

lemma send_list_back:
  assumes a: "at_conn p c0 S (d\<lparr>send_list := l\<rparr>)" and l: "p \<in> set l" "send_list d = remove1 p l"
  shows "at_conn p c0 S (d\<lparr>send_list := remove1 p l @ [p]\<rparr>)"
proof (rule at_frame[OF a])
  show "conn_frame p (d\<lparr>send_list := l\<rparr>) (d\<lparr>send_list := remove1 p l @ [p]\<rparr>)"
    using l by (auto simp: frame_simps queued_def dest: set_remove1_subset[THEN subsetD])
  have "lists_ok (d\<lparr>send_list := l\<rparr>)" by (rule at_lists_ok[OF a])
  moreover from this have "q_ok (remove1 p l @ [p]) (send_list_cnt d) (\<lambda>q. on_send_list (snd_of d q))"
    using q_ok_move[of l "send_list_cnt d" "\<lambda>q. on_send_list (snd_of d q)" p] l by (simp add: lists_ok_def q_ok_def)
  ultimately show "lists_ok (d\<lparr>send_list := remove1 p l @ [p]\<rparr>)" by (simp add: lists_ok_def rto_ok_def live_def)
qed

lemma send_list_off:
  assumes a: "at_conn p c0 S (d\<lparr>send_list := l\<rparr>)" and l: "p \<in> set l" "send_list d = remove1 p l"
  shows "at_conn p c0 S (upd_snd p (\<lambda>s. s\<lparr>on_send_list := False\<rparr>) (d\<lparr>send_list_cnt := send_list_cnt d - 1\<rparr>))"
proof -
  have "on_send_list (snd_of d p)" using at_lists_ok[OF a] l(1) by (simp add: lists_ok_def q_ok_def)
  then have "usnet_remove_send_list (d\<lparr>send_list := l\<rparr>) p =
      Some (upd_snd p (\<lambda>s. s\<lparr>on_send_list := False\<rparr>) (d\<lparr>send_list_cnt := send_list_cnt d - 1\<rparr>))"
    using l by (simp add: usnet_remove_send_list_def upd_snd_def upd_tcb_def tcb_of_def)
  then show ?thesis using remove_send_list_at[OF a] by (simp add: wp_def)
qed

lemma data_walk_inv: "net_inv c \<Longrightarrow> post (\<lambda>x. net_inv (fst x)) (data_walk c thresh cnt ws)"
proof (induction ws arbitrary: c cnt)
  case (Cons p ws)
  show ?case
  proof (cases "p \<in> set (send_list c)")
    case True
    let ?c = "c\<lparr>send_list := remove1 p (send_list c)\<rparr>"
    have on: "on_send_list (snd_of c p)" using True Cons.prems by (simp add: net_inv_def ctx_ok_def lists_ok_def q_ok_def)
    have "live c p" using True by (auto intro!: queued_live[OF Cons.prems] simp: queued_def)
    then have a: "at_conn p c passive_states (?c\<lparr>send_list := send_list c\<rparr>)" using inv_at[OF Cons.prems] by simp
    have "post (\<lambda>x. net_inv (fst x)) (if r < 0 then do {
          l \<leftarrow> TAILQ_INSERT_TAIL p (send_list d);
          Some (d\<lparr>send_list := l\<rparr>, cnt + 1)
        } else do {
          let ctx = upd_snd p (\<lambda>s. s\<lparr>on_send_list := False\<rparr>) (d\<lparr>send_list_cnt := send_list_cnt d - 1\<rparr>);
          ctx \<leftarrow> (if control_list_waiting (tcb_of ctx p) \<and> \<not> on_ack_list (snd_of ctx p)
                  then usnet_add_control_list (upd_tcb p (\<lambda>t. t\<lparr>control_list_waiting := False\<rparr>) ctx) p
                  else Some ctx);
          data_walk ctx thresh (cnt + 1) ws })"
      if d: "data_flush ?c p = Some (d, r)" for d r
    proof -
      have s: "send_list d = remove1 p (send_list c)" using data_flush_listed(1)[OF d] by simp
      have e: "at_conn p c passive_states (d\<lparr>send_list := send_list c\<rparr>)" by (rule data_flush_listed(2)[OF d a])
      have "net_inv (d\<lparr>send_list := l\<rparr>)" if "TAILQ_INSERT_TAIL p (send_list d) = Some l" for l
        using that at_inv[OF Cons.prems send_list_back[OF e True s]] s
        by (simp add: TAILQ_INSERT_TAIL_def split: if_splits)
      then have requeue: "post (\<lambda>x. net_inv (fst x)) (do {
          l \<leftarrow> TAILQ_INSERT_TAIL p (send_list d); Some (d\<lparr>send_list := l\<rparr>, cnt + 1) })"
        by (auto simp: post_def bind_eq_Some_conv)
      show ?thesis
        unfolding Let_def
        by (rule post_if, rule requeue, rule post_seq[OF control_waiting_at[OF send_list_off[OF e True s]]])
          (rule Cons.IH, erule settled_inv[OF Cons.prems])
    qed
    then have "post (\<lambda>x. net_inv (fst x)) (do {
        (ctx, ret) \<leftarrow> data_flush ?c p;
        if ret < 0 then do {
          l \<leftarrow> TAILQ_INSERT_TAIL p (send_list ctx);
          Some (ctx\<lparr>send_list := l\<rparr>, cnt + 1)
        } else do {
          let ctx = upd_snd p (\<lambda>s. s\<lparr>on_send_list := False\<rparr>) (ctx\<lparr>send_list_cnt := send_list_cnt ctx - 1\<rparr>);
          ctx \<leftarrow> (if control_list_waiting (tcb_of ctx p) \<and> \<not> on_ack_list (snd_of ctx p)
                  then usnet_add_control_list (upd_tcb p (\<lambda>t. t\<lparr>control_list_waiting := False\<rparr>) ctx) p
                  else Some ctx);
          data_walk ctx thresh (cnt + 1) ws } })"
      by (cases "data_flush ?c p") auto
    then show ?thesis using on True Cons.prems by (simp add: post_Some)
  qed (use Cons.prems in \<open>auto simp: post_def\<close>)
qed (simp add: post_Some)

end
