(* ===== verification/Timer_Steps.thy ===== *)
theory Timer_Steps
  imports Send_Steps
begin

text \<open>
  Expiring timers keep the invariant: the walks over the timewait and the inactivity list, and, as long as
  no retransmission gives up, the timer wheel.
\<close>

section \<open>Expiry of the timewait period and of idle connections\<close>

lemma closed_with_at:
  "at_conn p c0 S c \<Longrightarrow> at_conn p c0 {TCPS_CLOSED} (closed_with p why c)"
  unfolding closed_with_def by (erule at_upd) (auto simp: tcb_conn_def)

lemma closed_passive: "settled p c0 {TCPS_CLOSED} c \<Longrightarrow> settled p c0 passive_states c"
  by (erule settled_weaken) (simp add: passive_states_def)

lemma error_or_release_post:
  assumes "at_conn p c0 S c"
  shows "post (settled p c0 S) (error_or_release c p)"
  unfolding error_or_release_def
  by (rule post_if)
    (rule post_settled_at[OF raise_event_at(3)[OF assms, THEN wp_post] order_refl] post_settled_gone[OF release_post[OF assms] order_refl])+

lemma timewait_walk_inv: "net_inv c \<Longrightarrow> post net_inv (timewait_walk c thresh cnt ws)"
proof (induction ws arbitrary: c cnt)
  case (Cons p ws)
  have exp: "post net_inv (do {
      l \<leftarrow> TAILQ_REMOVE p (timewait_list c);
      let ctx = upd_tcb p (\<lambda>t. t\<lparr>on_timewait_list := False\<rparr>)
        (c\<lparr>timewait_list := l, timewait_list_cnt := timewait_list_cnt c - 1\<rparr>);
      usnet_release_tcb (closed_with p TCP_ACTIVE_CLOSE ctx) p })"
    if on: "on_timewait_list (tcb_of c p)"
  proof -
    have p: "p \<in> set (timewait_list c)" using on Cons.prems by (simp add: net_inv_def ctx_ok_def lists_ok_def q_ok_def)
    then have "live c p" by (auto intro!: queued_live[OF Cons.prems] simp: queued_def)
    then have r: "post (at_conn p c passive_states) (usnet_remove_timewait_list c p)"
      by (intro remove_timewait_list_post inv_at[OF Cons.prems])
    have "usnet_remove_timewait_list c p = Some (upd_tcb p (\<lambda>t. t\<lparr>on_timewait_list := False\<rparr>)
        (c\<lparr>timewait_list := remove1 p (timewait_list c), timewait_list_cnt := timewait_list_cnt c - 1\<rparr>))"
      using on p by (simp add: usnet_remove_timewait_list_def upd_tcb_def tcb_of_def)
    then have a: "at_conn p c passive_states (upd_tcb p (\<lambda>t. t\<lparr>on_timewait_list := False\<rparr>)
        (c\<lparr>timewait_list := remove1 p (timewait_list c), timewait_list_cnt := timewait_list_cnt c - 1\<rparr>))"
      using r by (simp add: post_def)
    have "post net_inv (usnet_release_tcb (closed_with p TCP_ACTIVE_CLOSE (upd_tcb p (\<lambda>t. t\<lparr>on_timewait_list := False\<rparr>)
        (c\<lparr>timewait_list := remove1 p (timewait_list c), timewait_list_cnt := timewait_list_cnt c - 1\<rparr>))) p)"
      by (rule post_conseq[OF post_settled_gone[OF release_post[OF closed_with_at[OF a]] order_refl]])
        (rule settled_inv[OF Cons.prems closed_passive])
    then show ?thesis using p by simp
  qed
  have "post net_inv (Option.bind (if \<not> on_control_list (snd_of c p) then do {
      l \<leftarrow> TAILQ_REMOVE p (timewait_list c);
      let ctx = upd_tcb p (\<lambda>t. t\<lparr>on_timewait_list := False\<rparr>)
        (c\<lparr>timewait_list := l, timewait_list_cnt := timewait_list_cnt c - 1\<rparr>);
      usnet_release_tcb (closed_with p TCP_ACTIVE_CLOSE ctx) p } else Some c)
      (\<lambda>ctx. timewait_walk ctx thresh (cnt + 1) ws))" if "on_timewait_list (tcb_of c p)"
    by (rule post_seq[of net_inv], rule post_if, rule exp[OF that], rule post_Some, rule Cons.prems, rule Cons.IH)
  then show ?case using Cons
    by (simp only: timewait_walk.simps) (intro post_if post_Some, auto)
qed (simp add: post_Some)

lemma timeout_walk_inv: "net_inv c \<Longrightarrow> post net_inv (timeout_walk c thresh cnt ws)"
proof (induction ws arbitrary: c cnt)
  case (Cons p ws)
  have "post net_inv (do {
      let ctx = upd_tcb p (\<lambda>t. t\<lparr>on_timeout_list := False\<rparr>) c;
      l \<leftarrow> TAILQ_REMOVE p (timeout_list ctx);
      let ctx = ctx\<lparr>timeout_list := l, timeout_list_cnt := timeout_list_cnt ctx - 1\<rparr>;
      ctx \<leftarrow> error_or_release (closed_with p TCP_TIMEDOUT ctx) p;
      timeout_walk ctx thresh (cnt + 1) ws })"
  proof (cases "p \<in> set (timeout_list c)")
    case True
    have on: "on_timeout_list (tcb_of c p)"
      using True Cons.prems by (simp add: net_inv_def ctx_ok_def lists_ok_def q_ok_def)
    have "live c p" using True by (auto intro!: queued_live[OF Cons.prems] simp: queued_def)
    then have "post (at_conn p c passive_states) (usnet_remove_timeout_list c p)"
      by (intro post_at[OF inv_at[OF Cons.prems]] timer_ops_frame)
        (use timeout_q.remove_ok[of c p] Cons.prems in \<open>auto simp: net_inv_def ctx_ok_def\<close>)
    then have a: "at_conn p c passive_states ((upd_tcb p (\<lambda>t. t\<lparr>on_timeout_list := False\<rparr>) c)
        \<lparr>timeout_list := remove1 p (timeout_list c), timeout_list_cnt := timeout_list_cnt c - 1\<rparr>)"
      using on True by (simp add: usnet_remove_timeout_list_def post_def)
    show ?thesis
      using True post_seq[OF error_or_release_post[OF closed_with_at[OF a]], of net_inv
          "\<lambda>ctx. timeout_walk ctx thresh (cnt + 1) ws" TCP_TIMEDOUT]
        Cons.IH[OF settled_inv[OF Cons.prems closed_passive]]
      by simp
  qed simp
  then show ?case using Cons.prems
    by (simp only: timeout_walk.simps) (intro post_if post_Some)
qed (simp add: post_Some)


section \<open>Retransmission timeouts\<close>

text \<open>No timer of the wheel gives up: every connection on it has been retransmitted fewer than 16 times
  and is in a state for which there is something to retransmit.\<close>

definition rtm_safe :: "usn_context \<Rightarrow> bool" where
  "rtm_safe c \<longleftrightarrow> (\<forall>p. live c p \<longrightarrow> 0 \<le> on_rto_idx (tcb_of c p) \<longrightarrow> nrtx (snd_of c p) < 16 \<and>
     tcb_state (tcb_of c p) \<in> {TCPS_SYN_RECEIVED, TCPS_ESTABLISHED, TCPS_CLOSE_WAIT})"

text \<open>Operations that leave the wheel alone.\<close>

definition same_wheel :: "usn_context \<Rightarrow> usn_context \<Rightarrow> bool" where
  "same_wheel c d \<longleftrightarrow> rto_list d = rto_list c \<and> rto_list_cnt d = rto_list_cnt c \<and>
     (\<forall>q. on_rto_idx (tcb_of d q) = on_rto_idx (tcb_of c q))"

lemma same_wheel_trans: "same_wheel a b \<Longrightarrow> same_wheel b c \<Longrightarrow> same_wheel a c"
  by (simp add: same_wheel_def)

lemma same_wheel_upd:
  "(\<And>t. on_rto_idx (f t) = on_rto_idx t) \<Longrightarrow> same_wheel c (upd_tcb p f c)" "same_wheel c (upd_snd p g c)"
  by (simp_all add: same_wheel_def)

lemma same_wheel_queues:
  "control_enqueue c p = Some d \<Longrightarrow> same_wheel c d"
  "usnet_remove_control_list c p = Some d \<Longrightarrow> same_wheel c d"
  "usnet_add_send_list c p = Some d \<Longrightarrow> same_wheel c d"
  "usnet_remove_ack_list c p = Some d \<Longrightarrow> same_wheel c d"
  "usnet_update_timeout_list c p = Some d \<Longrightarrow> same_wheel c d"
  "usnet_send_data c frame = Some d \<Longrightarrow> same_wheel c d"
  "usnet_add_rto_list c p = Some d \<Longrightarrow> 0 \<le> on_rto_idx (tcb_of c p) \<Longrightarrow> same_wheel c d"
  by (auto simp: same_wheel_def control_enqueue_def usnet_remove_control_list_def usnet_add_send_list_def
      usnet_remove_ack_list_def usnet_update_timeout_list_def usnet_send_data_def usnet_add_rto_list_def Let_def
      bind_eq_Some_conv split: if_splits)

lemma wheel_post: "same_wheel c d \<Longrightarrow> (\<And>e. m = Some e \<Longrightarrow> same_wheel d e) \<Longrightarrow> post (same_wheel c) m"
  using same_wheel_trans by (auto simp: post_def)

lemma wheel_posts:
  assumes "same_wheel c d"
  shows "post (same_wheel c) (control_enqueue d p)" "post (same_wheel c) (usnet_remove_control_list d p)"
    "post (same_wheel c) (usnet_add_send_list d p)" "post (same_wheel c) (usnet_remove_ack_list d p)"
    "post (same_wheel c) (usnet_update_timeout_list d p)" "post (same_wheel c) (usnet_send_data d frame)"
  by (rule wheel_post[OF assms], erule same_wheel_queues)+

lemma same_wheel_nxt: "same_wheel c d \<Longrightarrow> same_wheel c (upd_tcb p (\<lambda>t. t\<lparr>snd_nxt := x t\<rparr>) d)"
  by (simp add: same_wheel_def)

text \<open>Sending a segment of a connection whose timer is running starts no other one.\<close>

lemma ipv4_output_wheel: "same_wheel c d \<Longrightarrow> post (\<lambda>x. same_wheel c (fst x)) (usnet_ipv4_output d p n)"
  unfolding usnet_ipv4_output_def Let_def usnet_arp_request_def usnet_arp_output_def
  by (intro post_case_option post_seq[OF wheel_posts(6)] post_Some) (simp_all add: same_wheel_def)

lemma tcp_build_wheel:
  assumes "same_wheel c d"
  shows "post (\<lambda>x. same_wheel c (fst x)) (tcp_build d p flags payload)"
proof -
  have out: "same_wheel c e \<Longrightarrow> post (\<lambda>x. same_wheel c (fst x)) (Option.bind m (\<lambda>opts. Some (e, f opts)))" for e m f
    by (auto simp: post_def bind_eq_Some_conv)
  show ?thesis
    unfolding tcp_build_def Let_def
    by (intro post_seq[of "same_wheel c"] post_if post_Some out wheel_posts(5)) (use assms in \<open>auto simp: same_wheel_def\<close>)
qed

lemma send_tcp_packet_wheel:
  assumes w: "same_wheel c d" and on: "0 \<le> on_rto_idx (tcb_of c p)"
  shows "post (\<lambda>x. same_wheel c (fst x)) (usnet_send_tcp_packet d p flags payload)"
proof -
  have rto: "post (same_wheel c) (usnet_add_rto_list e p)" if "same_wheel c e" for e
    using that on by (intro wheel_post[OF that] same_wheel_queues(7)) (simp_all add: same_wheel_def)
  show ?thesis
    unfolding usnet_send_tcp_packet_def Let_def
    by (rule post_if, rule post_Some, simp add: w, rule post_pair[OF ipv4_output_wheel[OF w]], rule post_case_option,
        rule post_Some, simp, rule post_pair[OF tcp_build_wheel], assumption,
        intro post_seq[of "same_wheel c"] post_if post_Some wheel_posts(6) rto) (auto simp: same_wheel_def)
qed

lemma add_control_list_wheel:
  assumes w: "same_wheel c d" and on: "0 \<le> on_rto_idx (tcb_of c p)" and st: "tcb_state (tcb_of d p) \<noteq> TCPS_CLOSED"
  shows "post (same_wheel c) (usnet_add_control_list d p)"
proof -
  have send: "post (\<lambda>x. same_wheel c (fst x)) (do {
      (ctx, ret) \<leftarrow> usnet_send_tcp_packet e p flags [];
      ctx \<leftarrow> usnet_remove_ack_list ctx p;
      Some (ctx, ret) })" if "same_wheel c e" for e flags
    by (rule post_pair[OF send_tcp_packet_wheel[OF that on]], rule post_seq[OF wheel_posts(4)]) (auto intro: post_Some)
  have "post (\<lambda>x. same_wheel c (fst x)) (usnet_send_control_packet d p)"
    using st w unfolding usnet_send_control_packet_def Let_def
    by (cases "tcb_state (tcb_of d p)")
      (auto intro!: post_if post_Some send send_tcp_packet_wheel[OF _ on] same_wheel_nxt)
  then show ?thesis unfolding add_control_list_eq by (rule post_pair) (intro post_if wheel_posts(1,2))
qed

lemma rto_requeue_at:
  assumes a: "at_conn p c0 S c" and S: "TCPS_CLOSED \<notin> S" and on: "0 \<le> on_rto_idx (tcb_of c p)"
  shows "post (\<lambda>d. at_conn p c0 S d \<and> same_wheel c d) (rto_requeue c p)"
proof -
  have q: "post (\<lambda>e. at_conn p c0 S e \<and> same_wheel c e) (usnet_add_control_list d p)"
    "post (\<lambda>e. at_conn p c0 S e \<and> same_wheel c e) (usnet_remove_control_list d p)"
    "post (\<lambda>e. at_conn p c0 S e \<and> same_wheel c e) (usnet_add_send_list d p)"
    if d: "at_conn p c0 S d \<and> same_wheel c d" for d
  proof -
    have "tcb_state (tcb_of d p) \<noteq> TCPS_CLOSED" using d S by (auto simp: at_conn_def)
    then show "post (\<lambda>e. at_conn p c0 S e \<and> same_wheel c e) (usnet_add_control_list d p)"
      using d add_control_list_wheel[OF _ on, of d] add_control_list_open[OF _ S, of p c0 d] by (simp add: post_def)
    show "post (\<lambda>e. at_conn p c0 S e \<and> same_wheel c e) (usnet_remove_control_list d p)"
      "post (\<lambda>e. at_conn p c0 S e \<and> same_wheel c e) (usnet_add_send_list d p)"
      using d at_posts(1,2)[of p c0 S d] wheel_posts(2,3)[of c d p] by (simp_all add: post_def)
  qed
  have n: "at_conn p c0 S d \<and> same_wheel c d" if "d = upd_tcb p (\<lambda>t. t\<lparr>snd_nxt := snd_una (sndvar t)\<rparr>) c" for d
    using at_upd_nxt[OF a] by (simp add: that same_wheel_def)
  have w: "at_conn p c0 S (upd_tcb p (\<lambda>t. t\<lparr>control_list_waiting := True\<rparr>) d) \<and>
      same_wheel c (upd_tcb p (\<lambda>t. t\<lparr>control_list_waiting := True\<rparr>) d)" if "at_conn p c0 S d \<and> same_wheel c d" for d
    using that by (auto intro!: at_upd[of p c0 S] simp: tcb_conn_def same_wheel_def)
  show ?thesis
    unfolding rto_requeue_def Let_def
    by (intro post_if q n[OF refl] post_seq[of "\<lambda>d. at_conn p c0 S d \<and> same_wheel c d"]) (auto intro!: post_if post_Some q w n[OF refl])
qed

text \<open>A timeout before the limit: the retransmission is counted, the timeout backed off and the window shrunk.\<close>

definition rto_counted :: "nat \<Rightarrow> usn_context \<Rightarrow> usn_context" where
  "rto_counted p c = upd_snd p rto_shrink (upd_tcb p rto_backoff
    (upd_snd p (\<lambda>s. if nrtx s > max_nrtx s then s\<lparr>max_nrtx := nrtx s\<rparr> else s) (upd_snd p (\<lambda>s. s\<lparr>nrtx := nrtx s + 1\<rparr>) c)))"

lemma rto_backoff_fields [simp]:
  "tcb_conn (rto_backoff t) = tcb_conn t" "tcb_state (rto_backoff t) = tcb_state t" "rcv_nxt (rto_backoff t) = rcv_nxt t"
  "daddr (rto_backoff t) = daddr t" "on_timeout_list (rto_backoff t) = on_timeout_list t"
  "on_timewait_list (rto_backoff t) = on_timewait_list t" "on_rto_idx (rto_backoff t) = on_rto_idx t"
  "on_control_list (sndvar (rto_backoff t)) = on_control_list (sndvar t)" "iss (sndvar (rto_backoff t)) = iss (sndvar t)"
  "on_send_list (sndvar (rto_backoff t)) = on_send_list (sndvar t)" "on_ack_list (sndvar (rto_backoff t)) = on_ack_list (sndvar t)"
  by (simp_all add: rto_backoff_def Let_def)

lemma rto_counted_at: "at_conn p c0 S c \<Longrightarrow> at_conn p c0 S (rto_counted p c)"
  unfolding rto_counted_def by (intro at_upd_snd at_upd[of p c0 S]) (auto simp: rto_shrink_def Let_def)

lemma rto_counted_wheel: "same_wheel c (rto_counted p c)"
  by (simp add: rto_counted_def same_wheel_def)

lemma handle_rto_eq:
  assumes "nrtx (snd_of c p) < 16" "tcb_state (tcb_of c p) \<in> {TCPS_SYN_RECEIVED, TCPS_ESTABLISHED, TCPS_CLOSE_WAIT}"
  shows "usnet_handle_rto c p = (if rto (snd_of c p) > 0 then do { ctx \<leftarrow> rto_requeue (rto_counted p c) p; Some (ctx, 0) } else None)"
  using assms unfolding usnet_handle_rto_def Let_def rto_counted_def[symmetric] by (auto simp: rto_counted_def)

lemma handle_rto_at:
  assumes at: "at_conn p c0 S c" and on: "0 \<le> on_rto_idx (tcb_of c p)" and n: "nrtx (snd_of c p) < 16"
    and s: "tcb_state (tcb_of c p) \<in> {TCPS_SYN_RECEIVED, TCPS_ESTABLISHED, TCPS_CLOSE_WAIT}"
  shows "post (\<lambda>x. at_conn p c0 S (fst x) \<and> same_wheel c (fst x)) (usnet_handle_rto c p)"
proof -
  let ?T = "{tcb_state (tcb_of c p)}" and ?c = "rto_counted p c"
  have "at_conn p c0 ?T d \<Longrightarrow> at_conn p c0 S d" for d using at by (auto simp: at_conn_def)
  then have "post (\<lambda>x. at_conn p c0 S (fst x) \<and> same_wheel c (fst x)) (do { ctx \<leftarrow> rto_requeue ?c p; Some (ctx, 0 :: int) })"
    using s on rto_counted_at[OF at_exact[OF at]] rto_counted_wheel[of c p]
    by (intro post_seq[OF rto_requeue_at[of p c0 ?T]]) (auto intro!: post_Some intro: same_wheel_trans simp: same_wheel_def)
  then show ?thesis using handle_rto_eq[OF n s] by simp
qed

text \<open>One connection of the bucket: after its retransmission has been scheduled, unlinking it is the removal
  from the wheel.\<close>

lemma rtm_unlink:
  assumes a: "at_conn p c0 S c" and p: "p \<in> set (rto_list c i)"
  shows "at_conn p c0 S (upd_tcb p (\<lambda>t. t\<lparr>on_rto_idx := - 1\<rparr>)
    (c\<lparr>rto_list := (rto_list c)(i := remove1 p (rto_list c i)), rto_list_cnt := rto_list_cnt c - 1\<rparr>))"
proof -
  have "on_rto_idx (tcb_of c p) = int i" using lists_ok_rto[OF at_lists_ok[OF a]] p by (simp add: rto_ok_def)
  then have "usnet_remove_rto_list c p = Some (upd_tcb p (\<lambda>t. t\<lparr>on_rto_idx := - 1\<rparr>)
    (c\<lparr>rto_list := (rto_list c)(i := remove1 p (rto_list c i)), rto_list_cnt := rto_list_cnt c - 1\<rparr>))"
    using p by (simp add: usnet_remove_rto_list_def upd_tcb_def tcb_of_def)
  then show ?thesis using remove_rto_list_at[OF a] by (simp add: wp_def)
qed

lemma rtm_safe_at:
  assumes "rtm_safe c" "at_conn p c S d" "on_rto_idx (tcb_of d p) < 0"
  shows "rtm_safe d"
  unfolding rtm_safe_def
proof (intro allI impI)
  fix q
  assume "live d q" "0 \<le> on_rto_idx (tcb_of d q)"
  then show "nrtx (snd_of d q) < 16 \<and> tcb_state (tcb_of d q) \<in> {TCPS_SYN_RECEIVED, TCPS_ESTABLISHED, TCPS_CLOSE_WAIT}"
    using assms by (cases "q = p") (auto simp: rtm_safe_def at_conn_def live_def)
qed

lemma rtm_walk_inv:
  "net_inv c \<Longrightarrow> rtm_safe c \<Longrightarrow> distinct ws \<Longrightarrow> set ws \<subseteq> set (rto_list c i) \<Longrightarrow>
    post (\<lambda>x. net_inv (fst x) \<and> rtm_safe (fst x)) (rtm_walk c i thresh cnt ws)"
proof (induction ws arbitrary: c cnt)
  case (Cons p ws)
  have p: "p \<in> set (rto_list c i)" using Cons.prems(4) by simp
  then have l: "live c p" by (auto intro!: queued_live[OF Cons.prems(1)] simp: queued_def)
  have "on_rto_idx (tcb_of c p) = int i"
    using p Cons.prems(1) lists_ok_rto by (auto simp: net_inv_def ctx_ok_def rto_ok_def)
  then have on: "0 \<le> on_rto_idx (tcb_of c p)" by simp
  have s: "nrtx (snd_of c p) < 16" "tcb_state (tcb_of c p) \<in> {TCPS_SYN_RECEIVED, TCPS_ESTABLISHED, TCPS_CLOSE_WAIT}"
    using Cons.prems(2) l on by (auto simp: rtm_safe_def)
  note h = handle_rto_at[OF inv_at[OF Cons.prems(1) l] on s]
  have "post (\<lambda>x. net_inv (fst x) \<and> rtm_safe (fst x)) (rtm_walk (upd_tcb p (\<lambda>t. t\<lparr>on_rto_idx := - 1\<rparr>)
      (d\<lparr>rto_list := (rto_list d)(i := remove1 p (rto_list d i)), rto_list_cnt := rto_list_cnt d - 1\<rparr>)) i thresh (cnt + 1) ws)"
    if d: "at_conn p c passive_states d" "same_wheel c d" for d
  proof (rule Cons.IH)
    have pd: "p \<in> set (rto_list d i)" using p d(2) by (simp add: same_wheel_def)
    note a = rtm_unlink[OF d(1) pd]
    show "net_inv (upd_tcb p (\<lambda>t. t\<lparr>on_rto_idx := - 1\<rparr>)
        (d\<lparr>rto_list := (rto_list d)(i := remove1 p (rto_list d i)), rto_list_cnt := rto_list_cnt d - 1\<rparr>))"
      by (rule at_inv[OF Cons.prems(1) a])
    show "rtm_safe (upd_tcb p (\<lambda>t. t\<lparr>on_rto_idx := - 1\<rparr>)
        (d\<lparr>rto_list := (rto_list d)(i := remove1 p (rto_list d i)), rto_list_cnt := rto_list_cnt d - 1\<rparr>))"
      by (rule rtm_safe_at[OF Cons.prems(2) a]) simp
    show "distinct ws" using Cons.prems(3) by simp
    show "set ws \<subseteq> set (rto_list (upd_tcb p (\<lambda>t. t\<lparr>on_rto_idx := - 1\<rparr>)
        (d\<lparr>rto_list := (rto_list d)(i := remove1 p (rto_list d i)), rto_list_cnt := rto_list_cnt d - 1\<rparr>)) i)"
    proof
      fix x
      assume "x \<in> set ws"
      moreover from this have "x \<noteq> p" using Cons.prems(3) by auto
      ultimately show "x \<in> set (rto_list (upd_tcb p (\<lambda>t. t\<lparr>on_rto_idx := - 1\<rparr>)
          (d\<lparr>rto_list := (rto_list d)(i := remove1 p (rto_list d i)), rto_list_cnt := rto_list_cnt d - 1\<rparr>)) i)"
        using Cons.prems(4) d(2) by (auto simp: same_wheel_def in_set_remove1)
    qed
  qed
  then have step: "post (\<lambda>x. net_inv (fst x) \<and> rtm_safe (fst x)) (Option.bind (usnet_handle_rto c p) (\<lambda>(d, ret).
      rtm_walk (upd_tcb p (\<lambda>t. t\<lparr>on_rto_idx := - 1\<rparr>)
      (d\<lparr>rto_list := (rto_list d)(i := remove1 p (rto_list d i)), rto_list_cnt := rto_list_cnt d - 1\<rparr>)) i thresh (cnt + 1) ws))"
    by (intro post_seq[OF h]) auto
  then show ?case using Cons.prems(1,2) on
    by (cases "usnet_handle_rto c p") (auto simp: post_Some split_beta Let_def)
qed (simp add: post_Some)

text \<open>Moving far timers into the wheel.\<close>

lemma sum_move:
  fixes f :: "nat \<Rightarrow> 'a list"
  assumes "k < n" "p \<in> set (f n)"
  shows "(\<Sum>i \<le> n. int (length ((f(n := remove1 p (f n), k := f k @ [p])) i))) = (\<Sum>i \<le> n. int (length (f i)))"
proof -
  have "(\<Sum>i \<le> n. int (length ((f(n := remove1 p (f n), k := f k @ [p])) i))) =
      (\<Sum>i \<le> n. int (length (f i)) + (if i = k then 1 else 0) - (if i = n then 1 else 0))"
    using assms by (intro sum.cong) (auto simp: int_length_remove1)
  also have "\<dots> = (\<Sum>i \<le> n. int (length (f i)))" using assms by (simp add: sum.distrib sum_subtractf)
  finally show ?thesis .
qed

lemma rto_move_ok:
  assumes ok: "rto_ok c" and p: "p \<in> set (rto_list c n)" and n: "n = RTO_HASH" and k: "k < n"
    and d: "rto_list d = (rto_list c)(n := remove1 p (rto_list c n), k := rto_list c k @ [p])"
      "rto_list_cnt d = rto_list_cnt c" "tcb_of d = (tcb_of c)(p := (tcb_of c p)\<lparr>on_rto_idx := int k\<rparr>)"
  shows "rto_ok d"
proof -
  have c: "distinct (rto_list c i)" "q \<in> set (rto_list c i) \<Longrightarrow> on_rto_idx (tcb_of c q) = int i"
    "live c q \<Longrightarrow> 0 \<le> on_rto_idx (tcb_of c q) \<Longrightarrow> q \<in> set (rto_list c (nat (on_rto_idx (tcb_of c q))))"
    "n < i \<Longrightarrow> rto_list c i = []" "live c q \<Longrightarrow> on_timewait_list (tcb_of c q) \<Longrightarrow> on_rto_idx (tcb_of c q) < 0"
    "rto_list_cnt c = (\<Sum>i \<le> n. int (length (rto_list c i)))" for i q
    using ok by (simp_all add: rto_ok_def n)
  have np: "p \<notin> set (rto_list c i)" if "i \<noteq> n" for i using c(2)[OF p] c(2)[of p i] that by auto
  have lv: "live d q = live c q" for q by (simp add: live_def d(3))
  have wheel: "on_rto_idx (tcb_of d q) = int i" if "q \<in> set (rto_list d i)" for q i
    using that c(1)[of n] c(2) np[of i] k by (cases "q = p") (auto simp: d(1,3) split: if_splits dest: set_remove1_subset[THEN subsetD])
  have on: "q \<in> set (rto_list d (nat (on_rto_idx (tcb_of d q))))" if "live d q" "0 \<le> on_rto_idx (tcb_of d q)" for q
    using that c(3)[of q] k by (cases "q = p") (auto simp: d(1,3) lv in_set_remove1)
  have "rto_list_cnt d = (\<Sum>i \<le> n. int (length (rto_list d i)))"
    unfolding d(1,2) sum_move[where f = "rto_list c", OF k p] by (rule c(6))
  moreover have "distinct (rto_list d i)" for i using c(1) np[of k] k by (auto simp: d(1))
  moreover have "rto_list d i = []" if "n < i" for i using that c(4) k by (simp add: d(1))
  moreover have "on_rto_idx (tcb_of d q) < 0" if "live d q" "on_timewait_list (tcb_of d q)" for q
  proof (cases "q = p")
    case True
    then have "on_rto_idx (tcb_of c p) < 0" using that c(5)[of p] by (simp add: d(3) lv)
    then show ?thesis using c(2)[OF p] by simp
  qed (use that c(5)[of q] in \<open>simp add: d(3) lv\<close>)
  ultimately show ?thesis using wheel on unfolding rto_ok_def n by blast
qed

lemma rearrange_walk_inv:
  "net_inv c \<Longrightarrow> rtm_safe c \<Longrightarrow> post (\<lambda>d. net_inv d \<and> rtm_safe d) (rearrange_walk c ws)"
proof (induction ws arbitrary: c)
  case (Cons p ws)
  define diff where "diff = sint (rto_now_ts c - ts_rto (snd_of c p))"
  define k where "k = unat ((of_int diff + rto_now_idx c) mod of_nat RTO_HASH)"
  have k: "k < RTO_HASH" unfolding k_def by (simp add: unat_mod)
  have move: "post (\<lambda>d. net_inv d \<and> rtm_safe d) (do {
      l \<leftarrow> TAILQ_REMOVE p (rto_list c RTO_HASH);
      let ctx = upd_tcb p (\<lambda>t. t\<lparr>on_rto_idx := int k\<rparr>) (c\<lparr>rto_list := (rto_list c)(RTO_HASH := l)\<rparr>);
      l \<leftarrow> TAILQ_INSERT_TAIL p (rto_list ctx k);
      rearrange_walk (ctx\<lparr>rto_list := (rto_list ctx)(k := l)\<rparr>) ws })"
  proof (cases "p \<in> set (rto_list c RTO_HASH)")
    case True
    define d where "d = (upd_tcb p (\<lambda>t. t\<lparr>on_rto_idx := int k\<rparr>) c)
      \<lparr>rto_list := (rto_list c)(RTO_HASH := remove1 p (rto_list c RTO_HASH), k := rto_list c k @ [p])\<rparr>"
    have l: "live c p" using True by (auto intro!: queued_live[OF Cons.prems(1)] simp: queued_def)
    have ok: "lists_ok c" using Cons.prems(1) by (simp add: net_inv_def ctx_ok_def)
    have t: "tcb_of d = (tcb_of c)(p := (tcb_of c p)\<lparr>on_rto_idx := int k\<rparr>)" by (simp add: d_def fun_eq_iff)
    have r: "rto_ok d" by (rule rto_move_ok[OF lists_ok_rto[OF ok] True refl k]) (simp_all add: d_def fun_eq_iff)
    have "lists_ok d"
      by (rule lists_okI[OF ok]) (simp_all add: t r, simp_all add: d_def)
    moreover have "conn_frame p c d"
      using True by (auto simp: frame_simps d_def queued_def split: if_splits dest: set_remove1_subset[THEN subsetD])
    ultimately have "at_conn p c passive_states d" by (intro at_frame[OF inv_at[OF Cons.prems(1) l]])
    then have "net_inv d" by (rule at_inv[OF Cons.prems(1)])
    moreover have "rtm_safe d"
      unfolding rtm_safe_def
    proof (intro allI impI)
      fix q
      assume q: "live d q" "0 \<le> on_rto_idx (tcb_of d q)"
      have "on_rto_idx (tcb_of c p) = int RTO_HASH" using lists_ok_rto[OF ok] True by (simp add: rto_ok_def)
      then have "live c q" "0 \<le> on_rto_idx (tcb_of c q)" using q by (auto simp: t live_def split: if_splits)
      then show "nrtx (snd_of d q) < 16 \<and> tcb_state (tcb_of d q) \<in> {TCPS_SYN_RECEIVED, TCPS_ESTABLISHED, TCPS_CLOSE_WAIT}"
        using Cons.prems(2) by (auto simp: rtm_safe_def t)
    qed
    ultimately have "post (\<lambda>d. net_inv d \<and> rtm_safe d) (rearrange_walk d ws)" by (rule Cons.IH)
    moreover have "(upd_tcb p (\<lambda>t. t\<lparr>on_rto_idx := int k\<rparr>) (c\<lparr>rto_list := (rto_list c)(RTO_HASH := remove1 p (rto_list c RTO_HASH))\<rparr>))
        \<lparr>rto_list := (rto_list c)(RTO_HASH := remove1 p (rto_list c RTO_HASH), k := rto_list c k @ [p])\<rparr> = d"
      by (simp add: d_def upd_tcb_def tcb_of_def)
    ultimately show ?thesis using True k by (auto simp: TAILQ_INSERT_TAIL_def Let_def)
  qed simp
  show ?case
    by (simp only: rearrange_walk.simps, subst (1) Let_def, fold diff_def, rule post_if, subst (1) Let_def, fold k_def,
        rule move, rule Cons.IH[OF Cons.prems])
qed (simp add: post_Some)


lemma same_conns_inv:
  assumes "net_inv c" "same_queues c d" "tcb_cache d = tcb_cache c" "ev_net2app_mq d = ev_net2app_mq c" "tcp_timeout d = tcp_timeout c"
  shows "net_inv d"
proof -
  have t: "tcb_of d = tcb_of c" using assms(3) by (simp add: fun_eq_iff tcb_of_def)
  have "lists_ok d" using assms(1,2) same_queues_ok by (auto simp: net_inv_def ctx_ok_def)
  moreover have "live d = live c" by (simp add: live_def t fun_eq_iff)
  moreover have "queued d = queued c" using assms(2) by (simp add: same_queues_def queued_def)
  ultimately show ?thesis using assms t unfolding net_inv_def ctx_ok_def by metis
qed

lemma rtm_clock:
  assumes "net_inv c" "rtm_safe c"
  shows "net_inv (c\<lparr>rto_now_idx := i, rto_now_ts := t\<rparr>)" "rtm_safe (c\<lparr>rto_now_idx := i, rto_now_ts := t\<rparr>)"
proof -
  have t: "tcb_of (c\<lparr>rto_now_idx := i, rto_now_ts := t\<rparr>) = tcb_of c" by (simp add: fun_eq_iff tcb_of_def)
  show "net_inv (c\<lparr>rto_now_idx := i, rto_now_ts := t\<rparr>)"
    by (rule same_conns_inv[OF assms(1)]) (simp_all add: same_queues_def t)
  show "rtm_safe (c\<lparr>rto_now_idx := i, rto_now_ts := t\<rparr>)"
    using assms(2) unfolding rtm_safe_def live_def t .
qed

lemma rtm_tick_inv:
  assumes "net_inv c" "rtm_safe c"
  shows "post (\<lambda>d. net_inv d \<and> rtm_safe d) (rtm_tick c)"
  unfolding rtm_tick_def Let_def usnet_rearrange_rto_store_def
  using rtm_clock[OF assms] by (intro post_if rearrange_walk_inv post_Some) auto

lemma rtm_loop_inv:
  assumes "rtm_loop c thresh cnt = Some y" "net_inv c" "rtm_safe c"
  shows "net_inv (fst y)"
proof -
  let ?P = "\<lambda>c (_ :: int) (_ :: int) (y :: usn_context \<times> int). net_inv c \<longrightarrow> rtm_safe c \<longrightarrow> net_inv (fst y)"
  have "?P c thresh cnt y"
  proof (rule rtm_loop.raw_induct[of ?P, OF _ assms(1)], intro impI, goal_cases)
    case (1 rec c thresh cnt y)
    let ?i = "unat (rto_now_idx c)"
    have d: "distinct (rto_list c ?i)" using 1(3) by (simp add: net_inv_def ctx_ok_def lists_ok_def rto_ok_def)
    have w: "post (\<lambda>x. net_inv (fst x) \<and> rtm_safe (fst x)) (rtm_walk c ?i thresh cnt (rto_list c ?i))"
      by (rule rtm_walk_inv[OF 1(3,4) d order_refl])
    have t: "net_inv e" "rtm_safe e" if "rtm_tick b = Some e" "net_inv b" "rtm_safe b" for b e
      using rtm_tick_inv[OF that(2,3)] that(1) by (simp_all add: post_def)
    show ?case
    proof (cases "sint (of_int (cur_time c) - rto_now_ts c) < 0")
      case False
      then obtain b n where b: "rtm_walk c ?i thresh cnt (rto_list c ?i) = Some (b, n)"
          "(if n > thresh then Some (b, n) else Option.bind (rtm_tick b) (\<lambda>ctx. rec ctx thresh n)) = Some y"
        using 1(2) by (auto simp: bind_eq_Some_conv)
      then have "net_inv b" "rtm_safe b" using w by (simp_all add: post_def)
      note nb = this
      show ?thesis
      proof (cases "n > thresh")
        case False
        then obtain e where "rtm_tick b = Some e" "rec e thresh n = Some y" using b(2) by (auto simp: bind_eq_Some_conv)
        then show ?thesis using 1(1) t[OF _ nb] by blast
      qed (use b(2) nb in auto)
    qed (use 1 in auto)
  qed
  then show ?thesis using assms by blast
qed

section \<open>Giving up a retransmission\<close>

text \<open>C20. When a connection in SYN-RECEIVED has been retransmitted 16 times, its timer expires once more and the
  connection is released, the counter of running timers ends one too low: the release has counted
  the timer down already and the walk over the bucket counts it down again.\<close>

theorem rto_give_up_miscounts:
  assumes c: "ctx_ok c" "0 < tcp_timeout c" "p \<in> set (rto_list c i)" "0 < thresh"
    and p: "tcb_state (tcb_of c p) = TCPS_SYN_RECEIVED" "16 \<le> nrtx (snd_of c p)" "0 < rto (snd_of c p)"
      "sndvar_at (tcb_of c p) \<noteq> None" "rcvvar_at (tcb_of c p) \<noteq> None"
  shows "\<exists>d. rtm_walk c i thresh 0 [p] = Some (d, 1) \<and> usnet_tcb_isempty (tcb_of d p) \<and>
    rto_list_cnt d = (\<Sum>i \<le> RTO_HASH. int (length (rto_list d i))) - 1"
proof -
  have l: "live c p" using c by (auto simp: ctx_ok_def queued_def)
  have on: "on_rto_idx (tcb_of c p) = int i" using c by (simp add: ctx_ok_def lists_ok_def rto_ok_def)
  have a: "at_conn p c {TCPS_CLOSED} (closed_with p TCP_CONN_FAIL c)"
    by (rule closed_with_at[of p c UNIV]) (use c l in \<open>simp add: at_conn_def\<close>)
  have "wp (gone p c {TCPS_CLOSED}) (usnet_release_tcb (closed_with p TCP_CONN_FAIL c) p)"
    by (rule release_gone[OF a]) (use p in \<open>simp_all add: closed_with_def\<close>)
  then obtain e where e: "usnet_release_tcb (closed_with p TCP_CONN_FAIL c) p = Some e" "gone p c {TCPS_CLOSED} e"
    by (auto simp: wp_def)
  have r: "rto_ok e" "p \<notin> set (rto_list e j)" for j
    using e(2) unqueued_notin[of e p] by (auto simp: gone_def ctx_ok_def lists_ok_def queued_def)
  have "usnet_handle_rto c p = Some (e, - 1)" using p e(1) by (auto simp: usnet_handle_rto_def less_tcp_state_def)
  then have "rtm_walk c i thresh 0 [p] = Some (upd_tcb p (\<lambda>t. t\<lparr>on_rto_idx := - 1\<rparr>)
      (e\<lparr>rto_list := (rto_list e)(i := remove1 p (rto_list e i)), rto_list_cnt := rto_list_cnt e - 1\<rparr>), 1)"
    using c(4) on by simp
  moreover have "(rto_list e)(i := remove1 p (rto_list e i)) = rto_list e" using r(2) by (simp add: remove1_idem)
  ultimately show ?thesis using e(2) r(1) by (auto simp: gone_def rto_ok_def usnet_tcb_isempty_def)
qed


theorem rto_give_up_miscounts_witness:
  "\<exists>p i d. rtm_walk (the (usnet_add_rto_list (conn_context (sample_tcb\<lparr>tcb_state := TCPS_SYN_RECEIVED,
      sndvar := (sndvar sample_tcb)\<lparr>nrtx := 16\<rparr>\<rparr>)) p)) i 512 0 [p] = Some (d, 1) \<and>
    rto_list_cnt d = (\<Sum>i \<le> RTO_HASH. int (length (rto_list d i))) - 1"
proof -
  let ?t = "sample_tcb\<lparr>tcb_state := TCPS_SYN_RECEIVED, sndvar := (sndvar sample_tcb)\<lparr>nrtx := 16\<rparr>\<rparr>"
  have "\<not> usnet_tcb_isempty ?t" "unqueued ?t"
    using sample_tcb_ok by (simp_all add: usnet_tcb_isempty_def unqueued_def)
  then obtain p where p: "ctx_ok (conn_context ?t)" "0 < tcp_timeout (conn_context ?t)" "live (conn_context ?t) p"
      "tcb_of (conn_context ?t) p = ?t"
    using conn_context_ctx_ok by blast
  have a: "at_conn p (conn_context ?t) UNIV (conn_context ?t)" using p by (simp add: at_conn_def)
  then obtain c where c: "usnet_add_rto_list (conn_context ?t) p = Some c" "at_conn p (conn_context ?t) UNIV c"
    using add_rto_list_at[OF a] by (auto simp: wp_def)
  have s: "tcb_state (tcb_of c p) = TCPS_SYN_RECEIVED" "nrtx (snd_of c p) = 16" "rto (snd_of c p) = 500"
    "sndvar_at (tcb_of c p) \<noteq> None" "rcvvar_at (tcb_of c p) \<noteq> None" "0 \<le> on_rto_idx (tcb_of c p)"
    using c(1) p(4)
    by (auto simp: usnet_add_rto_list_def Let_def bind_eq_Some_conv sample_tcb_def zero_tcb_def split: if_splits)
  have "p \<in> set (rto_list c (nat (on_rto_idx (tcb_of c p))))"
    using c(2) s(6) by (simp add: at_conn_def ctx_ok_def lists_ok_def rto_ok_def)
  then obtain d where "rtm_walk c (nat (on_rto_idx (tcb_of c p))) 512 0 [p] = Some (d, 1)"
      "rto_list_cnt d = (\<Sum>i \<le> RTO_HASH. int (length (rto_list d i))) - 1"
    using rto_give_up_miscounts[of c p "nat (on_rto_idx (tcb_of c p))" 512] c(2) s unfolding at_conn_def by auto
  then show ?thesis using c(1) by (metis option.sel)
qed

end
