(* ===== verification/Stack_Run.thy ===== *)
theory Stack_Run
  imports Timer_Steps
begin

text \<open>
  Runs of the network process. Frames of every protocol and the events of the application keep the
  invariant \<open>net_inv\<close>; an action of the main loop is a value of \<open>net_action\<close>, \<open>perform\<close> is its effect, and
  \<open>net_run\<close> a sequence of them. Guarded by \<open>admissible\<close>, a run keeps the invariant, and every pass
  of \<^verbatim>\<open>usnet_dispatch_net\<close> is a run.
\<close>

section \<open>Frames\<close>

lemma quiet_inv:
  assumes "net_inv c"
  shows "net_inv (c\<lparr>tx_frames := a\<rparr>)" "net_inv (c\<lparr>arp_entries := b\<rparr>)" "net_inv (c\<lparr>ev_app2net_mq := q\<rparr>)"
    "net_inv (c\<lparr>cur_time := t\<rparr>)" "net_inv (c\<lparr>listen_tcb := l\<rparr>)" "net_inv (c\<lparr>socket_cache := s\<rparr>)"
  by (rule same_conns_inv[OF assms]; simp add: same_queues_def tcb_of_def)+

lemma send_data_inv: "net_inv c \<Longrightarrow> post net_inv (usnet_send_data c frame)"
  by (simp add: usnet_send_data_def post_def quiet_inv)

lemma arp_output_inv: "net_inv c \<Longrightarrow> post net_inv (usnet_arp_output c op ip haddr)"
  by (simp add: usnet_arp_output_def send_data_inv)

lemma register_arp_inv: "net_inv c \<Longrightarrow> post net_inv (usnet_register_arp c ip haddr)"
  by (simp add: usnet_register_arp_def post_def quiet_inv)

lemma arp_input_inv:
  assumes "net_inv c"
  shows "post (\<lambda>x. net_inv (fst x)) (usnet_arp_input c m)"
proof -
  have reg: "post net_inv (if b then usnet_register_arp c ip h else Some c)" for b ip h
    by (intro post_if register_arp_inv post_Some assms)
  have "post net_inv (if ar_op a = 1 then usnet_arp_req_handler c a else if ar_op a = 2 then usnet_arp_reply_handler c a
      else Some c)" for a
    unfolding usnet_arp_req_handler_def usnet_arp_reply_handler_def
    by (intro post_if post_Some assms reg post_seq[OF reg] arp_output_inv)
  then show ?thesis
    unfolding usnet_arp_input_def using assms
    by (intro post_bind[of _ _ "read_arphdr m"]) (auto simp: post_def bind_eq_Some_conv split: if_splits)
qed

lemma ipv4_output_alone_inv:
  "net_inv c \<Longrightarrow> post (\<lambda>x. net_inv (fst x)) (usnet_ipv4_output_alone c ident proto src dst n)"
  unfolding usnet_ipv4_output_alone_def usnet_arp_request_def
  by (intro post_case_option post_seq[OF arp_output_inv] post_Some) auto

lemma icmp_reflect_inv:
  assumes "net_inv c"
  shows "post (\<lambda>x. net_inv (fst x)) (usnet_icmp_reflect c u0 m iph n)"
  unfolding usnet_icmp_reflect_def Let_def
  by (rule post_seq[of "\<lambda>_. True"], simp add: post_def, rule post_pair[OF ipv4_output_alone_inv[OF assms]],
      intro post_case_option post_seq[OF send_data_inv] post_Some) auto

lemma icmp_input_inv:
  assumes "net_inv c"
  shows "post (\<lambda>x. net_inv (fst x)) (usnet_icmp_input c u0 m iph n)"
  unfolding usnet_icmp_input_def Let_def
  by (rule post_if, simp add: post_def assms, rule post_seq[of "\<lambda>_. True"], simp add: post_def,
      intro post_if post_pair[OF icmp_reflect_inv[OF assms]] post_Some) (simp_all add: assms)

lemma udp_input_inv:
  assumes "net_inv c"
  shows "post (\<lambda>x. net_inv (fst x)) (usnet_udp_input c m iph n)"
  unfolding usnet_udp_input_def Let_def
  by (rule post_pair[OF ipv4_output_alone_inv[OF assms]], rule post_case_option, simp add: post_def, rule post_if,
      rule post_None, rule post_seq[of "\<lambda>_. True"], simp add: post_def, intro post_seq[OF send_data_inv] post_Some) auto

lemma follows_inv:
  assumes "net_inv c" "ctx_ok d" "0 < tcp_timeout d" "follows c d"
  shows "net_inv d"
proof -
  have "tcb_state (tcb_of d q) \<in> passive_states" if "live d q" for q
  proof (rule passive_closed)
    show "tcb_state (tcb_of d q) \<in> reach (if live c q then tcb_state (tcb_of c q) else TCPS_LISTEN)"
      using that assms(4) by (simp add: follows_def)
    show "(if live c q then tcb_state (tcb_of c q) else TCPS_LISTEN) \<in> passive_states"
      using assms(1) by (simp add: net_inv_def passive_states_def)
  qed
  then show ?thesis using assms by (simp add: net_inv_def)
qed

lemma input_kept_inv: "net_inv c \<Longrightarrow> input_kept c src dst d \<Longrightarrow> net_inv d"
  by (rule follows_inv[of c]) (simp_all add: input_kept_def)

lemma kept_inv:
  assumes "net_inv c" "kept c d"
  shows "net_inv d"
proof (rule follows_inv[OF assms(1) _ _ kept_follows[OF assms(2)]])
  show "ctx_ok d" using assms(2) unfolding kept_def by blast
  show "0 < tcp_timeout d" using assms unfolding kept_def net_inv_def by blast
qed

text \<open>A frame whose IP header, if it has one, carries a source address.\<close>

definition has_source :: "byte list \<Rightarrow> bool" where
  "has_source m \<longleftrightarrow> (case read_iphdr m of None \<Rightarrow> True | Some iph \<Rightarrow> ip_src iph \<noteq> 0)"

lemma ipv4_input_inv:
  assumes c: "net_inv c" and m: "has_source m"
  shows "post (\<lambda>x. net_inv (fst x)) (usnet_ipv4_input c u0 m)"
proof (cases "read_iphdr m")
  case (Some iph)
  have tcp: "post (\<lambda>x. net_inv (fst x)) (usnet_tcp_input c m 14 hl n (ip_src iph) (ip_dst iph))" for hl n
    using m Some c
    by (intro post_conseq[OF tcp_input_post]) (auto simp: has_source_def net_inv_def[of c] intro: input_kept_inv[OF c])
  show ?thesis
    unfolding usnet_ipv4_input_def Some Option.bind.bind_lunit Let_def
    by (rule post_if, simp add: post_def c, rule post_if, rule post_None, rule post_seq[of "\<lambda>_. True"], simp add: post_def,
        intro post_if tcp udp_input_inv icmp_input_inv post_Some) (simp_all add: c)
qed (simp add: usnet_ipv4_input_def)

lemma eth_input_inv:
  assumes "net_inv c" "has_source m"
  shows "post net_inv (usnet_eth_input c u0 m)"
  using ipv4_input_inv[OF assms, of u0] arp_input_inv[OF assms(1), of m] assms(1)
  by (auto simp: usnet_eth_input_def Let_def post_def)


section \<open>Events of the application\<close>

text \<open>What an event of the application has to refer to: a write event a socket whose connection has not been
  released, a listen event an address that is not used yet, a connect event an address that is not zero.\<close>

definition write_safe :: "usn_context \<Rightarrow> byte list \<Rightarrow> bool" where
  "write_safe c data \<longleftrightarrow> (\<forall>fd s p. ev_u32 data 4 = Some fd \<longrightarrow> usnet_search_socket c (so_key fd) = Some s \<longrightarrow>
     so_tcb (so_of c s) = Some p \<longrightarrow> live c p)"

definition listen_safe :: "usn_context \<Rightarrow> byte list \<Rightarrow> bool" where
  "listen_safe c data \<longleftrightarrow> (\<forall>ad port. ev_u32 data 8 = Some ad \<longrightarrow> ev_u16 data 12 = Some port \<longrightarrow>
     ad \<noteq> 0 \<and> usnet_search_tcb c (zero_tcb\<lparr>saddr := ad, sport := port\<rparr>) = None)"

definition connect_safe :: "byte list \<Rightarrow> bool" where
  "connect_safe data \<longleftrightarrow> ev_u32 data 8 \<noteq> Some 0"

definition event_safe :: "usn_context \<Rightarrow> byte list \<Rightarrow> bool" where
  "event_safe c data \<longleftrightarrow>
     (mem_u8 data 1 = Some (event_no USN_WRITE_EV) \<longrightarrow> write_safe c data) \<and>
     (mem_u8 data 1 = Some (event_no USN_LISTEN_EV) \<longrightarrow> listen_safe c data) \<and>
     (mem_u8 data 1 = Some (event_no USN_CONNECT_EV) \<longrightarrow> connect_safe data)"

lemma write_handler_inv:
  assumes c: "net_inv c" and w: "write_safe c data"
  shows "post net_inv (usnet_write_net_handler c data len)"
proof -
  have "post net_inv (usnet_add_send_list c p)" if "live c p" for p
    by (rule post_conseq[OF add_send_list_at[OF inv_at[OF c that], THEN wp_post]]) (rule at_inv[OF c])
  note add = this
  have "post net_inv (case usnet_search_socket c (so_key fd) of None \<Rightarrow> Some c | Some s \<Rightarrow>
      (case so_tcb (so_of c s) of None \<Rightarrow> Some c | Some p \<Rightarrow> usnet_add_send_list c p))" if "ev_u32 data 4 = Some fd" for fd
    using that w by (intro post_case_option post_Some c add) (auto simp: write_safe_def)
  then show ?thesis
    unfolding usnet_write_net_handler_def
    by (cases "ev_u32 data 4") (auto intro!: post_if post_case_option post_Some c)
qed

text \<open>A listening connection enters a free slot.\<close>

lemma register_socket_inv:
  assumes c: "net_inv c" and k: "ad \<noteq> 0" "usnet_search_tcb c (zero_tcb\<lparr>saddr := ad, sport := port\<rparr>) = None"
  shows "net_inv (fst (usnet_register_socket c (Some s) ad port 0 0))"
proof -
  define key where "key = zero_tcb\<lparr>saddr := ad, sport := port, daddr := 0, dport := 0\<rparr>"
  have kz: "key = zero_tcb\<lparr>saddr := ad, sport := port\<rparr>" by (simp add: key_def zero_tcb_def)
  have nz: "tcb_conn key \<noteq> (0, 0, 0, 0)" using k(1) by (simp add: key_def tcb_conn_def)
  have ok: "ctx_ok c" using c by (simp add: net_inv_def)
  obtain base r where ins: "usnet_cache_insert (tcb_cache c) key = (base, r)" by fastforce
  show ?thesis
  proof (cases r)
    case None
    then show ?thesis using c ins by (simp add: usnet_register_socket_def key_def)
  next
    case (Some p)
    have "usnet_cache_search (tcb_cache c) key = None" using k(2) by (simp add: kz usnet_search_tcb_def)
    note sl = insert_slot[OF ok nz this ins[unfolded Some]]
    define t where "t = key\<lparr>on_hash_table := True, tcb_socket := Some s,
      tcb_fd := so_fd (hb_cache (socket_cache c) s), tcb_type := 0, tcb_state := TCPS_LISTEN, on_rto_idx := - 1\<rparr>"
    define d where "d = fst (usnet_register_socket c (Some s) ad port 0 0)"
    have tc: "tcb_conn t = tcb_conn key" by (simp add: t_def tcb_conn_def)
    have o: "off_queues t"
      by (simp add: t_def key_def zero_tcb_def zero_sndvars_def off_queues_def)
    have d: "tcb_cache d = base\<lparr>hb_cache := (hb_cache base)(p := t)\<rparr>"
      unfolding d_def usnet_register_socket_def key_def[symmetric] ins Some Let_def
      by (simp add: upd_tcb_def t_def tcb_of_def sl(2))
    have os: "only_slot p t c (d\<lparr>listen_tcb := listen_tcb c\<rparr>)"
      using d unfolding d_def usnet_register_socket_def key_def[symmetric] ins Some Let_def
      by (simp add: only_slot_def sl(2))
    have "kept c (d\<lparr>listen_tcb := listen_tcb c\<rparr>)"
      by (rule only_slot_kept[OF ok sl(1) os o]) (simp_all add: d sl(3)[OF tc], simp add: t_def)
    then have "net_inv (d\<lparr>listen_tcb := listen_tcb c\<rparr>)"
      by (rule kept_inv[OF c])
    from quiet_inv(5)[OF this, of "listen_tcb d"] show ?thesis by (simp add: d_def)
  qed
qed


lemma listen_handler_inv:
  assumes c: "net_inv c" and l: "listen_safe c data"
  shows "post (\<lambda>x. net_inv (fst x)) (usnet_listen_net_handler c data len flow now)"
proof -
  have enq: "post (\<lambda>x. net_inv (fst x)) (do {
      data \<leftarrow> m;
      (mq, ret) \<leftarrow> usnet_shmmq_enqueue (ev_net2app_mq d) now (take 20 data) flow;
      Some (d\<lparr>ev_net2app_mq := mq\<rparr>, data) })" if d: "net_inv d" for d m
  proof -
    have mq: "mq_ok (ev_net2app_mq d)" using d by (simp add: net_inv_def ctx_ok_def)
    have "net_inv (d\<lparr>ev_net2app_mq := q\<rparr>)" if "mq_ok q" for q
    proof -
      have t: "tcb_of (d\<lparr>ev_net2app_mq := q\<rparr>) = tcb_of d" by (simp add: fun_eq_iff tcb_of_def)
      have "lists_ok (d\<lparr>ev_net2app_mq := q\<rparr>)"
        by (rule same_queues_ok[of d]) (use d in \<open>simp_all add: net_inv_def ctx_ok_def same_queues_def t\<close>)
      moreover have "queued (d\<lparr>ev_net2app_mq := q\<rparr>) = queued d" by (simp add: queued_def)
      ultimately show ?thesis using d that by (simp add: net_inv_def ctx_ok_def live_def t)
    qed
    then show ?thesis
      by (intro post_seq[of "\<lambda>_. True" m], simp add: post_def, intro post_seq[OF enqueue_mq_ok[OF mq, THEN wp_post]])
        (auto intro!: post_Some)
  qed
  have reg: "net_inv (fst (case usnet_search_socket c (so_key fd) of None \<Rightarrow> (c, - 1 :: u32)
      | Some s \<Rightarrow> let (ctx, ret) = usnet_register_socket c (Some s) ad port 0 0 in (ctx, if ret < 0 then - 2 else 0)))"
    if "ev_u32 data 8 = Some ad" "ev_u16 data 12 = Some port" for fd ad port
    using c that l register_socket_inv[OF c] by (auto simp: listen_safe_def split_beta Let_def split: option.split)
  show ?thesis
    unfolding usnet_listen_net_handler_def
    by (cases "ev_u32 data 4"; cases "ev_u32 data 8"; cases "ev_u16 data 12")
      (auto intro!: post_if post_Some c enq reg simp: split_beta)
qed


lemma connect_handler_inv:
  assumes c: "net_inv c" and k: "connect_safe data"
  shows "post net_inv (usnet_connect_net_handler c data len)"
proof -
  have so: "at_conn p c0 S (upd_so s f d)" if "at_conn p c0 S d" for p c0 S s f d
    using at_mq[OF that] by (intro at_same[OF that]) (auto simp: upd_so_def same_queues_def tcb_of_def)
  have bind: "post net_inv (do {
      let ctx = upd_tcb p (\<lambda>t. t\<lparr>tcb_socket := Some s\<rparr>) c;
      let ctx = upd_so s (\<lambda>so. so\<lparr>so_tcb := Some p\<rparr>) ctx;
      let ctx = upd_tcb p (\<lambda>t. t\<lparr>tcb_fd := so_fd (so_of ctx s)\<rparr>) ctx;
      if sndvar_at (tcb_of ctx p) = None then None
      else do {
        let ctx = (case sndbuf (snd_of ctx p) of
            Some b \<Rightarrow> ctx
          | None \<Rightarrow>
              let (base, r) = usnet_get_sendbuf (sndbuf_cache ctx) (tcb_fd (tcb_of ctx p)) (iss (snd_of ctx p) + 1)
              in upd_snd p (\<lambda>v. v\<lparr>sndbuf := r\<rparr>) (ctx\<lparr>sndbuf_cache := base\<rparr>));
        if sndbuf (snd_of ctx p) = None then Some ctx
        else usnet_add_control_list ctx p } })" if l: "live c p" for p s
  proof -
    note a = inv_at[OF c l]
    have 1: "at_conn p c passive_states (upd_tcb p (\<lambda>t. t\<lparr>tcb_fd := x\<rparr>) (upd_so s (\<lambda>so. so\<lparr>so_tcb := Some p\<rparr>)
        (upd_tcb p (\<lambda>t. t\<lparr>tcb_socket := Some s\<rparr>) c)))" for x
      by (intro at_upd[of p c passive_states] so a) (auto simp: tcb_conn_def)
    have 2: "at_conn p c passive_states (case sndbuf (snd_of d p) of Some b \<Rightarrow> d
          | None \<Rightarrow> let (base, r) = y in upd_snd p (\<lambda>v. v\<lparr>sndbuf := r\<rparr>) (d\<lparr>sndbuf_cache := base\<rparr>))"
      if "at_conn p c passive_states d" for d y
      using that by (auto simp: split_beta split: option.split intro!: at_upd_snd at_rest)
    have 3: "post net_inv (if b then Some e else usnet_add_control_list e p)" if "at_conn p c passive_states e" for e b
      using post_conseq[OF add_control_list_settled[OF that] settled_inv[OF c]] at_inv[OF c that] by (auto intro: post_Some)
    show ?thesis
      by (subst (1 2 3) Let_def, rule post_if, rule post_None, subst (1) Let_def, rule 3, rule 2, rule 1)
  qed
  have tcb: "live c p" if "ev_u32 data 8 = Some sa" "usnet_search_tcb c (zero_tcb\<lparr>saddr := sa, sport := sp, daddr := da, dport := dp\<rparr>) = Some p"
    for sa sp da dp p
  proof -
    have w: "tcbs.fns (tcb_cache c)" "tcbs.wf (tcb_cache c)" using c by (simp_all add: net_inv_def ctx_ok_def tcb_table_def)
    have nz: "tcb_conn (zero_tcb\<lparr>saddr := sa, sport := sp, daddr := da, dport := dp\<rparr>) \<noteq> (0, 0, 0, 0)"
      using k that(1) by (simp add: connect_safe_def tcb_conn_def)
    then show ?thesis
      using that(2) tcbs.search_iff[OF w nz] by (simp add: live_def tcb_of_def usnet_search_tcb_def)
  qed
  show ?thesis
    unfolding usnet_connect_net_handler_def
    by (cases "ev_u32 data 4"; cases "ev_u32 data 8"; cases "ev_u16 data 12"; cases "ev_u32 data 16"; cases "ev_u16 data 20";
        cases "ev_u32 data 24"; simp only: bind.simps; intro post_if post_case_option post_Some post_None c bind tcb) auto
qed

lemma net_handler_inv:
  assumes "net_inv c" "event_safe c data"
  shows "post (\<lambda>x. net_inv (fst x)) (usnet_tcpev_net_handler c data len flow now)"
proof -
  have f: "post net_inv m \<Longrightarrow> post (\<lambda>x. net_inv (fst x)) (map_option (\<lambda>ctx. (ctx, data)) m)" for m
    by (auto simp: post_def)
  show ?thesis
    using assms unfolding usnet_tcpev_net_handler_def
    by (cases "mem_u8 data 0"; cases "mem_u8 data 1")
      (auto intro!: post_if post_Some f write_handler_inv listen_handler_inv connect_handler_inv simp: event_safe_def)
qed

section \<open>Runs of the network process\<close>

text \<open>The actions the main loop is made of, each with what the outside world contributes to it.\<close>

datatype net_action =
  Clock int
| Frame u8 "byte list"
| Retransmit int
| Expire_Timewait int
| Expire_Idle int
| Send_Control int
| Send_Acks int
| Send_Data int
| App_Event mq_env "byte list" int

definition app_event :: "mq_env \<Rightarrow> byte list \<Rightarrow> int \<Rightarrow> usn_context \<Rightarrow> (usn_context \<times> byte list \<times> u32) option" where
  "app_event env data now ctx = do {
     (mq, data, len, flow) \<leftarrow> dequeue_into env (ev_app2net_mq ctx) data;
     let ctx = ctx\<lparr>ev_app2net_mq := mq\<rparr>;
     if len = 0 then Some (ctx, data, 0)
     else do {
       (ctx, data) \<leftarrow> usnet_tcpev_net_handler ctx data len flow now;
       Some (ctx, data, len)
     }
   }"

fun perform :: "net_action \<Rightarrow> usn_context \<Rightarrow> usn_context option" where
  "perform (Clock t) c = Some (c\<lparr>cur_time := t\<rparr>)"
| "perform (Frame u0 m) c = usnet_eth_input c u0 m"
| "perform (Retransmit n) c = usnet_check_rtm_timeout c n"
| "perform (Expire_Timewait n) c = usnet_check_timewait_expire c n"
| "perform (Expire_Idle n) c = usnet_check_connection_timeout c n"
| "perform (Send_Control n) c = map_option fst (usnet_send_tcp_control_list c n)"
| "perform (Send_Acks n) c = map_option fst (usnet_send_tcp_ack_list c n)"
| "perform (Send_Data n) c = map_option fst (usnet_send_tcp_data_list c n)"
| "perform (App_Event env data now) c = map_option fst (app_event env data now c)"

text \<open>A run whose actions satisfy a guard in the state they are taken in.\<close>

inductive net_run :: "(net_action \<Rightarrow> usn_context \<Rightarrow> bool) \<Rightarrow> usn_context \<Rightarrow> net_action list \<Rightarrow> usn_context \<Rightarrow> bool"
  for guard where
  finish: "net_run guard c [] c"
| step: "guard a c \<Longrightarrow> perform a c = Some d \<Longrightarrow> net_run guard d as e \<Longrightarrow> net_run guard c (a # as) e"

inductive_simps net_run_simps [simp]: "net_run guard c [] d" "net_run guard c (a # as) d"

fun admissible :: "net_action \<Rightarrow> usn_context \<Rightarrow> bool" where
  "admissible (Frame u0 m) c \<longleftrightarrow> has_source m"
| "admissible (Retransmit n) c \<longleftrightarrow> rtm_safe c"
| "admissible (App_Event env data now) c \<longleftrightarrow>
     (case dequeue_into env (ev_app2net_mq c) data of
        None \<Rightarrow> True
      | Some (mq, data, len, flow) \<Rightarrow> event_safe (c\<lparr>ev_app2net_mq := mq\<rparr>) data)"
| "admissible _ c \<longleftrightarrow> True"

lemma app_event_inv:
  assumes "net_inv c" "admissible (App_Event env data now) c"
  shows "post (\<lambda>x. net_inv (fst x)) (app_event env data now c)"
proof (cases "dequeue_into env (ev_app2net_mq c) data")
  case (Some x)
  obtain mq data' len flow where x: "x = (mq, data', len, flow)" by (cases x) auto
  have i: "net_inv (c\<lparr>ev_app2net_mq := mq\<rparr>)" by (rule quiet_inv(3)[OF assms(1)])
  have "event_safe (c\<lparr>ev_app2net_mq := mq\<rparr>) data'" using assms(2) by (simp add: Some x)
  note h = net_handler_inv[OF i this, of len flow now]
  have "post (\<lambda>x. net_inv (fst x)) (if len = 0 then Some (c\<lparr>ev_app2net_mq := mq\<rparr>, data', 0)
      else do { (ctx, data) \<leftarrow> usnet_tcpev_net_handler (c\<lparr>ev_app2net_mq := mq\<rparr>) data' len flow now; Some (ctx, data, len) })"
    by (intro post_if post_pair[OF h] post_Some) (simp_all add: i)
  then show ?thesis by (simp add: app_event_def Some x Let_def)
qed (simp add: app_event_def)

lemma perform_inv:
  assumes "net_inv c" "admissible a c" "perform a c = Some d"
  shows "net_inv d"
proof -
  have m: "net_inv d" if "post (\<lambda>x. net_inv (fst x)) m" "map_option fst m = Some d" for m :: "(usn_context \<times> 'x) option"
    using that by (auto simp: post_def)
  show ?thesis
  proof (cases a)
    case (Frame u0 b)
    then show ?thesis using assms eth_input_inv[of c b u0] by (simp add: post_def)
  next
    case (Retransmit n)
    then show ?thesis using assms rtm_loop_inv[of c n 0] by (auto simp: usnet_check_rtm_timeout_def split: if_splits)
  next
    case (App_Event env data now)
    then show ?thesis using assms m[OF app_event_inv[of c env data now]] by simp
  qed (use assms timewait_walk_inv[OF assms(1)] timeout_walk_inv[OF assms(1)] m[OF control_walk_inv[OF assms(1)]]
      m[OF ack_walk_inv[OF assms(1)]] m[OF data_walk_inv[OF assms(1)]] in
      \<open>auto simp: quiet_inv post_def usnet_check_timewait_expire_def usnet_check_connection_timeout_def
        usnet_send_tcp_control_list_def usnet_send_tcp_ack_list_def usnet_send_tcp_data_list_def\<close>)
qed

lemma net_run_inv: "net_run admissible c as d \<Longrightarrow> net_inv c \<Longrightarrow> net_inv d"
  by (induction rule: net_run.induct) (auto intro: perform_inv)

lemma net_run_append: "net_run guard c as d \<Longrightarrow> net_run guard d bs e \<Longrightarrow> net_run guard c (as @ bs) e"
  by (induction rule: net_run.induct) auto

lemma fresh_inv:
  assumes "ctx_fresh c" "mq_ok (ev_net2app_mq c)" "0 < tcp_timeout c"
  shows "net_inv c"
proof -
  have z: "tcb_of c p = zero_tcb" for p using assms(1) by (simp add: ctx_fresh_def)
  have ok: "lists_ok c" "tcb_table (tcb_cache c)" "rto_list c = (\<lambda>_. [])" using assms(1) unfolding ctx_fresh_def by blast+
  have "queued c = {}"
    using ok by (auto simp: queued_def lists_ok_def q_ok_def z zero_tcb_def zero_sndvars_def)
  moreover have "\<not> live c p" for p by (simp add: live_def z zero_tcb_def tcb_conn_def)
  ultimately show ?thesis using assms ok by (simp add: net_inv_def ctx_ok_def)
qed

section \<open>The main loop is such a run\<close>

fun perform_all :: "net_action list \<Rightarrow> usn_context \<Rightarrow> usn_context option" where
  "perform_all [] c = Some c"
| "perform_all (a # as) c = (case perform a c of None \<Rightarrow> None | Some d \<Rightarrow> perform_all as d)"

lemma perform_all_append:
  "perform_all (as @ bs) c = (case perform_all as c of None \<Rightarrow> None | Some d \<Rightarrow> perform_all bs d)"
  by (induction as arbitrary: c) (simp_all split: option.split)

lemma perform_all_run: "perform_all as c = Some d \<longleftrightarrow> net_run (\<lambda>_ _. True) c as d"
  by (induction as arbitrary: c) (auto split: option.split)

text \<open>The actions of a pass, in order: the clock; the first 512 frames of every ring; the three timers; the control and the
  ack list; the events of the application, until the queue is found empty or 9999 have been taken; the send list. A
  pass in which \<^verbatim>\<open>poll\<close> reports nothing takes the clock and the timers only. The events are handled in one
  buffer, and the traces carry its content along.\<close>

definition ring_frames :: "net_pass \<Rightarrow> net_action list" where
  "ring_frames inp = concat (map (\<lambda>ring. map (Frame (pass_junk inp)) (take 512 ring)) (pass_rings inp))"

definition timer_actions :: "net_action list" where
  "timer_actions = [Retransmit 512, Expire_Timewait 512, Expire_Idle 512]"

fun events_trace ::
  "(nat \<Rightarrow> mq_env) \<Rightarrow> int \<Rightarrow> nat \<Rightarrow> usn_context \<Rightarrow> byte list \<Rightarrow> net_action list \<times> byte list" where
  "events_trace env now 0 c data = ([], data)"
| "events_trace env now (Suc n) c data =
     (case app_event (env n) data now c of
        None \<Rightarrow> ([App_Event (env n) data now], data)
      | Some (d, data', len) \<Rightarrow>
          if len = 0 then ([App_Event (env n) data now], data')
          else apfst (Cons (App_Event (env n) data now)) (events_trace env now n d data'))"

definition pass_trace :: "net_pass \<Rightarrow> usn_context \<Rightarrow> byte list \<Rightarrow> net_action list \<times> byte list" where
  "pass_trace inp c data =
     (if \<not> pass_ready inp then (Clock (pass_time inp) # timer_actions, data)
      else let pre = Clock (pass_time inp) # ring_frames inp @ timer_actions @ [Send_Control 512, Send_Acks 512]
           in case perform_all pre c of
                None \<Rightarrow> (pre, data)
              | Some d \<Rightarrow>
                  let (evs, data) = (if pass_events inp then events_trace (pass_env inp) (pass_time inp) 9999 d data else ([], data))
                  in (pre @ evs @ [Send_Data 512], data))"

fun loop_trace :: "net_pass list \<Rightarrow> usn_context \<Rightarrow> byte list \<Rightarrow> net_action list \<times> byte list" where
  "loop_trace [] c data = ([], data)"
| "loop_trace (inp # inps) c data =
     (let (as, data) = pass_trace inp c data
      in case perform_all as c of
           None \<Rightarrow> (as, data)
         | Some d \<Rightarrow> apfst ((@) as) (loop_trace inps d data))"

text \<open>The state after a trace, with the content of the buffer.\<close>

definition traced :: "net_action list \<times> byte list \<Rightarrow> usn_context \<Rightarrow> (usn_context \<times> byte list) option" where
  "traced tr c = map_option (\<lambda>d. (d, snd tr)) (perform_all (fst tr) c)"

lemma recv_frame_actions:
  "usnet_recv_frame c u0 ring n = perform_all (map (Frame u0) (take n ring)) c"
proof (induction c u0 ring n rule: usnet_recv_frame.induct)
  case (1 c u0 m ring n)
  then show ?case by (cases "usnet_eth_input c u0 m") simp_all
qed simp_all

lemma dispatch_rings_actions:
  "dispatch_rings c (pass_junk inp) rings =
    perform_all (concat (map (\<lambda>ring. map (Frame (pass_junk inp)) (take 512 ring)) rings)) c"
  by (induction rings arbitrary: c) (simp_all add: recv_frame_actions perform_all_append split: option.split bind_split)

lemma dispatch_timers_actions: "dispatch_timers c = perform_all timer_actions c"
  by (simp add: dispatch_timers_def timer_actions_def split: option.split bind_split)

lemma tcpev_net_loop_step:
  "tcpev_net_loop env now (Suc n) c data = do {
     (d, data', len) \<leftarrow> app_event (env n) data now c;
     if len = 0 then Some (d, data') else tcpev_net_loop env now n d data' }"
  by (cases "dequeue_into (env n) (ev_app2net_mq c) data")
    (auto simp: app_event_def Let_def split_beta split: bind_splits)

lemma tcpev_net_loop_trace: "tcpev_net_loop env now n c data = traced (events_trace env now n c data) c"
proof (induction n arbitrary: c data)
  case (Suc n)
  show ?case
    unfolding tcpev_net_loop_step
    by (cases "app_event (env n) data now c") (auto simp: traced_def Suc)
qed (simp add: traced_def)

lemma before_events_actions:
  "perform_all (Clock (pass_time inp) # ring_frames inp @ timer_actions @ [Send_Control 512, Send_Acks 512]) c = do {
     ctx \<leftarrow> dispatch_rings (c\<lparr>cur_time := pass_time inp\<rparr>) (pass_junk inp) (pass_rings inp);
     ctx \<leftarrow> dispatch_timers ctx;
     (ctx, n) \<leftarrow> usnet_send_tcp_control_list ctx 512;
     (ctx, n) \<leftarrow> usnet_send_tcp_ack_list ctx 512;
     Some ctx }"
  by (auto simp: perform_all_append dispatch_rings_actions ring_frames_def dispatch_timers_actions split: option.split bind_split)

lemma dispatch_pass_trace: "dispatch_pass inp c data = traced (pass_trace inp c data) c"
proof (cases "pass_ready inp")
  case False
  then show ?thesis
    by (simp add: dispatch_pass_def pass_trace_def traced_def dispatch_timers_actions split: option.split bind_split)
next
  case True
  let ?pre = "Clock (pass_time inp) # ring_frames inp @ timer_actions @ [Send_Control 512, Send_Acks 512]"
  define evs where "evs = (\<lambda>d. if pass_events inp then events_trace (pass_env inp) (pass_time inp) 9999 d data else ([], data))"
  have ev: "(if pass_events inp then usnet_tcpev_net (pass_env inp) (pass_time inp) d data else Some (d, data)) = traced (evs d) d" for d
    by (simp add: evs_def usnet_tcpev_net_def tcpev_net_loop_trace) (simp add: traced_def)
  have "dispatch_pass inp c data = do {
      d \<leftarrow> perform_all ?pre c;
      (e, data) \<leftarrow> traced (evs d) d;
      (f, n) \<leftarrow> usnet_send_tcp_data_list e 512;
      Some (f, data) }"
    unfolding before_events_actions dispatch_pass_def Let_def ev split_beta Option.bind_assoc using True by simp
  also have "\<dots> = traced (pass_trace inp c data) c"
  proof (cases "perform_all ?pre c")
    case None
    then show ?thesis using True by (simp only: pass_trace_def traced_def Let_def) simp
  next
    case (Some d)
    have t: "pass_trace inp c data = (?pre @ fst (evs d) @ [Send_Data 512], snd (evs d))"
      unfolding pass_trace_def Let_def Some using True by (simp add: evs_def split_beta)
    show ?thesis
      unfolding t traced_def fst_conv snd_conv perform_all_append[of ?pre] Some
      by (auto simp: perform_all_append split: option.split bind_split)
  qed
  finally show ?thesis .
qed

section \<open>Binding a connection to a socket\<close>

lemma upd_so_at: "at_conn p c0 S c \<Longrightarrow> at_conn p c0 S (upd_so s f c)"
  by (frule at_mq, erule at_same) (simp_all add: upd_so_def same_queues_def tcb_of_def)

lemma upd_so_other [simp]:
  "tcb_of (upd_so s f c) = tcb_of c" "so_of (upd_so s f c) q = (if q = s then f (so_of c s) else so_of c q)"
  "so_of (upd_tcb p g c) = so_of c" "so_of (upd_snd p h c) = so_of c" "so_of (c\<lparr>sndbuf_cache := b\<rparr>) = so_of c"
  "sndbuf_cache (upd_so s f c) = sndbuf_cache c"
  by (simp_all add: upd_so_def so_of_def tcb_of_def fun_eq_iff)

end
