(* ===== verification/Sample_Contexts.thy ===== *)
theory Sample_Contexts
  imports Stack_Run
begin

text \<open>
  Concrete contexts, frames and events, at which the properties of the network process are evaluated.
\<close>

section \<open>A frame for a fresh stack\<close>

text \<open>An ARP request of host 10.0.0.2 for the address of the stack, and the context after it.\<close>

definition arp_bytes :: "byte list" where
  "arp_bytes = [255, 255, 255, 255, 255, 255, 2, 0, 0, 0, 0, 2, 8, 6, 0, 1, 8, 0, 6, 4, 0, 1, 2, 0, 0, 0, 0, 2, 10, 0, 0, 2,
     0, 0, 0, 0, 0, 0, 10, 0, 0, 1]"

definition sample_pass :: net_pass where
  "sample_pass = \<lparr>pass_time = 7, pass_ready = True, pass_rings = [[arp_bytes]], pass_events = False,
     pass_env = (\<lambda>_. (0, False, id)), pass_junk = 0\<rparr>"

lemma setup_tables_interface:
  "usnet_setup_tables c n1 n2 m = Some d \<Longrightarrow> if_addr d = if_addr c \<and> length (arp_entries d) = 1 \<and>
    if_hwa d = if_hwa c"
  by (auto simp: usnet_setup_tables_def usnet_rtohash_init_def usnet_arp_init_def usnet_socket_init_def usnet_tcp_init_def
      usnet_ringbuf_init_def usnet_sendbuf_init_def bind_eq_Some_conv Let_def)

lemma read_arp_bytes:
  "read_arphdr arp_bytes = Some \<lparr>ar_op = 1, ar_sha = [2, 0, 0, 0, 0, 2], ar_spa = 0x0200000A, ar_tpa = 0x0100000A\<rparr>"
  "length arp_bytes = 42" "htons (ld16 (drop 12 arp_bytes)) = 0x0806" "has_source arp_bytes"
  by code_simp+


lemma arp_bytes_run:
  assumes "if_addr c = 0x0100000A" "length (arp_entries c) = 1"
  shows "\<exists>a b. usnet_eth_input c u0 arp_bytes = Some (c\<lparr>arp_entries := a, tx_frames := b\<rparr>)"
proof -
  have e: "usnet_eth_input c u0 arp_bytes = map_option fst (usnet_arp_input c arp_bytes)"
    by (simp add: usnet_eth_input_def read_arp_bytes)
  have send: "\<exists>b. usnet_arp_output d op ip h = Some (d\<lparr>tx_frames := b\<rparr>)" for d op ip h
  proof -
    have "2 * min (length h) 6 + 2 * min (length (if_hwa d)) 6 \<le> 2030" by (simp add: min_def)
    then show ?thesis by (simp add: usnet_arp_output_def usnet_send_data_def usnet_eth_output_nm_def) blast
  qed
  show ?thesis
  proof (cases "usnet_get_arp c 0x0200000A")
    case None
    let ?c = "c\<lparr>arp_entries := arp_entries c @ [\<lparr>arp_ip = 0x0200000A, arp_haddr = take 6 [2, 0, 0, 0, 0, 2]\<rparr>]\<rparr>"
    obtain b where "usnet_arp_output ?c 2 0x0200000A [2, 0, 0, 0, 0, 2] = Some (?c\<lparr>tx_frames := b\<rparr>)" using send by blast
    then show ?thesis using None assms
      by (auto simp: e usnet_arp_input_def read_arp_bytes usnet_arp_req_handler_def usnet_register_arp_def
          intro!: exI[of _ "arp_entries ?c"] exI[of _ b])
  next
    case (Some x)
    obtain b where "usnet_arp_output c 2 0x0200000A [2, 0, 0, 0, 0, 2] = Some (c\<lparr>tx_frames := b\<rparr>)" using send by blast
    then show ?thesis using Some assms
      by (auto simp: e usnet_arp_input_def read_arp_bytes usnet_arp_req_handler_def intro!: exI[of _ "arp_entries c"] exI[of _ b])
  qed
qed

lemma fresh_context_facts:
  "if_addr fresh_context = 0x0100000A" "length (arp_entries fresh_context) = 1"
  "timeout_list fresh_context = []" "timewait_list fresh_context = []" "control_list fresh_context = []"
  "ack_list fresh_context = []" "send_list fresh_context = []" "rto_list_cnt fresh_context = 0"
proof -
  obtain d where d: "usnet_setup_tables (usnet_create_context blank_context) 64 64 blank_chunks = Some d" "fresh_context = d"
    using setup_tables_fresh[of blank_context 64 64 blank_chunks] by (auto simp: fresh_context_def blank_context_def)
  then show "if_addr fresh_context = 0x0100000A" "length (arp_entries fresh_context) = 1"
    using setup_tables_interface[OF d(1)] by (simp_all add: usnet_create_context_def blank_context_def)
  have z: "tcb_of fresh_context p = zero_tcb" "rto_list fresh_context = (\<lambda>_. [])" "lists_ok fresh_context" for p
    using fresh_context_fresh(1) by (simp_all add: ctx_fresh_def)
  have q: "l = []" if "q_ok l n (\<lambda>_. False)" for l n using that by (auto simp: q_ok_def)
  show "timeout_list fresh_context = []" "timewait_list fresh_context = []" "control_list fresh_context = []"
    "ack_list fresh_context = []" "send_list fresh_context = []" "rto_list_cnt fresh_context = 0"
    using z(3) unfolding lists_ok_def rto_ok_def z(1,2)
    by (auto simp: zero_tcb_def zero_sndvars_def dest: q)
qed

section \<open>An application that listens and accepts\<close>

text \<open>A fresh context in which the application has opened socket 5 and asked to listen on port 80 of 10.0.0.1.\<close>

definition listen_bytes :: "byte list" where
  "listen_bytes = usn_listen_ev 5 0x0100000A 0x5000 0"

definition listen_context :: usn_context where
  "listen_context = fresh_context
     \<lparr>socket_cache := fst (usnet_cache_insert (socket_cache fresh_context) (so_key 5)),
      ev_app2net_mq := fst (the (usnet_shmmq_enqueue (mq_new 1024) 0 listen_bytes 5))\<rparr>"

lemma setup_tables_sockets:
  "usnet_setup_tables c n1 n2 m = Some d \<Longrightarrow> hb_cache (socket_cache d) = (\<lambda>_. zero_socket) \<and> hb_time (socket_cache d) = 10"
  using cache_init_100[of 64 zero_socket usnet_so_eq usnet_so_key usnet_so_isempty usnet_so_setempty]
  by (auto simp: usnet_setup_tables_def usnet_rtohash_init_def usnet_arp_init_def usnet_socket_init_def usnet_tcp_init_def
      usnet_ringbuf_init_def usnet_sendbuf_init_def bind_eq_Some_conv Let_def)

lemma fresh_socket:
  assumes "fd \<noteq> 0"
  shows "\<exists>base s. usnet_cache_insert (socket_cache fresh_context) (so_key fd) = (base, Some s) \<and> sockets.fns base \<and>
    sockets.wf base \<and> usnet_cache_search base (so_key fd) = Some s \<and> hb_cache base s = so_key fd"
proof -
  let ?b = "socket_cache fresh_context"
  obtain d where d: "usnet_setup_tables (usnet_create_context blank_context) 64 64 blank_chunks = Some d" "fresh_context = d"
    using setup_tables_fresh[of blank_context 64 64 blank_chunks] by (auto simp: fresh_context_def blank_context_def)
  have z: "hb_cache ?b = (\<lambda>_. zero_socket)" "hb_time ?b = 10" using setup_tables_sockets[OF d(1)] d(2) by simp_all
  have w: "sockets.fns ?b" "sockets.wf ?b" using fresh_context_fresh(1) by (simp_all add: ctx_fresh_def)
  have k: "so_fd (so_key fd) \<noteq> 0" using assms by (simp add: so_key_def)
  have none: "usnet_cache_search ?b (so_key fd) = None"
    unfolding sockets.search_None_iff[OF w k] using k by (simp add: z(1) zero_socket_def)
  have "snd (usnet_cache_insert ?b (so_key fd)) \<noteq> None"
    unfolding sockets.insert_fails_iff[OF w(1)] using z by (auto simp: zero_socket_def intro: exI[of _ 0])
  then obtain s base where ins: "usnet_cache_insert ?b (so_key fd) = (base, Some s)" by (metis not_Some_eq prod.collapse)
  then have "base = ?b\<lparr>hb_cache := (hb_cache ?b)(s := so_key fd)\<rparr>"
    by (auto simp: sockets.insert_get split: option.splits)
  then show ?thesis
    using ins sockets.insert_wf[OF w k none ins] sockets.insert_search[OF w k none ins k] by simp
qed

lemma listen_bytes_fields:
  "length listen_bytes = 20" "mem_u8 listen_bytes 0 = Some 1" "mem_u8 listen_bytes 1 = Some (event_no USN_LISTEN_EV)"
  "ev_u32 listen_bytes 4 = Some 5" "ev_u32 listen_bytes 8 = Some 0x0100000A" "ev_u16 listen_bytes 12 = Some 0x5000"
  by code_simp+

lemma listen_queue:
  "\<exists>q. dequeue_into (0, False, id) (ev_app2net_mq listen_context) [] = Some (q, listen_bytes, 20, 5)"
proof -
  have "length listen_bytes + C_HEAD_SIZE < length (mq_block (mq_new 1024)) - mq_used (mq_new 1024)"
    by (simp add: listen_bytes_fields mq_new_def mq_used_def ring_used_def)
  then obtain q where q: "usnet_shmmq_enqueue (mq_new 1024) 0 listen_bytes 5 = Some (q, 0)" "mq_holds q ([] @ [(5, listen_bytes)])"
    using enqueue_holds[OF mq_new_holds(1)[of 1024], of listen_bytes 0 5] by auto
  obtain q' where "usnet_read_mq q 4096 = Some (q', listen_bytes, 20, Some 5, 0)"
    using read_holds[of q 5 listen_bytes "[]" 4096] q(2) by (auto simp: listen_bytes_fields)
  then show ?thesis by (simp add: dequeue_into_def listen_context_def q(1) usnet_shmmq_dequeue_def)
qed

lemma listen_context_fresh: "ctx_fresh listen_context" "ev_net2app_mq listen_context = mq_new 1024" "tcp_timeout listen_context = 120"
proof -
  obtain base s where s: "usnet_cache_insert (socket_cache fresh_context) (so_key 5) = (base, Some s)" "sockets.fns base"
      "sockets.wf base"
    using fresh_socket[of 5] by auto
  have "lists_ok listen_context"
    by (rule same_queues_ok[of fresh_context])
      (use fresh_context_fresh(1) in \<open>simp_all add: ctx_fresh_def listen_context_def same_queues_def tcb_of_def\<close>)
  moreover have "tcb_of listen_context = tcb_of fresh_context" by (simp add: fun_eq_iff tcb_of_def listen_context_def)
  ultimately show "ctx_fresh listen_context"
    using fresh_context_fresh(1) s unfolding ctx_fresh_def by (simp add: listen_context_def)
  show "ev_net2app_mq listen_context = mq_new 1024" "tcp_timeout listen_context = 120"
    by (simp_all add: listen_context_def fresh_context_fresh)
qed

lemma register_fresh:
  assumes c: "ctx_fresh c" and ad: "ad \<noteq> 0"
  shows "\<exists>p d. usnet_register_socket c (Some s) ad port 0 0 = (d, 0) \<and> live d p \<and> ev_net2app_mq d = ev_net2app_mq c"
proof -
  define key where "key = zero_tcb\<lparr>saddr := ad, sport := port, daddr := 0, dport := 0\<rparr>"
  have w: "tcbs.fns (tcb_cache c)" "hb_time (tcb_cache c) = 10" and z: "hb_cache (tcb_cache c) q = zero_tcb" for q
    using c by (simp_all add: ctx_fresh_def tcb_table_def tcb_of_def)
  have "snd (usnet_cache_insert (tcb_cache c) key) \<noteq> None"
    unfolding tcbs.insert_fails_iff[OF w(1)] using w(2) z by (auto simp: zero_tcb_def tcb_conn_def intro: exI[of _ 0])
  then obtain p base where ins: "usnet_cache_insert (tcb_cache c) key = (base, Some p)" by (metis not_Some_eq prod.collapse)
  then have b: "base = (tcb_cache c)\<lparr>hb_cache := (hb_cache (tcb_cache c))(p := key)\<rparr>"
    by (auto simp: tcbs.insert_get split: option.splits)
  define d where "d = fst (usnet_register_socket c (Some s) ad port 0 0)"
  have d: "usnet_register_socket c (Some s) ad port 0 0 = (d, 0)" "ev_net2app_mq d = ev_net2app_mq c"
    "tcb_conn (tcb_of d p) = tcb_conn key"
    unfolding d_def usnet_register_socket_def key_def[symmetric] ins Let_def
    by (simp_all add: b tcb_of_def upd_tcb_def tcb_conn_def)
  have "live d p" using d(3) ad by (simp add: live_def key_def tcb_conn_def)
  then show ?thesis using d by blast
qed

lemma listen_run:
  "admissible (App_Event (0, False, id) [] 0) listen_context"
  "\<exists>d p. perform (App_Event (0, False, id) [] 0) listen_context = Some d \<and> live d p"
proof -
  obtain q where q: "dequeue_into (0, False, id) (ev_app2net_mq listen_context) [] = Some (q, listen_bytes, 20, 5)"
    using listen_queue by blast
  define c where "c = listen_context\<lparr>ev_app2net_mq := q\<rparr>"
  have t: "tcb_of c = tcb_of listen_context" by (simp add: c_def fun_eq_iff tcb_of_def)
  have "lists_ok c"
    by (rule same_queues_ok[of listen_context])
      (use listen_context_fresh(1) in \<open>simp_all add: ctx_fresh_def c_def same_queues_def tcb_of_def\<close>)
  then have f: "ctx_fresh c" using listen_context_fresh(1) t unfolding ctx_fresh_def by (simp add: c_def)
  have w: "tcbs.fns (tcb_cache c)" "tcbs.wf (tcb_cache c)" using f by (simp_all add: ctx_fresh_def tcb_table_def)
  have "usnet_search_tcb c (zero_tcb\<lparr>saddr := 0x0100000A, sport := 0x5000\<rparr>) = None"
    unfolding usnet_search_tcb_def
    by (subst tcbs.search_None_iff[OF w]) (use f in \<open>simp_all add: tcb_conn_def ctx_fresh_def tcb_of_def zero_tcb_def\<close>)
  then have "event_safe c listen_bytes"
    by (simp add: event_safe_def listen_bytes_fields listen_safe_def event_no_def)
  then show "admissible (App_Event (0, False, id) [] 0) listen_context" by (simp add: q c_def)
  obtain s where s: "usnet_search_socket c (so_key 5) = Some s"
    using fresh_socket[of 5] by (auto simp: c_def listen_context_def usnet_search_socket_def)
  obtain p d where d: "usnet_register_socket c (Some s) 0x0100000A 0x5000 0 0 = (d, 0)" "live d p"
      "ev_net2app_mq d = mq_new 1024"
    using register_fresh[OF f, of "0x0100000A" s "0x5000"] by (auto simp: c_def listen_context_fresh)
  obtain bs where bs: "mem_write 16 (le32 (0 :: u32)) listen_bytes = Some bs" "length bs = 20"
    by (auto simp: mem_write_def listen_bytes_fields)
  obtain q2 where q2: "usnet_shmmq_enqueue (mq_new 1024) 0 (take 20 bs) 5 = Some (q2, 0)"
    using enqueue_holds[OF mq_new_holds(1)[of 1024], of "take 20 bs" 0 5] bs(2) by (auto simp: mq_new_def mq_used_def ring_used_def)
  have "usnet_listen_net_handler c listen_bytes 20 5 0 = Some (d\<lparr>ev_net2app_mq := q2\<rparr>, bs)"
    by (simp add: usnet_listen_net_handler_def listen_bytes_fields s d(1,3) bs(1) q2)
  then have "app_event (0, False, id) [] 0 listen_context = Some (d\<lparr>ev_net2app_mq := q2\<rparr>, bs, 20)"
    by (simp add: app_event_def q c_def[symmetric] usnet_tcpev_net_handler_def listen_bytes_fields event_no_def)
  moreover have "live (d\<lparr>ev_net2app_mq := q2\<rparr>) p" using d(2) by (simp add: live_def tcb_of_def)
  ultimately show "\<exists>d p. perform (App_Event (0, False, id) [] 0) listen_context = Some d \<and> live d p" by auto
qed

text \<open>A connection in SYN-RECEIVED, socket 5 that may accept it, and the address of the peer known.\<close>

definition accept_context :: usn_context where
  "accept_context = (conn_context (sample_in TCPS_SYN_RECEIVED))
     \<lparr>arp_entries := [\<lparr>arp_ip = 0x0200000A, arp_haddr = [2, 0, 0, 0, 0, 2]\<rparr>], if_hwa := [2, 0, 0, 0, 0, 1],
      socket_cache := fst (usnet_cache_insert (socket_cache fresh_context) (so_key 5))\<rparr>"

lemma setup_tables_sendbufs:
  assumes "usnet_setup_tables c n1 n2 m = Some d"
  shows "(\<forall>q. sb_fd (hb_cache (sndbuf_cache d) q) = 0) \<and> hb_time (sndbuf_cache d) = 10"
proof -
  let ?z = "\<lparr>sb_fd = 0, sb_head = 0, sb_sent_head = 0, sb_tail = 0, sb_len = 0, sb_cum_len = 0, sb_size = 0,
        sb_head_seq = 0, sb_init_seq = 0, sb_data = replicate n2 0\<rparr>"
  show ?thesis
    using assms cache_init_100[of "56 + n2" ?z usnet_sb_eq usnet_sb_key usnet_sb_isempty usnet_sb_setempty]
    by (auto simp: usnet_setup_tables_def usnet_sendbuf_init_def bind_eq_Some_conv Let_def)
qed

lemma fresh_sendbuf: "\<exists>base b. usnet_get_sendbuf (sndbuf_cache fresh_context) fd n = (base, Some b)"
proof -
  let ?b = "sndbuf_cache fresh_context"
  obtain d where d: "usnet_setup_tables (usnet_create_context blank_context) 64 64 blank_chunks = Some d" "fresh_context = d"
    using setup_tables_fresh[of blank_context 64 64 blank_chunks] by (auto simp: fresh_context_def blank_context_def)
  have z: "sb_fd (hb_cache ?b q) = 0" "hb_time ?b = 10" for q using setup_tables_sendbufs[OF d(1)] d(2) by simp_all
  have w: "sendbufs.fns ?b" using fresh_context_fresh(1) by (simp add: ctx_fresh_def)
  have "usnet_cache_get ?b k \<noteq> None" for k
    using sendbufs.insert_fails_iff[OF w, of k] z
    by (auto simp: sendbufs.insert_get split: option.splits) (metis zero_less_numeral)
  then show ?thesis by (simp add: usnet_get_sendbuf_def Let_def) (metis (no_types, lifting) not_None_eq option.simps(5))
qed

end
