(* ===== verification/Tcp_Options.thy ===== *)
theory Tcp_Options
  imports Tcp_In Setup
begin

text \<open>
  The two option parsers (\<^verbatim>\<open>usnet_parse_tcpopts\<close>, \<^verbatim>\<open>usnet_parse_tcptimestamp\<close>) on well-formed option bytes: they
  return, and compute what a structural reading of the options gives. On a length field of zero they
  do not return.
\<close>

section \<open>Options as a list\<close>

text \<open>Every option is complete, has a length field of at least two, and the kinds the stack knows have
  their own length.\<close>

definition opt_len_ok :: "u8 \<Rightarrow> nat \<Rightarrow> bool" where
  "opt_len_ok k l \<longleftrightarrow> 2 \<le> l \<and> (k = 2 \<longrightarrow> l = 4) \<and> (k = 3 \<longrightarrow> l = 3) \<and> (k = 4 \<longrightarrow> l = 2) \<and> (k = 8 \<longrightarrow> l = 10)"

fun opts_wf :: "byte list \<Rightarrow> bool" where
  "opts_wf [] \<longleftrightarrow> True"
| "opts_wf (k # bs) \<longleftrightarrow>
     (if k = 0 then True
      else if k = 1 then opts_wf bs
      else case bs of
        [] \<Rightarrow> False
      | l # r \<Rightarrow> opt_len_ok k (unat l) \<and> unat l - 2 \<le> length r \<and> opts_wf (drop (unat l - 2) r))"

text \<open>The first timestamp option, and what the options of a SYN mean for the connection.\<close>

fun find_ts :: "byte list \<Rightarrow> tcp_timestamp option" where
  "find_ts [] = None"
| "find_ts (k # bs) =
     (if k = 0 then None
      else if k = 1 then find_ts bs
      else case bs of
        [] \<Rightarrow> None
      | l # r \<Rightarrow> if k = 8 then Some \<lparr>ts_val = htonl (ld32 r), ts_ref = htonl (ld32 (drop 4 r))\<rparr>
                 else find_ts (drop (unat l - 2) r))"

definition set_opt :: "int \<Rightarrow> u8 \<Rightarrow> byte list \<Rightarrow> usn_tcb \<Rightarrow> usn_tcb" where
  "set_opt now k r t =
     (if k = 2 then let m = push_bit 8 (ucast (r ! 0)) + ucast (r ! 1)
        in t\<lparr>sndvar := (sndvar t)\<lparr>mss := m, eff_mss := m - 12\<rparr>\<rparr>
      else if k = 3 then t\<lparr>sndvar := (sndvar t)\<lparr>wscale := r ! 0\<rparr>\<rparr>
      else if k = 4 then t\<lparr>sack_permit := True\<rparr>
      else if k = 8 then t\<lparr>saw_timestamp := True,
        rcvvar := (rcvvar t)\<lparr>ts_recent := htonl (ld32 r), ts_last_ts_upd := of_int now\<rparr>\<rparr>
      else t)"

fun apply_opts :: "int \<Rightarrow> byte list \<Rightarrow> usn_tcb \<Rightarrow> usn_tcb" where
  "apply_opts now [] t = t"
| "apply_opts now (k # bs) t =
     (if k = 0 then t
      else if k = 1 then apply_opts now bs t
      else case bs of
        [] \<Rightarrow> t
      | l # r \<Rightarrow> apply_opts now (drop (unat l - 2) r) (set_opt now k r t))"

section \<open>Reading inside the options\<close>

lemma take_drop_append [simp]: "take n r @ drop n r @ s = r @ s"
  by (simp flip: append_assoc)

lemma mem_u8_at [simp]: "mem_u8 (pre @ b # bs) (int (length pre)) = Some b"
  by (simp add: mem_u8_def nth_append)

lemma mem_u8_at1 [simp]: "mem_u8 (pre @ a # b # bs) (int (length pre) + 1) = Some b"
  using mem_u8_at[of "pre @ [a]" b bs] by (simp add: ac_simps)

lemma mem_u8_behind: "i < length bs \<Longrightarrow> mem_u8 (pre @ bs) (int (length pre) + int i) = Some (bs ! i)"
  by (simp add: mem_u8_def nth_append nat_add_distrib)

lemma mem_u32_behind: "i + 4 \<le> length bs \<Longrightarrow> mem_u32 (pre @ bs) (int (length pre) + int i) = Some (ld32 (drop i bs))"
  by (simp add: mem_u32_def nat_add_distrib)

lemma ld32_append: "4 \<le> length bs \<Longrightarrow> ld32 (bs @ cs) = ld32 bs"
  by (cases bs rule: ld32.cases) auto

section \<open>The timestamp parser\<close>

lemma parse_tcptimestamp_wf:
  assumes "opts_wf opts"
  shows "usnet_parse_tcptimestamp (pre @ opts @ rest) (int (length pre + length opts)) (int (length pre)) =
    Some (find_ts opts)"
  using assms
proof (induction opts arbitrary: pre rule: find_ts.induct)
  case (1 pre)
  show ?case by (subst usnet_parse_tcptimestamp.simps) simp
next
  case (2 k bs pre)
  consider "k = 0" | "k = 1" | l r where "k \<noteq> 0" "k \<noteq> 1" "bs = l # r"
    using 2(3) by (auto split: list.splits if_splits)
  then show ?case
  proof cases
    case 1
    then show ?thesis by (subst usnet_parse_tcptimestamp.simps) (simp add: tcpts_step_def)
  next
    case k: 2
    show ?thesis
      using k 2(1)[of "pre @ [k]"] 2(3) by (subst usnet_parse_tcptimestamp.simps) (simp add: tcpts_step_def add.commute)
  next
    case (3 l r)
    have wf: "opt_len_ok k (unat l)" "unat l - 2 \<le> length r" "opts_wf (drop (unat l - 2) r)" using 2(3) 3 by simp_all
    define n where "n = unat l - 2"
    have l: "int (unat l) = int n + 2" "unat l = n + 2" using wf(1) unfolding n_def opt_len_ok_def by linarith+
    have u: "uint l = int n + 2" using l(1) by simp
    have n: "n \<le> length r" "opts_wf (drop n r)" using wf by (simp_all add: n_def)
    let ?m = "pre @ (k # l # r) @ rest" and ?len = "int (length pre + length (k # l # r))"
    let ?i = "int (length pre)"
    have fits: "\<not> ?i + 1 + 1 + int (unat l) - 2 > ?len" using n(1) unfolding l(1) by simp
    have b: "mem_u8 ?m ?i = Some k" "mem_u8 ?m (?i + 1) = Some l" by simp_all
    show ?thesis
    proof (cases "k = 8")
      case True
      have "8 \<le> length r" using wf(1) n(1) True l(2) by (simp add: opt_len_ok_def)
      then have "mem_u32 ?m (?i + 2) = Some (ld32 r)" "mem_u32 ?m (?i + 6) = Some (ld32 (drop 4 r))"
        using mem_u32_behind[of 2 "k # l # r @ rest" pre] mem_u32_behind[of 6 "k # l # r @ rest" pre]
        by (simp_all add: ld32_append)
      then have "tcpts_step ?m ?len ?i = Some (Inl (find_ts (k # l # r)))"
        using b fits True 3 by (simp add: tcpts_step_def u add.assoc)
      then show ?thesis using 3 by (subst usnet_parse_tcptimestamp.simps) simp
    next
      case False
      have "tcpts_step ?m ?len ?i = Some (Inr (?i + 2 + int n))"
        using b fits False 3 by (simp add: tcpts_step_def u add.assoc)
      then have "usnet_parse_tcptimestamp ?m ?len ?i = usnet_parse_tcptimestamp ?m ?len (?i + 2 + int n)"
        by (subst usnet_parse_tcptimestamp.simps) simp
      then show ?thesis
        using 2(2)[OF 3(1-3) False, of "pre @ k # l # take n r"] 3 False n l(2)
        by (simp add: min_absorb2 algebra_simps)
    qed
  qed
qed

section \<open>The options of a SYN\<close>

lemma upd_tcb_id: "(\<And>t. f t = t) \<Longrightarrow> upd_tcb p f c = c"
  by (simp add: upd_tcb_def tcb_of_def)

lemma upd_tcb_upd: "upd_tcb p f (upd_tcb p g c) = upd_tcb p (\<lambda>t. f (g t)) c"
  by (simp add: upd_tcb_def tcb_of_def)

lemma tcpopt_step_wf:
  assumes k: "k \<noteq> 0" "k \<noteq> 1" and l: "opt_len_ok k (unat l)" "unat l = n + 2" "n \<le> length r"
  shows "tcpopt_step c p (pre @ (k # l # r) @ rest) (int (length pre + length (k # l # r))) (int (length pre)) =
    Some (upd_tcb p (set_opt (cur_time c) k r) c, Some (int (length pre) + 2 + int n))"
proof -
  let ?m = "pre @ (k # l # r) @ rest" and ?i = "int (length pre)"
  have u: "uint l = int n + 2" using l(2) by (metis of_nat_add of_nat_numeral uint_nat)
  have b: "mem_u8 ?m ?i = Some k" "mem_u8 ?m (?i + 1) = Some l" by simp_all
  have rd: "mem_u8 ?m (?i + 2 + int j) = Some (r ! j)" if "j < length r" for j
    using that mem_u8_behind[of "j + 2" "(k # l # r) @ rest" pre] by (simp add: nth_append algebra_simps)
  have rd8: "mem_u32 ?m (?i + 2) = Some (ld32 r)" if "4 \<le> length r"
    using that mem_u32_behind[of 2 "(k # l # r) @ rest" pre] by (simp add: ld32_append)
  consider "k = 2" "n = 2" | "k = 3" "n = 1" | "k = 4" "n = 0" | "k = 8" "n = 8" | "k \<notin> {2, 3, 4, 8}"
    using l(1,2) by (auto simp: opt_len_ok_def)
  then show ?thesis
  proof cases
    case 1
    then have "r \<noteq> []" using l(3) by auto
    then show ?thesis
      using 1 b k l(3) u rd[of 0] rd[of 1] by (simp add: tcpopt_step_def add.assoc set_opt_def[abs_def] upd_snd_def Let_def)
  next
    case 2
    then have "r \<noteq> []" using l(3) by auto
    then show ?thesis
      using 2 b k l(3) u rd[of 0] by (simp add: tcpopt_step_def add.assoc set_opt_def[abs_def] upd_snd_def)
  next
    case 3
    then show ?thesis using b k l(3) u by (simp add: tcpopt_step_def add.assoc set_opt_def[abs_def])
  next
    case 4
    then show ?thesis
      using b k l(3) u rd8
      by (simp add: tcpopt_step_def add.assoc set_opt_def[abs_def] upd_rcv_def upd_tcb_upd)
  next
    case 5
    then show ?thesis
      using b k l(3) u by (simp add: tcpopt_step_def add.assoc set_opt_def[abs_def] upd_tcb_id)
  qed
qed

lemma parse_tcpopts_wf:
  assumes "opts_wf opts"
  shows "usnet_parse_tcpopts c p (pre @ opts @ rest) (int (length pre + length opts)) (int (length pre)) =
    Some (upd_tcb p (apply_opts (cur_time c) opts) c)"
  using assms
proof (induction opts arbitrary: pre c rule: opts_wf.induct)
  case (1 pre c)
  show ?case by (subst usnet_parse_tcpopts.simps) (simp add: upd_tcb_id)
next
  case (2 k bs pre c)
  consider "k = 0" | "k = 1" | l r where "k \<noteq> 0" "k \<noteq> 1" "bs = l # r"
    using 2(3) by (auto split: list.splits if_splits)
  then show ?case
  proof cases
    case 1
    then show ?thesis by (subst usnet_parse_tcpopts.simps) (simp add: tcpopt_step_def upd_tcb_id)
  next
    case k: 2
    have "apply_opts (cur_time c) (k # bs) = apply_opts (cur_time c) bs" using k by (simp add: fun_eq_iff)
    then show ?thesis
      using k 2(1)[of c "pre @ [k]"] 2(3)
      by (subst usnet_parse_tcpopts.simps) (simp add: tcpopt_step_def add.commute)
  next
    case (3 l r)
    define n where "n = unat l - 2"
    have l: "opt_len_ok k (unat l)" "unat l = n + 2" "n \<le> length r" "opts_wf (drop n r)"
      using 2(3) 3 by (auto simp: n_def opt_len_ok_def)
    have "apply_opts (cur_time c) (k # bs) = (\<lambda>t. apply_opts (cur_time c) (drop n r) (set_opt (cur_time c) k r t))"
      using 3 l(2) by (simp add: fun_eq_iff)
    then show ?thesis
      using 2(2)[OF 3, of "upd_tcb p (set_opt (cur_time c) k r) c" "pre @ k # l # take n r"] 3 l
        tcpopt_step_wf[OF 3(1,2) l(1-3), of c p pre rest]
      by (subst usnet_parse_tcpopts.simps) (simp add: upd_tcb_upd min_absorb2 algebra_simps)
  qed
qed

text \<open>On well-formed options the timestamp parser returns the value and echo of the first timestamp
  option (none when there is none), whatever payload follows the options.\<close>

theorem parse_tcptimestamp_correct:
  assumes "opts_wf opts"
  shows "usnet_parse_tcptimestamp (opts @ payload) (int (length opts)) 0 = Some (find_ts opts)"
  using parse_tcptimestamp_wf[OF assms, of "[]" payload] by simp

theorem parse_tcptimestamp_correct_witness:
  "usnet_parse_tcptimestamp ([1, 5, 3, 9, 8, 10, 0, 0, 0, 7, 0, 0, 0, 9] @ [65]) 14 0 =
    Some (Some \<lparr>ts_val = 7, ts_ref = 9\<rparr>)"
proof -
  have "opts_wf [1, 5, 3, 9, 8, 10, 0, 0, 0, 7, 0, 0, 0, 9]" by code_simp
  moreover have "find_ts [1, 5, 3, 9, 8, 10, 0, 0, 0, 7, 0, 0, 0, 9] = Some \<lparr>ts_val = 7, ts_ref = 9\<rparr>" by code_simp
  ultimately show ?thesis using parse_tcptimestamp_correct[of _ "[65]"] by fastforce
qed

text \<open>C22. Parsing well-formed options of a SYN returns, changes only the connection, and sets its variables as
  the options say: the segment size and the effective segment size, the window scale, SACK permission
  and the peer's timestamp.\<close>

theorem parse_tcpopts_correct:
  assumes "opts_wf opts"
  shows "usnet_parse_tcpopts c p (opts @ payload) (int (length opts)) 0 =
    Some (upd_tcb p (apply_opts (cur_time c) opts) c)"
  using parse_tcpopts_wf[OF assms, of c p "[]" payload] by simp

theorem parse_tcpopts_correct_witness:
  "\<exists>c'. usnet_parse_tcpopts fresh_context 0 [2, 4, 5, 0xB4, 1, 3, 3, 7] 8 0 = Some c' \<and>
    mss (snd_of c' 0) = 1460 \<and> eff_mss (snd_of c' 0) = 1448 \<and> wscale (snd_of c' 0) = 7"
proof -
  have "opts_wf [2, 4, 5, 0xB4, 1, 3, 3, 7]" by code_simp
  from parse_tcpopts_correct[OF this, of fresh_context 0 "[]"] show ?thesis
    by (simp add: set_opt_def Let_def)
qed

text \<open>C24. The options the stack puts into a SYN are well-formed, and a stack that parses them learns the
  sender's segment size and window scale, counts the timestamp option off the effective segment size, and keeps the
  sender's clock as the timestamp to echo.\<close>

theorem tcpopts_roundtrip:
  assumes "usnet_generate_tcpopts d t TH_SYN (usnet_get_tcpopt_length TH_SYN) = Some opts"
  shows "length opts = 20 \<and> usnet_parse_tcpopts c p opts 20 0 =
    Some (upd_tcb p (\<lambda>s. s\<lparr>saw_timestamp := True,
      sndvar := (sndvar s)\<lparr>mss := mss (sndvar t), eff_mss := mss (sndvar t) - 12, wscale := wscale (sndvar t)\<rparr>,
      rcvvar := (rcvvar s)\<lparr>ts_recent := of_int (cur_time d), ts_last_ts_upd := of_int (cur_time c)\<rparr>\<rparr>) c)"
proof -
  let ?m = "mss (sndvar t)"
  have o: "opts = [2, 4, ucast (drop_bit 8 ?m), ucast ?m, 1, 1, 8, 10] @ le32 (htonl (of_int (cur_time d))) @
      le32 (htonl (ts_recent (rcvvar t))) @ [1, 3, 3, wscale (sndvar t)]"
    using assms by (simp add: usnet_generate_tcpopts_def usnet_generate_tcpts_def Let_def split: if_splits)
  have len: "length opts = 20" by (simp add: o)
  have wf: "opts_wf opts" by (simp add: o opt_len_ok_def)
  let ?h = "push_bit 8 (ucast (ucast (drop_bit 8 ?m) :: u8)) :: u16" and ?l = "ucast (ucast ?m :: u8) :: u16"
  have "\<not> bit ?h n \<or> \<not> bit ?l n" for n by (auto simp: bit_simps)
  then have "?h + ?l = ?h OR ?l" by (rule disjunctive_add)
  also have "\<dots> = ?m" by (rule bit_word_eqI) (auto simp: bit_simps)
  finally have m: "?h + ?l = ?m" .
  have "apply_opts (cur_time c) opts = (\<lambda>s. s\<lparr>saw_timestamp := True,
      sndvar := (sndvar s)\<lparr>mss := ?m, eff_mss := ?m - 12, wscale := wscale (sndvar t)\<rparr>,
      rcvvar := (rcvvar s)\<lparr>ts_recent := of_int (cur_time d), ts_last_ts_upd := of_int (cur_time c)\<rparr>\<rparr>)"
    by (simp add: o fun_eq_iff set_opt_def m Let_def)
  then show ?thesis using parse_tcpopts_wf[OF wf, of c p "[]" "[]"] len by simp
qed

theorem tcpopts_roundtrip_witness:
  "\<exists>opts c'. usnet_generate_tcpopts (fresh_context\<lparr>cur_time := 77\<rparr>) sample_tcb TH_SYN (usnet_get_tcpopt_length TH_SYN) = Some opts \<and>
    usnet_parse_tcpopts fresh_context 0 opts 20 0 = Some c' \<and> eff_mss (snd_of c' 0) = 1448 \<and> ts_recent (rcv_of c' 0) = 77"
proof -
  obtain opts where "usnet_generate_tcpopts (fresh_context\<lparr>cur_time := 77\<rparr>) sample_tcb TH_SYN (usnet_get_tcpopt_length TH_SYN) = Some opts"
    by (simp add: usnet_generate_tcpopts_def usnet_generate_tcpts_def usnet_get_tcpopt_length_def)
  moreover from tcpopts_roundtrip[OF this, of fresh_context 0] show ?thesis
    using calculation by (auto simp: sample_tcb_def)
qed

section \<open>Malformed lengths\<close>

lemma parse_tcptimestamp_stuck:
  assumes "tcpts_step o' len i = Some (Inr i)" "i < len"
  shows "usnet_parse_tcptimestamp o' len i = None"
proof (rule ccontr)
  assume "usnet_parse_tcptimestamp o' len i \<noteq> None"
  then obtain y where y: "usnet_parse_tcptimestamp o' len i = Some y" by blast
  let ?P = "\<lambda>o' len i (_ :: tcp_timestamp option). \<not> (tcpts_step o' len i = Some (Inr i) \<and> i < len)"
  have "?P o' len i y"
    by (rule usnet_parse_tcptimestamp.raw_induct[of ?P, OF _ y]) fastforce
  then show False using assms by blast
qed

lemma parse_tcpopts_stuck:
  assumes "tcpopt_step c p o' len i = Some (c, Some i)" "i < len"
  shows "usnet_parse_tcpopts c p o' len i = None"
proof (rule ccontr)
  assume "usnet_parse_tcpopts c p o' len i \<noteq> None"
  then obtain y where y: "usnet_parse_tcpopts c p o' len i = Some y" by blast
  let ?P = "\<lambda>c p o' len i (_ :: usn_context). \<not> (tcpopt_step c p o' len i = Some (c, Some i) \<and> i < len)"
  have "?P c p o' len i y"
    by (rule usnet_parse_tcpopts.raw_induct[of ?P, OF _ y]) fastforce
  then show False using assms by blast
qed

text \<open>C23. An option of a kind the stack does not know whose length field is zero stops the stack: the parser
  of SYN options and the timestamp parser step from the option to itself, in the same context, and never
  return.\<close>

theorem zero_length_option_hangs:
  assumes "k \<notin> {0, 1, 2, 3, 4, 8}" "2 \<le> len"
  shows "tcpopt_step c p ([k, 0] @ rest) len 0 = Some (c, Some 0) \<and> usnet_parse_tcpopts c p ([k, 0] @ rest) len 0 = None \<and>
    tcpts_step ([k, 0] @ rest) len 0 = Some (Inr 0) \<and> usnet_parse_tcptimestamp ([k, 0] @ rest) len 0 = None"
proof -
  have "tcpopt_step c p ([k, 0] @ rest) len 0 = Some (c, Some 0)" "tcpts_step ([k, 0] @ rest) len 0 = Some (Inr 0)"
    using assms by (simp_all add: tcpopt_step_def tcpts_step_def mem_u8_def)
  then show ?thesis using assms(2) parse_tcpopts_stuck parse_tcptimestamp_stuck by fastforce
qed

theorem zero_length_option_hangs_witness:
  "usnet_parse_tcpopts fresh_context 0 [5, 0, 0, 0] 4 0 = None \<and> usnet_parse_tcptimestamp [5, 0, 0, 0] 4 0 = None"
  using zero_length_option_hangs[of 5 4 fresh_context 0 "[0, 0]"] by simp

end
