(* ===== verification/Wire_Format.thy ===== *)
theory Wire_Format
  imports Net_In
begin

text \<open>
  Data in flight: what the stack writes it reads back. TCP segments (\<^verbatim>\<open>tcp_out.c\<close> against
  \<^verbatim>\<open>tcp.c\<close>), and the two checksums of ICMP (\<^verbatim>\<open>utils.c\<close>), which do not agree.
\<close>

section \<open>Segments\<close>

lemma unat_data_offset: "n < 16 \<Longrightarrow> unat (drop_bit 4 (push_bit 4 (of_nat n) :: u8)) = n"
proof -
  assume n: "n < 16"
  have "push_bit 4 (of_nat n) = (of_nat (16 * n) :: u8)" by (simp add: push_bit_eq_mult)
  moreover have "unat (of_nat (16 * n) :: u8) = 16 * n" unfolding unat_of_nat using n by simp
  ultimately show ?thesis using n by (simp add: unsigned_drop_bit_eq drop_bit_nat_def take_bit_nat_eq_self)
qed

lemma header_bytes:
  "(le16 sp @ le16 dp @ le32 sq @ le32 ak @ [x, fl] @ r) ! 12 = x"
  "(le16 sp @ le16 dp @ le32 sq @ le32 ak @ [x, fl] @ r) ! 13 = fl"
  by (simp_all add: le16_def le32_def)

lemma read_sealed:
  assumes "4 dvd length opts" "length opts \<le> 40"
  shows "read_tcphdr (tcp_sealed sp dp sq ak fl win opts payload sip dip) = Some \<lparr>th_sport = sp, th_dport = dp, th_seq = sq,
    th_ack = ak, th_off = (20 + length opts) div 4, th_flags = fl, th_win = win,
    th_mem = tcp_sealed sp dp sq ak fl win opts payload sip dip\<rparr>"
proof -
  let ?n = "(20 + length opts) div 4"
  define seg where "seg = tcp_sealed sp dp sq ak fl win opts payload sip dip"
  obtain c where m: "seg = le16 sp @ le16 dp @ le32 sq @ le32 ak @ [push_bit 4 (of_nat ?n), fl] @ le16 win @ le16 c @ [0, 0] @ opts @ payload"
    unfolding seg_def tcp_sealed_def tcp_header_def Let_def by simp
  have n: "?n < 16" using assms by auto
  have "drop 14 seg = le16 win @ le16 c @ [0, 0] @ opts @ payload" "\<not> length seg < 20" unfolding m by simp_all
  then show ?thesis
    using unat_data_offset[OF n] unfolding seg_def[symmetric] read_tcphdr_def by (simp only: m header_bytes) simp
qed

lemma split_parts:
  "s = h @ x @ y \<Longrightarrow> length h = n \<Longrightarrow> drop n (take (n + length x) s) = x"
  "s = h @ x @ y \<Longrightarrow> length h = n \<Longrightarrow> drop (n + length x) s = y"
  by simp_all

text \<open>C13. A TCP segment as the stack builds it passes the receiver's checksum test, and the receiver reads the
  ports, numbers, flags, window, options and payload the sender put in.\<close>

theorem segment_roundtrip:
  assumes "4 dvd length opts" "length opts \<le> 40" "20 + length opts + length payload \<le> 65535"
    and seg: "seg = tcp_sealed sp dp sq ak fl win opts payload sip dip"
  shows "tcp_cksum seg sip dip = 0 \<and> (\<exists>h. read_tcphdr seg = Some h \<and> th_sport h = sp \<and> th_dport h = dp \<and>
    th_seq h = sq \<and> th_ack h = ak \<and> th_flags h = fl \<and> th_win h = win \<and> 4 * th_off h = 20 + length opts \<and>
    drop 20 (take (4 * th_off h) seg) = opts \<and> drop (4 * th_off h) seg = payload)"
proof -
  let ?n = "(20 + length opts) div 4"
  let ?a = "le16 sp @ le16 dp @ le32 sq @ le32 ak @ [push_bit 4 (of_nat ?n), fl] @ le16 win"
  let ?b = "[0, 0] @ opts @ payload"
  obtain c where c: "seg = ?a @ le16 c @ ?b" "c = tcp_cksum (?a @ le16 0 @ ?b) sip dip"
    unfolding seg tcp_sealed_def tcp_header_def Let_def by simp
  have l: "length (?a @ le16 v @ ?b) = 20 + length opts + length payload" for v by simp
  have "htons 6 \<noteq> 0" by code_simp
  then have "tcp_cksum seg sip dip = 0"
    using cksum_seal[of ?a ?b c 6 "20 + length opts + length payload" sip dip] assms(3) c(2)
    unfolding c(1) tcp_cksum_def l by simp
  moreover have n: "?n < 16" "4 * ?n = 20 + length opts" using assms(1,2) by auto
  moreover have "read_tcphdr seg = Some \<lparr>th_sport = sp, th_dport = dp, th_seq = sq, th_ack = ak, th_off = ?n,
      th_flags = fl, th_win = win, th_mem = seg\<rparr>"
    unfolding seg by (rule read_sealed[OF assms(1,2)])
  moreover have "seg = (?a @ le16 c @ [0, 0]) @ opts @ payload" "length (?a @ le16 c @ [0, 0]) = 20" by (simp_all add: c(1))
  then have "drop 20 (take (20 + length opts) seg) = opts" "drop (20 + length opts) seg = payload"
    using split_parts by metis+
  ultimately show ?thesis by simp
qed

theorem segment_roundtrip_witness:
  "\<exists>h. read_tcphdr (tcp_sealed 0x5000 0x0A0B 1 2 0x12 100 [2, 4, 5, 0xB4] [65, 66] 0x0100000A 0x0200000A) = Some h \<and>
    th_flags h = 0x12 \<and> drop (4 * th_off h) (tcp_sealed 0x5000 0x0A0B 1 2 0x12 100 [2, 4, 5, 0xB4] [65, 66] 0x0100000A 0x0200000A) = [65, 66]"
proof -
  have "4 dvd length [2, 4, 5, 0xB4 :: byte]" by code_simp
  from segment_roundtrip[where payload = "[65, 66]" and sp = "0x5000" and dp = "0x0A0B" and sq = 1 and ak = 2
      and fl = "0x12" and win = 100 and sip = "0x0100000A" and dip = "0x0200000A", OF this _ _ refl]
  show ?thesis by auto
qed

section \<open>ICMP checksums\<close>

lemma fold16_small: "n < 65536 \<Longrightarrow> fold16 n = n"
  by (cases n) (auto simp: fold16_def)

lemma unat_cksum_fold: "unat (cksum_fold s) = fold16 (unat s)"
proof (induction s rule: cksum_fold.induct)
  case (1 s)
  show ?case
  proof (cases "drop_bit 16 s = 0")
    case True
    then have "unat s div 65536 = 0" using unat_drop16[of s] by simp
    then show ?thesis using True by (subst cksum_fold.simps) (simp add: fold16_small)
  next
    case False
    let ?s = "(s AND 0xFFFF) + drop_bit 16 s"
    have "unat s div 65536 < 65536" "unat s mod 65536 < 65536"
      using unat_u32_lt[of s] by (simp_all add: less_mult_imp_div_less)
    then have u: "unat ?s = unat s mod 65536 + unat s div 65536"
      by (subst unat_add_u32) (simp_all add: unat_and_ffff unat_drop16)
    have e: "unat s = unat ?s + unat s div 65536 * 65535" unfolding u using div_mult_mod_eq[of "unat s" 65536] by linarith
    have "unat s div 65536 \<noteq> 0" using False unat_drop16[of s] by (metis unat_eq_0)
    then have "unat ?s = 0 \<longleftrightarrow> unat s = 0" using u by auto
    moreover have "unat ?s mod 65535 = unat s mod 65535" using arg_cong[OF e, of "\<lambda>n. n mod 65535"] by (simp only: mod_mult_self1)
    ultimately have "fold16 (unat ?s) = fold16 (unat s)" by (rule fold16_cong)
    then show ?thesis using 1 False by (subst cksum_fold.simps) simp
  qed
qed

lemma cksum_sum_even: "cksum_sum buf = sum16 (if even (length buf) then buf else butlast buf)"
  by (induction buf rule: cksum_sum.induct) auto

text \<open>C34. The checksum that incoming ICMP messages are tested with is the Internet checksum of the message
  without its last byte when the length is odd: that byte is not covered.\<close>

theorem cksum_equiv:
  "cksum buf = fold_cksum (sum16 (if even (length buf) then buf else butlast buf))"
proof -
  have "fold16 (unat s) mod 65536 = fold16 (unat s)" for s :: u32 using fold16_le[of "unat s"] by simp
  then show ?thesis
    by (simp only: word_unat_eq_iff cksum_def unat_ucast_not unat_cksum_fold unat_fold_cksum cksum_sum_even)
qed

end
