(* ===== verification/Tcp_Timing.thy ===== *)
theory Tcp_Timing
  imports Tcp_In Timer
begin

text \<open>
  Bounds of the time-dependent variables: the round-trip estimate and the retransmission timeout computed
  from it (\<^verbatim>\<open>tcp.c\<close>), its exponential back-off (\<^verbatim>\<open>timer.c\<close>), and the receive window.
\<close>

section \<open>Round-trip time\<close>

text \<open>With all samples at most \<open>B\<close> ticks the scaled estimate stays below \<open>8 * B\<close> and the variance below \<open>4 * B\<close>.\<close>

definition rtt_ok :: "int \<Rightarrow> usn_rcvvars \<Rightarrow> bool" where
  "rtt_ok B r \<longleftrightarrow> 0 < uint (srtt r) \<and> uint (srtt r) \<le> 8 * B \<and> uint (mdev r) \<le> 4 * B \<and> uint (mdev_max r) \<le> 4 * B \<and>
     0 < uint (rttvar r) \<and> uint (rttvar r) \<le> 4 * B"

lemma uint_add_int: "0 \<le> uint w + d \<Longrightarrow> uint w + d < 2 ^ 32 \<Longrightarrow> uint (w + of_int d :: u32) = uint w + d"
  by (simp add: uint_word_ariths uint_word_of_int mod_add_right_eq)

lemma uint_drop: "uint (drop_bit n w :: u32) = uint w div 2 ^ n"
proof -
  have "unat w div 2 ^ n < 2 ^ 32" using unat_u32_lt[of w] div_le_dividend[of "unat w" "2 ^ n"] by linarith
  then have "unat (drop_bit n w) = unat w div 2 ^ n"
    using unat_u32_lt[of w] by (simp add: unsigned_drop_bit_eq drop_bit_nat_def take_bit_nat_eq_self)
  then have "int (unat (drop_bit n w)) = int (unat w) div 2 ^ n" by (simp only: of_nat_div of_nat_power of_nat_numeral)
  then show ?thesis by simp
qed

lemma srtt_step:
  fixes s m B :: int
  assumes "0 < s" "s \<le> 8 * B" "1 \<le> m" "m \<le> B"
  shows "0 < s + (m - s div 8)" "s + (m - s div 8) \<le> 8 * B" "\<bar>m - s div 8\<bar> \<le> B"
  using assms by linarith+

lemma mdev_step:
  fixes v d B :: int
  assumes "0 \<le> v" "v \<le> 4 * B" "\<bar>d\<bar> \<le> B"
  shows "0 \<le> v + (if d < 0 then if - d - v div 4 > 0 then (- d - v div 4) div 8 else - d - v div 4 else d - v div 4)"
    "v + (if d < 0 then if - d - v div 4 > 0 then (- d - v div 4) div 8 else - d - v div 4 else d - v div 4) \<le> 4 * B"
  using assms by (auto split: if_splits; linarith)+

text \<open>The phases of a later sample: deviation, its maximum, and the decay of the variance once per window.\<close>

definition rtt_dev :: "usn_rcvvars \<Rightarrow> int \<Rightarrow> usn_rcvvars" where
  "rtt_dev r m =
     (let m = (if m < 0 then
                 let m = - m - int (unat (drop_bit 2 (mdev r))) in (if m > 0 then m div 8 else m)
               else m - int (unat (drop_bit 2 (mdev r))))
      in r\<lparr>mdev := mdev r + of_int m\<rparr>)"

definition rtt_max :: "usn_rcvvars \<Rightarrow> usn_rcvvars" where
  "rtt_max r =
     (if mdev r > mdev_max r then
        let r = r\<lparr>mdev_max := mdev r\<rparr>
        in (if mdev_max r > rttvar r then r\<lparr>rttvar := mdev_max r\<rparr> else r)
      else r)"

definition rtt_decay :: "bool \<Rightarrow> u32 \<Rightarrow> usn_rcvvars \<Rightarrow> usn_rcvvars" where
  "rtt_decay due nxt r =
     (if due then
        let r = (if mdev_max r < rttvar r
                 then r\<lparr>rttvar := rttvar r - drop_bit 2 (rttvar r - mdev_max r)\<rparr> else r)
        in r\<lparr>rtt_seq := nxt, mdev_max := 0\<rparr>
      else r)"

lemma rcvvar_upd: "rcvvar (t\<lparr>rcvvar := r\<rparr>) = r"
  by simp

lemma estimate_rtt_phases:
  assumes "srtt (rcvvar t) \<noteq> 0" and m: "m = (if mrtt = 0 then 1 else int (unat mrtt)) - int (unat (drop_bit 3 (srtt (rcvvar t))))"
  shows "\<exists>due. rcvvar (usnet_estimate_rtt t mrtt) = rtt_decay due (snd_nxt t) (rtt_max (rtt_dev
    ((rcvvar t)\<lparr>srtt := srtt (rcvvar t) + of_int m\<rparr>) m))"
proof -
  let ?r = "rtt_max (rtt_dev ((rcvvar t)\<lparr>srtt := srtt (rcvvar t) + of_int m\<rparr>) m)"
  have "rcvvar (usnet_estimate_rtt t mrtt) = rtt_decay (TCP_SEQ_GT (snd_una (sndvar t)) (rtt_seq ?r)) (snd_nxt t) ?r"
    unfolding usnet_estimate_rtt_def rtt_dev_def rtt_max_def rtt_decay_def Let_def
    by (simp only: assms(1) if_True not_False_eq_True rcvvar_upd m)
  then show ?thesis ..
qed

lemma rtt_dev_ok:
  assumes "rtt_ok B r" "\<bar>m\<bar> \<le> B" "B \<le> 2 ^ 24"
  shows "rtt_ok B (rtt_dev r m)"
proof -
  have v: "0 \<le> uint (mdev r)" "uint (mdev r) \<le> 4 * B" using assms(1) by (simp_all add: rtt_ok_def)
  have d: "int (unat (drop_bit 2 (mdev r))) = uint (mdev r) div 4" using uint_drop[of 2 "mdev r"] by simp
  show ?thesis
    using assms(1) mdev_step[OF v assms(2)] assms(3) unfolding rtt_dev_def d Let_def
    by (simp add: rtt_ok_def uint_add_int)
qed

lemma rtt_max_ok: "rtt_ok B r \<Longrightarrow> rtt_ok B (rtt_max r)"
  by (auto simp: rtt_max_def rtt_ok_def Let_def word_less_alt)

lemma rtt_decay_ok:
  assumes "rtt_ok B r" "B \<le> 2 ^ 24"
  shows "rtt_ok B (rtt_decay due nxt r)"
proof -
  let ?v = "uint (rttvar r)" and ?m = "uint (mdev_max r)"
  have "uint (rttvar r - drop_bit 2 (rttvar r - mdev_max r)) = ?v - (?v - ?m) div 4" if "mdev_max r < rttvar r"
  proof -
    have "?m < ?v" using that by (simp add: word_less_alt)
    then have e: "uint (rttvar r - mdev_max r) = ?v - ?m" by (simp add: uint_sub_if')
    have "(?v - ?m) div 4 \<le> ?v" using \<open>?m < ?v\<close> uint_ge_0[of "mdev_max r"] by linarith
    then show ?thesis using uint_drop[of 2 "rttvar r - mdev_max r"] e by (simp add: uint_sub_if')
  qed
  moreover have "0 < ?v - (?v - ?m) div 4" "?v - (?v - ?m) div 4 \<le> ?v" if "?m < ?v"
    using that assms(1) uint_ge_0[of "mdev_max r"] unfolding rtt_ok_def by linarith+
  ultimately show ?thesis
    using assms(1) by (auto simp: rtt_decay_def rtt_ok_def Let_def word_less_alt)
qed

text \<open>C25. When every sample is at most \<open>B\<close> ticks the smoothed estimate, the mean deviation and the variance stay
  within fixed multiples of \<open>B\<close>, from the first sample on; the retransmission timeout computed from them is
  between 1 and \<open>5 * B\<close>, so the assertion that it is positive never fails.\<close>

theorem estimate_rtt_bounds:
  assumes B: "1 \<le> B" "B \<le> 2 ^ 24" "uint mrtt \<le> B" and r: "srtt (rcvvar t) = 0 \<or> rtt_ok B (rcvvar t)"
    and r': "r' = rcvvar (usnet_estimate_rtt t mrtt)"
  shows "rtt_ok B r' \<and> 0 < uint (drop_bit 3 (srtt r') + rttvar r') \<and> uint (drop_bit 3 (srtt r') + rttvar r') \<le> 5 * B"
proof -
  define m where "m = (if mrtt = 0 then 1 else int (unat mrtt))"
  have "mrtt \<noteq> 0 \<Longrightarrow> 0 < uint mrtt" using uint_ge_0[of mrtt] by (simp add: order_less_le uint_0_iff)
  then have m: "1 \<le> m" "m \<le> B" using B by (auto simp: m_def)
  have ok: "rtt_ok B r'"
  proof (cases "srtt (rcvvar t) = 0")
    case True
    have "uint (of_int (m * 8) :: u32) = m * 8" "uint (of_int (m * 2) :: u32) = m * 2"
      using m B(2) by (simp_all only: uint_word_of_int) simp_all
    then show ?thesis using m True unfolding r' usnet_estimate_rtt_def m_def[symmetric] Let_def
      by (simp add: rtt_ok_def max_def word_le_def)
  next
    case False
    let ?s = "srtt (rcvvar t)"
    have r: "rtt_ok B (rcvvar t)" using r False by blast
    have d: "int (unat (drop_bit 3 ?s)) = uint ?s div 8" using uint_drop[of 3 ?s] by simp
    have s: "0 < uint ?s" "uint ?s \<le> 8 * B" using r by (simp_all add: rtt_ok_def)
    note st = srtt_step[OF s m]
    have "uint (?s + of_int (m - uint ?s div 8)) = uint ?s + (m - uint ?s div 8)"
      using st B(2) by (intro uint_add_int) simp_all
    then have "rtt_ok B ((rcvvar t)\<lparr>srtt := ?s + of_int (m - uint ?s div 8)\<rparr>)" using r st by (simp add: rtt_ok_def)
    then show ?thesis
      using estimate_rtt_phases[OF False refl, of mrtt] rtt_dev_ok[OF _ st(3) B(2)] rtt_max_ok rtt_decay_ok[OF _ B(2)]
      unfolding r' m_def[symmetric] d by metis
  qed
  have "uint (srtt r') div 8 + uint (rttvar r') \<le> 5 * B" using ok unfolding rtt_ok_def by linarith
  moreover have "uint (drop_bit 3 (srtt r') + rttvar r') = uint (srtt r') div 8 + uint (rttvar r')"
    using calculation B(2) uint_drop[of 3 "srtt r'"] by (subst uint_add_lem[THEN iffD1]) simp_all
  ultimately show ?thesis using ok uint_ge_0[of "srtt r'"] unfolding rtt_ok_def by linarith
qed

theorem estimate_rtt_bounds_witness:
  "rtt_ok 100 (rcvvar (usnet_estimate_rtt sample_tcb 20))"
  using estimate_rtt_bounds[of 100 20 sample_tcb, OF _ _ _ _ refl] by (simp add: sample_tcb_def zero_rcvvars_def)

section \<open>Back-off\<close>

text \<open>C26. The timeout of a retransmission in an open connection is the estimate doubled once per
  retransmission, at most seven times; it is never zero and does not wrap around.\<close>

theorem rto_backoff_bounds:
  assumes "tcb_state t \<ge> TCPS_ESTABLISHED" "0 < uint e" "uint e \<le> 2 ^ 24"
    and e: "e = drop_bit 3 (srtt (rcvvar t)) + rttvar (rcvvar t)"
  shows "uint (rto (sndvar (rto_backoff t))) = uint e * 2 ^ min (unat (nrtx (sndvar t))) 7 \<and>
    0 < rto (sndvar (rto_backoff t)) \<and> uint (rto (sndvar (rto_backoff t))) \<le> 128 * uint e"
proof -
  define k where "k = min (unat (nrtx (sndvar t))) 7"
  have k: "unat (min (nrtx (sndvar t)) 7) = k" by (simp add: k_def min_def word_le_nat_alt)
  have "(2 :: int) ^ k \<le> 2 ^ 7" by (rule power_increasing) (simp_all add: k_def)
  then have b1: "uint e * 2 ^ k \<le> uint e * 128" using assms(2) by simp
  then have b: "uint e * 2 ^ k \<le> uint e * 128" "uint e * 2 ^ k < 2 ^ 32" using assms(3) by simp_all
  have pos: "0 < uint e * 2 ^ k" using assms(2) by simp
  have "push_bit k e = word_of_int (uint e * 2 ^ k)" by (simp add: push_bit_eq_mult)
  then have p: "uint (push_bit k e) = uint e * 2 ^ k" using pos b(2) by (simp only: uint_word_of_int) simp
  have nz: "push_bit k e \<noteq> 0" using p pos by (metis order_less_irrefl unsigned_0)
  have r: "rto (sndvar (rto_backoff t)) = push_bit k e"
    using assms(1) nz unfolding rto_backoff_def Let_def e[symmetric] k by simp
  show ?thesis unfolding r p k_def[symmetric] using b(1) nz by (simp only: word_greater_zero_iff mult.commute simp_thms)
qed

theorem rto_backoff_bounds_witness:
  "uint (rto (sndvar (rto_backoff (sample_tcb\<lparr>rcvvar := zero_rcvvars\<lparr>srtt := 160, rttvar := 40\<rparr>,
     sndvar := (sndvar sample_tcb)\<lparr>nrtx := 9\<rparr>\<rparr>)))) = 60 * 128"
  using rto_backoff_bounds[of "sample_tcb\<lparr>rcvvar := zero_rcvvars\<lparr>srtt := 160, rttvar := 40\<rparr>,
     sndvar := (sndvar sample_tcb)\<lparr>nrtx := 9\<rparr>\<rparr>", OF _ _ _ refl]
  by (simp add: sample_tcb_def state_order)

section \<open>The receive window\<close>

lemma sint_sub_small:
  assumes "unat (d :: u32) < 2 ^ 31" "unat e < 2 ^ 31"
  shows "sint (d - e) = int (unat d) - int (unat e)"
proof -
  have "d - e = word_of_int (int (unat d) - int (unat e))" by simp
  then have "sint (d - e) = signed_take_bit 31 (int (unat d) - int (unat e))"
    by (simp only: sint_sbintrunc') simp
  also have "\<dots> = int (unat d) - int (unat e)"
  proof (rule signed_take_bit_int_eq_self)
    have "int (unat d) < int (2 ^ 31)" "int (unat e) < int (2 ^ 31)" using assms by (simp_all only: of_nat_less_iff)
    then have b: "int (unat d) < 2 ^ 31" "int (unat e) < 2 ^ 31" by (simp_all only: of_nat_power of_nat_numeral)
    show "- (2 ^ 31) \<le> int (unat d) - int (unat e)" using b by linarith
    show "int (unat d) - int (unat e) < 2 ^ 31" using b by linarith
  qed
  finally show ?thesis .
qed

lemma sint_nonneg_iff: "0 \<le> sint (d :: u32) \<longleftrightarrow> unat d < 2 ^ 31"
proof
  assume "0 \<le> sint d"
  show "unat d < 2 ^ 31"
  proof (rule ccontr)
    assume a: "\<not> unat d < 2 ^ 31"
    define n where "n = 2 ^ 32 - unat d"
    have n: "0 < n" "n \<le> 2 ^ 31" using a unat_u32_lt[of d] by (simp_all add: n_def)
    have "of_nat (unat d + n) = (0 :: u32)" using unat_u32_lt[of d] by (simp add: n_def)
    then have "d = - of_nat n" by (simp add: eq_neg_iff_add_eq_0)
    then show False using sint_minus_of_nat_small[OF n(2)] n(1) \<open>0 \<le> sint d\<close> by simp
  qed
qed (simp add: sint_u32_unat)

lemma between_window:
  assumes "0 < unat w" "unat w \<le> 2 ^ 31"
  shows "TCP_SEQ_BETWEEN x a (a + w - 1) \<longleftrightarrow> unat (x - a) < unat w"
proof -
  have w: "unat (w - 1) = unat w - 1" using assms(1) by (simp add: unat_sub_u32)
  have e: "x - (a + w - 1) = (x - a) - (w - 1)" by simp
  have "sint ((x - a) - (w - 1)) \<le> 0 \<longleftrightarrow> unat (x - a) < unat w" if "unat (x - a) < 2 ^ 31"
  proof -
    have "unat (w - 1) < 2 ^ 31" using w assms by simp
    then have "sint ((x - a) - (w - 1)) = int (unat (x - a)) - int (unat w - 1)"
      using sint_sub_small[OF that, of "w - 1"] by (simp only: w)
    then show ?thesis using assms(1) by linarith
  qed
  moreover have "unat (x - a) < unat w \<Longrightarrow> unat (x - a) < 2 ^ 31" using assms(2) by linarith
  ultimately show ?thesis
    unfolding TCP_SEQ_BETWEEN_def TCP_SEQ_GEQ_def TCP_SEQ_LEQ_def e sint_nonneg_iff by blast
qed

text \<open>C27. Without timestamps the sequence test accepts a segment exactly when its end lies in the receive
  window, counted modulo the sequence space, and then changes nothing; a segment outside the window is
  refused with a negative code.\<close>

theorem validate_seq_window:
  assumes "\<not> saw_timestamp (tcb_of c p)" "0 < unat (rcv_wnd (rcv_of c p))" "unat (rcv_wnd (rcv_of c p)) \<le> 2 ^ 31"
    and v: "usnet_validate_seq c p tcph seq n = Some (d, r)"
  shows "(r = 0 \<longleftrightarrow> unat (seq + of_nat n - rcv_nxt (tcb_of c p)) < unat (rcv_wnd (rcv_of c p))) \<and>
    (r = 0 \<longrightarrow> d = c) \<and> r \<le> 0"
  using v assms(1) between_window[OF assms(2,3), of "seq + of_nat n" "rcv_nxt (tcb_of c p)"]
  unfolding usnet_validate_seq_def validate_paws_def
  by (simp only: if_False simp_thms bind.bind_lunit split_beta)
    (auto simp: bind_eq_Some_conv split: if_splits)

theorem validate_seq_window_witness:
  "\<exists>p. tcb_of (conn_context sample_tcb) p = sample_tcb \<and> unat (501 + of_nat 10 - rcv_nxt sample_tcb) < unat (rcv_wnd (rcvvar sample_tcb)) \<and>
    usnet_validate_seq (conn_context sample_tcb) p
      \<lparr>th_sport = 0x0A0B, th_dport = 0x5000, th_seq = htonl 501, th_ack = 0, th_off = 5, th_flags = 0, th_win = 32, th_mem = []\<rparr> 501 10 =
      Some (conn_context sample_tcb, 0)"
proof -
  obtain p where p: "tcb_of (conn_context sample_tcb) p = sample_tcb" using conn_context_ok[of sample_tcb] by auto
  let ?c = "conn_context sample_tcb"
  let ?h = "\<lparr>th_sport = 0x0A0B, th_dport = 0x5000, th_seq = htonl 501, th_ack = 0, th_off = 5, th_flags = 0, th_win = 32, th_mem = []\<rparr>"
  have w: "\<not> saw_timestamp (tcb_of ?c p)" "0 < unat (rcv_wnd (rcv_of ?c p))" "unat (rcv_wnd (rcv_of ?c p)) \<le> 2 ^ 31"
    unfolding p by (simp_all add: sample_tcb_def zero_tcb_def)
  have i: "unat (501 + of_nat 10 - rcv_nxt sample_tcb) < unat (rcv_wnd (rcvvar sample_tcb))" by (simp add: sample_tcb_def)
  have b: "TCP_SEQ_BETWEEN (501 + of_nat 10) (rcv_nxt sample_tcb) (rcv_nxt sample_tcb + rcv_wnd (rcvvar sample_tcb) - 1)"
    using between_window[OF w(2,3)] i by (simp add: p)
  have f: "rcvvar_at sample_tcb \<noteq> None" "\<not> saw_timestamp sample_tcb" by (simp_all add: sample_tcb_def zero_tcb_def)
  have v: "usnet_validate_seq ?c p ?h 501 10 = Some (?c, 0)"
    using b f by (simp add: usnet_validate_seq_def validate_paws_def p)
  show ?thesis using validate_seq_window[OF w v] v i p by auto
qed

end
