(* ===== verification/Netmap_Tx.thy ===== *)
theory Netmap_Tx
  imports Usn_Prelude
begin

text \<open>
  Frame output to the network device (\<^verbatim>\<open>eth.c\<close>, \<^verbatim>\<open>usnet_netmap_init\<close> of \<^verbatim>\<open>core.c\<close>). The device is used
  through the netmap library, which is not part of the repository: its functions are the fields of
  \<open>nm_lib\<close>, an argument of the definitions, and what the system calls do to the device is a function of the
  state of the hardware, whose type is left open. The rest of the development sees this layer as the list of
  frames given to \<^verbatim>\<open>usnet_send_data\<close>.
\<close>

section \<open>Rings and the device\<close>

text \<open>The fields of \<^verbatim>\<open>struct netmap_ring\<close> and its slots that the source uses. A packet buffer is named by its
  index.\<close>

record nm_slot =
  buf_idx :: u32
  slot_len :: u16
  slot_flags :: u16

record nm_ring =
  ring_head :: u32
  ring_cur :: u32
  ring_tail :: u32
  ring_slots :: "nm_slot list"

text \<open>The device descriptor with its transmit rings and buffers, and the three netmap fields of the interface
  (\<^verbatim>\<open>ctx->ifnet\<close>).\<close>

record 'h nm_ctx =
  nm_hw :: 'h
  nm_tx :: "nm_ring list"
  nm_bufs :: "u32 \<Rightarrow> byte list"
  first_tx_ring :: nat
  last_tx_ring :: nat
  cur_tx_ring :: nat
  npkts :: int
  burst :: int
  tx_rate :: int

text \<open>What the code calls: the functions of the library, \<^verbatim>\<open>ioctl(NIOCTXSYNC)\<close>, and \<^verbatim>\<open>poll\<close> for output with its
  result and whether it reports \<^verbatim>\<open>POLLERR\<close> and \<^verbatim>\<open>POLLOUT\<close>.\<close>

record 'h nm_lib =
  nm_ring_empty :: "nm_ring \<Rightarrow> bool"
  nm_ring_next :: "nm_ring \<Rightarrow> u32 \<Rightarrow> u32"
  nm_tx_pending :: "nm_ring \<Rightarrow> bool"
  nm_pkt_copy :: "byte list \<Rightarrow> byte list \<Rightarrow> nat \<Rightarrow> byte list option"
  nm_txsync :: "'h nm_ctx \<Rightarrow> 'h nm_ctx"
  nm_poll :: "'h nm_ctx \<Rightarrow> 'h nm_ctx \<times> int \<times> bool \<times> bool"

text \<open>\<^verbatim>\<open>struct usn_nmring\<close>: the ring a frame is being built in.\<close>

record usn_nmring =
  trigger_ring :: "nat option"
  trigger_idx :: nat

definition tx_ring :: "'h nm_ctx \<Rightarrow> nat \<Rightarrow> nm_ring option" where
  "tx_ring d j = (if j < length (nm_tx d) then Some (nm_tx d ! j) else None)"

definition cur_slot :: "nm_ring \<Rightarrow> nm_slot option" where
  "cur_slot ring = (let i = unat (ring_cur ring) in if i < length (ring_slots ring) then Some (ring_slots ring ! i) else None)"

definition tx_range :: "'h nm_ctx \<Rightarrow> nat list" where
  "tx_range d = [first_tx_ring d..<Suc (last_tx_ring d)]"

section \<open>Sending a frame\<close>

text \<open>\<^verbatim>\<open>usnet_netmap_init\<close> once the device is open and the frame buffer allocated.\<close>

definition usnet_netmap_init :: "'h nm_ctx \<Rightarrow> 'h nm_ctx" where
  "usnet_netmap_init d = d\<lparr>npkts := 0, burst := 1024, tx_rate := 0\<rparr>"

text \<open>The poll after a burst, of the device \<open>e\<close>: \<open>None\<close> to fail, otherwise whether to try the rings or to
  flush them first.\<close>

definition tx_gate :: "'h nm_lib \<Rightarrow> 'h nm_ctx \<Rightarrow> 'h nm_ctx \<Rightarrow> 'h nm_ctx \<times> bool option" where
  "tx_gate lib d e =
     (if burst d \<le> npkts d then
        (let (e, ret, err, out) = nm_poll lib e
         in if ret \<le> 0 then (e, None) else if err then (e, None) else (e, Some out))
      else (d, Some True))"

fun scan_rings :: "'h nm_lib \<Rightarrow> 'h nm_ctx \<Rightarrow> nat list \<Rightarrow> nat option option" where
  "scan_rings lib d [] = Some None"
| "scan_rings lib d (j # js) = do {
     ring \<leftarrow> tx_ring d j;
     if nm_ring_empty lib ring then scan_rings lib d js else Some (Some j)
   }"

text \<open>Waiting until a ring is transmitted; it does not return when the device never makes progress.\<close>

partial_function (option) drain_ring :: "'h nm_lib \<Rightarrow> nat \<Rightarrow> 'h nm_ctx \<Rightarrow> 'h nm_ctx option" where
  "drain_ring lib j d = do {
     ring \<leftarrow> tx_ring d j;
     if nm_tx_pending lib ring then drain_ring lib j (nm_txsync lib d) else Some d
   }"

fun drain_rings :: "'h nm_lib \<Rightarrow> nat list \<Rightarrow> 'h nm_ctx \<Rightarrow> 'h nm_ctx option" where
  "drain_rings lib [] d = Some d"
| "drain_rings lib (j # js) d = do { d \<leftarrow> drain_ring lib j d; drain_rings lib js d }"

definition flush_tx :: "'h nm_lib \<Rightarrow> 'h nm_ctx \<Rightarrow> 'h nm_ctx option" where
  "flush_tx lib d = drain_rings lib (tx_range d) (nm_txsync lib d)"

text \<open>Filling the current slot of ring \<open>j\<close> with the first \<open>len\<close> bytes of the block and passing it on; the
  slot keeps sixteen bits of the length.\<close>

definition place_frame :: "'h nm_lib \<Rightarrow> byte list \<Rightarrow> u32 \<Rightarrow> nat \<Rightarrow> 'h nm_ctx \<Rightarrow> 'h nm_ctx option" where
  "place_frame lib blk len j d = do {
     ring \<leftarrow> tx_ring d j;
     slot \<leftarrow> cur_slot ring;
     let slots = (ring_slots ring)[unat (ring_cur ring) := slot\<lparr>slot_flags := 0, slot_len := ucast len\<rparr>];
     out \<leftarrow> nm_pkt_copy lib blk (nm_bufs d (buf_idx slot)) (unat len);
     let nxt = nm_ring_next lib ring (ring_cur ring);
     Some (d\<lparr>nm_tx := (nm_tx d)[j := ring\<lparr>ring_slots := slots, ring_cur := nxt, ring_head := nxt\<rparr>],
             nm_bufs := (nm_bufs d)(buf_idx slot := out), cur_tx_ring := j, npkts := npkts d + 1\<rparr>)
   }"

fun send_attempts :: "'h nm_lib \<Rightarrow> byte list \<Rightarrow> u32 \<Rightarrow> nat \<Rightarrow> 'h nm_ctx \<Rightarrow> ('h nm_ctx \<times> int) option" where
  "send_attempts lib blk len 0 d = Some (d, - 2)"
| "send_attempts lib blk len (Suc n) d =
     (case tx_gate lib d (d\<lparr>npkts := 0\<rparr>) of
        (d, None) \<Rightarrow> Some (d, - 3)
      | (d, Some try_send) \<Rightarrow> do {
          found \<leftarrow> (if try_send then scan_rings lib d (tx_range d) else Some None);
          (case found of
             Some j \<Rightarrow> do { d \<leftarrow> place_frame lib blk len j d; Some (d, sint len) }
           | None \<Rightarrow> do { d \<leftarrow> flush_tx lib d; send_attempts lib blk len n d })
        })"

text \<open>\<open>m\<close> is the frame buffer: its block of memory and the length of the frame.\<close>

definition usnet_send_frame :: "'h nm_lib \<Rightarrow> (byte list \<times> u32) option \<Rightarrow> 'h nm_ctx \<Rightarrow> ('h nm_ctx \<times> int) option" where
  "usnet_send_frame lib m d =
     (case m of None \<Rightarrow> Some (d, - 1) | Some (blk, len) \<Rightarrow> send_attempts lib blk len 3 d)"

section \<open>Building a frame in the ring\<close>

text \<open>\<^verbatim>\<open>usnet_get_nmbuf\<close> makes the current slot of a ring ready and returns its buffer, in which the caller builds
  the frame; \<^verbatim>\<open>usnet_trigger_nm\<close> passes the slot on.\<close>

definition claim_slot :: "u32 \<Rightarrow> nat \<Rightarrow> 'h nm_ctx \<Rightarrow> ('h nm_ctx \<times> u32) option" where
  "claim_slot len j d = do {
     ring \<leftarrow> tx_ring d j;
     slot \<leftarrow> cur_slot ring;
     let slots = (ring_slots ring)[unat (ring_cur ring) := slot\<lparr>slot_flags := 0, slot_len := ucast len\<rparr>];
     Some (d\<lparr>nm_tx := (nm_tx d)[j := ring\<lparr>ring_slots := slots\<rparr>]\<rparr>, buf_idx slot)
   }"

fun nmbuf_attempts ::
  "'h nm_lib \<Rightarrow> usn_nmring \<Rightarrow> u32 \<Rightarrow> nat \<Rightarrow> 'h nm_ctx \<Rightarrow> ('h nm_ctx \<times> usn_nmring \<times> u32 option) option" where
  "nmbuf_attempts lib trigger len 0 d = Some (d, trigger, None)"
| "nmbuf_attempts lib trigger len (Suc n) d =
     (case tx_gate lib d d of
        (d, None) \<Rightarrow> Some (d, trigger, None)
      | (d, Some try_send) \<Rightarrow> do {
          found \<leftarrow> (if try_send then scan_rings lib d (tx_range d) else Some None);
          (case found of
             Some j \<Rightarrow> do {
               (d, idx) \<leftarrow> claim_slot len j d;
               Some (d, trigger\<lparr>trigger_ring := Some j, trigger_idx := j\<rparr>, Some idx)
             }
           | None \<Rightarrow> do { d \<leftarrow> flush_tx lib d; nmbuf_attempts lib trigger len n d })
        })"

definition usnet_get_nmbuf ::
  "'h nm_lib \<Rightarrow> usn_nmring \<Rightarrow> u32 \<Rightarrow> 'h nm_ctx \<Rightarrow> ('h nm_ctx \<times> usn_nmring \<times> u32 option) option" where
  "usnet_get_nmbuf lib trigger len d = nmbuf_attempts lib trigger len 3 d"

definition usnet_trigger_nm :: "'h nm_lib \<Rightarrow> usn_nmring \<Rightarrow> 'h nm_ctx \<Rightarrow> ('h nm_ctx \<times> usn_nmring) option" where
  "usnet_trigger_nm lib trigger d =
     (case trigger_ring trigger of
        None \<Rightarrow> Some (d, trigger)
      | Some j \<Rightarrow> do {
          ring \<leftarrow> tx_ring d j;
          slot \<leftarrow> cur_slot ring;
          let nxt = nm_ring_next lib ring (ring_cur ring);
          Some (d\<lparr>cur_tx_ring := trigger_idx trigger,
                  nm_tx := (nm_tx d)[j := ring\<lparr>ring_cur := nxt, ring_head := nxt\<rparr>]\<rparr>,
                trigger\<lparr>trigger_ring := None\<rparr>)
        })"

section \<open>What is relied on\<close>

text \<open>The kernel moves the tails of the rings and nothing else of what the program sees.\<close>

definition retail :: "u32 list \<Rightarrow> nm_ring list \<Rightarrow> nm_ring list" where
  "retail tails rings = map2 (\<lambda>r t. r\<lparr>ring_tail := t\<rparr>) rings tails"

definition kernel_step :: "'h nm_ctx \<Rightarrow> 'h nm_ctx \<Rightarrow> bool" where
  "kernel_step d e \<longleftrightarrow>
     (\<exists>hw tails. length tails = length (nm_tx d) \<and> e = d\<lparr>nm_hw := hw, nm_tx := retail tails (nm_tx d)\<rparr>)"

text \<open>A device as \<^verbatim>\<open>nm_open\<close> gives it: transmit rings of two slots or more, whose current slot has a buffer of 2048
  bytes.\<close>

definition dev_ok :: "'h nm_ctx \<Rightarrow> bool" where
  "dev_ok d \<longleftrightarrow> first_tx_ring d \<le> last_tx_ring d \<and> last_tx_ring d < length (nm_tx d) \<and> 0 < burst d \<and>
     (\<forall>r \<in> set (nm_tx d). 2 \<le> length (ring_slots r) \<and> length (ring_slots r) < 2 ^ 32 \<and>
        unat (ring_cur r) < length (ring_slots r) \<and> unat (ring_head r) < length (ring_slots r) \<and>
        (\<forall>s \<in> set (ring_slots r). length (nm_bufs d (buf_idx s)) = 2048))"

text \<open>The documented behaviour of the library: a ring that is transmitted completely has room (with two slots
  or more), it stays so until a frame is added, and a packet is copied when both blocks hold it in units of 64
  bytes.\<close>

definition nm_laws :: "'h nm_lib \<Rightarrow> bool" where
  "nm_laws lib \<longleftrightarrow>
     (\<forall>d. dev_ok d \<longrightarrow> kernel_step d (nm_txsync lib d) \<and> kernel_step d (fst (nm_poll lib d))) \<and>
     (\<forall>r. 2 \<le> length (ring_slots r) \<longrightarrow> \<not> nm_tx_pending lib r \<longrightarrow> \<not> nm_ring_empty lib r) \<and>
     (\<forall>d j. dev_ok d \<longrightarrow> j < length (nm_tx d) \<longrightarrow> \<not> nm_tx_pending lib (nm_tx d ! j) \<longrightarrow>
        \<not> nm_tx_pending lib (nm_tx (nm_txsync lib d) ! j)) \<and>
     (\<forall>src dst n. 64 * ((n + 63) div 64) \<le> min (length src) (length dst) \<longrightarrow>
        (\<exists>out. nm_pkt_copy lib src dst n = Some out \<and> take n out = take n src \<and> length out = length dst))"

text \<open>The device makes progress: the measure \<open>m\<close> of the untransmitted frames of a ring falls with every
  synchronisation, and poll neither fails nor times out.\<close>

definition nm_progress :: "'h nm_lib \<Rightarrow> ('h nm_ctx \<Rightarrow> nat \<Rightarrow> nat) \<Rightarrow> bool" where
  "nm_progress lib m \<longleftrightarrow>
     (\<forall>d j. dev_ok d \<longrightarrow> j < length (nm_tx d) \<longrightarrow> nm_tx_pending lib (nm_tx d ! j) \<longrightarrow> m (nm_txsync lib d) j < m d j) \<and>
     (\<forall>d. dev_ok d \<longrightarrow> 0 < fst (snd (nm_poll lib d)) \<and> \<not> fst (snd (snd (nm_poll lib d))))"

lemma retail_map: "retail (map f rs) rs = map (\<lambda>r. r\<lparr>ring_tail := f r\<rparr>) rs"
  by (induction rs) (simp_all add: retail_def)

lemma retail_self: "retail (map ring_tail rs) rs = rs"
  by (simp add: retail_map)

lemma retail_twice: "length t = length rs \<Longrightarrow> length u = length rs \<Longrightarrow> retail u (retail t rs) = retail u rs"
  by (rule nth_equalityI) (simp_all add: retail_def)

lemma kernel_fields:
  assumes "kernel_step d e"
  shows "first_tx_ring e = first_tx_ring d" "last_tx_ring e = last_tx_ring d" "length (nm_tx e) = length (nm_tx d)"
    "burst e = burst d" "npkts e = npkts d" "nm_bufs e = nm_bufs d" "cur_tx_ring e = cur_tx_ring d" "tx_range e = tx_range d"
    "j < length (nm_tx d) \<Longrightarrow> ring_slots (nm_tx e ! j) = ring_slots (nm_tx d ! j)"
    "j < length (nm_tx d) \<Longrightarrow> ring_cur (nm_tx e ! j) = ring_cur (nm_tx d ! j)"
    "j < length (nm_tx d) \<Longrightarrow> ring_head (nm_tx e ! j) = ring_head (nm_tx d ! j)"
  using assms by (auto simp: kernel_step_def tx_range_def retail_def)

lemma kernel_refl: "kernel_step d d"
  unfolding kernel_step_def
  by (intro exI[of _ "nm_hw d"] exI[of _ "map ring_tail (nm_tx d)"]) (simp add: retail_self)

lemma length_retail: "length t = length rs \<Longrightarrow> length (retail t rs) = length rs"
  by (simp add: retail_def)

lemma kernel_trans: "kernel_step d e \<Longrightarrow> kernel_step e f \<Longrightarrow> kernel_step d f"
  unfolding kernel_step_def by (fastforce simp: retail_twice length_retail)

lemma kernel_dev_ok: "kernel_step d e \<Longrightarrow> dev_ok d \<Longrightarrow> dev_ok e"
  unfolding dev_ok_def all_set_conv_all_nth by (simp add: kernel_fields)

section \<open>Draining the rings\<close>

lemma drain_ring_ends:
  assumes "nm_laws lib" "nm_progress lib m" "j < length (nm_tx d)" "dev_ok d"
  shows "\<exists>e. drain_ring lib j d = Some e \<and> kernel_step d e \<and> \<not> nm_tx_pending lib (nm_tx e ! j) \<and>
    (\<forall>i < length (nm_tx d). \<not> nm_tx_pending lib (nm_tx d ! i) \<longrightarrow> \<not> nm_tx_pending lib (nm_tx e ! i))"
  using assms(3,4)
proof (induction "m d j" arbitrary: d rule: less_induct)
  case less
  show ?case
  proof (cases "nm_tx_pending lib (nm_tx d ! j)")
    case True
    let ?s = "nm_txsync lib d"
    have s: "kernel_step d ?s" using assms(1) less.prems(2) by (simp add: nm_laws_def)
    have "m ?s j < m d j" using assms(2) less.prems True by (simp add: nm_progress_def)
    from less.hyps[OF this] obtain e where e: "drain_ring lib j ?s = Some e" "kernel_step ?s e" "\<not> nm_tx_pending lib (nm_tx e ! j)"
        "\<forall>i < length (nm_tx ?s). \<not> nm_tx_pending lib (nm_tx ?s ! i) \<longrightarrow> \<not> nm_tx_pending lib (nm_tx e ! i)"
      using less.prems kernel_fields(3)[OF s] kernel_dev_ok[OF s] by auto
    have "\<forall>i < length (nm_tx d). \<not> nm_tx_pending lib (nm_tx d ! i) \<longrightarrow> \<not> nm_tx_pending lib (nm_tx e ! i)"
      using e(4) assms(1) less.prems(2) kernel_fields(3)[OF s] by (simp add: nm_laws_def)
    then show ?thesis using e kernel_trans[OF s e(2)] True less.prems by (subst drain_ring.simps) (simp add: tx_ring_def)
  next
    case False
    then show ?thesis using kernel_refl less.prems by (subst drain_ring.simps) (simp add: tx_ring_def)
  qed
qed

lemma drain_rings_ends:
  assumes "nm_laws lib" "nm_progress lib m" "\<forall>j \<in> set js. j < length (nm_tx d)" "dev_ok d"
  shows "\<exists>e. drain_rings lib js d = Some e \<and> kernel_step d e \<and>
    (\<forall>i < length (nm_tx d). i \<in> set js \<or> \<not> nm_tx_pending lib (nm_tx d ! i) \<longrightarrow> \<not> nm_tx_pending lib (nm_tx e ! i))"
  using assms(3,4)
proof (induction js arbitrary: d)
  case (Cons j js)
  obtain e where e: "drain_ring lib j d = Some e" "kernel_step d e" "\<not> nm_tx_pending lib (nm_tx e ! j)"
      "\<forall>i < length (nm_tx d). \<not> nm_tx_pending lib (nm_tx d ! i) \<longrightarrow> \<not> nm_tx_pending lib (nm_tx e ! i)"
    using drain_ring_ends[OF assms(1,2), of j d] Cons.prems by auto
  obtain f where f: "drain_rings lib js e = Some f" "kernel_step e f"
      "\<forall>i < length (nm_tx e). i \<in> set js \<or> \<not> nm_tx_pending lib (nm_tx e ! i) \<longrightarrow> \<not> nm_tx_pending lib (nm_tx f ! i)"
    using Cons.IH[of e] Cons.prems kernel_fields(3)[OF e(2)] kernel_dev_ok[OF e(2)] by auto
  show ?case using e f kernel_trans[OF e(2) f(2)] kernel_fields(3)[OF e(2)] by auto
qed (simp add: kernel_refl)

text \<open>After the flush a frame can be placed.\<close>

lemma flush_tx_room:
  assumes "nm_laws lib" "nm_progress lib m" "dev_ok d"
  shows "\<exists>e. flush_tx lib d = Some e \<and> kernel_step d e \<and> \<not> nm_ring_empty lib (nm_tx e ! first_tx_ring d)"
proof -
  let ?s = "nm_txsync lib d"
  have s: "kernel_step d ?s" using assms(1,3) by (simp add: nm_laws_def)
  have r: "\<forall>j \<in> set (tx_range d). j < length (nm_tx ?s)" "first_tx_ring d \<in> set (tx_range d)"
    using assms(3) kernel_fields(3)[OF s] by (auto simp: dev_ok_def tx_range_def)
  from drain_rings_ends[OF assms(1,2) r(1) kernel_dev_ok[OF s assms(3)]] obtain e where e: "flush_tx lib d = Some e" "kernel_step ?s e"
      "\<not> nm_tx_pending lib (nm_tx e ! first_tx_ring d)"
    using r unfolding flush_tx_def by blast
  have k: "kernel_step d e" by (rule kernel_trans[OF s e(2)])
  have "2 \<le> length (ring_slots (nm_tx e ! first_tx_ring d))"
    using kernel_dev_ok[OF k assms(3)] kernel_fields(1)[OF k] by (simp add: dev_ok_def)
  then show ?thesis using e k assms(1) by (auto simp: nm_laws_def)
qed

lemma drain_ring_kernel:
  assumes "drain_ring lib j d = Some e" and laws: "nm_laws lib" and "dev_ok d"
  shows "kernel_step d e"
proof -
  let ?P = "\<lambda>lib' j d e. lib' = lib \<longrightarrow> dev_ok d \<longrightarrow> kernel_step d e"
  have "?P lib j d e"
  proof (rule drain_ring.raw_induct[of ?P, OF _ assms(1)], intro impI, goal_cases)
    case (1 f lib' j d e)
    have s: "kernel_step d (nm_txsync lib d)" using laws 1(4) by (simp add: nm_laws_def)
    show ?case
    proof (cases "e = d")
      case False
      then have "f lib j (nm_txsync lib d) = Some e" using 1(2,3) by (auto simp: bind_eq_Some_conv split: if_splits)
      then show ?thesis using 1(1) 1(3) kernel_trans[OF s] kernel_dev_ok[OF s 1(4)] by blast
    qed (simp add: kernel_refl)
  qed
  then show ?thesis using assms(3) by blast
qed

lemma flush_tx_kernel:
  assumes "nm_laws lib" "dev_ok d" "flush_tx lib d = Some e"
  shows "kernel_step d e"
proof -
  have s: "kernel_step d (nm_txsync lib d)" using assms by (simp add: nm_laws_def)
  have "kernel_step f e" if "drain_rings lib js f = Some e" "dev_ok f" for js f
    using that
  proof (induction js arbitrary: f)
    case (Cons j js)
    then obtain g where g: "drain_ring lib j f = Some g" "drain_rings lib js g = Some e" by (auto simp: bind_eq_Some_conv)
    have k: "kernel_step f g" by (rule drain_ring_kernel[OF g(1) assms(1) Cons.prems(2)])
    show ?case by (rule kernel_trans[OF k Cons.IH[OF g(2) kernel_dev_ok[OF k Cons.prems(2)]]])
  qed (simp add: kernel_refl)
  then show ?thesis using assms(3) kernel_trans[OF s] kernel_dev_ok[OF s assms(2)] unfolding flush_tx_def by blast
qed

section \<open>Placing a frame\<close>

lemma scan_rings_Some:
  assumes "\<forall>j \<in> set js. j < length (nm_tx d)"
  shows "scan_rings lib d js = Some (find (\<lambda>j. \<not> nm_ring_empty lib (nm_tx d ! j)) js)"
  using assms by (induction js) (simp_all add: tx_ring_def)

text \<open>Frame \<open>blk\<close> of length \<open>len\<close> stands in ring \<open>j\<close>, the first of \<open>e\<close> with room: the current slot has its length and its
  buffer the bytes, the ring has moved on, the frame is counted, and nothing else has changed.\<close>

definition frame_in :: "'h nm_lib \<Rightarrow> byte list \<Rightarrow> u32 \<Rightarrow> nat \<Rightarrow> 'h nm_ctx \<Rightarrow> 'h nm_ctx \<Rightarrow> bool" where
  "frame_in lib blk len j e f \<longleftrightarrow>
     first_tx_ring e \<le> j \<and> j \<le> last_tx_ring e \<and> \<not> nm_ring_empty lib (nm_tx e ! j) \<and>
     (\<forall>i. first_tx_ring e \<le> i \<longrightarrow> i < j \<longrightarrow> nm_ring_empty lib (nm_tx e ! i)) \<and>
     (let ring = nm_tx e ! j; i = unat (ring_cur ring); slot = ring_slots (nm_tx f ! j) ! i; nxt = nm_ring_next lib ring (ring_cur ring)
      in nm_tx f = (nm_tx e)[j := ring\<lparr>ring_slots := (ring_slots ring)[i := slot], ring_cur := nxt, ring_head := nxt\<rparr>] \<and>
         buf_idx slot = buf_idx (ring_slots ring ! i) \<and> slot_len slot = ucast len \<and> slot_flags slot = 0 \<and>
         take (unat len) (nm_bufs f (buf_idx slot)) = take (unat len) blk \<and>
         (\<forall>b. b \<noteq> buf_idx slot \<longrightarrow> nm_bufs f b = nm_bufs e b)) \<and>
     cur_tx_ring f = j \<and> npkts f = npkts e + 1"

lemma place_frame_in:
  assumes laws: "nm_laws lib" and d: "dev_ok d" and b: "length blk = 2048" "unat len \<le> 2048"
    and j: "find (\<lambda>j. \<not> nm_ring_empty lib (nm_tx d ! j)) (tx_range d) = Some j"
  shows "\<exists>f. place_frame lib blk len j d = Some f \<and> frame_in lib blk len j d f"
proof -
  let ?r = "nm_tx d ! j"
  let ?i = "unat (ring_cur ?r)"
  let ?s = "ring_slots ?r ! ?i"
  from j obtain n where n: "n < length (tx_range d)" "j = tx_range d ! n" "\<not> nm_ring_empty lib ?r"
      "\<forall>k < n. nm_ring_empty lib (nm_tx d ! (tx_range d ! k))"
    by (auto simp: find_Some_iff)
  then have jr: "first_tx_ring d \<le> j" "j \<le> last_tx_ring d" "n = j - first_tx_ring d" "j < length (nm_tx d)"
    using d by (auto simp: tx_range_def dev_ok_def simp del: upt_Suc)
  have e: "nm_ring_empty lib (nm_tx d ! i)" if "first_tx_ring d \<le> i" "i < j" for i
    using n(4)[rule_format, of "i - first_tx_ring d"] that jr by (simp add: tx_range_def del: upt_Suc)
  have i: "?i < length (ring_slots ?r)" "length (nm_bufs d (buf_idx ?s)) = 2048"
    using d jr(4) unfolding dev_ok_def by (metis nth_mem)+
  have "64 * ((unat len + 63) div 64) \<le> min (length blk) (length (nm_bufs d (buf_idx ?s)))"
    using b i(2) by simp
  then obtain out where out: "nm_pkt_copy lib blk (nm_bufs d (buf_idx ?s)) (unat len) = Some out"
      "take (unat len) out = take (unat len) blk"
    using laws unfolding nm_laws_def by blast
  show ?thesis
    using jr e n(3) i out
    by (simp add: place_frame_def frame_in_def tx_ring_def cur_slot_def Let_def list_update_beyond)
qed

text \<open>An attempt that finds a ring with room, directly or after one flush.\<close>

lemma send_ready:
  assumes laws: "nm_laws lib" and d: "dev_ok d" and b: "length blk = 2048" "unat len \<le> 2048" and n: "npkts d < burst d"
    and j: "find (\<lambda>j. \<not> nm_ring_empty lib (nm_tx d ! j)) (tx_range d) = Some j"
  shows "\<exists>f. send_attempts lib blk len (Suc k) d = Some (f, int (unat len)) \<and> frame_in lib blk len j d f"
proof -
  obtain f where f: "place_frame lib blk len j d = Some f" "frame_in lib blk len j d f"
    using place_frame_in[OF laws d b j] by blast
  have r: "\<forall>j \<in> set (tx_range d). j < length (nm_tx d)" using d by (auto simp: tx_range_def dev_ok_def)
  have "sint len = int (unat len)" using b(2) by (simp add: sint_u32_unat)
  then show ?thesis using f n by (simp add: tx_gate_def scan_rings_Some[OF r] j)
qed

lemma send_after_flush:
  assumes laws: "nm_laws lib" "nm_progress lib m" and d: "dev_ok d" and b: "length blk = 2048" "unat len \<le> 2048"
    and n: "npkts d < burst d"
  shows "\<exists>e f j. do { d \<leftarrow> flush_tx lib d; send_attempts lib blk len (Suc k) d } = Some (f, int (unat len)) \<and>
    kernel_step d e \<and> frame_in lib blk len j e f"
proof -
  obtain e where e: "flush_tx lib d = Some e" "kernel_step d e" "\<not> nm_ring_empty lib (nm_tx e ! first_tx_ring d)"
    using flush_tx_room[OF laws d] by blast
  have "first_tx_ring d \<in> set (tx_range e)" using d unfolding kernel_fields(8)[OF e(2)] by (auto simp: tx_range_def dev_ok_def)
  then obtain j where j: "find (\<lambda>j. \<not> nm_ring_empty lib (nm_tx e ! j)) (tx_range e) = Some j"
    using e(3) by (cases "find (\<lambda>j. \<not> nm_ring_empty lib (nm_tx e ! j)) (tx_range e)") (auto simp: find_None_iff)
  have "npkts e < burst e" using n kernel_fields[OF e(2)] by simp
  from send_ready[OF laws(1) kernel_dev_ok[OF e(2) d] b this j] show ?thesis using e by simp blast
qed

lemma send_rings:
  assumes laws: "nm_laws lib" "nm_progress lib m" and d: "dev_ok d" and b: "length blk = 2048" "unat len \<le> 2048"
    and n: "npkts d < burst d"
  shows "\<exists>e f j. send_attempts lib blk len (Suc (Suc k)) d = Some (f, int (unat len)) \<and> kernel_step d e \<and> frame_in lib blk len j e f"
proof (cases "find (\<lambda>j. \<not> nm_ring_empty lib (nm_tx d ! j)) (tx_range d)")
  case None
  have r: "\<forall>j \<in> set (tx_range d). j < length (nm_tx d)" using d by (auto simp: tx_range_def dev_ok_def)
  have "send_attempts lib blk len (Suc (Suc k)) d = do { d \<leftarrow> flush_tx lib d; send_attempts lib blk len (Suc k) d }"
    using n None by (subst send_attempts.simps) (simp add: tx_gate_def scan_rings_Some[OF r] del: send_attempts.simps)
  then show ?thesis using send_after_flush[OF laws d b n] by metis
next
  case (Some j)
  then show ?thesis using send_ready[OF laws(1) d b n Some, of "Suc k"] kernel_refl[of d] by blast
qed

text \<open>C21. Sending a frame when the device works: with a poll that neither fails nor times out and a device that transmits
  what it is given, \<^verbatim>\<open>usnet_send_frame\<close> returns the length of the frame. The frame stands in the first ring that has
  room then, after at most the kernel's transmission of earlier frames; no other ring, slot or buffer has
  changed, and the frame is counted, from zero after a full burst. The result for three failed attempts does not
  occur.\<close>

theorem send_frame_delivers:
  assumes "nm_laws lib" "nm_progress lib m" "dev_ok d" "length blk = 2048" "unat len \<le> 2048"
  shows "\<exists>e f j. usnet_send_frame lib (Some (blk, len)) d = Some (f, int (unat len)) \<and>
    kernel_step (d\<lparr>npkts := if burst d \<le> npkts d then 0 else npkts d\<rparr>) e \<and> frame_in lib blk len j e f"
proof (cases "burst d \<le> npkts d")
  case False
  then show ?thesis using send_rings[OF assms, of 1] by (simp add: usnet_send_frame_def numeral_3_eq_3 del: send_attempts.simps)
next
  case True
  let ?z = "d\<lparr>npkts := 0\<rparr>"
  obtain e ret err out where p: "nm_poll lib ?z = (e, ret, err, out)" by (metis prod_cases4)
  have z: "dev_ok ?z" "0 < burst d" using assms(3) by (simp_all add: dev_ok_def)
  have "kernel_step ?z (fst (nm_poll lib ?z))" using assms(1) z unfolding nm_laws_def by blast
  then have k: "kernel_step ?z e" unfolding p by simp
  have "0 < fst (snd (nm_poll lib ?z)) \<and> \<not> fst (snd (snd (nm_poll lib ?z)))" using assms(2) z unfolding nm_progress_def by blast
  then have ok: "0 < ret" "\<not> err" using p by simp_all
  have e: "dev_ok e" "npkts e < burst e" using z kernel_dev_ok[OF k] kernel_fields(4,5)[OF k] by simp_all
  have "\<exists>e' f j. send_attempts lib blk len 3 d = Some (f, int (unat len)) \<and> kernel_step e e' \<and> frame_in lib blk len j e' f"
  proof (cases out)
    case True
    have "send_attempts lib blk len 3 d = send_attempts lib blk len 3 e"
      using \<open>burst d \<le> npkts d\<close> p ok e True unfolding numeral_3_eq_3
      by (subst (1 2) send_attempts.simps) (simp add: tx_gate_def del: send_attempts.simps)
    then show ?thesis using send_rings[OF assms(1,2) e(1) assms(4,5) e(2), of 1] by (simp add: numeral_3_eq_3 del: send_attempts.simps)
  next
    case False
    have "send_attempts lib blk len 3 d = do { d \<leftarrow> flush_tx lib e; send_attempts lib blk len (Suc 1) d }"
      using \<open>burst d \<le> npkts d\<close> p ok e False unfolding numeral_3_eq_3
      by (subst send_attempts.simps) (simp add: tx_gate_def del: send_attempts.simps)
    then show ?thesis using send_after_flush[OF assms(1,2) e(1) assms(4,5) e(2), of 1] by metis
  qed
  then show ?thesis using True kernel_trans[OF k] by (auto simp: usnet_send_frame_def)
qed

section \<open>Building a frame in place\<close>

text \<open>Building the frame in the buffer of \<^verbatim>\<open>usnet_get_nmbuf\<close> and triggering the ring has the effect of
  \<^verbatim>\<open>usnet_send_frame\<close>, except that the frame is not counted.\<close>

lemma claim_place:
  assumes "claim_slot len j d = Some (d1, idx)" "nm_pkt_copy lib blk (nm_bufs d1 idx) (unat len) = Some out"
    "nm_ring_next lib = (\<lambda>r. nxt (length (ring_slots r)))"
  shows "\<exists>f. place_frame lib blk len j d = Some f \<and>
    usnet_trigger_nm lib (t\<lparr>trigger_ring := Some j, trigger_idx := j\<rparr>) (d1\<lparr>nm_bufs := (nm_bufs d1)(idx := out)\<rparr>) =
      Some (f\<lparr>npkts := npkts d\<rparr>, t\<lparr>trigger_ring := Some j, trigger_idx := j\<rparr>\<lparr>trigger_ring := None\<rparr>)"
  using assms
  by (auto simp: claim_slot_def place_frame_def usnet_trigger_nm_def tx_ring_def cur_slot_def Let_def bind_eq_Some_conv
      split: if_splits)

lemma nmbuf_send:
  assumes laws: "nm_laws lib" and nx: "nm_ring_next lib = (\<lambda>r. nxt (length (ring_slots r)))" and d: "dev_ok d"
    and n: "npkts d < burst d" and buf: "nmbuf_attempts lib t len k d = Some (d1, t1, Some idx)"
    and out: "nm_pkt_copy lib blk (nm_bufs d1 idx) (unat len) = Some out"
  shows "\<exists>f. send_attempts lib blk len k d = Some (f, sint len) \<and>
    usnet_trigger_nm lib t1 (d1\<lparr>nm_bufs := (nm_bufs d1)(idx := out)\<rparr>) = Some (f\<lparr>npkts := npkts d\<rparr>, t1\<lparr>trigger_ring := None\<rparr>)"
  using d n buf
proof (induction k arbitrary: d)
  case (Suc k)
  have r: "\<forall>j \<in> set (tx_range d). j < length (nm_tx d)" using Suc.prems(1) by (auto simp: tx_range_def dev_ok_def)
  show ?case
  proof (cases "find (\<lambda>j. \<not> nm_ring_empty lib (nm_tx d ! j)) (tx_range d)")
    case None
    then obtain e where e: "flush_tx lib d = Some e" "nmbuf_attempts lib t len k e = Some (d1, t1, Some idx)"
      using Suc.prems(2,3) by (auto simp: tx_gate_def scan_rings_Some[OF r] bind_eq_Some_conv)
    have ke: "kernel_step d e" by (rule flush_tx_kernel[OF laws Suc.prems(1) e(1)])
    have "npkts e < burst e" "npkts e = npkts d" using Suc.prems(2) kernel_fields(4,5)[OF ke] by simp_all
    then show ?thesis
      using Suc.IH[OF kernel_dev_ok[OF ke Suc.prems(1)] _ e(2)] Suc.prems(2) None e(1)
      by (simp add: tx_gate_def scan_rings_Some[OF r])
  next
    case (Some j)
    then have c: "claim_slot len j d = Some (d1, idx)" "t1 = t\<lparr>trigger_ring := Some j, trigger_idx := j\<rparr>"
      using Suc.prems(2,3) by (auto simp: tx_gate_def scan_rings_Some[OF r] bind_eq_Some_conv)
    show ?thesis using claim_place[OF c(1) out nx, of t] Suc.prems(2) Some c(2)
      by (auto simp: tx_gate_def scan_rings_Some[OF r] simp del: fun_upd_apply)
  qed
qed simp

section \<open>A sample device\<close>

text \<open>The ring functions of netmap as documented, with a device that transmits everything at once.\<close>

definition sample_next :: "nm_ring \<Rightarrow> u32 \<Rightarrow> u32" where
  "sample_next r i = (if Suc (unat i) = length (ring_slots r) then 0 else i + 1)"

definition sample_prev :: "nm_ring \<Rightarrow> u32 \<Rightarrow> u32" where
  "sample_prev r i = (if i = 0 then of_nat (length (ring_slots r) - 1) else i - 1)"

definition sample_nm :: "unit nm_lib" where
  "sample_nm = \<lparr>nm_ring_empty = (\<lambda>r. ring_head r = ring_tail r), nm_ring_next = sample_next,
     nm_tx_pending = (\<lambda>r. sample_next r (ring_tail r) \<noteq> ring_head r),
     nm_pkt_copy = (\<lambda>src dst n. if n \<le> length src \<and> n \<le> length dst then Some (take n src @ drop n dst) else None),
     nm_txsync = (\<lambda>d. d\<lparr>nm_tx := map (\<lambda>r. r\<lparr>ring_tail := sample_prev r (ring_head r)\<rparr>) (nm_tx d)\<rparr>),
     nm_poll = (\<lambda>d. (d, 1, False, True))\<rparr>"

definition full_ring :: "u32 \<Rightarrow> nm_ring" where
  "full_ring i = \<lparr>ring_head = i, ring_cur = i, ring_tail = i,
     ring_slots = [\<lparr>buf_idx = 2 * i, slot_len = 0, slot_flags = 0\<rparr>, \<lparr>buf_idx = 2 * i + 1, slot_len = 0, slot_flags = 0\<rparr>]\<rparr>"

definition sample_dev :: "unit nm_ctx" where
  "sample_dev = usnet_netmap_init \<lparr>nm_hw = (), nm_tx = [full_ring 0, full_ring 1], nm_bufs = (\<lambda>_. replicate 2048 0),
     first_tx_ring = 0, last_tx_ring = 1, cur_tx_ring = 0, npkts = 7, burst = 7, tx_rate = 7\<rparr>"

lemma sample_next_prev:
  assumes "2 \<le> length (ring_slots r)" "length (ring_slots r) < 2 ^ 32" "unat i < length (ring_slots r)"
  shows "sample_next (r\<lparr>ring_tail := t\<rparr>) (sample_prev r i) = i"
proof (cases "i = 0")
  case True
  have "unat (of_nat (length (ring_slots r) - 1) :: u32) = length (ring_slots r) - 1"
    using assms by (intro unat_of_nat_u32) simp
  then show ?thesis using assms True by (simp add: sample_next_def sample_prev_def del: of_nat_diff)
next
  case False
  then have "Suc (unat (i - 1)) = unat i" using unat_minus_one[OF False] by (simp add: unat_gt_0)
  then show ?thesis using assms False by (simp add: sample_next_def sample_prev_def)
qed

lemma sample_sync_pending:
  "dev_ok d \<Longrightarrow> j < length (nm_tx d) \<Longrightarrow> \<not> nm_tx_pending sample_nm (nm_tx (nm_txsync sample_nm d) ! j)"
  by (simp add: sample_nm_def dev_ok_def sample_next_prev)

lemma sample_nm_laws: "nm_laws sample_nm"
proof -
  have k: "kernel_step d (nm_txsync sample_nm d)" for d
    unfolding kernel_step_def sample_nm_def
    by (intro exI[of _ "nm_hw d"] exI[of _ "map (\<lambda>r. sample_prev r (ring_head r)) (nm_tx d)"])
      (cases d, simp add: retail_map)
  have e: "\<not> nm_ring_empty sample_nm r" if "2 \<le> length (ring_slots r)" "\<not> nm_tx_pending sample_nm r" for r
    using that by (auto simp: sample_nm_def sample_next_def split: if_splits)
  show ?thesis
    unfolding nm_laws_def using k e sample_sync_pending by (auto simp: sample_nm_def kernel_refl)
qed

lemma sample_nm_progress: "nm_progress sample_nm (\<lambda>d j. if nm_tx_pending sample_nm (nm_tx d ! j) then 1 else 0)"
  unfolding nm_progress_def using sample_sync_pending by (auto simp: sample_nm_def)

lemma sample_dev_ok: "dev_ok sample_dev"
  by (simp add: dev_ok_def sample_dev_def usnet_netmap_init_def full_ring_def)

theorem send_frame_delivers_witness:
  "\<exists>e f j. usnet_send_frame sample_nm (Some (replicate 2048 7, 60)) sample_dev = Some (f, 60) \<and>
    kernel_step sample_dev e \<and> frame_in sample_nm (replicate 2048 7) 60 j e f"
  using send_frame_delivers[OF sample_nm_laws sample_nm_progress sample_dev_ok, of "replicate 2048 7" 60]
  by (simp add: sample_dev_def usnet_netmap_init_def)

end
