(* ===== verification/Shm_Segment.thy ===== *)
theory Shm_Segment
  imports Usn_Prelude
begin

text \<open>
  Shared-memory segments: \<^verbatim>\<open>shm.c\<close> and the functions of \<^verbatim>\<open>cache.c\<close> that place the object tables in them. The
  calls of System V shared memory are the fields of \<open>sysv\<close>, an argument of the definitions, on a state of the
  operating system whose type is left open.
\<close>

section \<open>Segments\<close>

type_synonym addr = "64 word"

text \<open>\<^verbatim>\<open>shmget\<close> with key, size and flags, \<^verbatim>\<open>shmat\<close> and \<^verbatim>\<open>shmdt\<close>; whether \<^verbatim>\<open>malloc\<close> succeeds; clearing memory of the process,
  \<open>None\<close> for a fault. The null pointer is 0, the error value of \<^verbatim>\<open>shmat\<close> is -1.\<close>

record 'o sysv =
  sys_shmget :: "u32 \<Rightarrow> nat \<Rightarrow> u32 \<Rightarrow> 'o \<Rightarrow> int \<times> 'o"
  sys_shmat :: "int \<Rightarrow> 'o \<Rightarrow> addr \<times> 'o"
  sys_shmdt :: "addr \<Rightarrow> 'o \<Rightarrow> int \<times> 'o"
  sys_malloc :: "'o \<Rightarrow> bool \<times> 'o"
  sys_clear :: "addr \<Rightarrow> nat \<Rightarrow> 'o \<Rightarrow> 'o option"

definition IPC_CREAT :: u32 where "IPC_CREAT = 0x200"
definition IPC_EXCL :: u32 where "IPC_EXCL = 0x400"
definition C_DEFAULT_OPEN_FLAG :: u32 where "C_DEFAULT_OPEN_FLAG = 0x1B6"
definition SHM_RW :: u32 where "SHM_RW = 0x180"

record usn_shm =
  shm_key :: u32
  shm_size :: nat
  shm_id :: int
  shm_addr :: addr

definition usnet_shmat :: "'o sysv \<Rightarrow> int \<Rightarrow> 'o \<Rightarrow> addr \<times> 'o" where
  "usnet_shmat sys sid os = (let (p, os) = sys_shmat sys sid os in if p = - 1 then (0, os) else (p, os))"

text \<open>The common part of opening and creating a segment.\<close>

definition shm_attach :: "'o sysv \<Rightarrow> u32 \<Rightarrow> nat \<Rightarrow> u32 \<Rightarrow> 'o \<Rightarrow> usn_shm option \<times> 'o" where
  "shm_attach sys key n flag os =
     (let (sid, os) = sys_shmget sys key n flag os in
      if sid < 0 then (None, os)
      else let (ok, os) = sys_malloc sys os in
        if \<not> ok then (None, os)
        else let (a, os) = usnet_shmat sys sid os in
          if a = 0 then (None, os)
          else (Some \<lparr>shm_key = key, shm_size = n, shm_id = sid, shm_addr = a\<rparr>, os))"

definition usnet_shm_open :: "'o sysv \<Rightarrow> u32 \<Rightarrow> nat \<Rightarrow> 'o \<Rightarrow> usn_shm option \<times> 'o" where
  "usnet_shm_open sys key n os = shm_attach sys key n C_DEFAULT_OPEN_FLAG os"

definition usnet_shm_create :: "'o sysv \<Rightarrow> u32 \<Rightarrow> nat \<Rightarrow> 'o \<Rightarrow> usn_shm option \<times> 'o" where
  "usnet_shm_create sys key n os = shm_attach sys key n (C_DEFAULT_OPEN_FLAG OR IPC_CREAT OR IPC_EXCL) os"

definition usn_shmdt :: "'o sysv \<Rightarrow> addr \<Rightarrow> 'o \<Rightarrow> 'o" where
  "usn_shmdt sys a os = (if a = 0 then os else snd (sys_shmdt sys a os))"

text \<open>A segment with key 0 is private (\<^verbatim>\<open>IPC_PRIVATE\<close> is 0, so both branches of the source make the same call).\<close>

definition usn_shm_alloc :: "'o sysv \<Rightarrow> usn_shm \<Rightarrow> 'o \<Rightarrow> usn_shm \<times> int \<times> 'o" where
  "usn_shm_alloc sys shm os =
     (let (sid, os) = (if shm_key shm = 0 then sys_shmget sys 0 (shm_size shm) (SHM_RW OR IPC_CREAT) os
                      else sys_shmget sys (shm_key shm) (shm_size shm) (SHM_RW OR IPC_CREAT) os) in
      if sid = - 1 then (shm, - 1, os)
      else let (a, os) = sys_shmat sys sid os; shm = shm\<lparr>shm_addr := a\<rparr> in
        if a = - 1 then (shm, - 1, os)
        else (shm, if a = - 1 then - 3 else 0, os))"

definition usn_shm_free :: "'o sysv \<Rightarrow> usn_shm \<Rightarrow> 'o \<Rightarrow> 'o" where
  "usn_shm_free sys shm os = snd (sys_shmdt sys (shm_addr shm) os)"

section \<open>The memory of a table\<close>

definition usnet_get_shm :: "'o sysv \<Rightarrow> u32 \<Rightarrow> nat \<Rightarrow> u32 \<Rightarrow> 'o \<Rightarrow> addr \<times> 'o" where
  "usnet_get_shm sys key n flag os =
     (let (sid, os) = sys_shmget sys key n flag os in
      if sid < 0 then (0, os)
      else let (a, os) = sys_shmat sys sid os in
        if a = 0 then (0, os) else (a, os))"

text \<open>The address the table is given, when there is one, and the result.\<close>

definition usnet_get_cache :: "'o sysv \<Rightarrow> u32 \<Rightarrow> nat \<Rightarrow> bool \<Rightarrow> 'o \<Rightarrow> (addr option \<times> int \<times> 'o) option" where
  "usnet_get_cache sys key n create os =
     (let (p, os) = usnet_get_shm sys key n C_DEFAULT_OPEN_FLAG os in
      if p = 0 then
        (if create then
           (let (p, os) = usnet_get_shm sys key n (C_DEFAULT_OPEN_FLAG OR IPC_CREAT) os in
            if p = 0 then Some (None, - 1, os)
            else do { os \<leftarrow> sys_clear sys p n os; Some (Some p, 0, os) })
         else Some (None, - 2, os))
      else do { os \<leftarrow> sys_clear sys p n os; Some (Some p, 0, os) })"

section \<open>What is relied on\<close>

text \<open>The documented behaviour of the calls. A state of the system has the segment \<open>seg_of os key\<close> for a key, the
  content \<open>seg os sid\<close> of a segment, and the segment \<open>att os a\<close> attached at an address.
  \<^item> Asking for an existing segment that is large enough returns it and changes nothing;
  \<^item> without one and without \<^verbatim>\<open>IPC_CREAT\<close> the call fails;
  \<^item> attaching fails or gives an address other than null at which the segment is attached;
  \<^item> clearing attached memory clears the segment, and touching other memory faults.\<close>

definition shm_laws :: "'o sysv \<Rightarrow> ('o \<Rightarrow> u32 \<Rightarrow> int option) \<Rightarrow> ('o \<Rightarrow> int \<Rightarrow> byte list) \<Rightarrow> ('o \<Rightarrow> addr \<Rightarrow> int option) \<Rightarrow> bool" where
  "shm_laws sys seg_of seg att \<longleftrightarrow>
     (\<forall>os key sid n flag. seg_of os key = Some sid \<longrightarrow> n \<le> length (seg os sid) \<longrightarrow> flag AND IPC_EXCL = 0 \<longrightarrow>
        sys_shmget sys key n flag os = (sid, os) \<and> 0 \<le> sid) \<and>
     (\<forall>os key n flag. seg_of os key = None \<longrightarrow> flag AND IPC_CREAT = 0 \<longrightarrow> sys_shmget sys key n flag os = (- 1, os)) \<and>
     (\<forall>os sid a os'. sys_shmat sys sid os = (a, os') \<longrightarrow>
        seg_of os' = seg_of os \<and> seg os' = seg os \<and> (a \<noteq> - 1 \<longrightarrow> a \<noteq> 0 \<and> att os' a = Some sid)) \<and>
     (\<forall>os a sid n. att os a = Some sid \<longrightarrow> n \<le> length (seg os sid) \<longrightarrow>
        (\<exists>os'. sys_clear sys a n os = Some os' \<and> seg_of os' = seg_of os \<and>
           seg os' = (seg os)(sid := replicate n 0 @ drop n (seg os sid)))) \<and>
     (\<forall>os a n. att os a = None \<longrightarrow> 0 < n \<longrightarrow> sys_clear sys a n os = None) \<and>
     (\<forall>os. att os (- 1) = None)"

lemma flag_facts:
  "C_DEFAULT_OPEN_FLAG AND IPC_EXCL = 0" "C_DEFAULT_OPEN_FLAG AND IPC_CREAT = 0"
  by (simp_all add: C_DEFAULT_OPEN_FLAG_def IPC_EXCL_def IPC_CREAT_def)

lemma shm_law_rules:
  assumes "shm_laws sys seg_of seg att"
  shows "seg_of os key = Some sid \<Longrightarrow> n \<le> length (seg os sid) \<Longrightarrow> flag AND IPC_EXCL = 0 \<Longrightarrow>
      sys_shmget sys key n flag os = (sid, os) \<and> 0 \<le> sid"
    and "seg_of os key = None \<Longrightarrow> flag AND IPC_CREAT = 0 \<Longrightarrow> sys_shmget sys key n flag os = (- 1, os)"
    and "sys_shmat sys sid os = (a, os') \<Longrightarrow>
      seg_of os' = seg_of os \<and> seg os' = seg os \<and> (a \<noteq> - 1 \<longrightarrow> a \<noteq> 0 \<and> att os' a = Some sid)"
    and "att os a = Some sid \<Longrightarrow> n \<le> length (seg os sid) \<Longrightarrow> \<exists>os'. sys_clear sys a n os = Some os' \<and>
      seg_of os' = seg_of os \<and> seg os' = (seg os)(sid := replicate n 0 @ drop n (seg os sid))"
    and "0 < n \<Longrightarrow> sys_clear sys (- 1) n os = None"
  using assms unfolding shm_laws_def by simp_all

lemma get_cache_existing:
  assumes laws: "shm_laws sys seg_of seg att" and n: "0 < n" and s: "seg_of os key = Some sid" "n \<le> length (seg os sid)"
  shows "case sys_shmat sys sid os of (a, os1) \<Rightarrow> if a = - 1 then usnet_get_cache sys key n create os = None
      else \<exists>os2. usnet_get_cache sys key n create os = Some (Some a, 0, os2) \<and> att os1 a = Some sid \<and>
        seg_of os2 key = Some sid \<and> take n (seg os2 sid) = replicate n 0 \<and> (\<forall>i. i \<noteq> sid \<longrightarrow> seg os2 i = seg os i)"
proof -
  obtain a os1 where at: "sys_shmat sys sid os = (a, os1)" by fastforce
  have get: "sys_shmget sys key n C_DEFAULT_OPEN_FLAG os = (sid, os) \<and> 0 \<le> sid"
    using shm_law_rules(1)[OF laws s flag_facts(1)] .
  have att: "seg_of os1 = seg_of os \<and> seg os1 = seg os \<and> (a \<noteq> - 1 \<longrightarrow> a \<noteq> 0 \<and> att os1 a = Some sid)"
    using shm_law_rules(3)[OF laws at] .
  have g: "usnet_get_shm sys key n C_DEFAULT_OPEN_FLAG os = (a, os1)" using get att at by (auto simp: usnet_get_shm_def)
  show ?thesis
  proof (cases "a = - 1")
    case True
    then have "sys_clear sys a n os1 = None" using shm_law_rules(5)[OF laws n] by simp
    then show ?thesis using at g True by (simp add: usnet_get_cache_def)
  next
    case False
    then obtain os2 where "sys_clear sys a n os1 = Some os2" "seg_of os2 = seg_of os1"
        "seg os2 = (seg os1)(sid := replicate n 0 @ drop n (seg os1 sid))"
      using shm_law_rules(4)[OF laws, of os1 a sid n] att s(2) by auto
    then show ?thesis using at g s att False by (simp add: usnet_get_cache_def)
  qed
qed

lemma get_cache_absent:
  assumes laws: "shm_laws sys seg_of seg att" and s: "seg_of os key = None"
  shows "usnet_get_cache sys key n False os = Some (None, - 2, os)"
    and "sys_shmget sys key n (C_DEFAULT_OPEN_FLAG OR IPC_CREAT) os = (e, os1) \<Longrightarrow> e < 0 \<Longrightarrow>
      usnet_get_cache sys key n True os = Some (None, - 1, os1)"
proof -
  have g: "usnet_get_shm sys key n C_DEFAULT_OPEN_FLAG os = (0, os)"
  proof -
    have "sys_shmget sys key n C_DEFAULT_OPEN_FLAG os = (- 1, os)"
      using shm_law_rules(2)[OF laws s flag_facts(2)] .
    then show ?thesis by (simp add: usnet_get_shm_def)
  qed
  then show "usnet_get_cache sys key n False os = Some (None, - 2, os)"
    and "sys_shmget sys key n (C_DEFAULT_OPEN_FLAG OR IPC_CREAT) os = (e, os1) \<Longrightarrow> e < 0 \<Longrightarrow>
      usnet_get_cache sys key n True os = Some (None, - 1, os1)"
    by (simp_all add: usnet_get_cache_def usnet_get_shm_def)
qed

text \<open>C36. Placing a table in shared memory. A table that exists, which another process may be using, is opened and
  cleared, whether or not it was to be created; when it cannot be attached the call faults, since the error value
  of \<^verbatim>\<open>shmat\<close> is taken for an address. Without the segment the call fails with -2 when it may not create it, and
  with -1 when it cannot.\<close>

theorem get_cache_outcome:
  assumes laws: "shm_laws sys seg_of seg att" and n: "0 < n"
  shows "(seg_of os key = Some sid \<and> n \<le> length (seg os sid) \<longrightarrow>
      (case sys_shmat sys sid os of (a, os1) \<Rightarrow>
         if a = - 1 then usnet_get_cache sys key n create os = None
         else \<exists>os2. usnet_get_cache sys key n create os = Some (Some a, 0, os2) \<and> att os1 a = Some sid \<and>
           seg_of os2 key = Some sid \<and> take n (seg os2 sid) = replicate n 0 \<and> (\<forall>i. i \<noteq> sid \<longrightarrow> seg os2 i = seg os i))) \<and>
    (seg_of os key = None \<longrightarrow>
      usnet_get_cache sys key n False os = Some (None, - 2, os) \<and>
      (\<forall>e os1. sys_shmget sys key n (C_DEFAULT_OPEN_FLAG OR IPC_CREAT) os = (e, os1) \<longrightarrow> e < 0 \<longrightarrow>
         usnet_get_cache sys key n True os = Some (None, - 1, os1)))"
  by (intro conjI impI allI get_cache_existing[OF laws n] get_cache_absent[OF laws]) simp_all

section \<open>A sample system\<close>

text \<open>A system with room for one segment, with key 7, identifier 0 and address 4096; the state is its content.\<close>

definition sample_seg_of :: "byte list option \<Rightarrow> u32 \<Rightarrow> int option" where
  "sample_seg_of os key = (if os \<noteq> None \<and> key = 7 then Some 0 else None)"

definition sample_seg :: "byte list option \<Rightarrow> int \<Rightarrow> byte list" where
  "sample_seg os i = (case os of Some c \<Rightarrow> if i = 0 then c else [] | None \<Rightarrow> [])"

definition sample_att :: "byte list option \<Rightarrow> addr \<Rightarrow> int option" where
  "sample_att os a = (if os \<noteq> None \<and> a = 4096 then Some 0 else None)"

definition sample_sysv :: "byte list option sysv" where
  "sample_sysv =
     \<lparr>sys_shmget = (\<lambda>key n flag os. case os of
        Some c \<Rightarrow> if key = 7 \<and> n \<le> length c \<and> flag AND IPC_EXCL = 0 then (0, os) else (- 1, os)
      | None \<Rightarrow> if flag AND IPC_CREAT = 0 \<or> key \<noteq> 7 then (- 1, os) else (0, Some (replicate n 0))),
      sys_shmat = (\<lambda>i os. if os \<noteq> None \<and> i = 0 then (4096, os) else (- 1, os)),
      sys_shmdt = (\<lambda>a os. (0, os)),
      sys_malloc = (\<lambda>os. (True, os)),
      sys_clear = (\<lambda>a n os. case os of
        Some c \<Rightarrow> if a = 4096 \<and> n \<le> length c then Some (Some (replicate n 0 @ drop n c)) else if n = 0 then Some os else None
      | None \<Rightarrow> if n = 0 then Some os else None)\<rparr>"

lemma sample_shm_laws: "shm_laws sample_sysv sample_seg_of sample_seg sample_att"
  unfolding shm_laws_def sample_sysv_def sample_seg_of_def sample_seg_def sample_att_def
  by (auto split: option.splits if_splits)

theorem get_cache_outcome_witness:
  "\<exists>os2. usnet_get_cache sample_sysv 7 4 False (Some [1, 2, 3, 4, 5]) = Some (Some 4096, 0, os2) \<and>
    take 4 (sample_seg os2 0) = replicate 4 0"
  using get_cache_outcome[OF sample_shm_laws, of 4 "Some [1, 2, 3, 4, 5]" 7 0 False]
  by (auto simp: sample_seg_of_def sample_seg_def sample_sysv_def)

end
