(* ===== verification/Process_Setup.thy ===== *)
theory Process_Setup
  imports Setup Socket_Api
begin

text \<open>
  Starting the two processes (\<^verbatim>\<open>usnet_setup\<close> and \<^verbatim>\<open>usnet_worker_setup\<close> of \<^verbatim>\<open>core.c\<close>), the interface they
  work on (\<^verbatim>\<open>usnet_get_network_info\<close> of \<^verbatim>\<open>utils.c\<close>, Linux) and the loop of the worker (\<^verbatim>\<open>usnet_dispatch\<close>). The
  outcome of a system call is an argument.
\<close>

section \<open>The interface\<close>

record usn_ifnet =
  ifn_iface :: string
  ifn_hwa :: "byte list"
  ifn_addr :: u32
  ifn_bcast :: u32
  ifn_nmask :: u32
  ifn_mtu :: u16

text \<open>An entry of the list of \<^verbatim>\<open>getifaddrs\<close>. For the broadcast address and the mask only the address is read, whatever
  the family; they may be null. An address of family \<^verbatim>\<open>AF_PACKET\<close> is the bytes from \<^verbatim>\<open>sa_data\<close> on.\<close>

datatype sockaddr = AF_INET u32 | AF_PACKET "byte list" | AF_OTHER

record ifaddrs =
  ifa_name :: string
  ifa_addr :: "sockaddr option"
  ifa_broadaddr :: "u32 option"
  ifa_netmask :: "u32 option"
  ifa_data :: bool

fun ifaddrs_walk :: "string \<Rightarrow> ifaddrs list \<Rightarrow> usn_ifnet \<Rightarrow> usn_ifnet option" where
  "ifaddrs_walk ifname [] cfg = Some cfg"
| "ifaddrs_walk ifname (ifa # ifas) cfg =
     (case ifa_addr ifa of
        None \<Rightarrow> ifaddrs_walk ifname ifas cfg
      | Some sa \<Rightarrow>
          if ifa_name ifa \<noteq> ifname then ifaddrs_walk ifname ifas cfg
          else (case sa of
            AF_INET a \<Rightarrow> do {
              b \<leftarrow> ifa_broadaddr ifa;
              n \<leftarrow> ifa_netmask ifa;
              ifaddrs_walk ifname ifas (cfg\<lparr>ifn_addr := a, ifn_bcast := b, ifn_nmask := n\<rparr>)
            }
          | AF_PACKET d \<Rightarrow>
              if ifa_data ifa then do { h \<leftarrow> mem_read 10 6 d; ifaddrs_walk ifname ifas (cfg\<lparr>ifn_hwa := h\<rparr>) }
              else ifaddrs_walk ifname ifas cfg
          | AF_OTHER \<Rightarrow> ifaddrs_walk ifname ifas cfg))"

text \<open>The name is cut to the six bytes of \<^verbatim>\<open>iface\<close>, without a terminator when it has six or more.\<close>

definition new_ifnet :: "string \<Rightarrow> usn_ifnet" where
  "new_ifnet ifname = \<lparr>ifn_iface = take 6 (ifname @ replicate 6 (CHR 0x00)), ifn_hwa = replicate 6 0, ifn_addr = 0,
     ifn_bcast = 0, ifn_nmask = 0, ifn_mtu = 0\<rparr>"

text \<open>\<open>alloc\<close>: memory for the structure is available; \<open>ifas\<close> is the list of interfaces, or none on an error, which
  ends the program.\<close>

definition usnet_get_network_info ::
  "usn_context \<Rightarrow> string \<Rightarrow> bool \<Rightarrow> ifaddrs list option \<Rightarrow> (usn_context \<times> usn_ifnet option) option" where
  "usnet_get_network_info ctx ifname alloc ifas =
     (if \<not> alloc then Some (ctx, None)
      else do {
        l \<leftarrow> ifas;
        cfg \<leftarrow> ifaddrs_walk ifname l (new_ifnet ifname);
        Some (ctx\<lparr>if_hwa := ifn_hwa cfg, if_addr := ifn_addr cfg\<rparr>, Some cfg)
      })"

text \<open>The device name \<^verbatim>\<open>usnet_netmap_init\<close> opens: \<^verbatim>\<open>sprintf\<close> reads \<^verbatim>\<open>iface\<close> up to a zero byte, if need be on through the
  fields that follow it.\<close>

definition netmap_name :: "usn_ifnet \<Rightarrow> string" where
  "netmap_name cfg = ''netmap:'' @ takeWhile (\<lambda>c. c \<noteq> CHR 0x00)
     (ifn_iface cfg @ map (\<lambda>b. char_of (unat b))
        (ifn_hwa cfg @ le32 (ifn_addr cfg) @ le32 (ifn_bcast cfg) @ le32 (ifn_nmask cfg) @ le16 (ifn_mtu cfg)))"

section \<open>The processes\<close>

definition usnet_setup_process ::
  "usn_context \<Rightarrow> (nat \<Rightarrow> mem_chunk) \<Rightarrow> (usn_shmmq \<Rightarrow> (usn_shmmq \<times> int) option) \<Rightarrow>
   (usn_shmmq \<Rightarrow> (usn_shmmq \<times> int) option) \<Rightarrow> (usn_context \<times> int) option" where
  "usnet_setup_process ctx m init_n2a init_a2n = do {
     ctx \<leftarrow> usnet_ringbuf_init ctx 8096 m;
     ctx \<leftarrow> usnet_sendbuf_init ctx 8096 m;
     (ctx, ret) \<leftarrow> usnet_tcpev_init ctx init_n2a init_a2n;
     Some (ctx, 0)
   }"

definition usnet_worker_setup ::
  "usn_context \<Rightarrow> (nat \<Rightarrow> mem_chunk) \<Rightarrow> (usn_shmmq \<Rightarrow> (usn_shmmq \<times> int) option) \<Rightarrow>
   (usn_shmmq \<Rightarrow> (usn_shmmq \<times> int) option) \<Rightarrow> (usn_context \<times> usn_epoll_fd usn_hashbase) option" where
  "usnet_worker_setup ctx m init_n2a init_a2n = do {
     epoll_cache \<leftarrow> usnet_epoll_init;
     ctx \<leftarrow> usnet_socket_init ctx;
     ctx \<leftarrow> usnet_ringbuf_init ctx 8096 m;
     ctx \<leftarrow> usnet_sendbuf_init ctx (4 * 8096) m;
     (ctx, ret) \<leftarrow> usnet_tcpev_init ctx init_n2a init_a2n;
     Some (ctx, epoll_cache)
   }"

text \<open>Where \<^verbatim>\<open>usnet_setup\<close> ends in a process: without a context, with an exit status, with the context of the worker,
  at the loop of the network process, or with a context that was not set up, when the second fork fails.\<close>

datatype setup_end =
  No_Context
| Exited int
| Worker usn_context "usn_epoll_fd usn_hashbase"
| Network usn_context
| Unforked usn_context

text \<open>\<open>mem\<close> is the memory for the context, if there is any; \<open>pid1\<close> and \<open>pid2\<close> are what the two forks return.\<close>

definition usnet_setup ::
  "usn_context option \<Rightarrow> string \<Rightarrow> bool \<Rightarrow> ifaddrs list option \<Rightarrow> int \<Rightarrow> int \<Rightarrow> (nat \<Rightarrow> mem_chunk) \<Rightarrow>
   (usn_shmmq \<Rightarrow> (usn_shmmq \<times> int) option) \<Rightarrow> (usn_shmmq \<Rightarrow> (usn_shmmq \<times> int) option) \<Rightarrow> setup_end option" where
  "usnet_setup mem ifname alloc ifas pid1 pid2 m init_n2a init_a2n =
     (case mem of
        None \<Rightarrow> Some No_Context
      | Some mem \<Rightarrow> do {
          (ctx, cfg) \<leftarrow> usnet_get_network_info (usnet_create_context mem) ifname alloc ifas;
          if pid1 < 0 then Some (Exited (- 1))
          else if pid1 \<noteq> 0 then Some (Exited (- 2))
          else if pid2 < 0 then Some (Unforked ctx)
          else if pid2 = 0 then do {
            (ctx, epoll_cache) \<leftarrow> usnet_worker_setup ctx m init_n2a init_a2n;
            Some (Worker ctx epoll_cache)
          }
          else do { ctx \<leftarrow> usnet_net_setup ctx m init_n2a init_a2n; Some (Network ctx) }
        })"

text \<open>\<^verbatim>\<open>usnet_dispatch\<close> never returns; this is the state after the given outcomes of poll: its result, whether the event
  queue is readable, and what the network process does meanwhile.\<close>

fun usnet_dispatch ::
  "(int \<times> bool \<times> (nat \<Rightarrow> mq_env)) list \<Rightarrow> usn_context \<Rightarrow> byte list \<Rightarrow> (usn_context \<times> byte list) option" where
  "usnet_dispatch [] ctx data = Some (ctx, data)"
| "usnet_dispatch ((ret, readable, env) # polls) ctx data =
     (if ret \<le> 0 then usnet_dispatch polls ctx data
      else do {
        (ctx, data) \<leftarrow> (if readable then usnet_tcpev_process env ctx data else Some (ctx, data));
        usnet_dispatch polls ctx data
      })"

section \<open>What the set-up gives\<close>

text \<open>Only the entries of the interface count; with its hardware and its internet address the context has both.\<close>

lemma ifaddrs_walk_filter:
  "ifaddrs_walk ifname ifas cfg = ifaddrs_walk ifname (filter (\<lambda>x. ifa_name x = ifname) ifas) cfg"
  by (induction ifas arbitrary: cfg) (simp_all split: option.split sockaddr.split)

lemma network_info_correct:
  assumes "filter (\<lambda>x. ifa_name x = ifname) ifas = [p, i]" "ifa_addr p = Some (AF_PACKET d)" "16 \<le> length d" "ifa_data p"
    "ifa_addr i = Some (AF_INET a)" "ifa_broadaddr i = Some b" "ifa_netmask i = Some n"
  shows "usnet_get_network_info ctx ifname True (Some ifas) =
    Some (ctx\<lparr>if_hwa := take 6 (drop 10 d), if_addr := a\<rparr>,
      Some ((new_ifnet ifname)\<lparr>ifn_hwa := take 6 (drop 10 d), ifn_addr := a, ifn_bcast := b, ifn_nmask := n\<rparr>))"
proof -
  have "ifa_name p = ifname" "ifa_name i = ifname"
    using assms(1) by (metis (mono_tags, lifting) filter_eq_ConsD list.set_intros)+
  then show ?thesis
    unfolding usnet_get_network_info_def using assms
    by (subst ifaddrs_walk_filter) (simp add: mem_read_def)
qed

text \<open>A name of up to five characters names the device; of a longer one the first six characters remain, and the bytes
  of the hardware address follow.\<close>

lemma netmap_name_short:
  assumes "length ifname < 6" "CHR 0x00 \<notin> set ifname" "ifn_iface cfg = ifn_iface (new_ifnet ifname)"
  shows "netmap_name cfg = ''netmap:'' @ ifname"
proof -
  have "ifn_iface cfg = ifname @ replicate (6 - length ifname) (CHR 0x00)"
    using assms by (simp add: new_ifnet_def take_replicate min_def)
  then obtain k where "ifn_iface cfg = ifname @ CHR 0x00 # replicate k (CHR 0x00)"
    using assms(1) by (cases "6 - length ifname") auto
  moreover have "\<forall>c \<in> set ifname. c \<noteq> CHR 0x00" using assms(2) by metis
  ultimately show ?thesis by (simp add: netmap_name_def takeWhile_append2)
qed

lemma netmap_name_long:
  assumes "6 \<le> length ifname" "CHR 0x00 \<notin> set ifname" "ifn_iface cfg = ifn_iface (new_ifnet ifname)"
    "ifn_hwa cfg = b # bs" "b \<noteq> 0"
  shows "\<exists>rest. netmap_name cfg = ''netmap:'' @ take 6 ifname @ char_of (unat b) # rest"
proof -
  have "\<forall>c \<in> set (take 6 ifname). c \<noteq> CHR 0x00" using assms(2) set_take_subset by (metis subset_iff)
  moreover have "char_of (unat b) \<noteq> CHR 0x00"
  proof
    assume "char_of (unat b) = CHR 0x00"
    then have "of_char (char_of (unat b) :: char) = (0 :: nat)" by simp
    then have "unat b mod 256 = 0" by simp
    moreover have "unat b < 256" using unsigned_less[of b, where ?'a = nat] by simp
    ultimately show False using assms(5) by (simp add: unat_eq_0)
  qed
  ultimately show ?thesis using assms by (simp add: netmap_name_def new_ifnet_def takeWhile_append2)
qed

text \<open>The network process starts its loop with a fresh context that knows the address of the interface.\<close>

lemma setup_network:
  assumes cnt: "control_list_cnt mem = 0" "send_list_cnt mem = 0" "ack_list_cnt mem = 0" "timeout_list_cnt mem = 0" "rto_list_cnt mem = 0"
    and info: "usnet_get_network_info (usnet_create_context mem) ifname True (Some ifas) = Some (ctx, Some cfg)"
    and mq: "init_n2a (ev_net2app_mq mem) = Some (q1, 0)" "init_a2n (ev_app2net_mq mem) = Some (q2, 0)"
  shows "\<exists>d. usnet_setup (Some mem) ifname True (Some ifas) 0 (int (Suc pid)) m init_n2a init_a2n = Some (Network d) \<and> ctx_fresh d"
proof -
  have c: "ctx = usnet_create_context (mem\<lparr>if_hwa := ifn_hwa cfg, if_addr := ifn_addr cfg\<rparr>)"
    using info by (auto simp: usnet_get_network_info_def usnet_create_context_def bind_eq_Some_conv)
  obtain e where e: "usnet_setup_tables ctx 8096 (4 * 8096) m = Some e" "ctx_fresh e"
      "ev_net2app_mq e = ev_net2app_mq mem" "ev_app2net_mq e = ev_app2net_mq mem"
    using setup_tables_fresh[of "mem\<lparr>if_hwa := ifn_hwa cfg, if_addr := ifn_addr cfg\<rparr>" 8096 "4 * 8096" m] cnt unfolding c by auto
  let ?d = "e\<lparr>ev_net2app_mq := q1, ev_app2net_mq := q2\<rparr>"
  have "lists_ok ?d"
    by (rule same_queues_ok[of e]) (use e(2) in \<open>simp_all add: ctx_fresh_def same_queues_def\<close>)
  then have "ctx_fresh ?d" using e(2) by (simp add: ctx_fresh_def)
  then show ?thesis using info e mq by (simp add: usnet_setup_def usnet_net_setup_def usnet_tcpev_init_def)
qed

section \<open>FreeBSD\<close>

text \<open>The first entry of the interface with a link address, whose bytes are those \<^verbatim>\<open>LLADDR\<close> points at; the family of the first
  entry of that name without an address is read through a null pointer.\<close>

fun link_entry :: "string \<Rightarrow> ifaddrs list \<Rightarrow> byte list option option" where
  "link_entry ifname [] = Some None"
| "link_entry ifname (ifa # ifas) =
     (if ifa_name ifa \<noteq> ifname then link_entry ifname ifas
      else do {
        sa \<leftarrow> ifa_addr ifa;
        case sa of AF_PACKET d \<Rightarrow> Some (Some d) | _ \<Rightarrow> link_entry ifname ifas
      })"

text \<open>\<^verbatim>\<open>usnet_net_hwaddr\<close> prints the hardware address of \<^verbatim>\<open>em1\<close> and returns whether there is one; \<open>ifas\<close> is the list
  of interfaces, if there is one.\<close>

definition usnet_net_hwaddr :: "ifaddrs list option \<Rightarrow> int option" where
  "usnet_net_hwaddr ifas =
     (case ifas of
        None \<Rightarrow> Some 0
      | Some l \<Rightarrow> do {
          e \<leftarrow> link_entry ''em1'' l;
          case e of None \<Rightarrow> Some 0 | Some d \<Rightarrow> do { h \<leftarrow> mem_read 0 6 d; Some 1 }
        })"

datatype if_request = SIOCGIFADDR | SIOCGIFBRDADDR | SIOCGIFNETMASK

text \<open>The FreeBSD variant of \<^verbatim>\<open>usnet_get_network_info\<close>: \<open>rsock\<close> is the descriptor of the socket, \<open>ioctl\<close> answers a request for an
  address of the named interface and \<open>mtu\<close> the one for its MTU. The name in the requests is the first three characters.\<close>

definition request_name :: "usn_ifnet \<Rightarrow> string" where
  "request_name cfg = takeWhile (\<lambda>c. c \<noteq> CHR 0x00) (take 3 (ifn_iface cfg))"

definition bsd_addresses :: "usn_ifnet \<Rightarrow> (if_request \<Rightarrow> string \<Rightarrow> u32 option) \<Rightarrow> (string \<Rightarrow> u16 option) \<Rightarrow> usn_ifnet" where
  "bsd_addresses cfg ioctl mtu =
     (let name = request_name cfg in
      case ioctl SIOCGIFADDR name of
        None \<Rightarrow> cfg
      | Some a \<Rightarrow>
          let cfg = cfg\<lparr>ifn_addr := a\<rparr> in
          case ioctl SIOCGIFBRDADDR name of
            None \<Rightarrow> cfg
          | Some b \<Rightarrow>
              let cfg = cfg\<lparr>ifn_bcast := b\<rparr> in
              case ioctl SIOCGIFNETMASK name of
                None \<Rightarrow> cfg
              | Some n \<Rightarrow>
                  let cfg = cfg\<lparr>ifn_nmask := n\<rparr> in
                  case mtu name of None \<Rightarrow> cfg | Some m \<Rightarrow> cfg\<lparr>ifn_mtu := m\<rparr>)"

definition usnet_get_network_info_bsd ::
  "usn_context \<Rightarrow> string \<Rightarrow> bool \<Rightarrow> int \<Rightarrow> ifaddrs list option \<Rightarrow> (if_request \<Rightarrow> string \<Rightarrow> u32 option) \<Rightarrow> (string \<Rightarrow> u16 option) \<Rightarrow>
   (usn_context \<times> usn_ifnet option) option" where
  "usnet_get_network_info_bsd ctx ifname alloc rsock ifas ioctl mtu =
     (if \<not> alloc then Some (ctx, None)
      else do {
        let cfg = new_ifnet ifname;
        cfg \<leftarrow> (if rsock < 0 then Some cfg
                else do {
                  e \<leftarrow> (case ifas of None \<Rightarrow> Some None | Some l \<Rightarrow> link_entry ifname l);
                  cfg \<leftarrow> (case e of None \<Rightarrow> Some cfg | Some d \<Rightarrow> do { h \<leftarrow> mem_read 0 6 d; Some (cfg\<lparr>ifn_hwa := h\<rparr>) });
                  Some (bsd_addresses cfg ioctl mtu)
                });
        Some (ctx\<lparr>if_hwa := ifn_hwa cfg, if_addr := ifn_addr cfg\<rparr>, Some cfg)
      })"

text \<open>The addresses come from the interface whose name is the first three characters: that of \<^verbatim>\<open>em10\<close> is asked of \<^verbatim>\<open>em1\<close>.\<close>

lemma request_name_prefix:
  assumes "CHR 0x00 \<notin> set ifname" "ifn_iface cfg = ifn_iface (new_ifnet ifname)"
  shows "request_name cfg = take 3 ifname"
proof -
  have n: "\<forall>c \<in> set (take 3 ifname). c \<noteq> CHR 0x00" using assms(1) set_take_subset by (metis subset_iff)
  have "take 3 (ifn_iface cfg) = take 3 ifname @ replicate (3 - length ifname) (CHR 0x00)"
    using assms(2) by (auto simp: new_ifnet_def take_replicate min_def)
  then show ?thesis using n by (cases "3 - length ifname") (simp_all add: request_name_def takeWhile_append2)
qed

lemma network_info_bsd_address:
  assumes "CHR 0x00 \<notin> set ifname" "0 \<le> rsock" "link_entry ifname l = Some (Some d)" "6 \<le> length d" "ioctl SIOCGIFADDR (take 3 ifname) = Some a"
  shows "\<exists>cfg. usnet_get_network_info_bsd ctx ifname True rsock (Some l) ioctl mtu = Some (ctx\<lparr>if_hwa := take 6 d, if_addr := a\<rparr>, Some cfg)"
proof -
  let ?cfg = "(new_ifnet ifname)\<lparr>ifn_hwa := take 6 d\<rparr>"
  have "request_name ?cfg = take 3 ifname" using assms(1) by (intro request_name_prefix) simp_all
  then have "ifn_addr (bsd_addresses ?cfg ioctl mtu) = a" "ifn_hwa (bsd_addresses ?cfg ioctl mtu) = take 6 d"
    using assms(5) by (simp_all add: bsd_addresses_def Let_def split: option.split)
  then show ?thesis using assms(2-4) by (simp add: usnet_get_network_info_bsd_def mem_read_def Let_def)
qed

end
