(* ===== verification/Usn_Log.thy ===== *)
theory Usn_Log
  imports Usn_Prelude
begin

text \<open>
  The log (\<^verbatim>\<open>log.c\<close>) and the hexadecimal dump of a buffer (\<^verbatim>\<open>print_buffer\<close> of \<^verbatim>\<open>utils.c\<close>): what is written, line by
  line. Strings being built by \<^verbatim>\<open>sprintf\<close> are blocks of memory. The message of a log call, already formatted, is an
  argument.
\<close>

section \<open>Numbers as text\<close>

definition digit :: "nat \<Rightarrow> char" where
  "digit n = (if n < 10 then char_of (48 + n) else char_of (87 + n))"

fun number :: "nat \<Rightarrow> nat \<Rightarrow> string" where
  "number b n = (if b < 2 \<or> n < b then [digit n] else number b (n div b) @ [digit (n mod b)])"

declare number.simps [simp del]

definition padded :: "nat \<Rightarrow> char \<Rightarrow> string \<Rightarrow> string" where
  "padded w c s = replicate (w - length s) c @ s"

section \<open>The log\<close>

datatype log_level = USN_INFO | USN_DEBUG | USN_WARN | USN_ERROR | USN_FATAL

fun level_no :: "log_level \<Rightarrow> int" where
  "level_no USN_INFO = 0"
| "level_no USN_DEBUG = 1"
| "level_no USN_WARN = 2"
| "level_no USN_ERROR = 3"
| "level_no USN_FATAL = 4"

fun level_str :: "log_level \<Rightarrow> string" where
  "level_str USN_INFO = ''INFO''"
| "level_str USN_DEBUG = ''DEBUG''"
| "level_str USN_WARN = ''WARN''"
| "level_str USN_ERROR = ''ERROR''"
| "level_str USN_FATAL = ''FATAL''"

text \<open>The file is the list of lines written to it.\<close>

record usn_log =
  log_min :: int
  log_rotate_num :: u32
  log_size_limit :: int
  log_file_name :: string
  log_fd :: int
  log_file :: "string list"

text \<open>\<open>alloc\<close>: memory is available; \<open>fd\<close>: what opening the file returns.\<close>

definition usnet_log_init :: "bool \<Rightarrow> int \<Rightarrow> string \<Rightarrow> int \<Rightarrow> u32 \<Rightarrow> int \<Rightarrow> usn_log option" where
  "usnet_log_init alloc fd filename level rotate_num size_limit =
     (if \<not> alloc then None
      else Some \<lparr>log_min = level, log_rotate_num = rotate_num, log_size_limit = size_limit, log_file_name = filename,
        log_fd = fd, log_file = []\<rparr>)"

definition usnet_log :: "usn_log option \<Rightarrow> log_level \<Rightarrow> string \<Rightarrow> nat \<Rightarrow> string \<Rightarrow> usn_log option option" where
  "usnet_log lg level sourcefilename line msg =
     (case lg of
        None \<Rightarrow> Some None
      | Some l \<Rightarrow>
          if log_fd l = - 1 then Some lg
          else if log_min l \<le> level_no level then
            (if length msg < 1024 then
               Some (Some (l\<lparr>log_file := log_file l @
                 [sourcefilename @ '':'' @ number 10 line @ ''['' @ level_str level @ '']: '' @ msg]\<rparr>))
             else None)
          else Some lg)"

section \<open>Dumping a buffer\<close>

text \<open>\<^verbatim>\<open>sprintf\<close> at an offset of the row buffer, and the text of a buffer.\<close>

definition put_str :: "nat \<Rightarrow> string \<Rightarrow> string \<Rightarrow> string option" where
  "put_str off s m =
     (if off + length s < length m then Some (take off m @ s @ CHR 0x00 # drop (off + Suc (length s)) m) else None)"

definition c_str :: "string \<Rightarrow> string" where
  "c_str m = takeWhile (\<lambda>c. c \<noteq> CHR 0x00) m"

definition isprint :: "byte \<Rightarrow> bool" where
  "isprint b \<longleftrightarrow> 32 \<le> unat b \<and> unat b < 127"

fun put_hex :: "nat \<Rightarrow> byte list \<Rightarrow> string \<Rightarrow> string option" where
  "put_hex j [] m = Some m"
| "put_hex j (b # bs) m = do { m \<leftarrow> put_str (7 + j * 3) (padded 2 (CHR ''0'') (number 16 (unat b)) @ '' '') m; put_hex (Suc j) bs m }"

fun put_text :: "nat \<Rightarrow> byte list \<Rightarrow> string \<Rightarrow> string option" where
  "put_text j [] m = Some m"
| "put_text j (b # bs) m = do {
     m \<leftarrow> put_str (7 + j + 48) [if isprint b then char_of (unat b) else CHR ''.''] m;
     put_text (Suc j) bs m
   }"

text \<open>A row is built in a buffer of 128 bytes; its arguments exchanged, \<^verbatim>\<open>memset\<close> writes the byte 128 to the first 32.\<close>

definition dump_row :: "string \<Rightarrow> nat \<Rightarrow> byte list \<Rightarrow> string option" where
  "dump_row junk i row = do {
     let m = replicate 32 (char_of (128 :: nat)) @ drop 32 junk;
     m \<leftarrow> put_str 0 (padded 5 (CHR '' '') (number 10 i) @ '': '') m;
     m \<leftarrow> put_hex 0 row m;
     m \<leftarrow> put_text 0 row m;
     Some (c_str m)
   }"

function dump_rows :: "string \<Rightarrow> string \<Rightarrow> nat \<Rightarrow> byte list \<Rightarrow> string list option" where
  "dump_rows junk prefx i p =
     (if p = [] then Some []
      else do {
        r \<leftarrow> dump_row junk i (take 16 p);
        rs \<leftarrow> dump_rows junk prefx (i + length (take 16 p)) (drop 16 p);
        Some ((prefx @ '': '' @ r) # rs)
      })"
  by pat_completeness auto
termination by (relation "measure (\<lambda>(junk, prefx, i, p). length p)") auto

definition print_buffer :: "string \<Rightarrow> byte list option \<Rightarrow> string \<Rightarrow> string list option" where
  "print_buffer junk p prefx = (case p of None \<Rightarrow> Some [''null pointer''] | Some p \<Rightarrow> dump_rows junk prefx 0 p)"

section \<open>What is written\<close>

text \<open>A message reaches the file when its level is high enough and the file is open; earlier lines stay.\<close>

lemma usnet_log_lines:
  assumes "usnet_log (Some l) level file line msg = Some lg"
  shows "\<exists>l'. lg = Some l' \<and> (\<exists>ls. log_file l' = log_file l @ ls \<and>
    (ls = [] \<longleftrightarrow> log_fd l = - 1 \<or> level_no level < log_min l))"
  using assms by (auto simp: usnet_log_def split: if_splits)

lemma digit_not_nul: "d < 16 \<Longrightarrow> digit d \<noteq> CHR 0x00"
proof -
  assume "d < 16"
  then have "d \<in> set [0..<16]" by simp
  moreover have "\<forall>d \<in> set [0..<16]. digit d \<noteq> CHR 0x00" by code_simp
  ultimately show ?thesis by blast
qed

lemma number_not_nul: "2 \<le> b \<Longrightarrow> b \<le> 16 \<Longrightarrow> CHR 0x00 \<notin> set (number b n)"
proof (induction n rule: less_induct)
  case (less n)
  show ?case
  proof (cases "n < b")
    case True
    then show ?thesis using less.prems digit_not_nul[of n] by (subst number.simps) (auto dest: sym)
  next
    case False
    then have "n div b < n" using less.prems by (intro div_less_dividend) auto
    then have "CHR 0x00 \<notin> set (number b (n div b))" using less by blast
    moreover have "n mod b < 16" using less.prems mod_less_divisor[of b n] by linarith
    then have "digit (n mod b) \<noteq> CHR 0x00" by (rule digit_not_nul)
    ultimately show ?thesis using less.prems False by (subst number.simps) (auto dest: sym)
  qed
qed

lemma length_number: "2 \<le> b \<Longrightarrow> n < b ^ k \<Longrightarrow> length (number b n) \<le> max 1 k"
proof (induction k arbitrary: n)
  case (Suc k)
  show ?case
  proof (cases "n < b")
    case False
    then have "n div b < b ^ k" using Suc.prems by (simp add: less_mult_imp_div_less mult.commute)
    then have "length (number b (n div b)) \<le> max 1 k" using Suc by blast
    moreover have "k \<noteq> 0" using False Suc.prems(2) by (cases k) auto
    ultimately show ?thesis using False Suc.prems by (subst number.simps) auto
  qed (use Suc.prems in \<open>subst number.simps, simp\<close>)
qed (subst number.simps, simp)

text \<open>A block that holds a text, ended by a zero byte.\<close>

definition holds :: "string \<Rightarrow> string \<Rightarrow> bool" where
  "holds m s \<longleftrightarrow> length m = 128 \<and> length s < 128 \<and> take (length s) m = s \<and> m ! length s = CHR 0x00 \<and> CHR 0x00 \<notin> set s"

lemma c_str_holds: "holds m s \<Longrightarrow> c_str m = s"
proof -
  assume h: "holds m s"
  have "m = take (length s) m @ m ! length s # drop (Suc (length s)) m"
    using h by (intro id_take_nth_drop) (simp add: holds_def)
  moreover have "take (length s) m = s" "m ! length s = CHR 0x00" using h by (simp_all only: holds_def)
  ultimately obtain r where m: "m = s @ CHR 0x00 # r" by metis
  have "CHR 0x00 \<notin> set s" using h by (simp only: holds_def simp_thms)
  then have "\<forall>c \<in> set s. c \<noteq> CHR 0x00" by metis
  then have "takeWhile (\<lambda>c. c \<noteq> CHR 0x00) (s @ (CHR 0x00 # r)) = s @ takeWhile (\<lambda>c. c \<noteq> CHR 0x00) (CHR 0x00 # r)"
    by (intro takeWhile_append2) blast
  then show ?thesis unfolding c_str_def m by simp
qed

lemma put_str_holds:
  assumes "holds m s" "CHR 0x00 \<notin> set t" "length s + length t < 128"
  shows "\<exists>m'. put_str (length s) t m = Some m' \<and> holds m' (s @ t)"
  using assms by (auto simp: holds_def put_str_def nth_append)

lemma put_str_behind:
  assumes "holds m s" "length s < off" "off + length t < 128"
  shows "\<exists>m'. put_str off t m = Some m' \<and> holds m' s"
  using assms by (auto simp: holds_def put_str_def nth_append min_def)

definition hex2 :: "byte \<Rightarrow> string" where
  "hex2 b = padded 2 (CHR ''0'') (number 16 (unat b)) @ '' ''"

lemma padded_text: "CHR 0x00 \<notin> set t \<Longrightarrow> c \<noteq> CHR 0x00 \<Longrightarrow> length t \<le> w \<Longrightarrow> CHR 0x00 \<notin> set (padded w c t) \<and> length (padded w c t) = w"
  by (auto simp: padded_def)

lemma hex2_text: "CHR 0x00 \<notin> set (hex2 b)" "length (hex2 b) = 3"
proof -
  have "unat b < 256" using unsigned_less[of b, where ?'a = nat] by simp
  then have "length (number 16 (unat b)) \<le> max 1 2" by (intro length_number) simp_all
  then have "CHR 0x00 \<notin> set (padded 2 (CHR ''0'') (number 16 (unat b))) \<and> length (padded 2 (CHR ''0'') (number 16 (unat b))) = 2"
    using number_not_nul[of 16 "unat b"] by (intro padded_text) simp_all
  then show "CHR 0x00 \<notin> set (hex2 b)" "length (hex2 b) = 3" by (simp_all add: hex2_def)
qed

lemma put_hex_row:
  assumes "holds m s" "length s = 7 + j * 3" "j + length row \<le> 16"
  shows "\<exists>m'. put_hex j row m = Some m' \<and> holds m' (s @ concat (map hex2 row))"
  using assms
proof (induction row arbitrary: j m s)
  case (Cons b row)
  have "length s + length (hex2 b) < 128" using Cons.prems(2,3) hex2_text(2)[of b] by simp
  from put_str_holds[OF Cons.prems(1) hex2_text(1) this] obtain m1 where
    m1: "put_str (7 + j * 3) (hex2 b) m = Some m1" "holds m1 (s @ hex2 b)" unfolding Cons.prems(2) by blast
  have "length (s @ hex2 b) = 7 + Suc j * 3" "Suc j + length row \<le> 16" using Cons.prems(2,3) hex2_text(2)[of b] by simp_all
  from Cons.IH[OF m1(2) this] show ?case using m1(1) by (simp add: hex2_def)
qed simp

lemma put_text_behind:
  assumes "holds m s" "length s < 55" "j + length row \<le> 16"
  shows "\<exists>m'. put_text j row m = Some m' \<and> holds m' s"
  using assms
proof (induction row arbitrary: j m)
  case (Cons b row)
  have "length s < 7 + j + 48" "7 + j + 48 + length [if isprint b then char_of (unat b) else CHR ''.''] < 128"
    using Cons.prems(2,3) by simp_all
  from put_str_behind[OF Cons.prems(1) this] obtain m1 where
    m1: "put_str (7 + j + 48) [if isprint b then char_of (unat b) else CHR ''.''] m = Some m1" "holds m1 s" by blast
  show ?case using Cons.IH[OF m1(2) Cons.prems(2), of "Suc j"] Cons.prems(3) m1(1) by simp
qed simp

text \<open>A row of fewer than 16 bytes shows its offset and the bytes in hexadecimal, but not the text column: the zero byte
  that ends the last hexadecimal number stands before it.\<close>

lemma dump_row_short:
  assumes "length junk = 128" "i < 100000" "length row < 16"
  shows "dump_row junk i row = Some (padded 5 (CHR '' '') (number 10 i) @ '': '' @ concat (map hex2 row))"
proof -
  let ?h = "padded 5 (CHR '' '') (number 10 i) @ '': ''"
  let ?m = "replicate 32 (char_of (128 :: nat)) @ drop 32 junk"
  have "length (number 10 i) \<le> max 1 5" using assms(2) by (intro length_number) simp_all
  then have "CHR 0x00 \<notin> set (padded 5 (CHR '' '') (number 10 i)) \<and> length (padded 5 (CHR '' '') (number 10 i)) = 5"
    using number_not_nul[of 10 i] by (intro padded_text) simp_all
  then have h: "CHR 0x00 \<notin> set ?h" "length ?h = 7" by simp_all
  obtain m0 where m0: "put_str 0 ?h ?m = Some m0" "holds m0 ?h"
    using h assms(1) by (auto simp: put_str_def holds_def nth_append)
  obtain m1 where m1: "put_hex 0 row m0 = Some m1" "holds m1 (?h @ concat (map hex2 row))"
    using put_hex_row[OF m0(2), of 0 row] h(2) assms(3) by auto
  have "length (concat (map hex2 row)) = 3 * length row" by (induction row) (simp_all add: hex2_text)
  then have "length (?h @ concat (map hex2 row)) < 55" using h(2) assms(3) by simp
  then obtain m2 where "put_text 0 row m1 = Some m2" "holds m2 (?h @ concat (map hex2 row))"
    using put_text_behind[OF m1(2), of 0 row] assms(3) by auto
  then show ?thesis using m0(1) m1(1) c_str_holds by (simp add: dump_row_def)
qed

section \<open>Hardware addresses\<close>

text \<open>\<^verbatim>\<open>usnet_ether_sprintf\<close> of \<^verbatim>\<open>eth.c\<close>. A \<^verbatim>\<open>char\<close> is signed, so the upper digit of a byte of 128 or more is looked up
  before the start of the table.\<close>

definition digits :: string where
  "digits = ''0123456789abcdef''"

fun ether_digits :: "byte list \<Rightarrow> string option" where
  "ether_digits [] = Some []"
| "ether_digits (b # bs) = do {
     let hi = sint b div 16;
     if hi < 0 then None
     else do {
       s \<leftarrow> ether_digits bs;
       Some (digits ! nat hi # digits ! unat (b AND 0xF) # CHR '':'' # s)
     }
   }"

definition usnet_ether_sprintf :: "byte list \<Rightarrow> string option" where
  "usnet_ether_sprintf ap = do { bs \<leftarrow> mem_read 0 6 ap; s \<leftarrow> ether_digits bs; Some (butlast s) }"


lemma ether_digits_None: "ether_digits bs = None \<longleftrightarrow> (\<exists>b \<in> set bs. sint b < 0)"
  by (induction bs) (auto simp: Let_def bind_eq_None_conv pos_imp_zdiv_neg_iff)

lemma ether_sprintf_None: "length ap = 6 \<Longrightarrow> usnet_ether_sprintf ap = None \<longleftrightarrow> (\<exists>b \<in> set ap. sint b < 0)"
  using ether_digits_None[of ap] by (auto simp: usnet_ether_sprintf_def mem_read_def bind_eq_None_conv)

end
