(* ===== verification/Data_Out.thy ===== *)
theory Data_Out
  imports Stack_Run Wire_Format
begin

text \<open>
  Sending the data of a connection: what \<^verbatim>\<open>usnet_flush_tcp_sendbuf\<close> puts on the wire. The theory follows the bytes from the
  send buffer through the segments to the frames.
\<close>

section \<open>One segment\<close>

text \<open>What sending a segment of connection \<open>p\<close> leaves alone.\<close>

definition tx_same :: "nat \<Rightarrow> usn_context \<Rightarrow> usn_context \<Rightarrow> bool" where
  "tx_same p c d \<longleftrightarrow>
     sndbuf_cache d = sndbuf_cache c \<and> arp_entries d = arp_entries c \<and> if_hwa d = if_hwa c \<and> cur_time d = cur_time c \<and>
     (let t = tcb_of c p; t' = tcb_of d p in
        tcb_conn t' = tcb_conn t \<and> rcv_nxt t' = rcv_nxt t \<and>
        sndbuf (sndvar t') = sndbuf (sndvar t) \<and> mss (sndvar t') = mss (sndvar t) \<and> snd_una (sndvar t') = snd_una (sndvar t) \<and>
        cwnd (sndvar t') = cwnd (sndvar t) \<and> peer_wnd (sndvar t') = peer_wnd (sndvar t))"

lemma tx_same_refl: "tx_same p c c"
  by (simp add: tx_same_def)

lemma tx_same_trans: "tx_same p c d \<Longrightarrow> tx_same p d e \<Longrightarrow> tx_same p c e"
  by (simp add: tx_same_def Let_def)

lemma update_timeout_list_quiet:
  "usnet_update_timeout_list c p = Some d \<Longrightarrow> tx_same p c d \<and> tcb_of d p = tcb_of c p \<and> tx_frames d = tx_frames c"
  by (auto simp: usnet_update_timeout_list_def tx_same_def tcb_of_def bind_eq_Some_conv split: if_splits)

lemma add_rto_list_quiet:
  "usnet_add_rto_list c p = Some d \<Longrightarrow> tx_same p c d \<and> snd_nxt (tcb_of d p) = snd_nxt (tcb_of c p) \<and> tx_frames d = tx_frames c"
  by (auto simp: usnet_add_rto_list_def tx_same_def tcb_conn_def Let_def bind_eq_Some_conv split: if_splits)

text \<open>The options of a segment: timestamps, and for a SYN the segment size and the window scale.\<close>

lemma generate_tcpopts_some:
  assumes "flags AND TH_SYN \<noteq> 0 \<or> flags AND TH_SACK = 0"
  shows "\<exists>opts. usnet_generate_tcpopts c t flags (usnet_get_tcpopt_length flags) = Some opts \<and>
    length opts = usnet_get_tcpopt_length flags"
  using assms by (simp add: usnet_generate_tcpopts_def usnet_generate_tcpts_def usnet_get_tcpopt_length_def Let_def)

lemma generate_tcpopts_cong:
  "cur_time d = cur_time c \<Longrightarrow> mss (sndvar t') = mss (sndvar t) \<Longrightarrow> wscale (sndvar t') = wscale (sndvar t) \<Longrightarrow> rcvvar t' = rcvvar t \<Longrightarrow>
    usnet_generate_tcpopts d t' flags n = usnet_generate_tcpopts c t flags n"
  by (simp add: usnet_generate_tcpopts_def usnet_generate_tcpts_def Let_def)

text \<open>A segment as built from the connection; its header says where in the stream its bytes belong.\<close>

lemma tcp_build_plain:
  assumes "lists_ok c" and fl: "flags AND TH_WACK = 0" "flags AND TH_FIN = 0" "flags AND TH_ACK \<noteq> 0"
    and o: "usnet_generate_tcpopts c (tcb_of c p) flags (usnet_get_tcpopt_length flags) = Some opts"
  shows "\<exists>d win. tcp_build c p flags payload = Some (d,
      tcp_sealed (sport (tcb_of c p)) (dport (tcb_of c p)) (htonl (snd_nxt (tcb_of c p))) (htonl (rcv_nxt (tcb_of c p))) flags win
        opts payload (saddr (tcb_of c p)) (daddr (tcb_of c p))) \<and>
    tx_same p c d \<and> snd_nxt (tcb_of d p) = snd_nxt (tcb_of c p) \<and> tx_frames d = tx_frames c"
proof -
  let ?a = "upd_tcb p (\<lambda>t. t\<lparr>last_active_ts := of_int (cur_time c)\<rparr>)
    (upd_snd p (\<lambda>s. s\<lparr>ts_lastack_sent := of_int (cur_time c)\<rparr>) c)"
  have "same_queues c ?a" by (simp add: same_queues_def)
  then have "lists_ok ?a" using assms(1) same_queues_ok by blast
  then obtain d where d: "usnet_update_timeout_list ?a p = Some d" using update_timeout_list_ok by blast
  then have e: "tx_same p ?a d" "tcb_of d p = tcb_of ?a p" "tx_frames d = tx_frames c"
    using update_timeout_list_quiet by fastforce+
  define w where "w = shr32 (rcv_wnd (rcv_of d p)) (if flags AND TH_SYN \<noteq> 0 then 0 else wscale (snd_of d p))"
  define f where "f = (if w = 0 then upd_tcb p (\<lambda>t. t\<lparr>need_wnd_adv := True\<rparr>) d else d)"
  have f: "tx_same p c f" "tx_frames f = tx_frames c" "snd_nxt (tcb_of f p) = snd_nxt (tcb_of c p)"
    "sport (tcb_of f p) = sport (tcb_of c p)" "dport (tcb_of f p) = dport (tcb_of c p)"
    "saddr (tcb_of f p) = saddr (tcb_of c p)" "daddr (tcb_of f p) = daddr (tcb_of c p)"
    using e by (auto simp: f_def tx_same_def tcb_conn_def Let_def)
  have "cur_time f = cur_time c" using f(1) by (simp add: tx_same_def)
  then have "usnet_generate_tcpopts f (tcb_of f p) flags (usnet_get_tcpopt_length flags) = Some opts"
    unfolding o[symmetric] by (rule generate_tcpopts_cong) (auto simp: f_def e(2))
  then have "tcp_build c p flags payload = Some (f, tcp_sealed (sport (tcb_of c p)) (dport (tcb_of c p))
      (htonl (snd_nxt (tcb_of c p))) (htonl (rcv_nxt (tcb_of c p))) flags (htons (min (ucast w) 65535)) opts payload
      (saddr (tcb_of c p)) (daddr (tcb_of c p)))"
    using fl d unfolding tcp_build_def Let_def by (simp add: w_def[symmetric] f_def[symmetric] f)
  then show ?thesis using f by blast
qed

text \<open>The hardware address of the peer is known.\<close>

definition resolved :: "usn_context \<Rightarrow> nat \<Rightarrow> bool" where
  "resolved c p \<longleftrightarrow> length (if_hwa c) = 6 \<and> (\<exists>h. usnet_get_hwaddr c (daddr (tcb_of c p)) = Some h \<and> length h = 6)"

lemma resolved_same: "tx_same p c d \<Longrightarrow> resolved c p \<Longrightarrow> resolved d p"
  by (simp add: resolved_def tx_same_def usnet_get_hwaddr_def usnet_get_arp_def tcb_conn_def Let_def)

text \<open>The sequence number and the payload of the segment in a frame, as the receiver reads them: the TCP header begins
  behind the 34 bytes of the Ethernet and IP headers.\<close>

definition frame_seg :: "byte list \<Rightarrow> (u32 \<times> byte list) option" where
  "frame_seg f = do { h \<leftarrow> read_tcphdr (drop 34 f); Some (htonl (th_seq h), drop (34 + 4 * th_off h) f) }"

lemma frame_seg_sealed:
  assumes "length below = 34" "4 dvd length opts" "length opts \<le> 40"
  shows "frame_seg (below @ tcp_sealed sp dp (htonl sq) ak fl win opts payload sip dip) = Some (sq, payload)"
proof -
  have "4 * ((20 + length opts) div 4) = 20 + length opts" using assms(2) by simp
  moreover obtain hdr where "tcp_sealed sp dp (htonl sq) ak fl win opts payload sip dip = hdr @ opts @ payload" "length hdr = 20"
    by (simp add: tcp_sealed_def Let_def)
  ultimately show ?thesis
    using assms read_sealed[OF assms(2,3), of sp dp "htonl sq" ak fl win payload sip dip] by (simp add: frame_seg_def)
qed

lemma control_flags:
  assumes "fl \<in> {TH_ACK, TH_SYN OR TH_ACK}"
  shows "fl AND TH_WACK = 0" "fl AND TH_FIN = 0" "fl AND TH_ACK \<noteq> 0" "fl AND TH_SYN \<noteq> 0 \<or> fl AND TH_SACK = 0"
    "fl AND (TH_SYN OR TH_FIN) \<noteq> 0 \<longleftrightarrow> fl = TH_SYN OR TH_ACK" "usnet_get_tcpopt_length fl \<in> {12, 20}"
  using assms by (auto simp: usnet_get_tcpopt_length_def)

text \<open>Data, or the SYN-ACK of a connection: the segment is sent, in a frame the receiver reads back, and the
  retransmission timer runs unless the connection waits for its end.\<close>

lemma send_segment:
  assumes ok: "lists_ok c" and r: "resolved c p" and fl: "fl \<in> {TH_ACK, TH_SYN OR TH_ACK}"
    and n: "payload \<noteq> [] \<or> fl = TH_SYN OR TH_ACK" "length payload \<le> unat (mss (snd_of c p)) + 12" "length payload \<le> 1900"
  defines "k \<equiv> length payload + (if fl = TH_SYN OR TH_ACK then 1 else 0)"
  shows "\<exists>d f h. usnet_send_tcp_packet c p fl payload = Some (d, int k) \<and> lists_ok d \<and> tx_same p c d \<and>
    snd_nxt (tcb_of d p) = snd_nxt (tcb_of c p) + of_nat k \<and> tx_frames d = tx_frames c @ [f] \<and>
    frame_seg f = Some (snd_nxt (tcb_of c p), payload) \<and> read_tcphdr (drop 34 f) = Some h \<and> th_flags h = fl \<and>
    th_seq h = htonl (snd_nxt (tcb_of c p)) \<and> th_ack h = htonl (rcv_nxt (tcb_of c p))"
proof -
  let ?s = "snd_nxt (tcb_of c p)" and ?o = "usnet_get_tcpopt_length fl"
  note cf = control_flags[OF fl]
  obtain h where h: "usnet_get_hwaddr c (daddr (tcb_of c p)) = Some h" "length h = 6" and hw: "length (if_hwa c) = 6"
    using r by (auto simp: resolved_def)
  define below where "below = usnet_eth_output_nm c (htons 0x0800) h @
    ip_sealed (20 + of_nat (20 + ?o + length payload)) (htons (ip_id (snd_of c p))) (htons 0x4000) 64 6 (saddr (tcb_of c p)) (daddr (tcb_of c p))"
  have lb: "length below = 34" using h hw by (simp add: below_def usnet_eth_output_nm_def)
  define a where "a = upd_snd p (\<lambda>s. s\<lparr>ip_id := ip_id s + 1\<rparr>) c"
  have out: "usnet_ipv4_output c p (20 + ?o + length payload) = Some (a, Some below)"
    by (simp add: usnet_ipv4_output_def h a_def below_def Let_def)
  have a: "lists_ok a" "tx_same p c a" "snd_nxt (tcb_of a p) = ?s" "tx_frames a = tx_frames c" "rcv_nxt (tcb_of a p) = rcv_nxt (tcb_of c p)"
    using ok same_queues_ok[of c a] by (simp_all add: a_def same_queues_def tx_same_def tcb_conn_def)
  obtain opts where opts: "usnet_generate_tcpopts a (tcb_of a p) fl ?o = Some opts" "length opts = ?o"
    using generate_tcpopts_some[OF cf(4)] by blast
  have lo: "4 dvd length opts" "length opts \<le> 20" using cf(6) by (auto simp: opts(2))
  obtain b win where b: "tcp_build a p fl payload = Some (b,
      tcp_sealed (sport (tcb_of a p)) (dport (tcb_of a p)) (htonl (snd_nxt (tcb_of a p))) (htonl (rcv_nxt (tcb_of a p))) fl win opts payload
        (saddr (tcb_of a p)) (daddr (tcb_of a p)))" (is "_ = Some (b, ?seg)")
      "tx_same p a b" "snd_nxt (tcb_of b p) = snd_nxt (tcb_of a p)" "tx_frames b = tx_frames a"
    using tcp_build_plain[OF a(1) cf(1-3) opts(1), of payload] by blast
  have "lists_ok b" using tcp_build_good[OF good_refl[OF a(1)] cf(4), of payload p] b(1) by (simp add: wp_def good_def)
  define b1 where "b1 = upd_tcb p (\<lambda>t. t\<lparr>snd_nxt := snd_nxt t + of_nat (length payload)\<rparr>) b"
  define b2 where "b2 = (if fl = TH_SYN OR TH_ACK then upd_tcb p (\<lambda>t. t\<lparr>snd_nxt := snd_nxt t + 1\<rparr>) b1 else b1)"
  define e where "e = upd_snd p (\<lambda>s. s\<lparr>ts_rto := of_int (cur_time b2) + rto s\<rparr>) b2"
  have e: "lists_ok e" "tx_same p b e" "snd_nxt (tcb_of e p) = ?s + of_nat k" "tx_frames e = tx_frames c"
    using same_queues_ok[OF \<open>lists_ok b\<close>, of e] a b(3,4)
    by (simp_all add: e_def b1_def b2_def k_def same_queues_def tx_same_def tcb_conn_def Let_def)
  obtain g where g: "usnet_add_rto_list e p = Some g" "lists_ok g" using add_rto_list_ok[OF e(1)] by blast
  have gq: "tx_same p e g" "snd_nxt (tcb_of g p) = snd_nxt (tcb_of e p)" "tx_frames g = tx_frames e"
    using add_rto_list_quiet[OF g(1)] by simp_all
  have len: "length (below @ ?seg) \<le> 2048" using n lb lo by simp
  have k: "0 < k" "(if fl = TH_SYN OR TH_ACK then length payload + 1 else length payload) = k" using n(1) by (auto simp: k_def)
  have "\<not> length payload > unat (mss (snd_of c p)) + ?o" using n(2) cf(6) by auto
  then have "usnet_send_tcp_packet c p fl payload = Some (g\<lparr>tx_frames := tx_frames g @ [below @ ?seg]\<rparr>, int k)"
    unfolding usnet_send_tcp_packet_def Let_def cf(5) k(2)
    using out b(1) k(1) g(1) len
    by (cases "fl = TH_SYN OR TH_ACK") (simp_all add: b1_def b2_def e_def usnet_send_data_def)
  moreover have "tx_same p c (g\<lparr>tx_frames := x\<rparr>)" for x
    using tx_same_trans[OF tx_same_trans[OF tx_same_trans[OF a(2) b(2)] e(2)] gq(1)] by (simp add: tx_same_def tcb_of_def)
  moreover have "lists_ok (g\<lparr>tx_frames := x\<rparr>)" for x
    using same_queues_ok[OF g(2), of "g\<lparr>tx_frames := x\<rparr>"] by (simp add: same_queues_def tcb_of_def)
  moreover have "frame_seg (below @ ?seg) = Some (?s, payload)"
    using frame_seg_sealed[OF lb] lo a(3) by simp
  moreover have "read_tcphdr (drop 34 (below @ ?seg)) = Some \<lparr>th_sport = sport (tcb_of a p), th_dport = dport (tcb_of a p), th_seq = htonl ?s,
      th_ack = htonl (rcv_nxt (tcb_of c p)), th_off = (20 + length opts) div 4, th_flags = fl, th_win = win, th_mem = ?seg\<rparr>"
    using lo read_sealed[of opts] lb by (simp add: a)
  ultimately show ?thesis using e(3,4) gq
    by (intro exI[of _ "g\<lparr>tx_frames := tx_frames g @ [below @ ?seg]\<rparr>"] exI[of _ "below @ ?seg"])
      (simp only: tcb_of_other, simp)
qed

section \<open>The bytes of the send buffer\<close>

text \<open>Bytes cut into segments of at most \<open>n\<close>, and segments with their places in the sequence space.\<close>

fun chunks :: "nat \<Rightarrow> 'a list \<Rightarrow> 'a list list" where
  "chunks n xs = (if n = 0 \<or> xs = [] then [] else take n xs # chunks n (drop n xs))"

declare chunks.simps [simp del]

fun numbered :: "u32 \<Rightarrow> byte list list \<Rightarrow> (u32 \<times> byte list) list" where
  "numbered s [] = []"
| "numbered s (x # xs) = (s, x) # numbered (s + of_nat (length x)) xs"

lemma concat_chunks: "0 < n \<Longrightarrow> concat (chunks n xs) = xs"
proof (induction n xs rule: chunks.induct)
  case (1 n xs)
  then show ?case by (subst chunks.simps) (auto simp: append_take_drop_id)
qed

text \<open>Connection \<open>p\<close> may send the bytes from \<open>h\<close> to \<open>t\<close> of its buffer \<open>b\<close>: they do not wrap around the end of the block, there
  is a segment's room behind them, the window \<open>w\<close> has room for them, and their sequence numbers are ahead of the
  acknowledged ones.\<close>

definition flush_ok :: "usn_context \<Rightarrow> nat \<Rightarrow> nat \<Rightarrow> nat \<Rightarrow> nat \<Rightarrow> u32 \<Rightarrow> bool" where
  "flush_ok c p b h t w \<longleftrightarrow> lists_ok c \<and> resolved c p \<and>
     (let buf = sb_of c b; m = unat (mss (snd_of c p)) - 12; s = snd_nxt (tcb_of c p) in
        unat (sb_size buf) = length (sb_data buf) \<and> length (sb_data buf) < 2 ^ 30 \<and> unat (sb_tail buf) = t \<and> h \<le> t \<and>
        0 < m \<and> m \<le> 1460 \<and> t + m < length (sb_data buf) \<and>
        unat (s - snd_una (snd_of c p)) + (t - h) \<le> unat w \<and> unat (s - sb_head_seq buf) + (t - h) < 2 ^ 31)"

lemma unat_add_diff: "unat ((a :: u32) - b) + n < 2 ^ 32 \<Longrightarrow> unat (a + of_nat n - b) = unat (a - b) + n"
proof -
  assume n: "unat (a - b) + n < 2 ^ 32"
  have "a + of_nat n - b = (a - b) + of_nat n" by simp
  then show ?thesis using n by (metis add_lessD1 add.commute unat_add_u32 unat_of_nat_u32)
qed

lemma not_seq_lt: "unat ((a :: u32) - b) < 2 ^ 31 \<Longrightarrow> \<not> TCP_SEQ_LT a b"
  by (simp add: TCP_SEQ_LT_def sint_u32_unat)

lemma flush_ok_step:
  assumes f: "flush_ok c p b h t w" and d: "tx_same p c d" "lists_ok d" "snd_nxt (tcb_of d p) = snd_nxt (tcb_of c p) + of_nat n"
    and n: "n \<le> t - h"
  shows "flush_ok (upd_sb b ((sb_of d b)\<lparr>sb_sent_head := x\<rparr>) d) p b (h + n) t w" (is "flush_ok ?e p b (h + n) t w")
proof -
  let ?s = "snd_nxt (tcb_of c p)" and ?u = "snd_una (snd_of c p)" and ?q = "sb_head_seq (sb_of c b)"
  have e: "tcb_of ?e = tcb_of d" "same_queues d ?e" "arp_entries ?e = arp_entries d" "if_hwa ?e = if_hwa d"
      "sb_of ?e b = (sb_of c b)\<lparr>sb_sent_head := x\<rparr>"
    using d(1) by (simp_all add: upd_sb_def tcb_of_def sb_of_def same_queues_def tx_same_def fun_eq_iff)
  have r: "resolved ?e p"
    using resolved_same[OF d(1)] f e unfolding flush_ok_def resolved_def usnet_get_hwaddr_def usnet_get_arp_def by simp
  have k: "unat (?s - ?u) + (t - h) \<le> unat w" "unat (?s - ?q) + (t - h) < 2 ^ 31" "h \<le> t"
    using f unfolding flush_ok_def Let_def by blast+
  have "unat (?s + of_nat n - ?u) = unat (?s - ?u) + n" "unat (?s + of_nat n - ?q) = unat (?s - ?q) + n"
    using k n unat_u32_lt[of w] by (auto intro!: unat_add_diff)
  then have "unat (?s + of_nat n - ?u) + (t - (h + n)) \<le> unat w" "unat (?s + of_nat n - ?q) + (t - (h + n)) < 2 ^ 31" "h + n \<le> t"
    using k n by linarith+
  then show ?thesis
    using f r same_queues_ok[OF d(2) e(2)] d(1,3) unfolding flush_ok_def Let_def e(1,5) tx_same_def
    by (simp del: Nat.add_diff_assoc)
qed

text \<open>The length of the next segment as the C computes it, in 32 and 16 bits, and its conversions.\<close>

lemma seg_words:
  assumes ht: "h < t" and t: "t < 2 ^ 32" and m: "m < 2 ^ 16"
  shows "(if (of_nat t - of_nat h :: u32) > of_nat m then ucast (of_nat m :: u32) else ucast (of_nat t - of_nat h :: u32)) =
      (of_nat (min m (t - h)) :: u16)"
    and "(of_nat t - of_nat h :: u32) \<noteq> 0" and "of_nat t \<ge> (of_nat h :: u32)"
proof -
  have h: "h < 2 ^ 32" "m < 2 ^ 32" using assms by simp_all
  note u = unat_of_nat_u32[OF h(1)] unat_of_nat_u32[OF t] unat_of_nat_u32[OF h(2)]
  have bl: "unat (of_nat t - of_nat h :: u32) = t - h" using u ht by (simp add: unat_sub_u32 del: of_nat_diff)
  have big: "(of_nat t - of_nat h :: u32) > of_nat m \<longleftrightarrow> m < t - h"
    by (simp add: word_less_nat_alt bl u del: of_nat_diff)
  have d: "(of_nat t - of_nat h :: u32) = of_nat (t - h)" using ht by simp
  show "(if (of_nat t - of_nat h :: u32) > of_nat m then ucast (of_nat m :: u32) else ucast (of_nat t - of_nat h :: u32)) =
      (of_nat (min m (t - h)) :: u16)"
    unfolding big by (cases "m < t - h") (simp_all add: d del: of_nat_diff)
  show "(of_nat t - of_nat h :: u32) \<noteq> 0" "of_nat t \<ge> (of_nat h :: u32)"
    using bl ht u by (auto simp: word_le_nat_alt simp del: of_nat_diff)
qed

text \<open>The size of the segments: what the options leave of the maximal segment size.\<close>

abbreviation seg_size :: "usn_context \<Rightarrow> nat \<Rightarrow> nat" where
  "seg_size c p \<equiv> unat (mss (snd_of c p)) - 12"

lemma maxlen_word:
  "0 < unat (m :: u16) - 12 \<Longrightarrow> of_int (int (unat m) - int (usnet_get_tcpopt_length TH_ACK)) = (of_nat (unat m - 12) :: u32)"
proof -
  assume "0 < unat m - 12"
  then have "int (unat m) - int (usnet_get_tcpopt_length TH_ACK) = int (unat m - 12)" by (simp add: usnet_get_tcpopt_length_def of_nat_diff)
  then show ?thesis by simp
qed

lemma seg_len_words:
  assumes "0 < n" "n < 2 ^ 15"
  shows "unat (of_nat n :: u16) = n" "sint (of_nat n :: u16) = int n" "(of_nat n :: u16) \<noteq> 0"
    "ucast (of_nat n :: u16) = (of_nat n :: u32)" "sint (of_int (int n) :: u16) = int n" "\<not> int n < 0"
proof -
  show u: "unat (of_nat n :: u16) = n" using assms(2) by (intro unat_of_nat_u16) simp
  show s: "sint (of_nat n :: u16) = int n" using assms(2) by (simp add: signed_of_nat signed_take_bit_int_eq_self)
  show "(of_nat n :: u16) \<noteq> 0" using u assms(1) by force
  have "n < 2 ^ 32" using assms(2) by simp
  then show "ucast (of_nat n :: u16) = (of_nat n :: u32)"
    using u by (intro unat_inj_u32) (simp only: unat_ucast_u16 unat_of_nat_u32)
  show "sint (of_int (int n) :: u16) = int n" "\<not> int n < 0" using s by simp_all
qed

lemma flush_step_sends:
  assumes f: "flush_ok c p b h t w" and ht: "h < t"
  defines "n \<equiv> min (seg_size c p) (t - h)"
  shows "\<exists>d f. flush_step c p b (of_nat (seg_size c p)) w (of_nat h) (of_nat t) = Some (d, Inr (of_nat (h + n))) \<and>
    flush_ok d p b (h + n) t w \<and> tx_frames d = tx_frames c @ [f] \<and>
    frame_seg f = Some (snd_nxt (tcb_of c p), take n (drop h (sb_data (sb_of c b)))) \<and>
    snd_nxt (tcb_of d p) = snd_nxt (tcb_of c p) + of_nat n \<and> mss (snd_of d p) = mss (snd_of c p) \<and>
    sb_of d b = (sb_of c b)\<lparr>sb_sent_head := of_nat (h + n)\<rparr>"
proof -
  let ?b = "sb_of c b" and ?N = "length (sb_data (sb_of c b))" and ?m = "seg_size c p"
  let ?s = "snd_nxt (tcb_of c p)" and ?x = "take n (drop h (sb_data (sb_of c b)))"
  have k: "lists_ok c" "resolved c p" "unat (sb_size ?b) = ?N" "?N < 2 ^ 30" "unat (sb_tail ?b) = t" "0 < ?m" "?m \<le> 1460"
      "t + ?m < ?N" "unat (?s - snd_una (snd_of c p)) + (t - h) \<le> unat w" "unat (?s - sb_head_seq ?b) + (t - h) < 2 ^ 31"
    using f unfolding flush_ok_def Let_def by blast+
  have n: "0 < n" "n \<le> ?m" "n \<le> t - h" using ht k by (auto simp: n_def)
  have lx: "length ?x = n" using n k by simp
  have hn: "h + n \<le> t" "t < 2 ^ 30" using n ht k by linarith+
  have "h < 2 ^ 32" "t < 2 ^ 32" "h + n < 2 ^ 32" using hn by simp_all
  note u0 = this and u = this[THEN unat_of_nat_u32]
  have "?m < 2 ^ 16" using k(7) by simp
  note sw = seg_words[OF ht u0(2) this]
  have b15: "n < 2 ^ 15" using n(2) k(7) by simp
  note ln = seg_len_words[OF n(1) b15]
  have len: "(if (of_nat t - of_nat h :: u32) > of_nat ?m then ucast (of_nat ?m :: u32)
      else ucast (of_nat t - of_nat h :: u32)) = (of_nat n :: u16)"
    unfolding n_def by (rule sw(1))
  have tl: "sint (sb_size ?b - sb_tail ?b) = int (?N - t)"
    using k hn by (intro sint_of_unat) (auto simp: unat_sub_u32)
  have small: "\<not> int (?N - t) \<le> int n" using n k by linarith
  have infl: "unat (?s - snd_una (snd_of c p) + of_nat n) = unat (?s - snd_una (snd_of c p)) + n"
    using unat_add_diff[of ?s "snd_una (snd_of c p)" n] n(3) k(9) unat_u32_lt[of w] by (simp add: algebra_simps)
  then have win: "\<not> ?s - snd_una (snd_of c p) + of_nat n > w" using n(3) k(9) by (simp add: word_less_nat_alt)
  have rd: "mem_read h n (sb_data ?b) = Some ?x" using hn k by (simp add: mem_read_def)
  have x: "?x \<noteq> [] \<or> TH_ACK = TH_SYN OR TH_ACK" "length ?x \<le> unat (mss (snd_of c p)) + 12" "length ?x \<le> 1900" using lx n k by auto
  obtain d f where d: "usnet_send_tcp_packet c p TH_ACK ?x = Some (d, int n)" "lists_ok d" "tx_same p c d"
      "snd_nxt (tcb_of d p) = ?s + of_nat n" "tx_frames d = tx_frames c @ [f]" "frame_seg f = Some (?s, ?x)"
    using send_segment[OF k(1,2) _ x] lx by auto
  have hd: "of_nat h + of_int (int n) = (of_nat (h + n) :: u32)" "\<not> of_nat (h + n) \<ge> sb_size ?b"
    using u(3) hn k(3,8) by (simp_all add: word_le_nat_alt del: of_nat_add) (simp add: of_nat_add)
  let ?d = "upd_sb b ((sb_of d b)\<lparr>sb_sent_head := of_nat (h + n)\<rparr>) d"
  have sb: "sb_of d b = ?b" using d(3) by (simp add: tx_same_def sb_of_def)
  have lt: "\<not> TCP_SEQ_LT ?s (sb_head_seq ?b)" using k(10) by (intro not_seq_lt) linarith
  have "flush_step c p b (of_nat (seg_size c p)) w (of_nat h) (of_nat t) = Some (?d, Inr (of_nat (h + n)))"
    unfolding flush_step_def Let_def
    by (simp only: len tl small win sw(2,3) lt if_True if_False u ln rd d(1) bind.bind_lunit prod.case hd not_False_eq_True simp_thms)
  moreover have "flush_ok ?d p b (h + n) t w" by (rule flush_ok_step[OF f d(3,2,4) n(3)])
  moreover have "sb_of ?d b = ?b\<lparr>sb_sent_head := of_nat (h + n)\<rparr>" using sb by (simp add: upd_sb_def sb_of_def)
  moreover have "tx_frames ?d = tx_frames d" "tcb_of ?d = tcb_of d" by (simp_all add: upd_sb_def tcb_of_def fun_eq_iff)
  ultimately show ?thesis using d by (intro exI[of _ ?d] exI[of _ f]) (simp add: tx_same_def Let_def)
qed

lemma flush_loop_sends:
  assumes "flush_ok c p b h t w"
  shows "\<exists>d fs. flush_loop c p b (of_nat (seg_size c p)) w (of_nat h) (of_nat t) k =
      Some (d, k + int (length fs)) \<and> tx_frames d = tx_frames c @ fs \<and> flush_ok d p b t t w \<and>
    map frame_seg fs = map Some (numbered (snd_nxt (tcb_of c p))
      (chunks (seg_size c p) (take (t - h) (drop h (sb_data (sb_of c b)))))) \<and>
    snd_nxt (tcb_of d p) = snd_nxt (tcb_of c p) + of_nat (t - h) \<and>
    sb_of d b = (sb_of c b)\<lparr>sb_sent_head := if h < t then of_nat t else sb_sent_head (sb_of c b)\<rparr>"
  using assms
proof (induction "t - h" arbitrary: c h k rule: less_induct)
  case less
  let ?m = "seg_size c p" and ?D = "sb_data (sb_of c b)" and ?s = "snd_nxt (tcb_of c p)"
  have m: "0 < ?m" "h \<le> t" "t < length ?D" using less.prems unfolding flush_ok_def Let_def by linarith+
  show ?case
  proof (cases "h < t")
    case False
    then have "h = t" using m by simp
    have "\<not> TCP_SEQ_LT ?s (sb_head_seq (sb_of c b))" using less.prems unfolding flush_ok_def Let_def by (intro not_seq_lt) linarith
    then have "flush_step c p b (of_nat (seg_size c p)) w (of_nat h) (of_nat t) = Some (c, Inl None)"
      by (simp add: flush_step_def Let_def \<open>h = t\<close>)
    then show ?thesis using less.prems \<open>h = t\<close> by (subst flush_loop.simps) (simp add: chunks.simps)
  next
    case True
    define n where "n = min ?m (t - h)"
    obtain d f where d: "flush_step c p b (of_nat (seg_size c p)) w (of_nat h) (of_nat t) = Some (d, Inr (of_nat (h + n)))"
        "flush_ok d p b (h + n) t w" "tx_frames d = tx_frames c @ [f]" "frame_seg f = Some (?s, take n (drop h ?D))"
        "snd_nxt (tcb_of d p) = ?s + of_nat n" "mss (snd_of d p) = mss (snd_of c p)"
        "sb_of d b = (sb_of c b)\<lparr>sb_sent_head := of_nat (h + n)\<rparr>"
      using flush_step_sends[OF less.prems True] unfolding n_def[symmetric] by blast
    have n: "t - (h + n) < t - h" "n \<le> t - h" using True m by (auto simp: n_def)
    obtain e fs where e: "flush_loop d p b (of_nat (seg_size d p)) w (of_nat (h + n)) (of_nat t) (k + 1) =
          Some (e, k + 1 + int (length fs))" "tx_frames e = tx_frames d @ fs" "flush_ok e p b t t w"
        "map frame_seg fs = map Some (numbered (snd_nxt (tcb_of d p))
          (chunks (seg_size d p) (take (t - (h + n)) (drop (h + n) (sb_data (sb_of d b))))))"
        "snd_nxt (tcb_of e p) = snd_nxt (tcb_of d p) + of_nat (t - (h + n))"
        "sb_of e b = (sb_of d b)\<lparr>sb_sent_head := if h + n < t then of_nat t else sb_sent_head (sb_of d b)\<rparr>"
      using less.hyps[OF n(1) d(2), of "k + 1"] by blast
    let ?x = "take (t - h) (drop h ?D)"
    have nx: "?x \<noteq> []" "take ?m ?x = take n (drop h ?D)" using True m by (simp_all add: n_def)
    have dx: "drop ?m ?x = take (t - (h + n)) (drop (h + n) ?D)"
    proof (cases "?m \<le> t - h")
      case True
      then show ?thesis using m by (simp add: n_def drop_take add.commute)
    next
      case False
      then show ?thesis using m by (simp add: n_def)
    qed
    have c: "chunks ?m ?x = take n (drop h ?D) # chunks ?m (take (t - (h + n)) (drop (h + n) ?D))"
      using m(1) nx dx by (subst chunks.simps) simp
    have hn: "h + n \<le> t" "length (take n (drop h ?D)) = n" using n True m by simp_all
    then have sb: "sb_of e b = (sb_of c b)\<lparr>sb_sent_head := of_nat t\<rparr>"
      using e(6) d(7) by (cases "h + n < t") simp_all
    have "of_nat n + of_nat (t - (h + n)) = (of_nat (t - h) :: u32)"
      using hn(1) by (subst of_nat_add[symmetric]) simp
    then have sn: "snd_nxt (tcb_of e p) = ?s + of_nat (t - h)" using e(5) d(5) by (simp only: add.assoc)
    have fr: "map frame_seg (f # fs) = map Some (numbered ?s (chunks ?m ?x))"
      unfolding c numbered.simps hn(2) using d(4,5,6,7) e(4) by simp
    have "flush_loop c p b (of_nat (seg_size c p)) w (of_nat h) (of_nat t) k = Some (e, k + int (length (f # fs)))"
      using d(1,6) e(1) by (subst flush_loop.simps) simp
    then show ?thesis
      using e(2,3) d(3) sb sn fr True by (intro exI[of _ e] exI[of _ "f # fs"]) simp
  qed
qed

text \<open>C7. Sending the data of a connection. \<^verbatim>\<open>usnet_flush_tcp_sendbuf\<close> returns the number of segments it sent: all bytes between
  the last byte sent and the end of the buffered data, cut into segments of the maximal size less the 12 bytes of the
  timestamp option that every segment carries, in order, each
  with the sequence number of its first byte, in frames that the receiver reads back so; \<^verbatim>\<open>snd_nxt\<close> and \<^verbatim>\<open>sent_head\<close> move
  behind them. This is so when the bytes do not wrap around the end of the block, a segment's room is left
  behind them, and the windows of receiver and congestion control have room.\<close>

theorem flush_sends_segments:
  assumes "sndbuf (snd_of c p) = Some b" "flush_ok c p b h t (min (cwnd (snd_of c p)) (peer_wnd (snd_of c p)))"
    "unat (sb_sent_head (sb_of c b)) = h" "h < t" "sb_head (sb_of c b) \<noteq> sb_tail (sb_of c b)"
  defines "bytes \<equiv> take (t - h) (drop h (sb_data (sb_of c b)))" and "m \<equiv> unat (mss (snd_of c p)) - 12"
  shows "\<exists>d fs. usnet_flush_tcp_sendbuf c p = Some (d, int (length fs)) \<and> tx_frames d = tx_frames c @ fs \<and>
    map frame_seg fs = map Some (numbered (snd_nxt (tcb_of c p)) (chunks m bytes)) \<and> concat (chunks m bytes) = bytes \<and>
    snd_nxt (tcb_of d p) = snd_nxt (tcb_of c p) + of_nat (t - h) \<and>
    sb_of d b = (sb_of c b)\<lparr>sb_sent_head := sb_tail (sb_of c b)\<rparr> \<and> lists_ok d"
proof -
  have "unat (sb_tail (sb_of c b)) = t" "0 < m" using assms(2) unfolding flush_ok_def Let_def m_def by blast+
  then have t: "sb_tail (sb_of c b) = of_nat t" "sb_sent_head (sb_of c b) = of_nat h" "0 < m" using assms(3) by auto
  show ?thesis
    using flush_loop_sends[OF assms(2), of 0] concat_chunks[OF t(3)] assms(1,4,5) t(1,2)
    maxlen_word[OF t(3)[unfolded m_def]]
    unfolding bytes_def m_def flush_ok_def by (auto simp: usnet_flush_tcp_sendbuf_def Let_def)
qed

section \<open>A connection with five bytes to send\<close>

text \<open>The sample connection with room for two bytes in a segment, five bytes in its send buffer and the address of its peer known.\<close>

definition flush_buf :: usn_sendbuf where
  "flush_buf = (sendbuf_at 0 5 ([1, 2, 3, 4, 5] @ replicate 59 0))\<lparr>sb_fd := 5, sb_len := 5, sb_cum_len := 5, sb_head_seq := 1001\<rparr>"

definition flush_context :: usn_context where
  "flush_context = (conn_context (sample_tcb\<lparr>sndvar := (sndvar sample_tcb)\<lparr>sndbuf := Some 0, mss := 14\<rparr>\<rparr>))
     \<lparr>arp_entries := [\<lparr>arp_ip = 0x0200000A, arp_haddr = [2, 0, 0, 0, 0, 2]\<rparr>], if_hwa := [2, 0, 0, 0, 0, 1],
      sndbuf_cache := (sndbuf_cache fresh_context)\<lparr>hb_cache := (hb_cache (sndbuf_cache fresh_context))(0 := flush_buf)\<rparr>\<rparr>"

lemma flush_buf_fields:
  "sb_data flush_buf = [1, 2, 3, 4, 5] @ replicate 59 0" "sb_head flush_buf = 0" "sb_sent_head flush_buf = 0" "sb_tail flush_buf = 5"
  "sb_size flush_buf = 64" "sb_head_seq flush_buf = 1001"
  by (simp_all add: flush_buf_def sendbuf_at_def)

lemma flush_context_ok:
  "\<exists>p. sndbuf (snd_of flush_context p) = Some 0 \<and> mss (snd_of flush_context p) = 14 \<and> snd_nxt (tcb_of flush_context p) = 1001 \<and>
    sb_of flush_context 0 = flush_buf \<and>
    flush_ok flush_context p 0 0 5 (min (cwnd (snd_of flush_context p)) (peer_wnd (snd_of flush_context p)))"
proof -
  let ?t = "sample_tcb\<lparr>sndvar := (sndvar sample_tcb)\<lparr>sndbuf := Some 0, mss := 14\<rparr>\<rparr>"
  have "\<not> usnet_tcb_isempty ?t" "unqueued ?t"
    using sample_tcb_ok by (simp_all add: usnet_tcb_isempty_def unqueued_def)
  then obtain p where p: "lists_ok (conn_context ?t)" "tcb_of (conn_context ?t) p = ?t"
    using conn_context_ok by blast
  have t: "tcb_of flush_context p = ?t" using p(2) by (simp add: flush_context_def tcb_of_def)
  have sb: "sb_of flush_context 0 = flush_buf" by (simp add: flush_context_def sb_of_def)
  have "lists_ok flush_context"
    by (rule same_queues_ok[OF p(1)]) (simp add: flush_context_def same_queues_def tcb_of_def)
  moreover have "resolved flush_context p"
    by (simp add: resolved_def t usnet_get_hwaddr_def) (simp add: flush_context_def sample_tcb_def)
  ultimately show ?thesis
    by (intro exI[of _ p]) (simp add: flush_ok_def t sb flush_buf_fields sample_tcb_def)
qed

theorem flush_sends_segments_witness:
  "\<exists>p d f g h. usnet_flush_tcp_sendbuf flush_context p = Some (d, 3) \<and> tx_frames d = tx_frames flush_context @ [f, g, h] \<and>
    frame_seg f = Some (1001, [1, 2]) \<and> frame_seg g = Some (1003, [3, 4]) \<and> frame_seg h = Some (1005, [5]) \<and>
    snd_nxt (tcb_of d p) = 1006"
proof -
  obtain p where p: "sndbuf (snd_of flush_context p) = Some 0" "mss (snd_of flush_context p) = 14"
      "snd_nxt (tcb_of flush_context p) = 1001" "sb_of flush_context 0 = flush_buf"
      "flush_ok flush_context p 0 0 5 (min (cwnd (snd_of flush_context p)) (peer_wnd (snd_of flush_context p)))"
    using flush_context_ok by blast
  have b: "unat (sb_sent_head (sb_of flush_context 0)) = 0" "sb_head (sb_of flush_context 0) \<noteq> sb_tail (sb_of flush_context 0)"
    by (simp_all add: p(4) flush_buf_fields)
  have c: "chunks 2 [1, 2, 3, 4, 5 :: byte] = [[1, 2], [3, 4], [5]]" by (simp add: chunks.simps)
  show ?thesis
    using flush_sends_segments[OF p(1,5) b(1) _ b(2)] by (fastforce simp: p(2,3,4) flush_buf_fields c)
qed

end
