(* ===== verification/Data_Ack.thy ===== *)
theory Data_Ack
  imports Tcp_Machine Data_Out
begin

text \<open>
  Acknowledged data: what \<^verbatim>\<open>usnet_process_ack\<close> does with the send buffer of a connection.
\<close>

section \<open>What the phases leave alone\<close>

text \<open>The send buffers and the variables of connection \<open>p\<close> that the later phases read.\<close>

definition ack_same :: "nat \<Rightarrow> usn_context \<Rightarrow> usn_context \<Rightarrow> bool" where
  "ack_same p c d \<longleftrightarrow> sndbuf_cache d = sndbuf_cache c \<and>
     (let t = tcb_of c p; t' = tcb_of d p in
        tcb_state t' = tcb_state t \<and> saw_timestamp t' = saw_timestamp t \<and> snd_nxt t' = snd_nxt t \<and>
        eff_mss (sndvar t') = eff_mss (sndvar t) \<and> rto (sndvar t') = rto (sndvar t) \<and> cwnd (sndvar t') = cwnd (sndvar t) \<and>
        last_ack_seq (rcvvar t') = last_ack_seq (rcvvar t))"

lemma write_event_quiet:
  "usnet_raise_write_event c p = Some d \<Longrightarrow> tcb_of d = tcb_of c \<and> sndbuf_cache d = sndbuf_cache c"
  by (auto simp: usnet_raise_write_event_def n2a_enqueue_def bind_eq_Some_conv tcb_of_def)

lemma ack_window_quiet:
  assumes "at_conn p c0 S c"
  shows "\<exists>d. ack_window c p seq ack w = Some d \<and> ack_same p c d"
proof -
  let ?d = "upd_rcv p (\<lambda>r. r\<lparr>snd_wl1 := seq, snd_wl2 := ack\<rparr>) (upd_snd p (\<lambda>s. s\<lparr>peer_wnd := w\<rparr>) c)"
  have "at_conn p c0 S ?d" using assms by (intro at_upd_rcv at_upd_snd) auto
  then obtain e where e: "usnet_raise_write_event ?d p = Some e" using raise_event_at(2)[of p c0 S ?d] unfolding wp_def by blast
  have "ack_same p c ?d" by (simp add: ack_same_def)
  moreover have "ack_same p c e" using write_event_quiet[OF e] by (simp add: ack_same_def)
  moreover have "ack_same p c c" by (simp add: ack_same_def)
  ultimately show ?thesis using e unfolding ack_window_def Let_def by (auto split: if_splits)
qed

lemma guard_Some: "(if P then None else m) = Some x \<Longrightarrow> m = Some x"
  by (simp split: if_splits)

lemma remove_rto_list_quiet:
  "usnet_remove_rto_list c p = Some d \<Longrightarrow> sndbuf_cache d = sndbuf_cache c \<and> snd_una (snd_of d p) = snd_una (snd_of c p)"
  by (auto simp: usnet_remove_rto_list_def Let_def bind_eq_Some_conv split: if_splits)

lemma retransmission_timer_quiet:
  assumes "usnet_update_retransmission_timer c p = Some d"
  shows "sndbuf_cache d = sndbuf_cache c \<and> snd_una (snd_of d p) = snd_una (snd_of c p)"
proof -
  let ?c = "upd_snd p (\<lambda>s. s\<lparr>nrtx := 0\<rparr>) c"
  obtain e where e: "(if on_rto_idx (tcb_of ?c p) \<ge> 0 then usnet_remove_rto_list ?c p else Some ?c) = Some e"
      "(if TCP_SEQ_GT (snd_nxt (tcb_of e p)) (snd_una (snd_of e p))
        then usnet_add_rto_list (upd_snd p (\<lambda>s. s\<lparr>ts_rto := of_int (cur_time e) + rto s\<rparr>) e) p else Some e) = Some d"
    using guard_Some[OF assms[unfolded usnet_update_retransmission_timer_def Let_def]] unfolding bind_eq_Some_conv by blast
  have "sndbuf_cache e = sndbuf_cache ?c \<and> snd_una (snd_of e p) = snd_una (snd_of ?c p)"
    using e(1) remove_rto_list_quiet[of ?c p e] by (cases "on_rto_idx (tcb_of ?c p) \<ge> 0") simp_all
  moreover have "sndbuf_cache d = sndbuf_cache e \<and> snd_una (snd_of d p) = snd_una (snd_of e p)"
    using e(2) add_rto_list_quiet[of "upd_snd p (\<lambda>s. s\<lparr>ts_rto := of_int (cur_time e) + rto s\<rparr>) e" p d]
    by (cases "TCP_SEQ_GT (snd_nxt (tcb_of e p)) (snd_una (snd_of e p))") (simp_all add: tx_same_def Let_def)
  ultimately show ?thesis by simp
qed

section \<open>Removing the acknowledged bytes\<close>

lemma ack_remove_returns:
  assumes a: "at_conn p c0 S c" and t: "\<not> saw_timestamp (tcb_of c p)" "eff_mss (snd_of c p) \<noteq> 0" "cwnd (snd_of c p) \<noteq> 0" "0 < rto (snd_of c p)"
    and wf: "sendbuf_wf (sb_of c b)" and n: "ack = sb_head_seq (sb_of c b) + of_nat n" "n \<le> sendbuf_used (sb_of c b)"
  shows "\<exists>d. ack_remove c p b ack = Some d \<and> sb_of d b = fst (usnet_remove_data (sb_of c b) (int n)) \<and> snd_una (snd_of d p) = ack"
proof -
  have "n < 2 ^ 30" using n(2) sendbuf_used_le[OF wf] wf unfolding sendbuf_wf_def by linarith
  then have s: "sint (ack - sb_head_seq (sb_of c b)) = int n" using sint_of_nat_small[of n] n(1) by simp
  have e: "(ucast (eff_mss (snd_of c p)) :: u32) \<noteq> 0"
    using t(2) by (metis unat_0 unat_ucast_u16 unsigned_eq_0_iff)
  define k where "k = (ucast ((ack - sb_head_seq (sb_of c b)) div ucast (eff_mss (snd_of c p))) +
      (if (ack - sb_head_seq (sb_of c b)) div ucast (eff_mss (snd_of c p)) * ucast (eff_mss (snd_of c p)) > ack - sb_head_seq (sb_of c b) then 1 else 0) :: u16)"
  obtain w where w: "ack_cwnd (tcb_of c p) k = Some w"
    using t(3) unfolding ack_cwnd_def Let_def
    by (cases "TCPS_ESTABLISHED \<le> tcb_state (tcb_of c p)"; cases "cwnd (snd_of c p) < ssthresh (snd_of c p)") simp_all
  define c1 where "c1 = upd_sb b (fst (usnet_remove_data (sb_of (upd_snd p (\<lambda>s. s\<lparr>cwnd := w\<rparr>) c) b) (int n))) (upd_snd p (\<lambda>s. s\<lparr>cwnd := w\<rparr>) c)"
  define c2 where "c2 = upd_snd p (\<lambda>s. s\<lparr>snd_una := ack, snd_wnd := sb_size (sb_of c1 b) - sb_len (sb_of c1 b)\<rparr>) c1"
  have a2: "at_conn p c0 S c2" unfolding c2_def c1_def by (intro at_upd_snd upd_sb_at a; simp)
  have c2: "sb_of c2 b = fst (usnet_remove_data (sb_of c b) (int n))" "snd_una (snd_of c2 p) = ack" "rto (snd_of c2 p) = rto (snd_of c p)"
    by (simp_all add: c2_def c1_def upd_sb_def sb_of_def upd_snd_def upd_tcb_def tcb_of_def)
  obtain c3 where c3: "(if snd_wnd (snd_of c1 p) = 0 then usnet_raise_write_event c2 p else Some c2) = Some c3" "at_conn p c0 S c3"
      "tcb_of c3 = tcb_of c2" "sndbuf_cache c3 = sndbuf_cache c2"
    using raise_event_at(2)[OF a2] write_event_quiet[of c2 p] a2 by (cases "snd_wnd (snd_of c1 p) = 0") (auto simp: wp_def)
  have "0 < rto (snd_of c3 p)" using c3(3) c2(3) t(4) by simp
  then obtain d where d: "usnet_update_retransmission_timer c3 p = Some d"
    using update_retransmission_timer_at[OF c3(2)] by (auto simp: wp_def)
  have "ack_remove c p b ack = Some d"
    unfolding ack_remove_def Let_def using e t(1) w c3(1) d
    by (simp add: k_def[symmetric] s c1_def[symmetric] c2_def[symmetric] split: if_splits)
  moreover have "sb_of d b = sb_of c2 b" "snd_una (snd_of d p) = ack"
    using retransmission_timer_quiet[OF d] c3(3,4) c2(2) by (simp_all add: sb_of_def)
  ultimately show ?thesis using c2(1) by auto
qed

text \<open>C8. A new acknowledgement of \<open>n\<close> bytes on an established connection that does not use timestamps: exactly the \<open>n\<close>
  oldest bytes leave the send buffer, its sequence number and \<^verbatim>\<open>snd_una\<close> are the number acknowledged, the invariant of the
  network process is kept and no other connection changes.\<close>

theorem ack_releases:
  assumes ok: "ctx_ok c" "0 < tcp_timeout c" "live c p" "tcb_state (tcb_of c p) = TCPS_ESTABLISHED" "sndbuf (snd_of c p) = Some b"
    and wf: "sendbuf_wf (sb_of c b)" "sb_len (sb_of c b) = of_nat (sendbuf_used (sb_of c b))"
    and n: "0 < n" "n \<le> sendbuf_used (sb_of c b)" "\<not> remove_desync (sb_of c b) n"
    and t: "\<not> saw_timestamp (tcb_of c p)" "eff_mss (snd_of c p) \<noteq> 0" "cwnd (snd_of c p) \<noteq> 0" "0 < rto (snd_of c p)"
    and ack: "ack = sb_head_seq (sb_of c b) + of_nat n" "\<not> TCP_SEQ_GT ack (snd_nxt (tcb_of c p))" "ack \<noteq> last_ack_seq (rcv_of c p)"
  shows "\<exists>d. usnet_process_ack c p tcph seq ack window len = Some (d, 0) \<and> ctx_ok d \<and> sendbuf_wf (sb_of d b) \<and>
    sendbuf_content (sb_of d b) = drop n (sendbuf_content (sb_of c b)) \<and> sb_head_seq (sb_of d b) = ack \<and>
    snd_una (snd_of d p) = ack \<and> (\<forall>q. q \<noteq> p \<longrightarrow> tcb_of d q = tcb_of c q)"
proof -
  let ?B = "sb_of c b" and ?S = "{TCPS_ESTABLISHED}" and ?w = "if th_flags tcph AND TH_SYN = 0 then shl32 (scast window) (wscale (snd_of c p)) else scast window"
  have at0: "at_conn p c ?S c" using ok by (simp add: at_conn_def)
  have u: "n < 2 ^ 30" "sendbuf_used ?B < 2 ^ 31" using n(2) sendbuf_used_le[OF wf(1)] wf(1) unfolding sendbuf_wf_def by (linarith, simp)
  have "ack - (sb_head_seq ?B + sb_len ?B) = - of_nat (sendbuf_used ?B - n)" using n(2) by (simp add: ack(1) wf(2))
  then have g: "\<not> TCP_SEQ_GT ack (sb_head_seq ?B + sb_len ?B)"
    using sint_minus_of_nat_small[of "sendbuf_used ?B - n"] u(2) by (simp add: seq_defs)
  obtain c1 where c1: "ack_window c p seq ack ?w = Some c1" "ack_same p c c1" using ack_window_quiet[OF at0] by blast
  have at1: "at_conn p c ?S c1" using ack_window_post[OF at0, of seq ack ?w] c1(1) by (simp add: post_def)
  define c2 where "c2 = upd_rcv p (\<lambda>r. r\<lparr>dup_acks := 0, last_ack_seq := ack\<rparr>) c1"
  have dup: "ack_dup c1 p ack len e = (c2, False)" for e
    using ack(3) c1(2) by (simp add: ack_dup_def Let_def c2_def ack_same_def)
  have at2: "at_conn p c ?S c2" unfolding c2_def by (rule at_upd_rcv[OF at1])
  have s2: "sb_of c2 = sb_of c" "snd_nxt (tcb_of c2 p) = snd_nxt (tcb_of c p)" "dup_acks (rcv_of c2 p) = 0"
      "\<not> saw_timestamp (tcb_of c2 p)" "eff_mss (snd_of c2 p) \<noteq> 0" "cwnd (snd_of c2 p) \<noteq> 0" "0 < rto (snd_of c2 p)"
    using c1(2) t by (simp_all add: ack_same_def c2_def Let_def sb_of_def fun_eq_iff)
  have f: "ack_fast_rtx c2 p ack False = Some c2" "ack_snd_nxt c2 p b ack = Some c2"
    using s2(2,3) ack(2) by (simp_all add: ack_fast_rtx_def ack_snd_nxt_def)
  have h: "\<not> TCP_SEQ_GEQ (sb_head_seq (sb_of c2 b)) ack"
    using n(1) u(1) sint_minus_of_nat_small[of n] by (simp add: seq_defs ack(1) s2(1))
  have r2: "sendbuf_wf (sb_of c2 b)" "ack = sb_head_seq (sb_of c2 b) + of_nat n" "n \<le> sendbuf_used (sb_of c2 b)"
    using wf(1) ack(1) n(2) by (simp_all add: s2(1))
  obtain d where d: "ack_remove c2 p b ack = Some d" "sb_of d b = fst (usnet_remove_data ?B (int n))" "snd_una (snd_of d p) = ack"
    using ack_remove_returns[OF at2 s2(4-7) r2] unfolding s2(1) by blast
  have atd: "at_conn p c ?S d" using ack_remove_post[OF at2, of b ack] d(1) by (simp add: post_def)
  have "usnet_process_ack c p tcph seq ack window len = Some (d, 0)"
    using ok(4,5) g c1(1) dup f h d(1) by (simp add: usnet_process_ack_def Let_def)
  moreover have "sb_head_seq (sb_of d b) = ack" using remove_data_eq[OF wf(1) n(2)] ack(1) by (simp add: d(2))
  ultimately show ?thesis
    using atd d(2,3) remove_data_wf[OF wf(1) n(2)] remove_data_content[OF wf(1) n(2,3)] by (intro exI[of _ d]) (simp add: at_conn_def)
qed

text \<open>The sample connection with five bytes sent, of which three are acknowledged.\<close>

definition ack_context :: usn_context where
  "ack_context = (conn_context (sample_tcb\<lparr>snd_nxt := 1006, sndvar := (sndvar sample_tcb)\<lparr>sndbuf := Some 0\<rparr>\<rparr>))
     \<lparr>sndbuf_cache := (sndbuf_cache fresh_context)\<lparr>hb_cache := (hb_cache (sndbuf_cache fresh_context))(0 := flush_buf)\<rparr>\<rparr>"

lemma ack_context_conn:
  "\<exists>p. ctx_ok ack_context \<and> 0 < tcp_timeout ack_context \<and> live ack_context p \<and>
    tcb_of ack_context p = sample_tcb\<lparr>snd_nxt := 1006, sndvar := (sndvar sample_tcb)\<lparr>sndbuf := Some 0\<rparr>\<rparr>"
proof -
  let ?t = "sample_tcb\<lparr>snd_nxt := 1006, sndvar := (sndvar sample_tcb)\<lparr>sndbuf := Some 0\<rparr>\<rparr>"
  let ?c = "conn_context ?t"
  have "\<not> usnet_tcb_isempty ?t" "unqueued ?t" using sample_tcb_ok by (simp_all add: usnet_tcb_isempty_def unqueued_def)
  then obtain p where p: "ctx_ok ?c" "0 < tcp_timeout ?c" "live ?c p" "tcb_of ?c p = ?t" using conn_context_ctx_ok by blast
  have a: "at_conn p ?c UNIV ?c" using p by (simp add: at_conn_def)
  have s: "same_queues ?c ack_context" "tcb_cache ack_context = tcb_cache ?c" "tcp_timeout ack_context = tcp_timeout ?c"
      "listen_tcb ack_context = listen_tcb ?c" "ev_net2app_mq ack_context = ev_net2app_mq ?c"
    by (simp_all add: ack_context_def same_queues_def tcb_of_def)
  have "mq_ok (ev_net2app_mq ack_context)" using p(1) unfolding s(5) ctx_ok_def by blast
  then have "at_conn p ?c UNIV ack_context" by (rule at_same[OF a s(1,2) _ s(3,4)])
  then show ?thesis using p(4) by (intro exI[of _ p]) (simp add: at_conn_def ack_context_def tcb_of_def)
qed

lemma sample_tcb_fields:
  "tcb_state sample_tcb = TCPS_ESTABLISHED" "\<not> saw_timestamp sample_tcb" "eff_mss (sndvar sample_tcb) = 1448"
  "cwnd (sndvar sample_tcb) = 2920" "rto (sndvar sample_tcb) = 500" "last_ack_seq (rcvvar sample_tcb) = 0"
  by (simp_all add: sample_tcb_def) (simp_all add: zero_tcb_def zero_rcvvars_def)

theorem ack_releases_witness:
  "\<exists>p. \<forall>tcph. \<exists>d. usnet_process_ack ack_context p tcph 501 1004 8000 0 = Some (d, 0) \<and> sendbuf_content (sb_of d 0) = [4, 5] \<and>
    snd_una (snd_of d p) = 1004"
proof -
  obtain p where p: "ctx_ok ack_context" "0 < tcp_timeout ack_context" "live ack_context p"
      "tcb_of ack_context p = sample_tcb\<lparr>snd_nxt := 1006, sndvar := (sndvar sample_tcb)\<lparr>sndbuf := Some 0\<rparr>\<rparr>"
    using ack_context_conn by blast
  have b: "sb_of ack_context 0 = flush_buf" by (simp add: ack_context_def sb_of_def)
  have B: "sendbuf_wf flush_buf" "sendbuf_used flush_buf = 5" "sb_len flush_buf = 5" "\<not> remove_desync flush_buf 3"
    by (simp_all add: sendbuf_wf_def sendbuf_used_def remove_desync_def flush_buf_fields) (simp add: flush_buf_def)
  have upt5: "[0..<5] = [0, 1, 2, 3, 4 :: nat]" by code_simp
  have cb: "sendbuf_content flush_buf = [1, 2, 3, 4, 5]"
    by (simp add: sendbuf_content_def B(2) ring_slice_def flush_buf_fields upt5)
  have t: "tcb_state (tcb_of ack_context p) = TCPS_ESTABLISHED" "sndbuf (snd_of ack_context p) = Some 0" "\<not> saw_timestamp (tcb_of ack_context p)"
      "eff_mss (snd_of ack_context p) \<noteq> 0" "cwnd (snd_of ack_context p) \<noteq> 0" "0 < rto (snd_of ack_context p)"
      "\<not> TCP_SEQ_GT 1004 (snd_nxt (tcb_of ack_context p))" "1004 \<noteq> last_ack_seq (rcv_of ack_context p)"
    unfolding p(4) by (simp_all add: sample_tcb_fields seq_defs)
  have n: "(0 :: nat) < 3" "3 \<le> sendbuf_used (sb_of ack_context 0)" "1004 = sb_head_seq (sb_of ack_context 0) + of_nat 3"
      "sendbuf_wf (sb_of ack_context 0)" "sb_len (sb_of ack_context 0) = of_nat (sendbuf_used (sb_of ack_context 0))"
      "\<not> remove_desync (sb_of ack_context 0) 3"
    unfolding b using B by (simp_all add: flush_buf_fields)
  note d = ack_releases[OF p(1-3) t(1,2) n(4,5,1,2,6) t(3-6) n(3) t(7,8), where seq = 501 and window = 8000 and len = 0, unfolded b cb]
  have "drop 3 [1, 2, 3, 4, 5 :: byte] = [4, 5]" by simp
  then show ?thesis using d by (metis (no_types, lifting))
qed

end
