(* ===== verification/Data_In.thy ===== *)
theory Data_In
  imports Stack_Run
begin

text \<open>
  Receiving the data of a connection: what \<^verbatim>\<open>usnet_process_tcp_payload\<close> does with the segments of a stream.
\<close>

section \<open>One segment\<close>

text \<open>Connection \<open>p\<close> is established, its ring \<open>b\<close> has no gaps, and the window it advertises covers the free bytes of the ring.\<close>

definition rx_ready :: "usn_context \<Rightarrow> nat \<Rightarrow> nat \<Rightarrow> bool" where
  "rx_ready c p b \<longleftrightarrow> mq_ok (ev_net2app_mq c) \<and> tcb_state (tcb_of c p) = TCPS_ESTABLISHED \<and> rcvbuf (rcv_of c p) = Some b \<and>
     rb_wf (rb_of c b) \<and> rb_frags (rb_of c b) = [] \<and> (\<exists>F. F \<noteq> {} \<and> frag_pool (frag_mp c) F) \<and>
     rb_head_seq (rb_of c b) = rcv_nxt (tcb_of c p) \<and>
     length (rb_buf (rb_of c b)) - rb_used (rb_of c b) - 1 \<le> unat (rcv_wnd (rcv_of c p)) \<and> unat (rcv_wnd (rcv_of c p)) < 2 ^ 31"

definition rx_room_of :: "usn_context \<Rightarrow> nat \<Rightarrow> nat" where
  "rx_room_of c b = length (rb_buf (rb_of c b)) - rb_used (rb_of c b) - 1"

lemma in_order_window:
  assumes "0 < n" "n \<le> unat w" "unat w < 2 ^ 31"
  shows "\<not> TCP_SEQ_LT (s + of_nat n) s" "\<not> TCP_SEQ_GT (s + of_nat n) (s + w)" "\<not> TCP_SEQ_LEQ (s + of_nat n) s"
proof -
  have n: "sint (of_nat n :: u32) = int n" using assms by (intro sint_of_nat_small) simp
  have "of_nat n - w = - of_nat (unat w - n)" using assms(2) by simp
  then have "sint (of_nat n - w) \<le> 0" using sint_minus_of_nat_small[of "unat w - n"] assms(3) by simp
  then show "\<not> TCP_SEQ_LT (s + of_nat n) s" "\<not> TCP_SEQ_GT (s + of_nat n) (s + w)" "\<not> TCP_SEQ_LEQ (s + of_nat n) s"
    using n assms(1) by (simp_all add: seq_defs)
qed

text \<open>The context after the segment: \<open>C\<close> is the ring, \<open>mp\<close> the pool of fragments and \<open>q\<close> the event queue.\<close>

definition after_payload :: "usn_context \<Rightarrow> nat \<Rightarrow> nat \<Rightarrow> usn_ringbuf \<Rightarrow> usn_mempool \<Rightarrow> usn_shmmq \<Rightarrow> usn_context" where
  "after_payload c p b C mp q = (upd_rcv p (\<lambda>r. r\<lparr>rcv_wnd := rb_win C\<rparr>) (upd_tcb p (\<lambda>t. t\<lparr>rcv_nxt := rb_head_seq C\<rparr>)
     (upd_rb b C (c\<lparr>frag_mp := mp\<rparr>))))\<lparr>ev_net2app_mq := q\<rparr>"

lemma after_payload_fields:
  "rb_of (after_payload c p b C mp q) = (rb_of c)(b := C)" "frag_mp (after_payload c p b C mp q) = mp"
  "ev_net2app_mq (after_payload c p b C mp q) = q" "sndbuf_cache (after_payload c p b C mp q) = sndbuf_cache c"
  "tcb_of (after_payload c p b C mp q) =
    (tcb_of c)(p := (tcb_of c p)\<lparr>rcv_nxt := rb_head_seq C, rcvvar := (rcv_of c p)\<lparr>rcv_wnd := rb_win C\<rparr>\<rparr>)"
  "same_queues c (after_payload c p b C mp q)"
  by (auto simp: after_payload_def upd_rb_def rb_of_def tcb_of_def upd_rcv_def upd_tcb_def same_queues_def)

text \<open>What holds of a ring, a pool and a queue after an in-order segment.\<close>

definition payload_ok :: "usn_context \<Rightarrow> nat \<Rightarrow> nat \<Rightarrow> byte list \<Rightarrow> usn_ringbuf \<Rightarrow> usn_mempool \<Rightarrow> usn_shmmq \<Rightarrow> bool" where
  "payload_ok c p b payload C mp q \<longleftrightarrow> rb_wf C \<and> rb_frags C = [] \<and> rb_fd C = rb_fd (rb_of c b) \<and> rb_data C = rb_data (rb_of c b) \<and> rb_content C = rb_content (rb_of c b) @ payload \<and>
     length (rb_buf C) = length (rb_buf (rb_of c b)) \<and> rb_head_seq C = rcv_nxt (tcb_of c p) + of_nat (length payload) \<and>
     rb_win C = of_nat (length (rb_buf C) - rb_used C - 1) \<and> (\<exists>F. F \<noteq> {} \<and> frag_pool mp F) \<and> mq_ok q"

lemma payload_ok_ready:
  assumes "rx_ready c p b" "payload_ok c p b payload C mp q"
  shows "rx_ready (after_payload c p b C mp q) p b" "rx_room_of (after_payload c p b C mp q) b = rx_room_of c b - length payload"
proof -
  have C: "rb_wf C" "rb_used C = rb_used (rb_of c b) + length payload"
    using assms(2) length_rb_content[of C] by (simp_all add: payload_ok_def)
  have "rb_win C = of_nat (length (rb_buf C) - rb_used C - 1)" using assms(2) unfolding payload_ok_def by blast
  moreover have "length (rb_buf C) - rb_used C - 1 < 2 ^ 32" using C(1) unfolding rb_wf_def by (elim conjE) simp
  ultimately have "unat (rb_win C) = length (rb_buf C) - rb_used C - 1" by (simp only: unat_of_nat_u32)
  then show "rx_ready (after_payload c p b C mp q) p b"
    using assms C(1) unfolding rx_ready_def after_payload_fields payload_ok_def by (auto simp: rb_wf_def)
  show "rx_room_of (after_payload c p b C mp q) b = rx_room_of c b - length payload"
    using assms(2) C(2) unfolding rx_room_of_def after_payload_fields payload_ok_def by simp
qed

lemma payload_eq:
  assumes r: "rx_ready c p b" and n: "payload \<noteq> []" "length payload \<le> rx_room_of c b"
  shows "\<exists>C mp q. usnet_process_tcp_payload c p payload (rcv_nxt (tcb_of c p)) = Some (after_payload c p b C mp q, 0) \<and>
    payload_ok c p b payload C mp q \<and> mq_messages q = mq_messages (ev_net2app_mq c) @
      (if length (usn_read_ev (tcb_fd (tcb_of c p))) + C_HEAD_SIZE \<le> mq_room (ev_net2app_mq c)
       then [(tcb_fd (tcb_of c p), usn_read_ev (tcb_fd (tcb_of c p)))] else [])"
proof -
  let ?B = "rb_of c b" and ?s = "rcv_nxt (tcb_of c p)" and ?n = "length payload" and ?fd = "tcb_fd (tcb_of c p)"
  obtain F where k: "mq_ok (ev_net2app_mq c)" "tcb_state (tcb_of c p) = TCPS_ESTABLISHED" "rcvbuf (rcv_of c p) = Some b"
      "rb_wf ?B" "rb_frags ?B = []" "F \<noteq> {}" "frag_pool (frag_mp c) F" "rb_head_seq ?B = ?s"
      "rx_room_of c b \<le> unat (rcv_wnd (rcv_of c p))" "unat (rcv_wnd (rcv_of c p)) < 2 ^ 31"
    using r unfolding rx_ready_def rx_room_of_def by blast
  have N: "rb_used ?B + ?n < length (rb_buf ?B)" using k(4) n by (auto simp: rb_wf_def rx_room_of_def)
  let ?C = "\<lambda>last. (rb_push ?B payload)\<lparr>rb_last_seq := last, rb_merged_len := of_nat ?n, rb_head_seq := ?s + of_nat ?n,
        rb_win := of_nat (length (rb_buf ?B) - (rb_used ?B + ?n) - 1)\<rparr>"
  obtain mp last where i: "usnet_insert_fragment (frag_mp c) ?B payload ?s = Some (mp, ?C last, int ?n)" "frag_pool mp F"
    using insert_in_order[OF k(4) N k(5,7,6)] unfolding k(8) by blast
  have lt: "0 < ?n" "?n \<le> unat (rcv_wnd (rcv_of c p))" using n k(9) by simp_all
  note w = in_order_window[OF lt k(10), of ?s]
  let ?d = "upd_rcv p (\<lambda>r. r\<lparr>rcv_wnd := rb_win (?C last)\<rparr>) (upd_tcb p (\<lambda>t. t\<lparr>rcv_nxt := rb_head_seq (?C last)\<rparr>)
     (upd_rb b (?C last) (c\<lparr>frag_mp := mp\<rparr>)))"
  have d: "ev_net2app_mq ?d = ev_net2app_mq c" "tcb_of ?d p = (tcb_of c p)\<lparr>rcv_nxt := ?s + of_nat ?n,
      rcvvar := (rcv_of c p)\<lparr>rcv_wnd := rb_win (?C last)\<rparr>\<rparr>"
    by (simp_all add: upd_rb_def tcb_of_def upd_rcv_def upd_tcb_def)
  have "length (usn_read_ev ?fd) \<le> 64" by (simp add: event_images)
  then obtain q where q: "n2a_enqueue ?d (usn_read_ev ?fd) ?fd = Some (?d\<lparr>ev_net2app_mq := q\<rparr>)" "mq_ok q"
      "mq_messages q = mq_messages (ev_net2app_mq c) @
        (if length (usn_read_ev ?fd) + C_HEAD_SIZE \<le> mq_room (ev_net2app_mq c) then [(?fd, usn_read_ev ?fd)] else [])"
    using n2a_enqueue_messages[of ?d "usn_read_ev ?fd" ?fd] k(1) unfolding d(1) by blast
  have "usnet_process_tcp_payload c p payload ?s = Some (after_payload c p b (?C last) mp q, 0)"
    using w k(2,3) i(1) q(1) d(2)
    by (simp add: usnet_process_tcp_payload_def payload_buffer_def Let_def usnet_raise_read_event_def after_payload_def)
  moreover have "rb_frags (?C last) = []" "length (rb_buf (?C last)) = length (rb_buf ?B)" "rb_fd (?C last) = rb_fd ?B" "rb_data (?C last) = rb_data ?B"
    using k(5) by (simp_all add: rb_push_def)
  then have "payload_ok c p b payload (?C last) mp q"
    using rb_push_props[OF k(4) N] i(2) k(6) q(2) by (auto simp: payload_ok_def)
  ultimately show ?thesis using q(3) by blast
qed

text \<open>C9. A segment that continues the stream of an established connection and fits into its ring: the payload is what the
  application can read next, the next expected byte is the one behind it, the application is told unless its event
  queue is full, and no other connection, buffer or queue changes.\<close>

theorem payload_in_order:
  assumes r: "rx_ready c p b" and n: "payload \<noteq> []" "length payload \<le> rx_room_of c b"
  shows "\<exists>d. usnet_process_tcp_payload c p payload (rcv_nxt (tcb_of c p)) = Some (d, 0) \<and> rx_ready d p b \<and>
    rb_content (rb_of d b) = rb_content (rb_of c b) @ payload \<and> rx_room_of d b = rx_room_of c b - length payload \<and>
    rcv_nxt (tcb_of d p) = rcv_nxt (tcb_of c p) + of_nat (length payload) \<and>
    mq_messages (ev_net2app_mq d) = mq_messages (ev_net2app_mq c) @
      (if length (usn_read_ev (tcb_fd (tcb_of c p))) + C_HEAD_SIZE \<le> mq_room (ev_net2app_mq c)
       then [(tcb_fd (tcb_of c p), usn_read_ev (tcb_fd (tcb_of c p)))] else []) \<and>
    (\<forall>q. q \<noteq> p \<longrightarrow> tcb_of d q = tcb_of c q) \<and> (\<forall>i. i \<noteq> b \<longrightarrow> rb_of d i = rb_of c i) \<and>
    sndbuf_cache d = sndbuf_cache c \<and> same_queues c d"
  using payload_eq[OF assms] payload_ok_ready[OF r] after_payload_fields by (fastforce simp: payload_ok_def)

section \<open>A connection with an empty ring\<close>

definition rx_context :: "u32 \<Rightarrow> usn_context" where
  "rx_context seq = (conn_context (sample_tcb\<lparr>rcv_nxt := seq, rcvvar := (rcvvar sample_tcb)\<lparr>rcvbuf := Some 0\<rparr>\<rparr>))
     \<lparr>frag_mp := frag_pool_new 8,
      ringbuf_cache := (ringbuf_cache fresh_context)\<lparr>hb_cache := (hb_cache (ringbuf_cache fresh_context))(0 := ringbuf_new 64 seq)\<rparr>\<rparr>"

lemma rx_context_ready:
  "\<exists>p. rx_ready (rx_context seq) p 0 \<and> rcv_nxt (tcb_of (rx_context seq) p) = seq \<and> rx_room_of (rx_context seq) 0 = 63 \<and>
    rb_content (rb_of (rx_context seq) 0) = []"
proof -
  let ?t = "sample_tcb\<lparr>rcv_nxt := seq, rcvvar := (rcvvar sample_tcb)\<lparr>rcvbuf := Some 0\<rparr>\<rparr>"
  have "\<not> usnet_tcb_isempty ?t" "unqueued ?t"
    using sample_tcb_ok by (simp_all add: usnet_tcb_isempty_def unqueued_def)
  then obtain p where p: "tcb_of (conn_context ?t) p = ?t" "ev_net2app_mq (conn_context ?t) = mq_new 1024"
    using conn_context_ctx_ok by blast
  have t: "tcb_of (rx_context seq) p = ?t" using p(1) by (simp add: rx_context_def tcb_of_def)
  have q: "mq_ok (ev_net2app_mq (rx_context seq))" using p(2) mq_new_holds(2)[of 1024] by (simp add: rx_context_def)
  have f: "frag_pool (frag_mp (rx_context seq)) {..<nat 8}" using frag_pool_new_ok[of 8] by (simp add: rx_context_def)
  have r: "rb_of (rx_context seq) 0 = ringbuf_new 64 seq" by (simp add: rx_context_def rb_of_def)
  note w = ringbuf_new_wf[of 64 seq]
  have "\<exists>F. F \<noteq> {} \<and> frag_pool (frag_mp (rx_context seq)) F" using f by (intro exI[of _ "{..<nat 8}"]) (simp add: lessThan_empty_iff)
  then show ?thesis
    using q w by (intro exI[of _ p]) (simp add: rx_ready_def rx_room_of_def t r, simp add: sample_tcb_def)
qed

theorem payload_in_order_witness:
  "\<exists>p d. usnet_process_tcp_payload (rx_context 501) p [7, 8, 9] 501 = Some (d, 0) \<and> rb_content (rb_of d 0) = [7, 8, 9] \<and>
    rcv_nxt (tcb_of d p) = 504 \<and> rx_room_of d 0 = 60"
proof -
  obtain p where "rx_ready (rx_context 501) p 0" "rcv_nxt (tcb_of (rx_context 501) p) = 501" "rx_room_of (rx_context 501) 0 = 63"
      "rb_content (rb_of (rx_context 501) 0) = []"
    using rx_context_ready by blast
  then show ?thesis using payload_in_order[of "rx_context 501" p 0 "[7, 8, 9]"] by fastforce
qed

end
