(* ===== verification/Data_Transfer.thy ===== *)
theory Data_Transfer
  imports Data_Out Data_In
begin

text \<open>
  The bytes of a connection on their way from one stack to another: the segments that one sends are those the other
  receives.
\<close>

section \<open>A stream of segments\<close>

text \<open>The segments of a stream, each with the sequence number of its first byte, processed one after the other.\<close>

fun receive_segments :: "usn_context \<Rightarrow> nat \<Rightarrow> (u32 \<times> byte list) list \<Rightarrow> usn_context option" where
  "receive_segments c p [] = Some c"
| "receive_segments c p ((seq, payload) # segs) = do {
     (c, ret) \<leftarrow> usnet_process_tcp_payload c p payload seq;
     if ret < 0 then None else receive_segments c p segs
   }"

text \<open>What the segments leave alone.\<close>

definition rx_kept :: "nat \<Rightarrow> nat \<Rightarrow> usn_context \<Rightarrow> usn_context \<Rightarrow> bool" where
  "rx_kept p b c d \<longleftrightarrow> sndbuf_cache d = sndbuf_cache c \<and> arp_entries d = arp_entries c \<and> if_hwa d = if_hwa c \<and>
     tx_frames d = tx_frames c \<and> (lists_ok c \<longrightarrow> lists_ok d) \<and> tcb_conn (tcb_of d p) = tcb_conn (tcb_of c p) \<and>
     snd_nxt (tcb_of d p) = snd_nxt (tcb_of c p) \<and> snd_of d p = snd_of c p \<and>
     (\<exists>C. ringbuf_cache d = (ringbuf_cache c)\<lparr>hb_cache := (hb_cache (ringbuf_cache c))(b := C)\<rparr> \<and>
        rb_fd C = rb_fd (rb_of c b) \<and> rb_data C = rb_data (rb_of c b) \<and> length (rb_buf C) = length (rb_buf (rb_of c b)))"

lemma rx_kept_refl: "rx_kept p b c c"
  by (auto simp: rx_kept_def rb_of_def intro: exI[of _ "rb_of c b"])

lemma rx_kept_trans: "rx_kept p b c d \<Longrightarrow> rx_kept p b d e \<Longrightarrow> rx_kept p b c e"
  by (auto simp: rx_kept_def rb_of_def)

lemma after_payload_kept:
  assumes "payload_ok c p b payload C mp q"
  shows "rx_kept p b c (after_payload c p b C mp q)"
proof -
  have "lists_ok c \<Longrightarrow> lists_ok (after_payload c p b C mp q)" using same_queues_ok after_payload_fields(6) by blast
  moreover have "ringbuf_cache (after_payload c p b C mp q) = (ringbuf_cache c)\<lparr>hb_cache := (hb_cache (ringbuf_cache c))(b := C)\<rparr>"
    "arp_entries (after_payload c p b C mp q) = arp_entries c" "if_hwa (after_payload c p b C mp q) = if_hwa c"
    "tx_frames (after_payload c p b C mp q) = tx_frames c"
    by (simp_all add: after_payload_def upd_rcv_def upd_tcb_def upd_rb_def)
  ultimately show ?thesis
    using assms unfolding rx_kept_def after_payload_fields(4,5) payload_ok_def by (auto simp: tcb_conn_def)
qed

lemma receive_stream:
  assumes "rx_ready c p b" "\<forall>x \<in> set xs. x \<noteq> []" "length (concat xs) \<le> rx_room_of c b"
  shows "\<exists>d. receive_segments c p (numbered (rcv_nxt (tcb_of c p)) xs) = Some d \<and> rx_ready d p b \<and>
    rb_content (rb_of d b) = rb_content (rb_of c b) @ concat xs \<and>
    rcv_nxt (tcb_of d p) = rcv_nxt (tcb_of c p) + of_nat (length (concat xs)) \<and> rx_kept p b c d"
  using assms
proof (induction xs arbitrary: c)
  case Nil
  then show ?case by (simp add: rx_kept_refl)
next
  case (Cons x xs)
  obtain C mp q where e: "usnet_process_tcp_payload c p x (rcv_nxt (tcb_of c p)) = Some (after_payload c p b C mp q, 0)"
      "payload_ok c p b x C mp q"
    using payload_eq[of c p b x] Cons.prems by auto
  let ?d = "after_payload c p b C mp q"
  have d: "rx_ready ?d p b" "length (concat xs) \<le> rx_room_of ?d b" "rcv_nxt (tcb_of ?d p) = rcv_nxt (tcb_of c p) + of_nat (length x)"
      "rb_content (rb_of ?d b) = rb_content (rb_of c b) @ x"
    using payload_ok_ready[OF Cons.prems(1) e(2)] Cons.prems(3) e(2) by (auto simp: after_payload_fields payload_ok_def)
  obtain f where f: "receive_segments ?d p (numbered (rcv_nxt (tcb_of ?d p)) xs) = Some f" "rx_ready f p b"
      "rb_content (rb_of f b) = rb_content (rb_of ?d b) @ concat xs"
      "rcv_nxt (tcb_of f p) = rcv_nxt (tcb_of ?d p) + of_nat (length (concat xs))" "rx_kept p b ?d f"
    using Cons.IH[OF d(1) _ d(2)] Cons.prems(2) by auto
  show ?case
    using f e(1) d(3,4) rx_kept_trans[OF after_payload_kept[OF e(2)] f(5)] by (intro exI[of _ f]) (simp add: algebra_simps)
qed

lemma chunks_nonempty: "x \<in> set (chunks n xs) \<Longrightarrow> x \<noteq> []"
proof (induction n xs rule: chunks.induct)
  case (1 n xs)
  then show ?case by (subst (asm) (2) chunks.simps) (auto split: if_splits)
qed

text \<open>C6. Data transfer between two stacks. What one flushes from the send buffer of its connection, the other, whose
  connection expects the next byte and has room, delivers to its application: the segments read from the frames sent
  are accepted one by one, and the readable bytes grow by exactly the bytes flushed, in order.\<close>

theorem stream_transfer:
  assumes s: "sndbuf (snd_of c p) = Some b" "flush_ok c p b h t (min (cwnd (snd_of c p)) (peer_wnd (snd_of c p)))"
      "unat (sb_sent_head (sb_of c b)) = h" "h < t" "sb_head (sb_of c b) \<noteq> sb_tail (sb_of c b)"
    and r: "rx_ready e q r" "rcv_nxt (tcb_of e q) = snd_nxt (tcb_of c p)" "t - h \<le> rx_room_of e r"
  shows "\<exists>c' fs segs e'. usnet_flush_tcp_sendbuf c p = Some (c', int (length fs)) \<and> tx_frames c' = tx_frames c @ fs \<and>
    map frame_seg fs = map Some segs \<and> receive_segments e q segs = Some e' \<and>
    rb_content (rb_of e' r) = rb_content (rb_of e r) @ take (t - h) (drop h (sb_data (sb_of c b))) \<and>
    rcv_nxt (tcb_of e' q) = snd_nxt (tcb_of c' p) \<and> rx_ready e' q r"
proof -
  let ?x = "take (t - h) (drop h (sb_data (sb_of c b)))" and ?m = "seg_size c p"
  have m: "0 < ?m" "t < length (sb_data (sb_of c b))" and tl: "unat (sb_tail (sb_of c b)) = t"
    using s(2) unfolding flush_ok_def Let_def by (blast, linarith, blast)
  then have w: "sb_tail (sb_of c b) = of_nat t" "sb_sent_head (sb_of c b) = of_nat h" using s(3) by auto
  obtain c' fs where c': "flush_loop c p b (of_nat ?m) (min (cwnd (snd_of c p)) (peer_wnd (snd_of c p))) (of_nat h)
        (of_nat t) 0 = Some (c', 0 + int (length fs))" "tx_frames c' = tx_frames c @ fs"
      "map frame_seg fs = map Some (numbered (snd_nxt (tcb_of c p)) (chunks ?m ?x))"
      "snd_nxt (tcb_of c' p) = snd_nxt (tcb_of c p) + of_nat (t - h)"
    using flush_loop_sends[OF s(2), of 0] by blast
  have "length (concat (chunks ?m ?x)) = t - h" using concat_chunks[OF m(1), of ?x] m(2) by simp
  then obtain e' where "receive_segments e q (numbered (rcv_nxt (tcb_of e q)) (chunks ?m ?x)) = Some e'" "rx_ready e' q r"
      "rb_content (rb_of e' r) = rb_content (rb_of e r) @ ?x" "rcv_nxt (tcb_of e' q) = rcv_nxt (tcb_of e q) + of_nat (t - h)"
    using receive_stream[OF r(1), of "chunks ?m ?x"] chunks_nonempty concat_chunks[OF m(1), of ?x] r(3) by metis
  then show ?thesis
    using c' s(1,5) w r(2) maxlen_word[OF m(1)] by (auto simp: usnet_flush_tcp_sendbuf_def Let_def)
qed

theorem stream_transfer_witness:
  "\<exists>p c' fs q segs e'. usnet_flush_tcp_sendbuf flush_context p = Some (c', int (length fs)) \<and>
    map frame_seg fs = map Some segs \<and> receive_segments (rx_context 1001) q segs = Some e' \<and> rb_content (rb_of e' 0) = [1, 2, 3, 4, 5]"
proof -
  obtain p where p: "sndbuf (snd_of flush_context p) = Some 0" "snd_nxt (tcb_of flush_context p) = 1001"
      "sb_of flush_context 0 = flush_buf"
      "flush_ok flush_context p 0 0 5 (min (cwnd (snd_of flush_context p)) (peer_wnd (snd_of flush_context p)))"
    using flush_context_ok by blast
  obtain q where q: "rx_ready (rx_context 1001) q 0" "rcv_nxt (tcb_of (rx_context 1001) q) = 1001" "rx_room_of (rx_context 1001) 0 = 63"
      "rb_content (rb_of (rx_context 1001) 0) = []"
    using rx_context_ready by blast
  have b: "unat (sb_sent_head (sb_of flush_context 0)) = 0" "sb_head (sb_of flush_context 0) \<noteq> sb_tail (sb_of flush_context 0)"
    by (simp_all add: p(3) flush_buf_fields)
  show ?thesis
    using stream_transfer[OF p(1,4) b(1) _ b(2) q(1)] by (simp add: p q flush_buf_fields) blast
qed

end
