(* ===== verification/Echo_Server.thy ===== *)
theory Echo_Server
  imports Socket_Api Stack_Run
begin

text \<open>
  The sample server (\<^verbatim>\<open>echosvr.c\<close>): an application process that accepts connections and writes back what it
  reads. It shares the receive rings, the send buffers and the event queues with the network process; what that process does to
  them while the server sleeps for the \<open>k\<close>-th time is the parameter \<open>net k\<close>.
\<close>

section \<open>The server\<close>

text \<open>The loop of \<^verbatim>\<open>handle_fd\<close> that writes \<open>n\<close> bytes of \<open>buf\<close> from \<open>sent\<close> on. It tries again after every refused write, so it
  may not end.\<close>

partial_function (option) write_all ::
  "(nat \<Rightarrow> usn_context \<Rightarrow> usn_context) \<Rightarrow> nat \<Rightarrow> usn_context \<Rightarrow> u32 \<Rightarrow> byte list \<Rightarrow> int \<Rightarrow> int \<Rightarrow> (usn_context \<times> nat) option" where
  "write_all net k ctx fd buf sent n =
     (if n > 0 then do {
        data \<leftarrow> mem_read (nat sent) (nat n) buf;
        (ctx, wbytes) \<leftarrow> usnet_write ctx fd data;
        if wbytes \<le> 0 then write_all net (Suc k) (net k ctx) fd buf sent n
        else write_all net k ctx fd buf (sent + wbytes) (n - wbytes)
      }
      else Some (ctx, k))"

text \<open>\<^verbatim>\<open>handle_fd\<close>; \<open>buf\<close> is its static buffer of 2048 bytes.\<close>

definition handle_fd ::
  "(nat \<Rightarrow> usn_context \<Rightarrow> usn_context) \<Rightarrow> nat \<Rightarrow> usn_context \<Rightarrow> u32 \<Rightarrow> byte list \<Rightarrow> (usn_context \<times> nat \<times> byte list) option" where
  "handle_fd net k ctx fd buf = do {
     (rings, buf, n) \<leftarrow> usnet_read (ringbuf_cache ctx) fd buf;
     let ctx = ctx\<lparr>ringbuf_cache := rings\<rparr>;
     if n \<le> 0 then Some (ctx, k, buf)
     else do {
       (ctx, k) \<leftarrow> write_all net k ctx fd buf 0 n;
       Some (ctx, k, buf)
     }
   }"

text \<open>The start of \<^verbatim>\<open>main\<close> on the context that \<^verbatim>\<open>usnet_setup\<close> returned: an exit status, or the context and the descriptor of the
  listening socket on port 35355 of 10.10.10.2.\<close>

definition server_start ::
  "usn_context option \<Rightarrow> bool \<Rightarrow> bool \<Rightarrow> (usn_context \<Rightarrow> u32 \<Rightarrow> u32 \<Rightarrow> u16 \<Rightarrow> (usn_context \<times> byte list \<times> int) option) \<Rightarrow>
   (int + usn_context \<times> u32) option" where
  "server_start ctx m1 m2 reply =
     (case ctx of
        None \<Rightarrow> Some (Inl 1)
      | Some ctx \<Rightarrow>
          let (ctx, fd) = usnet_socket ctx 2 1 0 in
          if fd < 0 then Some (Inl 0)
          else
            let (ctx, ret) = usnet_bind ctx (of_int fd) 2 (htons 35355) 0x020A0A0A 16 in
            if ret < 0 then Some (Inl 0)
            else do {
              (ctx, ret) \<leftarrow> usnet_listen ctx (of_int fd) m1 m2 reply;
              if ret < 0 then Some (Inl 0) else Some (Inr (ctx, of_int fd))
            })"

text \<open>One event of the loop of \<^verbatim>\<open>main\<close>. The descriptor \<^verbatim>\<open>usnet_accept\<close> returns is watched whatever it is; \<open>0x80000001\<close> is
  \<^verbatim>\<open>USN_EPOLLIN | USN_EPOLLET\<close>.\<close>

definition serve_event ::
  "(nat \<Rightarrow> usn_context \<Rightarrow> usn_context) \<Rightarrow> u32 \<Rightarrow> usn_epoll_event \<Rightarrow> nat \<times> usn_context \<times> usn_epoll_fd usn_hashbase \<times> byte list \<Rightarrow>
   (nat \<times> usn_context \<times> usn_epoll_fd usn_hashbase \<times> byte list) option" where
  "serve_event net fd ev = (\<lambda>(k, ctx, epoll_cache, buf).
     if ee_data ev = fd then do {
       (ctx, conn_sock) \<leftarrow> usnet_accept ctx fd;
       let (epoll_cache, ret) = usnet_epoll_ctl epoll_cache 0 1 (of_int conn_sock)
         \<lparr>ee_events = 0x80000001, ee_data = of_int conn_sock\<rparr>;
       Some (k, ctx, epoll_cache, buf)
     }
     else do {
       (ctx, k, buf) \<leftarrow> handle_fd net k ctx (ee_data ev) buf;
       Some (k, ctx, epoll_cache, buf)
     })"

fun serve_events ::
  "(nat \<Rightarrow> usn_context \<Rightarrow> usn_context) \<Rightarrow> u32 \<Rightarrow> usn_epoll_event list \<Rightarrow> nat \<times> usn_context \<times> usn_epoll_fd usn_hashbase \<times> byte list \<Rightarrow>
   (nat \<times> usn_context \<times> usn_epoll_fd usn_hashbase \<times> byte list) option" where
  "serve_events net fd [] st = Some st"
| "serve_events net fd (ev # evs) st = do { st \<leftarrow> serve_event net fd ev st; serve_events net fd evs st }"

text \<open>One pass of the endless loop; \<open>data\<close> is the static buffer of \<^verbatim>\<open>usnet_epoll_wait\<close>. A pass without events does nothing.\<close>

definition server_pass ::
  "(nat \<Rightarrow> mq_env) \<Rightarrow> bool \<Rightarrow> (nat \<Rightarrow> usn_context \<Rightarrow> usn_context) \<Rightarrow> u32 \<Rightarrow> byte list \<times> nat \<times> usn_context \<times> usn_epoll_fd usn_hashbase \<times> byte list \<Rightarrow>
   (byte list \<times> nat \<times> usn_context \<times> usn_epoll_fd usn_hashbase \<times> byte list) option" where
  "server_pass env ready net fd = (\<lambda>(data, k, ctx, epoll_cache, buf). do {
     (ctx, data, evs) \<leftarrow> usnet_epoll_wait env ready ctx epoll_cache 10 data;
     st \<leftarrow> serve_events net fd evs (k, ctx, epoll_cache, buf);
     Some (data, st)
   })"

section \<open>Writing with retries\<close>

text \<open>The context after the server has slept \<open>i\<close> times from the \<open>k\<close>-th time on.\<close>

fun sleeps :: "(nat \<Rightarrow> usn_context \<Rightarrow> usn_context) \<Rightarrow> nat \<Rightarrow> nat \<Rightarrow> usn_context \<Rightarrow> usn_context" where
  "sleeps net k 0 c = c"
| "sleeps net k (Suc i) c = sleeps net (Suc k) i (net k c)"

text \<open>The send buffer of \<open>fd\<close> is slot \<open>b\<close>, well formed, and the queue to the network process is in order.\<close>

definition tx_open :: "usn_context \<Rightarrow> u32 \<Rightarrow> nat \<Rightarrow> bool" where
  "tx_open c fd b \<longleftrightarrow> usnet_cache_search (sndbuf_cache c) (sb_key fd) = Some b \<and> sendbuf_wf (sb_of c b) \<and> mq_ok (ev_app2net_mq c)"

text \<open>A write of \<open>n\<close> bytes fits: one byte stays free.\<close>

definition tx_fits :: "usn_context \<Rightarrow> nat \<Rightarrow> nat \<Rightarrow> bool" where
  "tx_fits c b n \<longleftrightarrow> n < length (sb_data (sb_of c b)) - sendbuf_used (sb_of c b)"

lemma upd_sb_same: "upd_sb b (sb_of c b) c = c"
  by (simp add: upd_sb_def sb_of_def)

lemma write_refused:
  assumes "tx_open c fd b" "\<not> tx_fits c b (length data)"
  shows "usnet_write c fd data = Some (c, - 1)"
  using assms write_data_full[of "sb_of c b" data] by (simp add: tx_open_def tx_fits_def usnet_write_def upd_sb_same)

text \<open>An accepted write: the data is in the buffer and the network process is told, unless its queue is full.\<close>

definition wrote :: "usn_context \<Rightarrow> u32 \<Rightarrow> nat \<Rightarrow> byte list \<Rightarrow> usn_shmmq \<Rightarrow> usn_context" where
  "wrote c fd b data q = (upd_sb b ((put_buf (sb_of c b) data)\<lparr>sb_len := of_nat (sendbuf_used (sb_of c b) + length data)\<rparr>) c)
     \<lparr>ev_app2net_mq := q\<rparr>"

lemma a2n_enqueue_messages:
  assumes "mq_ok mq" "length ev \<le> 64"
  shows "\<exists>q ret. usnet_shmmq_enqueue mq 0 ev flow = Some (q, ret) \<and> mq_ok q \<and>
    mq_messages q = mq_messages mq @ (if length ev + C_HEAD_SIZE \<le> mq_room mq then [(flow, ev)] else [])"
proof -
  let ?c = "blank_context\<lparr>ev_net2app_mq := mq\<rparr>"
  obtain q where q: "n2a_enqueue ?c ev flow = Some (?c\<lparr>ev_net2app_mq := q\<rparr>)" "mq_ok q"
      "mq_messages q = mq_messages mq @ (if length ev + C_HEAD_SIZE \<le> mq_room mq then [(flow, ev)] else [])"
    using n2a_enqueue_messages[of ?c ev flow] assms by auto
  obtain x ret where x: "usnet_shmmq_enqueue mq 0 ev flow = Some (x, ret)" "?c\<lparr>ev_net2app_mq := x\<rparr> = ?c\<lparr>ev_net2app_mq := q\<rparr>"
    using q(1) by (auto simp: n2a_enqueue_def bind_eq_Some_conv)
  have "x = q" using arg_cong[OF x(2), of ev_net2app_mq] by simp
  then show ?thesis using x(1) q(2,3) by blast
qed

lemma write_accepted:
  assumes o: "tx_open c fd b" and f: "tx_fits c b (length data)" and n: "data \<noteq> []"
  shows "\<exists>q. usnet_write c fd data = Some (wrote c fd b data q, int (length data)) \<and> mq_ok q \<and>
    mq_messages q = mq_messages (ev_app2net_mq c) @
      (if length (usn_write_ev fd) + C_HEAD_SIZE \<le> mq_room (ev_app2net_mq c) then [(fd, usn_write_ev fd)] else [])"
proof -
  let ?B = "sb_of c b"
  have wf: "sendbuf_wf ?B" "length data < length (sb_data ?B) - sendbuf_used ?B" using o f by (simp_all add: tx_open_def tx_fits_def)
  have l: "usnet_get_sendbuf_len (put_buf ?B data) = int (sendbuf_used ?B + length data)"
    using sendbuf_used_word[OF put_buf_wf[OF wf]] put_buf_used[OF wf] by (simp add: usnet_get_sendbuf_len_def)
  have "mq_ok (ev_app2net_mq c)" "length (usn_write_ev fd) \<le> 64" using o by (simp_all add: tx_open_def event_images)
  then obtain q ret where q: "usnet_shmmq_enqueue (ev_app2net_mq c) 0 (usn_write_ev fd) fd = Some (q, ret)" "mq_ok q"
      "mq_messages q = mq_messages (ev_app2net_mq c) @
        (if length (usn_write_ev fd) + C_HEAD_SIZE \<le> mq_room (ev_app2net_mq c) then [(fd, usn_write_ev fd)] else [])"
    using a2n_enqueue_messages by blast
  have "usnet_write c fd data = Some (wrote c fd b data q, int (length data))"
    using o n q(1) write_data_eq[OF wf] unfolding l
    by (simp add: usnet_write_def usnet_write_notify_def tx_open_def wrote_def upd_sb_def)
  then show ?thesis using q(2,3) by blast
qed

text \<open>A write that is refused: there is no send buffer, or not enough room in it.\<close>

definition tx_refused :: "usn_context \<Rightarrow> u32 \<Rightarrow> nat \<Rightarrow> bool" where
  "tx_refused c fd n \<longleftrightarrow> usnet_cache_search (sndbuf_cache c) (sb_key fd) = None \<or> (\<exists>b. tx_open c fd b \<and> \<not> tx_fits c b n)"

lemma refused_write: "tx_refused c fd (length data) \<Longrightarrow> usnet_write c fd data = Some (c, - 1)"
  using write_refused by (auto simp: tx_refused_def usnet_write_def)

lemma write_all_waits:
  assumes "\<forall>i < j. tx_refused (sleeps net k i c) fd (length data)" "mem_read (nat sent) (nat n) buf = Some data" "0 < n"
  shows "write_all net k c fd buf sent n = write_all net (k + j) (sleeps net k j c) fd buf sent n"
  using assms(1)
proof (induction j arbitrary: k c)
  case (Suc j)
  have "tx_refused c fd (length data)" using Suc.prems[rule_format, of 0] by simp
  then have "write_all net k c fd buf sent n = write_all net (Suc k) (net k c) fd buf sent n"
    using assms(2,3) by (subst write_all.simps) (simp add: refused_write)
  moreover have "\<forall>i < j. tx_refused (sleeps net (Suc k) i (net k c)) fd (length data)"
    using Suc.prems by (metis Suc_mono sleeps.simps(2))
  ultimately show ?case using Suc.IH by simp
qed simp

lemma write_all_accepted:
  assumes "tx_open c fd b" "tx_fits c b (length data)" "data \<noteq> []" "mem_read 0 (length data) buf = Some data"
  shows "\<exists>q. write_all net k c fd buf 0 (int (length data)) = Some (wrote c fd b data q, k) \<and> mq_ok q \<and>
    mq_messages q = mq_messages (ev_app2net_mq c) @
      (if length (usn_write_ev fd) + C_HEAD_SIZE \<le> mq_room (ev_app2net_mq c) then [(fd, usn_write_ev fd)] else [])"
proof -
  obtain q where q: "usnet_write c fd data = Some (wrote c fd b data q, int (length data))" "mq_ok q"
      "mq_messages q = mq_messages (ev_app2net_mq c) @
        (if length (usn_write_ev fd) + C_HEAD_SIZE \<le> mq_room (ev_app2net_mq c) then [(fd, usn_write_ev fd)] else [])"
    using write_accepted[OF assms(1-3)] by blast
  have "write_all net k d fd buf s 0 = Some (d, k)" for d s by (subst write_all.simps) simp
  then have "write_all net k c fd buf 0 (int (length data)) = Some (wrote c fd b data q, k)"
    using assms(3,4) q(1) by (subst write_all.simps) simp
  then show ?thesis using q(2,3) by blast
qed

lemma write_all_stuck:
  assumes "\<forall>i. tx_refused (sleeps net k i c) fd (length data)" "mem_read (nat sent) (nat n) buf = Some data" "0 < n"
  shows "write_all net k c fd buf sent n = None"
proof -
  let ?P = "\<lambda>net k c fd buf sent n (y :: usn_context \<times> nat). (\<forall>i. tx_refused (sleeps net k i c) fd (length data)) \<longrightarrow>
    mem_read (nat sent) (nat n) buf = Some data \<longrightarrow> 0 < n \<longrightarrow> False"
  have "?P net k c fd buf sent n y" if y: "write_all net k c fd buf sent n = Some y" for y
  proof (rule write_all.raw_induct[of ?P, OF _ y], intro impI, goal_cases)
    case (1 rec net k c fd buf sent n y)
    have "usnet_write c fd data = Some (c, - 1)" using 1(3)[rule_format, of 0] by (simp add: refused_write)
    then have "rec net (Suc k) (net k c) fd buf sent n = Some y" using 1(2,4,5) by simp
    moreover have "\<forall>i. tx_refused (sleeps net (Suc k) i (net k c)) fd (length data)" using 1(3) by (metis sleeps.simps(2))
    ultimately show ?case using 1(1,4,5) by blast
  qed
  then show ?thesis using assms by (cases "write_all net k c fd buf sent n") blast+
qed

section \<open>The echo\<close>

text \<open>The receive ring of \<open>fd\<close> is slot \<open>r\<close>, it holds data, and a wrapped ring does not overrun the server's buffer of \<open>m\<close> bytes.\<close>

definition rx_pending :: "usn_context \<Rightarrow> u32 \<Rightarrow> nat \<Rightarrow> nat \<Rightarrow> bool" where
  "rx_pending c fd r m \<longleftrightarrow>
     usnet_cache_search (ringbuf_cache c) \<lparr>rb_fd = fd, rb_data = 0, rb_head = 0, rb_size = 0, rb_head_seq = 0, rb_last_seq = 0,
       rb_merged_len = 0, rb_win = 0, rb_frags = [], rb_buf = []\<rparr> = Some r \<and>
     rb_wf (rb_of c r) \<and> rb_used (rb_of c r) \<noteq> 0 \<and> 0 < m \<and>
     (unat (rb_head (rb_of c r)) < unat (rb_data (rb_of c r)) \<longrightarrow> length (rb_buf (rb_of c r)) - unat (rb_data (rb_of c r)) \<le> m)"

text \<open>The context after the server has read.\<close>

definition after_read :: "usn_context \<Rightarrow> u32 \<Rightarrow> byte list \<Rightarrow> usn_context" where
  "after_read c fd buf = c\<lparr>ringbuf_cache := fst (the (usnet_read (ringbuf_cache c) fd buf))\<rparr>"

lemma handle_fd_read:
  assumes "rx_pending c fd r (length buf)"
  defines "x \<equiv> take (length buf) (rb_content (rb_of c r))"
  shows "\<exists>buf'. handle_fd net k c fd buf = do {
      (d, k) \<leftarrow> write_all net k (after_read c fd buf) fd buf' 0 (int (length x));
      Some (d, k, buf')
    } \<and> mem_read 0 (length x) buf' = Some x \<and> x \<noteq> [] \<and> rb_content (rb_of (after_read c fd buf) r) = drop (length buf) (rb_content (rb_of c r))"
proof -
  have k: "rb_wf (rb_of c r)" "rb_used (rb_of c r) \<noteq> 0" "0 < length buf" "unat (rb_head (rb_of c r)) < unat (rb_data (rb_of c r)) \<longrightarrow>
      length (rb_buf (rb_of c r)) - unat (rb_data (rb_of c r)) \<le> length buf"
    using assms(1) by (auto simp: rx_pending_def)
  obtain R where R: "ringbuf_read (rb_of c r) buf = Some (R, x @ drop (rb_used (rb_of c r)) buf, int (min (rb_used (rb_of c r)) (length buf)))"
      "rb_content R = drop (length buf) (rb_content (rb_of c r))"
    using read_content[OF k(1,2,4)] unfolding x_def by blast
  have x: "length x = min (rb_used (rb_of c r)) (length buf)" by (simp add: x_def)
  have a: "usnet_read (ringbuf_cache c) fd buf = Some ((ringbuf_cache c)\<lparr>hb_cache := (hb_cache (ringbuf_cache c))(r := R)\<rparr>,
      x @ drop (rb_used (rb_of c r)) buf, int (length x))"
    using assms(1) R(1) x by (simp add: usnet_read_def rx_pending_def rb_of_def)
  have nx: "0 < length x" using x k by simp
  have "handle_fd net k c fd buf = do {
      (d, k) \<leftarrow> write_all net k (after_read c fd buf) fd (x @ drop (rb_used (rb_of c r)) buf) 0 (int (length x));
      Some (d, k, x @ drop (rb_used (rb_of c r)) buf)
    }"
    using nx by (simp add: handle_fd_def after_read_def a)
  moreover have "mem_read 0 (length x) (x @ drop (rb_used (rb_of c r)) buf) = Some x" by (simp add: mem_read_def)
  moreover have "rb_content (rb_of (after_read c fd buf) r) = drop (length buf) (rb_content (rb_of c r))"
    using R(2) by (simp add: after_read_def a rb_of_def)
  ultimately show ?thesis using nx by (intro exI[of _ "x @ drop (rb_used (rb_of c r)) buf"]) simp
qed

end
