(* ===== verification/Echo_Trip.thy ===== *)
theory Echo_Trip
  imports Data_Transfer Echo_Server Sample_Contexts
begin

text \<open>
  The echo server as a whole: segments that the network process receives, the server that reads and writes, and the segments the
  network process sends back.
\<close>

section \<open>Shared memory\<close>

text \<open>The receive rings and the send buffers are in memory that both processes map: \<open>share c d\<close> is context \<open>c\<close> with
  those of \<open>d\<close>.\<close>

definition share :: "usn_context \<Rightarrow> usn_context \<Rightarrow> usn_context" where
  "share c d = c\<lparr>ringbuf_cache := ringbuf_cache d, sndbuf_cache := sndbuf_cache d\<rparr>"

lemma share_fields:
  "ringbuf_cache (share c d) = ringbuf_cache d" "sndbuf_cache (share c d) = sndbuf_cache d" "tcb_of (share c d) = tcb_of c"
  "rb_of (share c d) = rb_of d" "sb_of (share c d) = sb_of d" "ev_app2net_mq (share c d) = ev_app2net_mq c"
  "tx_frames (share c d) = tx_frames c" "arp_entries (share c d) = arp_entries c" "if_hwa (share c d) = if_hwa c"
  "same_queues c (share c d)"
  by (simp_all add: share_def tcb_of_def rb_of_def sb_of_def same_queues_def fun_eq_iff)

section \<open>From segment to segment\<close>

text \<open>Connection \<open>p\<close> of \<open>c\<close>, descriptor \<open>fd\<close>, is idle: its ring \<open>r\<close> is empty, everything in its send buffer \<open>b\<close> has been
  sent, and \<open>n\<close> bytes can be received, written and sent without crossing the end of a block.\<close>

definition idle_conn :: "usn_context \<Rightarrow> nat \<Rightarrow> u32 \<Rightarrow> nat \<Rightarrow> nat \<Rightarrow> nat \<Rightarrow> bool" where
  "idle_conn c p fd r b n \<longleftrightarrow> rx_ready c p r \<and> rb_used (rb_of c r) = 0 \<and> n \<le> rx_room_of c r \<and>
     unat (rb_data (rb_of c r)) + n \<le> length (rb_buf (rb_of c r)) \<and>
     ringbufs.fns (ringbuf_cache c) \<and>
     usnet_cache_search (ringbuf_cache c) \<lparr>rb_fd = fd, rb_data = 0, rb_head = 0, rb_size = 0, rb_head_seq = 0, rb_last_seq = 0,
       rb_merged_len = 0, rb_win = 0, rb_frags = [], rb_buf = []\<rparr> = Some r \<and>
     usnet_cache_search (sndbuf_cache c) (sb_key fd) = Some b \<and> sndbuf (snd_of c p) = Some b \<and>
     sendbuf_wf (sb_of c b) \<and> tx_fits c b n \<and> lists_ok c \<and> resolved c p \<and>
     (let buf = sb_of c b; m = unat (mss (snd_of c p)) - 12; s = snd_nxt (tcb_of c p);
          w = min (cwnd (snd_of c p)) (peer_wnd (snd_of c p)) in
        sb_sent_head buf = sb_tail buf \<and> 0 < m \<and> m \<le> 1460 \<and> unat (sb_tail buf) + n + m < length (sb_data buf) \<and>
        unat (s - snd_una (snd_of c p)) + n \<le> unat w \<and> unat (s - sb_head_seq buf) + n < 2 ^ 31)"

text \<open>A ring that does not cross the end of its block is not wrapped.\<close>

lemma not_wrapped:
  assumes "rb_wf C" "unat (rb_data C) + rb_used C \<le> length (rb_buf C)" "rb_used C \<noteq> 0"
  shows "unat (rb_data C) \<le> unat (rb_head C)"
  using assms by (auto simp: rb_wf_def rb_used_def ring_used_def split: if_splits)

lemma idle_received:
  assumes i: "idle_conn c p fd r b n" and k: "rx_kept p r c c1" and x: "rb_content (rb_of c1 r) = x" "rb_wf (rb_of c1 r)" "length x = n" "0 < n" "n \<le> m"
    and a: "mq_ok (ev_app2net_mq a)"
  shows "rx_pending (share a c1) fd r m" "tx_open (share a c1) fd b" "tx_fits (share a c1) b n"
proof -
  obtain C where C: "ringbuf_cache c1 = (ringbuf_cache c)\<lparr>hb_cache := (hb_cache (ringbuf_cache c))(r := C)\<rparr>" "rb_fd C = rb_fd (rb_of c r)"
      "rb_data C = rb_data (rb_of c r)" "length (rb_buf C) = length (rb_buf (rb_of c r))" and sb: "sndbuf_cache c1 = sndbuf_cache c"
    using k unfolding rx_kept_def by blast
  have c1: "rb_of c1 r = C" "sb_of c1 = sb_of c" using C(1) sb by (simp_all add: rb_of_def sb_of_def fun_eq_iff)
  have u: "rb_used C = n" using x length_rb_content[of C] c1(1) by simp
  have "unat (rb_data C) + rb_used C \<le> length (rb_buf C)" using i C(3,4) u unfolding idle_conn_def by simp
  then have "unat (rb_data C) \<le> unat (rb_head C)" using not_wrapped x(2,4) c1(1) u by blast
  moreover have "usnet_cache_search (ringbuf_cache c1) s = usnet_cache_search (ringbuf_cache c) s" for s
    using ringbufs.search_update[of "ringbuf_cache c" C r] C(1,2) i unfolding idle_conn_def by (simp add: rb_of_def)
  ultimately show "rx_pending (share a c1) fd r m"
    using i x c1 u unfolding rx_pending_def share_fields idle_conn_def by auto
  show "tx_open (share a c1) fd b" "tx_fits (share a c1) b n"
    using i a sb c1(2) unfolding tx_open_def tx_fits_def share_fields idle_conn_def by auto
qed

lemma unat_u32_eq: "unat (a :: u32) = n \<Longrightarrow> a = of_nat n"
  by auto

text \<open>What the server leaves for the network process: the bytes behind those already sent.\<close>

lemma idle_written:
  assumes i: "idle_conn c p fd r b n" and k: "rx_kept p r c c1" and x: "length x = n" "0 < n"
    and d: "sndbuf_cache d = sndbuf_cache (wrote (share a' c1) fd b x q)"
  defines "w \<equiv> min (cwnd (snd_of c p)) (peer_wnd (snd_of c p))" and "t \<equiv> unat (sb_tail (sb_of c b))"
  shows "flush_ok (share c1 d) p b t (t + n) w" "sb_head (sb_of d b) \<noteq> sb_tail (sb_of d b)"
    "unat (sb_sent_head (sb_of d b)) = t" "take n (drop t (sb_data (sb_of d b))) = x"
proof -
  let ?B = "sb_of c b"
  have c1: "sb_of c1 = sb_of c" "tcb_conn (tcb_of c1 p) = tcb_conn (tcb_of c p)" "snd_nxt (tcb_of c1 p) = snd_nxt (tcb_of c p)"
      "snd_of c1 p = snd_of c p" "arp_entries c1 = arp_entries c" "if_hwa c1 = if_hwa c" "lists_ok c \<longrightarrow> lists_ok c1"
    using k by (auto simp: rx_kept_def sb_of_def fun_eq_iff)
  have B: "sendbuf_wf ?B" "length x < length (sb_data ?B) - sendbuf_used ?B" "sb_sent_head ?B = sb_tail ?B"
      "t + n + seg_size c p < length (sb_data ?B)"
    using i x unfolding idle_conn_def tx_fits_def t_def Let_def by blast+
  have D: "sb_of d b = (put_buf ?B x)\<lparr>sb_len := of_nat (sendbuf_used ?B + n)\<rparr>"
    using arg_cong[OF d, of hb_cache] x(1) c1(1) by (simp add: wrote_def upd_sb_def sb_of_def share_fields)
  have tl: "unat (sb_tail (sb_of d b)) = t + n" using unat_put_tail(1)[OF B(1,2)] B(4) x(1) by (simp add: D put_tail_def t_def)
  have dt: "sb_data (sb_of d b) = take t (sb_data ?B) @ x @ drop (t + n) (sb_data ?B)"
    using mem_write_ring[of t x "sb_data ?B"] B(4) x(1) by (simp add: D put_buf_def written_def Let_def t_def mem_write_def)
  then show "take n (drop t (sb_data (sb_of d b))) = x" using B(4) x(1) by simp
  show "unat (sb_sent_head (sb_of d b)) = t" using B(3) by (simp add: D put_buf_def t_def)
  have "sendbuf_used (put_buf ?B x) = sendbuf_used ?B + n" using put_buf_used[OF B(1,2)] x(1) by simp
  then show "sb_head (sb_of d b) \<noteq> sb_tail (sb_of d b)" using x(2) by (auto simp: D sendbuf_used_def split: if_splits)
  have "resolved (share c1 d) p"
    using i c1(2,5,6) unfolding idle_conn_def resolved_def usnet_get_hwaddr_def share_fields by (simp add: tcb_conn_def)
  moreover have "lists_ok (share c1 d)" using i c1(7) same_queues_ok share_fields(10) unfolding idle_conn_def by blast
  moreover have "unat (sb_size (sb_of d b)) = length (sb_data (sb_of d b))" "length (sb_data (sb_of d b)) = length (sb_data ?B)"
    "sb_head_seq (sb_of d b) = sb_head_seq ?B"
    using B(1) by (simp_all add: D sendbuf_wf_def)
  ultimately show "flush_ok (share c1 d) p b t (t + n) w"
    using i B(1) tl c1(3,4) unfolding flush_ok_def share_fields idle_conn_def w_def t_def sendbuf_wf_def Let_def by auto
qed

text \<open>C5. The whole program as an echo server: the payload of in-order segments on an idle connection is read by the server,
  written back and sent; the frames carry the bytes received, in order, cut into segments of the connection's own
  maximal size less the 12 bytes of the timestamp option, and numbered from its next sequence number on.\<close>

theorem echo_round_trip:
  assumes "idle_conn c p fd r b (length (concat xs))" "\<forall>x \<in> set xs. x \<noteq> []" "xs \<noteq> []" "length (concat xs) \<le> length buf"
    "mq_ok (ev_app2net_mq a)"
  shows "\<exists>c1 a1 buf' d fs. receive_segments c p (numbered (rcv_nxt (tcb_of c p)) xs) = Some c1 \<and>
    handle_fd net k (share a c1) fd buf = Some (a1, k, buf') \<and>
    usnet_flush_tcp_sendbuf (share c1 a1) p = Some (d, int (length fs)) \<and> tx_frames d = tx_frames c @ fs \<and>
    map frame_seg fs = map Some (numbered (snd_nxt (tcb_of c p)) (chunks (unat (mss (snd_of c p)) - 12) (concat xs)))"
proof -
  let ?x = "concat xs" and ?n = "length (concat xs)"
  have n: "0 < ?n" using assms(2,3) by (cases xs) auto
  have c: "rx_ready c p r" "?n \<le> rx_room_of c r" "sndbuf (snd_of c p) = Some b" "rb_used (rb_of c r) = 0"
    using assms(1) unfolding idle_conn_def by blast+
  have e: "rb_content (rb_of c r) = []" using c(4) by (simp flip: length_0_conv)
  obtain c1 where c1: "receive_segments c p (numbered (rcv_nxt (tcb_of c p)) xs) = Some c1" "rx_ready c1 p r"
      "rb_content (rb_of c1 r) = ?x" "rx_kept p r c c1"
    using receive_stream[OF c(1) assms(2) c(2)] e by auto
  have wf: "rb_wf (rb_of c1 r)" using c1(2) by (simp add: rx_ready_def)
  note io = idle_received[OF assms(1) c1(4,3) wf refl n assms(4,5)]
  have tx: "take (length buf) (rb_content (rb_of (share a c1) r)) = ?x" using c1(3) assms(4) by (simp add: share_fields)
  obtain buf' where h: "handle_fd net k (share a c1) fd buf = do {
      (d, k) \<leftarrow> write_all net k (after_read (share a c1) fd buf) fd buf' 0 (int ?n); Some (d, k, buf') }"
      "mem_read 0 ?n buf' = Some ?x" "?x \<noteq> []"
    using handle_fd_read[OF io(1), of net k] unfolding tx by blast
  let ?a = "after_read (share a c1) fd buf"
  have "sndbuf_cache ?a = sndbuf_cache (share a c1)" "ev_app2net_mq ?a = ev_app2net_mq (share a c1)" by (simp_all add: after_read_def)
  then have o: "tx_open ?a fd b" "tx_fits ?a b ?n" "sb_of ?a = sb_of (share a c1)"
    using io(2,3) by (simp_all add: tx_open_def tx_fits_def sb_of_def fun_eq_iff)
  obtain q where q: "write_all net k ?a fd buf' 0 (int ?n) = Some (wrote ?a fd b ?x q, k)"
    using write_all_accepted[OF o(1,2) h(3,2), of net k] by blast
  let ?w = "wrote ?a fd b ?x q"
  have "sndbuf_cache ?w = sndbuf_cache (wrote (share a c1) fd b ?x q)"
    using o(3) by (simp add: wrote_def upd_sb_def after_read_def)
  note iw = idle_written[OF assms(1) c1(4) refl n this]
  have k: "snd_of c1 p = snd_of c p" "snd_nxt (tcb_of c1 p) = snd_nxt (tcb_of c p)" "tx_frames c1 = tx_frames c" using c1(4) by (simp_all add: rx_kept_def)
  have m: "0 < seg_size c p" using assms(1) unfolding idle_conn_def Let_def by blast
  let ?t = "unat (sb_tail (sb_of c b))"
  have "unat (sb_tail (sb_of ?w b)) = ?t + ?n" using iw(1) unfolding flush_ok_def Let_def share_fields by blast
  note w = this[THEN unat_u32_eq] iw(3)[THEN unat_u32_eq]
  show ?thesis
    using flush_loop_sends[OF iw(1), of 0] c1(1) h(1) q c(3) k iw(2,4) w maxlen_word[OF m]
    by (auto simp: usnet_flush_tcp_sendbuf_def Let_def share_fields)
qed

section \<open>A connection to echo on\<close>

definition echo_ring :: usn_ringbuf where
  "echo_ring = ringbuf_new 64 501"

definition echo_buf :: usn_sendbuf where
  "echo_buf = (sendbuf_at 0 0 (replicate 64 0))\<lparr>sb_fd := 7, sb_head_seq := 1001\<rparr>"

text \<open>The sample connection with room for two bytes of data in a segment and descriptor 7, whose ring and send buffer are in the tables.\<close>

definition echo_context :: usn_context where
  "echo_context = (conn_context (sample_tcb\<lparr>tcb_fd := 7,
       rcvvar := (rcvvar sample_tcb)\<lparr>rcvbuf := snd (usnet_cache_insert (ringbuf_cache fresh_context) echo_ring)\<rparr>,
       sndvar := (sndvar sample_tcb)\<lparr>sndbuf := snd (usnet_cache_insert (sndbuf_cache fresh_context) echo_buf), mss := 14\<rparr>\<rparr>))
     \<lparr>arp_entries := [\<lparr>arp_ip = 0x0200000A, arp_haddr = [2, 0, 0, 0, 0, 2]\<rparr>], if_hwa := [2, 0, 0, 0, 0, 1],
      frag_mp := frag_pool_new 8,
      ringbuf_cache := fst (usnet_cache_insert (ringbuf_cache fresh_context) echo_ring),
      sndbuf_cache := fst (usnet_cache_insert (sndbuf_cache fresh_context) echo_buf)\<rparr>"

definition server_buf :: "byte list" where
  "server_buf = replicate 2048 0"

definition echo_app :: usn_context where
  "echo_app = blank_context\<lparr>ev_app2net_mq := mq_new 1024\<rparr>"

lemma setup_tables_ringbufs:
  assumes "usnet_setup_tables c n1 n2 m = Some d"
  shows "(\<forall>q. rb_fd (hb_cache (ringbuf_cache d) q) = 0) \<and> hb_time (ringbuf_cache d) = 10"
proof -
  let ?z = "\<lparr>rb_fd = 0, rb_data = 0, rb_head = 0, rb_size = 0, rb_head_seq = 0, rb_last_seq = 0,
        rb_merged_len = 0, rb_win = 0, rb_frags = [], rb_buf = replicate n1 0\<rparr>"
  show ?thesis
    using assms cache_init_100[of "48 + n1" ?z usnet_rb_eq usnet_rb_key usnet_rb_isempty usnet_rb_setempty]
    by (auto simp: usnet_setup_tables_def usnet_ringbuf_init_def usnet_sendbuf_init_def usnet_rtohash_init_def
        usnet_arp_init_def usnet_socket_init_def usnet_tcp_init_def bind_eq_Some_conv Let_def)
qed

lemma fresh_tables:
  "ringbufs.fns (ringbuf_cache fresh_context)"
  "rb_fd R = 7 \<Longrightarrow> \<exists>r. usnet_cache_insert (ringbuf_cache fresh_context) R = ((ringbuf_cache fresh_context)
      \<lparr>hb_cache := (hb_cache (ringbuf_cache fresh_context))(r := R)\<rparr>, Some r) \<and>
    (\<forall>k. rb_fd k = 7 \<longrightarrow> usnet_cache_search ((ringbuf_cache fresh_context)
      \<lparr>hb_cache := (hb_cache (ringbuf_cache fresh_context))(r := R)\<rparr>) k = Some r)"
  "sb_fd B = 7 \<Longrightarrow> \<exists>b. usnet_cache_insert (sndbuf_cache fresh_context) B = ((sndbuf_cache fresh_context)
      \<lparr>hb_cache := (hb_cache (sndbuf_cache fresh_context))(b := B)\<rparr>, Some b) \<and>
    (\<forall>k. sb_fd k = 7 \<longrightarrow> usnet_cache_search ((sndbuf_cache fresh_context)
      \<lparr>hb_cache := (hb_cache (sndbuf_cache fresh_context))(b := B)\<rparr>) k = Some b)"
proof -
  obtain d where d: "usnet_setup_tables (usnet_create_context blank_context) 64 64 blank_chunks = Some d" "fresh_context = d"
    using setup_tables_fresh[of blank_context 64 64 blank_chunks] by (auto simp: fresh_context_def blank_context_def)
  have f: "ringbufs.fns (ringbuf_cache fresh_context)" "ringbufs.wf (ringbuf_cache fresh_context)"
      "sendbufs.fns (sndbuf_cache fresh_context)" "sendbufs.wf (sndbuf_cache fresh_context)"
    using fresh_context_fresh(1) by (simp_all add: ctx_fresh_def)
  then show "ringbufs.fns (ringbuf_cache fresh_context)" by blast
  show "rb_fd R = 7 \<Longrightarrow> \<exists>r. usnet_cache_insert (ringbuf_cache fresh_context) R = ((ringbuf_cache fresh_context)
      \<lparr>hb_cache := (hb_cache (ringbuf_cache fresh_context))(r := R)\<rparr>, Some r) \<and>
    (\<forall>k. rb_fd k = 7 \<longrightarrow> usnet_cache_search ((ringbuf_cache fresh_context)
      \<lparr>hb_cache := (hb_cache (ringbuf_cache fresh_context))(r := R)\<rparr>) k = Some r)"
    using ringbufs.insert_empty[OF f(1,2), of R] setup_tables_ringbufs[OF d(1)] d(2) by simp
  show "sb_fd B = 7 \<Longrightarrow> \<exists>b. usnet_cache_insert (sndbuf_cache fresh_context) B = ((sndbuf_cache fresh_context)
      \<lparr>hb_cache := (hb_cache (sndbuf_cache fresh_context))(b := B)\<rparr>, Some b) \<and>
    (\<forall>k. sb_fd k = 7 \<longrightarrow> usnet_cache_search ((sndbuf_cache fresh_context)
      \<lparr>hb_cache := (hb_cache (sndbuf_cache fresh_context))(b := B)\<rparr>) k = Some b)"
    using sendbufs.insert_empty[OF f(3,4), of B] setup_tables_sendbufs[OF d(1)] d(2) by simp
qed

lemma echo_context_idle:
  "\<exists>p r b. idle_conn echo_context p 7 r b 5 \<and> rcv_nxt (tcb_of echo_context p) = 501 \<and> snd_nxt (tcb_of echo_context p) = 1001 \<and>
    mss (snd_of echo_context p) = 14"
proof -
  obtain r where r: "usnet_cache_insert (ringbuf_cache fresh_context) echo_ring = ((ringbuf_cache fresh_context)
      \<lparr>hb_cache := (hb_cache (ringbuf_cache fresh_context))(r := echo_ring)\<rparr>, Some r)"
      "\<forall>k. rb_fd k = 7 \<longrightarrow> usnet_cache_search ((ringbuf_cache fresh_context)
        \<lparr>hb_cache := (hb_cache (ringbuf_cache fresh_context))(r := echo_ring)\<rparr>) k = Some r"
    using fresh_tables(2)[of echo_ring] by (auto simp: echo_ring_def ringbuf_new_def)
  obtain b where b: "usnet_cache_insert (sndbuf_cache fresh_context) echo_buf = ((sndbuf_cache fresh_context)
      \<lparr>hb_cache := (hb_cache (sndbuf_cache fresh_context))(b := echo_buf)\<rparr>, Some b)"
      "\<forall>k. sb_fd k = 7 \<longrightarrow> usnet_cache_search ((sndbuf_cache fresh_context)
        \<lparr>hb_cache := (hb_cache (sndbuf_cache fresh_context))(b := echo_buf)\<rparr>) k = Some b"
    using fresh_tables(3)[of echo_buf] by (auto simp: echo_buf_def)
  let ?t = "sample_tcb\<lparr>tcb_fd := 7, rcvvar := (rcvvar sample_tcb)\<lparr>rcvbuf := Some r\<rparr>, sndvar := (sndvar sample_tcb)\<lparr>sndbuf := Some b, mss := 14\<rparr>\<rparr>"
  have "\<not> usnet_tcb_isempty ?t" "unqueued ?t" using sample_tcb_ok by (simp_all add: usnet_tcb_isempty_def unqueued_def)
  then obtain p where p: "ctx_ok (conn_context ?t)" "tcb_of (conn_context ?t) p = ?t" "ev_net2app_mq (conn_context ?t) = mq_new 1024"
    using conn_context_ctx_ok by blast
  have ec: "echo_context = (conn_context ?t)
     \<lparr>arp_entries := [\<lparr>arp_ip = 0x0200000A, arp_haddr = [2, 0, 0, 0, 0, 2]\<rparr>], if_hwa := [2, 0, 0, 0, 0, 1], frag_mp := frag_pool_new 8,
      ringbuf_cache := (ringbuf_cache fresh_context)\<lparr>hb_cache := (hb_cache (ringbuf_cache fresh_context))(r := echo_ring)\<rparr>,
      sndbuf_cache := (sndbuf_cache fresh_context)\<lparr>hb_cache := (hb_cache (sndbuf_cache fresh_context))(b := echo_buf)\<rparr>\<rparr>"
    unfolding echo_context_def r(1) b(1) by simp
  have t: "tcb_of echo_context p = ?t" using p(2) by (simp add: ec tcb_of_def)
  have q: "mq_ok (ev_net2app_mq echo_context)" using p(3) mq_new_holds(2)[of 1024] by (simp add: ec)
  have "frag_pool (frag_mp echo_context) {..<nat 8}" using frag_pool_new_ok[of 8] by (simp add: ec)
  then have f: "\<exists>F. F \<noteq> {} \<and> frag_pool (frag_mp echo_context) F" by (intro exI[of _ "{..<nat 8}"]) (simp add: lessThan_empty_iff)
  have rb: "rb_of echo_context r = echo_ring" and sb: "sb_of echo_context b = echo_buf" by (simp_all add: ec rb_of_def sb_of_def)
  have R: "rb_wf echo_ring" "rb_used echo_ring = 0" "rb_frags echo_ring = []" "length (rb_buf echo_ring) = 64" "rb_head_seq echo_ring = 501"
      "rb_data echo_ring = 0"
    using ringbuf_new_wf[of 64 501] by (simp_all add: echo_ring_def ringbuf_new_def)
  have B: "sb_data echo_buf = replicate 64 0" "sb_head echo_buf = 0" "sb_sent_head echo_buf = 0" "sb_tail echo_buf = 0" "sb_size echo_buf = 64"
      "sb_head_seq echo_buf = 1001" by (simp_all add: echo_buf_def sendbuf_at_def)
  have rx: "rx_ready echo_context p r" using q f R by (simp add: rx_ready_def t rb) (simp add: sample_tcb_def)
  have l: "lists_ok echo_context"
  proof (rule same_queues_ok)
    show "lists_ok (conn_context ?t)" using p(1) by (simp add: ctx_ok_def)
    show "same_queues (conn_context ?t) echo_context" by (simp add: ec same_queues_def tcb_of_def)
  qed
  have h: "resolved echo_context p" by (simp add: resolved_def t usnet_get_hwaddr_def) (simp add: ec sample_tcb_def)
  have s: "usnet_cache_search (ringbuf_cache echo_context) \<lparr>rb_fd = 7, rb_data = 0, rb_head = 0, rb_size = 0, rb_head_seq = 0, rb_last_seq = 0,
       rb_merged_len = 0, rb_win = 0, rb_frags = [], rb_buf = []\<rparr> = Some r" "usnet_cache_search (sndbuf_cache echo_context) (sb_key 7) = Some b"
      "ringbufs.fns (ringbuf_cache echo_context)"
    using r(2) b(2) fresh_tables(1) by (simp_all add: ec sb_key_def ringbufs.fill_fns)
  have w: "sendbuf_wf echo_buf" "sendbuf_used echo_buf = 0" by (simp_all add: sendbuf_wf_def sendbuf_used_def B)
  have "idle_conn echo_context p 7 r b 5"
    unfolding idle_conn_def tx_fits_def rx_room_of_def rb sb t Let_def using rx l h s w R B by (simp add: sample_tcb_def)
  then show ?thesis using t by (intro exI[of _ p] exI[of _ r] exI[of _ b]) (simp add: sample_tcb_def)
qed

theorem echo_round_trip_witness:
  "\<exists>p c1 a1 buf' d f g h. receive_segments echo_context p [(501, [1, 2, 3]), (504, [4, 5])] = Some c1 \<and>
    handle_fd (\<lambda>_ c. c) 0 (share echo_app c1) 7 server_buf = Some (a1, 0, buf') \<and>
    usnet_flush_tcp_sendbuf (share c1 a1) p = Some (d, 3) \<and> tx_frames d = tx_frames echo_context @ [f, g, h] \<and>
    frame_seg f = Some (1001, [1, 2]) \<and> frame_seg g = Some (1003, [3, 4]) \<and> frame_seg h = Some (1005, [5])"
proof -
  have n: "5 = length (concat [[1, 2, 3], [4, 5 :: byte]])" by simp
  obtain p r b where p: "idle_conn echo_context p 7 r b 5"
      "rcv_nxt (tcb_of echo_context p) = 501" "snd_nxt (tcb_of echo_context p) = 1001" "mss (snd_of echo_context p) = 14"
    using echo_context_idle by blast
  have a: "mq_ok (ev_app2net_mq echo_app)" using mq_new_holds(2)[of 1024] by (simp add: echo_app_def)
  have c: "chunks 2 [1, 2, 3, 4, 5 :: byte] = [[1, 2], [3, 4], [5]]" by (simp add: chunks.simps)
  show ?thesis
    using echo_round_trip[OF p(1)[unfolded n] _ _ _ a, of server_buf "\<lambda>_ c. c" 0] by (fastforce simp: p(2-4) c server_buf_def)
qed

section \<open>The server alone\<close>

text \<open>The server echoes: what it reads from the ring of a connection, at most a buffer full, it appends to the
  send buffer of the connection, unchanged and in order, and tells the network process, which learns of it unless its
  queue is full. It may have to sleep until the network process has made room; nothing is written before. This is
  so when the data does not cross the end of the block of the send buffer.\<close>

theorem handle_fd_echoes:
  fixes net :: "nat \<Rightarrow> usn_context \<Rightarrow> usn_context" and j k :: nat
  assumes "rx_pending c fd r (length buf)"
  defines "x \<equiv> take (length buf) (rb_content (rb_of c r))" and "c0 \<equiv> after_read c fd buf"
  defines "e \<equiv> sleeps net k j c0"
  assumes "\<forall>i < j. tx_refused (sleeps net k i c0) fd (length x)" "tx_open e fd b" "tx_fits e b (length x)"
    "unat (sb_tail (sb_of e b)) + length x \<le> length (sb_data (sb_of e b))"
  shows "\<exists>d buf'. handle_fd net k c fd buf = Some (d, k + j, buf') \<and>
    rb_content (rb_of c0 r) = drop (length buf) (rb_content (rb_of c r)) \<and>
    sendbuf_content (sb_of d b) = sendbuf_content (sb_of e b) @ x \<and> sendbuf_wf (sb_of d b) \<and> ringbuf_cache d = ringbuf_cache e \<and>
    mq_messages (ev_app2net_mq d) = mq_messages (ev_app2net_mq e) @
      (if length (usn_write_ev fd) + C_HEAD_SIZE \<le> mq_room (ev_app2net_mq e) then [(fd, usn_write_ev fd)] else [])"
proof -
  obtain buf' where h: "handle_fd net k c fd buf = do {
      (d, k) \<leftarrow> write_all net k c0 fd buf' 0 (int (length x)); Some (d, k, buf') }"
      "mem_read 0 (length x) buf' = Some x" "x \<noteq> []" "rb_content (rb_of c0 r) = drop (length buf) (rb_content (rb_of c r))"
    using handle_fd_read[OF assms(1), of net k] unfolding x_def c0_def by blast
  obtain q where q: "write_all net (k + j) e fd buf' 0 (int (length x)) = Some (wrote e fd b x q, k + j)"
      "mq_messages q = mq_messages (ev_app2net_mq e) @
        (if length (usn_write_ev fd) + C_HEAD_SIZE \<le> mq_room (ev_app2net_mq e) then [(fd, usn_write_ev fd)] else [])"
    using write_all_accepted[OF assms(6,7) h(3,2)] by blast
  have m: "mem_read (nat 0) (nat (int (length x))) buf' = Some x" "0 < int (length x)" using h(2,3) by simp_all
  have w: "write_all net k c0 fd buf' 0 (int (length x)) = Some (wrote e fd b x q, k + j)"
    using write_all_waits[OF assms(5) m] q(1) unfolding e_def by simp
  have wf: "sendbuf_wf (sb_of e b)" "length x < length (sb_data (sb_of e b)) - sendbuf_used (sb_of e b)"
    using assms(6,7) by (simp_all add: tx_open_def tx_fits_def)
  let ?B = "put_buf (sb_of e b) x"
  have "written (sb_of e b) x = x" using assms(8) by (simp add: written_def Let_def)
  then have B: "sendbuf_wf ?B" "sendbuf_content ?B = sendbuf_content (sb_of e b) @ x"
    using put_buf_wf[OF wf] put_buf_content[OF wf] by simp_all
  have "sendbuf_wf (?B\<lparr>sb_len := l\<rparr>) = sendbuf_wf ?B" "sendbuf_content (?B\<lparr>sb_len := l\<rparr>) = sendbuf_content ?B" for l
    by (simp_all add: sendbuf_wf_def sendbuf_content_def sendbuf_used_def)
  then show ?thesis
    using h(1,4) w q(2) B by (simp add: wrote_def upd_sb_def sb_of_def)
qed

text \<open>C10. The server hangs exactly when the network process never makes room: with data to echo, \<^verbatim>\<open>handle_fd\<close> returns if and
  only if a send buffer with room for all of it is there after some number of sleeps. Without one, for instance
  after the connection is gone, the server tries again for ever and serves no other connection.\<close>

theorem handle_fd_returns_iff:
  fixes net :: "nat \<Rightarrow> usn_context \<Rightarrow> usn_context" and k :: nat
  assumes "rx_pending c fd r (length buf)"
  defines "n \<equiv> min (length buf) (rb_used (rb_of c r))" and "at \<equiv> \<lambda>i. sleeps net k i (after_read c fd buf)"
  assumes "\<forall>i. tx_refused (at i) fd n \<or> (\<exists>b. tx_open (at i) fd b \<and> tx_fits (at i) b n)"
  shows "(\<exists>d. handle_fd net k c fd buf = Some d) \<longleftrightarrow> (\<exists>i b. tx_open (at i) fd b \<and> tx_fits (at i) b n)"
proof -
  let ?x = "take (length buf) (rb_content (rb_of c r))"
  have n: "length ?x = n" by (simp add: n_def min.commute)
  obtain buf' where h: "handle_fd net k c fd buf = do {
      (d, k) \<leftarrow> write_all net k (after_read c fd buf) fd buf' 0 (int n); Some (d, k, buf') }"
      "mem_read 0 n buf' = Some ?x" "?x \<noteq> []"
    using handle_fd_read[OF assms(1), of net k] unfolding n by blast
  have "?x \<noteq> [] \<Longrightarrow> 0 < n" using n by (metis length_greater_0_conv)
  then have m: "mem_read (nat 0) (nat (int n)) buf' = Some ?x" "0 < int n" using h(2,3) by simp_all
  show ?thesis
  proof (cases "\<exists>i b. tx_open (at i) fd b \<and> tx_fits (at i) b n")
    case True
    define j where "j = (LEAST i. \<exists>b. tx_open (at i) fd b \<and> tx_fits (at i) b n)"
    obtain b where b: "tx_open (at j) fd b" "tx_fits (at j) b n"
      using LeastI_ex[OF True] unfolding j_def by blast
    have "\<forall>i < j. tx_refused (sleeps net k i (after_read c fd buf)) fd (length ?x)"
      using not_less_Least[of _ "\<lambda>i. \<exists>b. tx_open (at i) fd b \<and> tx_fits (at i) b n"] assms(4) unfolding j_def n at_def by blast
    note w = write_all_waits[OF this m]
    obtain y where "write_all net (k + j) (at j) fd buf' 0 (int n) = Some y"
      using write_all_accepted[of "at j" fd b ?x buf' net "k + j"] b h(2,3) unfolding n by blast
    then show ?thesis using h(1) w True unfolding at_def by (cases y) simp
  next
    case False
    then have "\<forall>i. tx_refused (sleeps net k i (after_read c fd buf)) fd (length ?x)" using assms(4) unfolding n at_def by blast
    then show ?thesis using write_all_stuck[OF _ m] h(1) False by simp
  qed
qed

text \<open>A server with three bytes to echo and two bytes of room, and a network process that empties the send buffer.\<close>

definition wait_ring :: usn_ringbuf where
  "wait_ring = (ringbuf_new 64 501)\<lparr>rb_buf := [1, 2, 3] @ replicate 61 0, rb_head := 3\<rparr>"

definition wait_buf :: usn_sendbuf where
  "wait_buf = (sendbuf_at 0 62 (replicate 64 0))\<lparr>sb_fd := 7\<rparr>"

definition wait_app :: usn_context where
  "wait_app = echo_app\<lparr>ringbuf_cache := fst (usnet_cache_insert (ringbuf_cache fresh_context) wait_ring),
     sndbuf_cache := fst (usnet_cache_insert (sndbuf_cache fresh_context) wait_buf)\<rparr>"

definition make_room :: "nat \<Rightarrow> usn_context \<Rightarrow> usn_context" where
  "make_room k c = c\<lparr>sndbuf_cache := fst (usnet_cache_insert (sndbuf_cache fresh_context) echo_buf)\<rparr>"

lemma wait_app_facts:
  "\<exists>r. rx_pending wait_app 7 r 2048 \<and> rb_content (rb_of wait_app r) = [1, 2, 3]"
  "tx_refused (wait_app\<lparr>ringbuf_cache := x\<rparr>) 7 3"
  "\<exists>b. tx_open (make_room k (wait_app\<lparr>ringbuf_cache := x\<rparr>)) 7 b \<and> sb_of (make_room k (wait_app\<lparr>ringbuf_cache := x\<rparr>)) b = echo_buf"
proof -
  have k: "rb_fd wait_ring = 7" "sb_fd wait_buf = 7" "sb_fd echo_buf = 7"
    by (simp_all add: wait_ring_def ringbuf_new_def wait_buf_def echo_buf_def)
  have upt3: "[0..<3] = [0, 1, 2 :: nat]" by code_simp
  have R: "rb_wf wait_ring" "rb_used wait_ring = 3" "rb_content wait_ring = [1, 2, 3]" "rb_data wait_ring = 0"
    by (simp_all add: rb_wf_def wait_ring_def ringbuf_new_def rb_used_def ring_used_def rb_content_def ring_slice_def upt3)
  show "\<exists>r. rx_pending wait_app 7 r 2048 \<and> rb_content (rb_of wait_app r) = [1, 2, 3]"
    using fresh_tables(2)[OF k(1)] R by (auto simp: rx_pending_def wait_app_def rb_of_def)
  have q: "mq_ok (ev_app2net_mq echo_app)" using mq_new_holds(2)[of 1024] by (simp add: echo_app_def)
  have B: "sendbuf_wf wait_buf" "sendbuf_used wait_buf = 62" "length (sb_data wait_buf) = 64" "sendbuf_wf echo_buf"
    by (simp_all add: sendbuf_wf_def sendbuf_used_def wait_buf_def echo_buf_def sendbuf_at_def)
  show "tx_refused (wait_app\<lparr>ringbuf_cache := x\<rparr>) 7 3"
    using fresh_tables(3)[OF k(2)] B q by (auto simp: tx_refused_def tx_open_def tx_fits_def wait_app_def sb_of_def sb_key_def)
  show "\<exists>b. tx_open (make_room k (wait_app\<lparr>ringbuf_cache := x\<rparr>)) 7 b \<and> sb_of (make_room k (wait_app\<lparr>ringbuf_cache := x\<rparr>)) b = echo_buf"
    using fresh_tables(3)[OF k(3)] B q by (auto simp: tx_open_def make_room_def wait_app_def sb_of_def sb_key_def)
qed

lemma wait_app_read:
  "\<exists>r. rx_pending wait_app 7 r (length server_buf) \<and> take (length server_buf) (rb_content (rb_of wait_app r)) = [1, 2, 3] \<and>
    rb_used (rb_of wait_app r) = 3"
proof -
  obtain r where r: "rx_pending wait_app 7 r 2048" "rb_content (rb_of wait_app r) = [1, 2, 3]" using wait_app_facts(1) by blast
  then have "rb_used (rb_of wait_app r) = 3" using length_rb_content[of "rb_of wait_app r"] by simp
  then show ?thesis using r by (auto simp: server_buf_def)
qed

lemma after_read_wait: "after_read wait_app 7 server_buf = wait_app\<lparr>ringbuf_cache := ringbuf_cache (after_read wait_app 7 server_buf)\<rparr>"
  by (simp add: after_read_def)

theorem handle_fd_echoes_witness:
  "\<exists>d b buf'. handle_fd make_room 0 wait_app 7 server_buf = Some (d, 1, buf') \<and> sendbuf_content (sb_of d b) = [1, 2, 3]"
proof -
  let ?c = "after_read wait_app 7 server_buf"
  obtain r where r: "rx_pending wait_app 7 r (length server_buf)" "take (length server_buf) (rb_content (rb_of wait_app r)) = [1, 2, 3]"
    using wait_app_read by blast
  obtain b where b: "tx_open (make_room 0 ?c) 7 b" "sb_of (make_room 0 ?c) b = echo_buf"
    using wait_app_facts(3) after_read_wait by metis
  have s: "sleeps make_room 0 1 ?c = make_room 0 ?c" by simp
  have B: "sendbuf_content echo_buf = []" "sendbuf_used echo_buf = 0" "unat (sb_tail echo_buf) = 0" "length (sb_data echo_buf) = 64"
    by (simp_all add: echo_buf_def sendbuf_at_def sendbuf_used_def sendbuf_content_def)
  have "tx_refused ?c 7 3" using wait_app_facts(2) after_read_wait by metis
  then have f: "\<forall>i < 1. tx_refused (sleeps make_room 0 i ?c) 7 (length [1, 2, 3 :: byte])" by (simp add: numeral_3_eq_3)
  have e: "tx_open (sleeps make_room 0 1 ?c) 7 b" "tx_fits (sleeps make_room 0 1 ?c) b (length [1, 2, 3 :: byte])"
      "unat (sb_tail (sb_of (sleeps make_room 0 1 ?c) b)) + length [1, 2, 3 :: byte] \<le> length (sb_data (sb_of (sleeps make_room 0 1 ?c) b))"
    unfolding s using b B by (simp_all add: tx_fits_def)
  obtain d buf' where "handle_fd make_room 0 wait_app 7 server_buf = Some (d, 0 + 1, buf')"
      "sendbuf_content (sb_of d b) = sendbuf_content (sb_of (sleeps make_room 0 1 ?c) b) @ [1, 2, 3]"
    using handle_fd_echoes[OF r(1), unfolded r(2), OF f e] by blast
  then show ?thesis unfolding s b(2) B(1) by auto
qed

theorem handle_fd_returns_iff_witness:
  "handle_fd (\<lambda>_ c. c) 0 wait_app 7 server_buf = None"
proof -
  let ?c = "after_read wait_app 7 server_buf"
  obtain r where r: "rx_pending wait_app 7 r (length server_buf)" "rb_used (rb_of wait_app r) = 3" using wait_app_read by blast
  have m: "min (length server_buf) 3 = 3" by (simp add: server_buf_def)
  have f: "tx_refused ?c 7 3" using wait_app_facts(2) after_read_wait by metis
  have s: "sleeps (\<lambda>_ c. c) k i ?c = ?c" for k i by (induction i arbitrary: k) simp_all
  have "\<not> (tx_open ?c 7 b \<and> tx_fits ?c b 3)" for b using f by (auto simp: tx_refused_def tx_open_def)
  then show ?thesis using handle_fd_returns_iff[OF r(1), of "\<lambda>_ c. c" 0, unfolded r(2) m s] f by auto
qed

section \<open>The start of the server\<close>

lemma so_upd:
  "so_of (upd_so s f c) s = f (so_of c s)" "g_fd (upd_so s f c) = g_fd c"
  by (simp_all add: upd_so_def so_of_def)

lemma search_upd_so:
  assumes "sockets.fns (socket_cache c)" "so_fd (f (so_of c s)) = so_fd (so_of c s)"
  shows "usnet_search_socket (upd_so s f c) k = usnet_search_socket c k" "sockets.fns (socket_cache (upd_so s f c))"
  using sockets.search_update[OF assms(1), of "f (so_of c s)" s k] assms
  by (simp_all add: usnet_search_socket_def upd_so_def so_of_def sockets.fill_fns)

text \<open>The start of the server on an empty table of sockets: it gets the next descriptor, and when the network process accepts
  the request the socket of that descriptor listens on port 35355 of 10.10.10.2 with an empty backlog, so that accepting
  finds no connection.\<close>

theorem server_start_listens:
  assumes "sockets.fns (socket_cache c)" "sockets.wf (socket_cache c)" "\<forall>q. so_fd (hb_cache (socket_cache c) q) = 0"
    "0 < hb_time (socket_cache c)" "0 < sint (g_fd c)"
    and r: "\<forall>d. reply d (g_fd c) 0x020A0A0A (htons 35355) = Some (d, data, ret)" "0 \<le> ret"
  shows "\<exists>d s. server_start (Some c) True True reply = Some (Inr (d, g_fd c)) \<and> usnet_search_socket d (so_key (g_fd c)) = Some s \<and>
    so_saddr (so_of d s) = 0x020A0A0A \<and> so_sport (so_of d s) = htons 35355 \<and> so_backlogq (so_of d s) = Some backlog_new \<and>
    usnet_accept d (g_fd c) = Some (d, 0)"
proof -
  let ?fd = "g_fd c" and ?b = "socket_cache c"
  have k: "so_fd (so_key ?fd) = ?fd" "?fd \<noteq> 0" using assms(5) by (auto simp: so_key_def)
  obtain s where ins: "usnet_cache_insert ?b (so_key ?fd) = (?b\<lparr>hb_cache := (hb_cache ?b)(s := so_key ?fd)\<rparr>, Some s)"
      and sr: "\<forall>k. so_fd k = ?fd \<longrightarrow> usnet_cache_search (?b\<lparr>hb_cache := (hb_cache ?b)(s := so_key ?fd)\<rparr>) k = Some s"
    using sockets.insert_empty[OF assms(1,2), of "so_key ?fd"] assms(3,4) k by auto
  have get: "usnet_cache_get ?b (so_key ?fd) = Some s" using ins by (simp add: sockets.insert_get split: option.splits)
  let ?c = "c\<lparr>g_fd := ?fd + 1\<rparr>"
  define c1 where "c1 = upd_so s (\<lambda>_. zero_socket\<lparr>so_fd := ?fd\<rparr>) ?c"
  have n: "new_socket c = (c1, Some s)" by (simp add: new_socket_def get c1_def Let_def)
  have c1: "so_of c1 s = zero_socket\<lparr>so_fd := ?fd\<rparr>" "sockets.fns (socket_cache c1)"
    using assms(1) by (simp_all add: c1_def so_upd) (simp add: upd_so_def sockets.fill_fns)
  have "usnet_search_socket c1 (so_key ?fd) = Some s"
  proof -
    let ?k = "?b\<lparr>hb_cache := (hb_cache ?b)(s := so_key ?fd)\<rparr>"
    have "usnet_cache_search (?k\<lparr>hb_cache := (hb_cache ?k)(s := zero_socket\<lparr>so_fd := ?fd\<rparr>)\<rparr>) (so_key ?fd) = Some s"
      using sockets.search_update[of ?k "zero_socket\<lparr>so_fd := ?fd\<rparr>" s "so_key ?fd"] assms(1) sr k by (simp add: sockets.fill_fns)
    then show ?thesis by (simp add: c1_def usnet_search_socket_def upd_so_def)
  qed
  note s1 = this
  define c2 where "c2 = upd_so s (\<lambda>so. so\<lparr>so_dom := 2, so_type := 1, so_proto := 0\<rparr>) c1"
  define c3 where "c3 = upd_so s (\<lambda>so. so\<lparr>so_sport := htons 35355, so_saddr := 0x020A0A0A, so_options := so_options so OR 1\<rparr>) c2"
  define c4 where "c4 = upd_so s (\<lambda>so. so\<lparr>so_backlogq := Some backlog_new, so_options := so_options so OR 2\<rparr>) c3"
  have s2: "usnet_search_socket c2 (so_key ?fd) = Some s" "sockets.fns (socket_cache c2)"
    using search_upd_so[OF c1(2), of "\<lambda>so. so\<lparr>so_dom := 2, so_type := 1, so_proto := 0\<rparr>" s] s1 by (simp_all add: c2_def)
  have s3: "usnet_search_socket c3 (so_key ?fd) = Some s" "sockets.fns (socket_cache c3)"
    using search_upd_so[OF s2(2), of "\<lambda>so. so\<lparr>so_sport := htons 35355, so_saddr := 0x020A0A0A, so_options := so_options so OR 1\<rparr>" s] s2
    by (simp_all add: c3_def)
  have s4: "usnet_search_socket c4 (so_key ?fd) = Some s"
    using search_upd_so[OF s3(2), of "\<lambda>so. so\<lparr>so_backlogq := Some backlog_new, so_options := so_options so OR 2\<rparr>" s] s3
    by (simp add: c4_def)
  have so: "so_of c4 s = zero_socket\<lparr>so_fd := ?fd, so_dom := 2, so_type := 1, so_proto := 0, so_sport := htons 35355, so_saddr := 0x020A0A0A,
      so_options := 3, so_backlogq := Some backlog_new\<rparr>"
    by (simp add: c4_def c3_def c2_def so_upd c1(1) zero_socket_def)
  have so3: "so_saddr (so_of c3 s) = 0x020A0A0A" "so_sport (so_of c3 s) = htons 35355" by (simp_all add: c3_def so_upd)
  have soc: "usnet_socket c 2 1 0 = (c2, sint ?fd)" by (simp add: usnet_socket_def n c2_def c1(1) zero_socket_def)
  have bind: "usnet_bind c2 ?fd 2 (htons 35355) 0x020A0A0A 16 = (c3, 0)"
    by (simp add: usnet_bind_def s2 c3_def) (simp add: c2_def so_upd)
  have lis: "usnet_listen c3 ?fd True True reply = Some (c4, ret)"
    using r so3 by (simp add: usnet_listen_def s3 Let_def c4_def[unfolded backlog_new_def, symmetric])
  have acc: "usnet_accept c4 ?fd = Some (c4, 0)" by (simp add: usnet_accept_def s4 so backlog_new_def)
  have "server_start (Some c) True True reply = Some (Inr (c4, ?fd))"
    using assms(5) r(2) by (simp add: server_start_def soc bind lis)
  then show ?thesis using s4 so acc by (intro exI[of _ c4] exI[of _ s]) simp
qed

theorem server_start_listens_witness:
  "\<exists>d. server_start (Some (fresh_context\<lparr>g_fd := 5\<rparr>)) True True (\<lambda>c _ _ _. Some (c, [], 0)) = Some (Inr (d, 5)) \<and>
    usnet_accept d 5 = Some (d, 0)"
proof -
  let ?c = "fresh_context\<lparr>g_fd := 5\<rparr>"
  obtain d where d: "usnet_setup_tables (usnet_create_context blank_context) 64 64 blank_chunks = Some d" "fresh_context = d"
    using setup_tables_fresh[of blank_context 64 64 blank_chunks] by (auto simp: fresh_context_def blank_context_def)
  have "sockets.fns (socket_cache ?c)" "sockets.wf (socket_cache ?c)" "\<forall>q. so_fd (hb_cache (socket_cache ?c) q) = 0"
      "0 < hb_time (socket_cache ?c)" "0 < sint (g_fd ?c)"
    using fresh_context_fresh(1) setup_tables_sockets[OF d(1)] d(2) by (simp_all add: ctx_fresh_def zero_socket_def)
  note f = server_start_listens[OF this, of "\<lambda>c _ _ _. Some (c, [], 0)" "[]" 0]
  then show ?thesis by auto
qed

end
