(* ===== verification/Control_Out.thy ===== *)
theory Control_Out
  imports Data_Out
begin

text \<open>
  The SYN-ACK of a connection: \<^verbatim>\<open>usnet_add_control_list\<close> tries to send it at once and queues the connection
  only when that fails, for lack of the peer's hardware address.
\<close>

section \<open>Sending without touching the sockets\<close>

lemma socket_posts:
  assumes "socket_cache c = K"
  shows "post (\<lambda>d. socket_cache d = K) (usnet_update_timeout_list c p)" "post (\<lambda>d. socket_cache d = K) (usnet_add_rto_list c p)"
    "post (\<lambda>d. socket_cache d = K) (usnet_send_data c f)" "post (\<lambda>d. socket_cache d = K) (usnet_remove_ack_list c p)"
    "post (\<lambda>d. socket_cache d = K) (control_enqueue c p)" "post (\<lambda>d. socket_cache d = K) (usnet_remove_control_list c p)"
    "post (\<lambda>x. socket_cache (fst x) = K) (usnet_ipv4_output c p n)"
  using assms
  by (auto simp: post_def usnet_update_timeout_list_def usnet_add_rto_list_def usnet_send_data_def usnet_remove_ack_list_def
      control_enqueue_def usnet_remove_control_list_def usnet_ipv4_output_def usnet_arp_request_def usnet_arp_output_def
      bind_eq_Some_conv Let_def split: if_splits option.splits)

lemma tcp_build_sockets:
  assumes "socket_cache c = K"
  shows "post (\<lambda>x. socket_cache (fst x) = K) (tcp_build c p flags payload)"
proof -
  have out: "socket_cache e = K \<Longrightarrow> post (\<lambda>x. socket_cache (fst x) = K) (Option.bind m (\<lambda>opts. Some (e, g opts)))" for e m g
    by (auto simp: post_def bind_eq_Some_conv)
  show ?thesis
    unfolding tcp_build_def Let_def
    by (intro post_seq[of "\<lambda>d. socket_cache d = K"] post_if post_Some out socket_posts) (use assms in auto)
qed

lemma send_tcp_packet_sockets:
  assumes "socket_cache c = K"
  shows "post (\<lambda>x. socket_cache (fst x) = K) (usnet_send_tcp_packet c p flags payload)"
  unfolding usnet_send_tcp_packet_def Let_def
  by (rule post_if, rule post_Some, simp add: assms, rule post_pair[OF socket_posts(7)[OF assms]], rule post_case_option,
      rule post_Some, simp, rule post_pair[OF tcp_build_sockets], assumption,
      intro post_seq[of "\<lambda>d. socket_cache d = K"] post_if post_Some socket_posts) auto

section \<open>The SYN-ACK\<close>

text \<open>Frame \<open>f\<close> carries the SYN-ACK of connection \<open>p\<close>.\<close>

definition syn_ack_frame :: "usn_context \<Rightarrow> nat \<Rightarrow> byte list \<Rightarrow> bool" where
  "syn_ack_frame c p f \<longleftrightarrow> (case read_tcphdr (drop 34 f) of
     None \<Rightarrow> False
   | Some h \<Rightarrow> th_flags h = TH_SYN OR TH_ACK \<and> th_seq h = htonl (iss (snd_of c p)) \<and> th_ack h = htonl (rcv_nxt (tcb_of c p)))"

lemma syn_ack_frame_cong:
  "iss (snd_of d p) = iss (snd_of c p) \<Longrightarrow> rcv_nxt (tcb_of d p) = rcv_nxt (tcb_of c p) \<Longrightarrow> syn_ack_frame d p = syn_ack_frame c p"
  by (auto simp: syn_ack_frame_def fun_eq_iff split: option.splits)

lemma syn_ack_segment:
  assumes a: "at_conn p c0 S c" and st: "tcb_state (tcb_of c p) = TCPS_SYN_RECEIVED"
  shows "\<exists>d r. usnet_send_control_packet c p = Some (d, r) \<and> at_conn p c0 S d \<and> keeps c d \<and> socket_cache d = socket_cache c \<and>
    (resolved c p \<longrightarrow> 0 \<le> r \<and> (\<exists>f. tx_frames d = tx_frames c @ [f] \<and> syn_ack_frame c p f)) \<and>
    (usnet_get_hwaddr c (daddr (tcb_of c p)) = None \<longrightarrow> r < 0)"
proof -
  let ?fl = "TH_SYN OR TH_ACK"
  have fl: "?fl AND TH_SYN \<noteq> 0 \<or> ?fl AND TH_SACK = 0" by simp
  define e where "e = upd_tcb p (\<lambda>t. t\<lparr>snd_nxt := iss (sndvar t)\<rparr>) c"
  have e: "at_conn p c0 S e" "socket_cache e = socket_cache c" "keeps c e" "tx_frames e = tx_frames c"
      "snd_nxt (tcb_of e p) = iss (snd_of c p)" "rcv_nxt (tcb_of e p) = rcv_nxt (tcb_of c p)" "daddr (tcb_of e p) = daddr (tcb_of c p)"
      "usnet_get_hwaddr e = usnet_get_hwaddr c" "if_hwa e = if_hwa c"
    unfolding e_def using at_upd_nxt[OF a]
    by (simp_all add: keeps_def same_conn_def tcb_conn_def usnet_get_hwaddr_def fun_eq_iff usnet_get_arp_def)
  obtain g r where g: "usnet_send_tcp_packet e p ?fl [] = Some (g, r)" "at_conn p c0 S g"
    using send_tcp_packet_returns[OF e(1) fl] by (auto simp: wp_def)
  have gk: "keeps e g" "socket_cache g = socket_cache c"
    using send_tcp_packet_good[OF good_refl[OF at_lists_ok[OF e(1)]] fl, of "[]" p] send_tcp_packet_sockets[OF e(2), of p ?fl "[]"] g(1)
    by (simp_all add: wp_def good_def post_def)
  obtain d where d: "usnet_remove_ack_list g p = Some d" "at_conn p c0 S d" using remove_ack_list_at[OF g(2)] by (auto simp: wp_def)
  have dk: "keeps g d" "socket_cache d = socket_cache c"
    using queue_ops_keep[of g p d] d(1) socket_posts(4)[OF gk(2), of p] by (simp_all add: post_def)
  have df: "tx_frames d = tx_frames g" using d(1) by (auto simp: usnet_remove_ack_list_def bind_eq_Some_conv split: if_splits)
  have "usnet_send_control_packet c p = Some (d, r)"
    using st g(1) d(1) unfolding usnet_send_control_packet_def Let_def by (simp flip: e_def)
  moreover have "keeps c d" using keeps_trans e(3) gk(1) dk(1) by blast
  moreover have "0 \<le> r \<and> (\<exists>f. tx_frames d = tx_frames c @ [f] \<and> syn_ack_frame c p f)" if "resolved c p"
  proof -
    have "resolved e p" using that e(7-9) by (simp add: resolved_def)
    from send_segment[OF at_lists_ok[OF e(1)] this, of ?fl "[]"] g(1) e(4-6) df show ?thesis
      by (auto simp: syn_ack_frame_def)
  qed
  moreover have "r < 0" if "usnet_get_hwaddr c (daddr (tcb_of c p)) = None"
    using g(1) that e(7,8) by (auto simp: usnet_send_tcp_packet_def usnet_ipv4_output_def Let_def bind_eq_Some_conv)
  ultimately show ?thesis using d(2) dk(2) by (intro exI[of _ d] exI[of _ r]) simp
qed

text \<open>Scheduling the SYN-ACK: it is sent when the peer's hardware address is known and queued when it is not.\<close>

lemma syn_ack_scheduled:
  assumes a: "at_conn p c0 S c" and st: "tcb_state (tcb_of c p) = TCPS_SYN_RECEIVED"
  shows "\<exists>d. usnet_add_control_list c p = Some d \<and> at_conn p c0 S d \<and> keeps c d \<and> socket_cache d = socket_cache c \<and>
    (resolved c p \<longrightarrow> p \<notin> set (control_list d) \<and> (\<exists>f. tx_frames d = tx_frames c @ [f] \<and> syn_ack_frame c p f)) \<and>
    (usnet_get_hwaddr c (daddr (tcb_of c p)) = None \<longrightarrow> p \<in> set (control_list d))"
proof -
  obtain e r where e: "usnet_send_control_packet c p = Some (e, r)" "at_conn p c0 S e" "keeps c e" "socket_cache e = socket_cache c"
      "resolved c p \<longrightarrow> 0 \<le> r \<and> (\<exists>f. tx_frames e = tx_frames c @ [f] \<and> syn_ack_frame c p f)"
      "usnet_get_hwaddr c (daddr (tcb_of c p)) = None \<longrightarrow> r < 0"
    using syn_ack_segment[OF assms] by (elim exE conjE)
  have ok: "lists_ok e" using at_lists_ok[OF e(2)] .
  have iff: "q \<in> set (control_list d) \<longleftrightarrow> on_control_list (snd_of d q)" if "lists_ok d" for d q
    using that by (auto simp: lists_ok_def q_ok_def)
  obtain d where d: "(if r < 0 then control_enqueue e p else usnet_remove_control_list e p) = Some d" "at_conn p c0 S d"
    using control_enqueue_at[OF e(2)] remove_control_list_at[OF e(2)] by (cases "r < 0") (auto simp: wp_def)
  have dk: "keeps e d" "socket_cache d = socket_cache c" "tx_frames d = tx_frames e" "p \<in> set (control_list d) \<longleftrightarrow> r < 0"
    using d(1) queue_ops_keep[of e p d] socket_posts(5,6)[OF e(4), of p] iff[OF at_lists_ok[OF d(2)], of p]
    by (auto simp: post_def control_enqueue_def usnet_remove_control_list_def bind_eq_Some_conv split: if_splits)
  have "usnet_add_control_list c p = Some d" using e(1) d(1) by (simp add: add_control_list_eq)
  moreover have "keeps c d" using keeps_trans e(3) dk(1) by blast
  ultimately show ?thesis using d(2) dk e(5,6) by fastforce
qed

section \<open>Its retransmission\<close>


text \<open>The sample connection in SYN-RECEIVED, with its timer running and the address of its peer known.\<close>

definition resend_context :: usn_context where
  "resend_context = (conn_context (sample_in TCPS_SYN_RECEIVED))
     \<lparr>arp_entries := [\<lparr>arp_ip = 0x0200000A, arp_haddr = [2, 0, 0, 0, 0, 2]\<rparr>], if_hwa := [2, 0, 0, 0, 0, 1]\<rparr>"

lemma resend_context_facts:
  "\<exists>p. at_conn p resend_context UNIV resend_context \<and> tcb_of resend_context p = sample_in TCPS_SYN_RECEIVED \<and>
    resolved resend_context p"
proof -
  let ?c = "conn_context (sample_in TCPS_SYN_RECEIVED)"
  obtain p where p: "ctx_ok ?c" "0 < tcp_timeout ?c" "live ?c p" "tcb_of ?c p = sample_in TCPS_SYN_RECEIVED"
    using conn_context_ctx_ok[of "sample_in TCPS_SYN_RECEIVED"] by auto
  have t: "tcb_of resend_context = tcb_of ?c" by (simp add: fun_eq_iff tcb_of_def resend_context_def)
  have "at_conn p ?c UNIV resend_context"
    by (rule at_same[of p ?c UNIV ?c]) (use p in \<open>simp_all add: at_conn_def resend_context_def same_queues_def tcb_of_def ctx_ok_def\<close>)
  then have "at_conn p resend_context UNIV resend_context" by (simp add: at_conn_def)
  moreover have "resolved resend_context p"
    unfolding resolved_def t p(4) by (simp add: usnet_get_hwaddr_def) (simp add: resend_context_def sample_tcb_def)
  ultimately show ?thesis using t p(4) by auto
qed


end
