(* ===== verification/Spec2Isabelle.thy ===== *)
theory Spec2Isabelle
  imports Socket_Api Sample_Contexts Tcp_Options Wire_Format Tcp_Timing Netmap_Tx Shm_Segment Process_Setup Usn_Log
    Data_Ack Echo_Trip Control_Out
begin

text \<open>
  \<^bold>\<open>libusnet, a user-space TCP/IP stack: verification development.\<close>

  libusnet (sources under \<^verbatim>\<open>src/src/usnet\<close>, a sample server under \<^verbatim>\<open>src/src/sample\<close>) is a TCP/IP stack over netmap. A network process reads frames from the
  network card, runs TCP and writes frames; an application process calls a socket interface. The two share object
  tables in shared memory and exchange events over two message queues.

  \<^bold>\<open>How the parts interact.\<close> A pass of the main loop (\<^verbatim>\<open>usnet_dispatch_net\<close>) takes frames through
  \<^verbatim>\<open>usnet_eth_input\<close> and \<^verbatim>\<open>usnet_ipv4_input\<close> to \<^verbatim>\<open>usnet_tcp_input\<close>, which looks the connection up in the table of control
  blocks, changes it, puts payload into its receive ring, removes acknowledged bytes from its send buffer, sends a control segment
  or queues the connection for control segments, acknowledgements or data, and reports events to the application. The loop then
  serves the timers and the three queues, and handles the events of the application (listen, accept, write).

  \<^bold>\<open>Theories and sources.\<close>
  \<^item> \<^verbatim>\<open>Usn_Prelude\<close>: C integers as words, the comparisons of \<^verbatim>\<open>tcp.h\<close>, byte order, bounded memory, tail queues, and rules
    for partial and total correctness of calls (\<open>post\<close>, \<open>wp\<close>). \<^verbatim>\<open>Ring_Memory\<close>: circular reading and writing of a block.
  \<^item> \<^verbatim>\<open>Fifo\<close>: the locale of a bounded queue, interpreted by the message queue and the receive ring.
  \<^item> \<^verbatim>\<open>Cache\<close> (\<^verbatim>\<open>cache.c\<close>): the hash table and the locale of its items, interpreted for connections, sockets, receive and
    send buffers. \<^verbatim>\<open>Mempool\<close> (\<^verbatim>\<open>mempool.c\<close>), \<^verbatim>\<open>Sndbuf\<close> (\<^verbatim>\<open>sndbuf.c\<close>), \<^verbatim>\<open>Ringbuf\<close> (\<^verbatim>\<open>ringbuf.c\<close>, \<^verbatim>\<open>usnet_read\<close>),
    \<^verbatim>\<open>Shm_MQ\<close> (\<^verbatim>\<open>mq.c\<close>), \<^verbatim>\<open>Shm_Segment\<close> (\<^verbatim>\<open>shm.c\<close> and the table memory of \<^verbatim>\<open>cache.c\<close>).
  \<^item> \<^verbatim>\<open>Stack_State\<close> (\<^verbatim>\<open>tcb.h\<close>, \<^verbatim>\<open>socket.h\<close>, \<^verbatim>\<open>core.h\<close>): control blocks, sockets and the context, with the tables of
    connections and sockets. \<^verbatim>\<open>Conn_Lists\<close> (\<^verbatim>\<open>tcp_out.c\<close>, \<^verbatim>\<open>timer.c\<close>): the six queues, their flags and counters;
    \<open>control_enqueue\<close> is the part of \<^verbatim>\<open>usnet_add_control_list\<close> that queues, the whole of it stands in \<^verbatim>\<open>Tcp_Out\<close>, behind
    \<^verbatim>\<open>usnet_send_control_packet\<close>, which it calls first.
    \<^verbatim>\<open>Setup\<close> and \<^verbatim>\<open>Process_Setup\<close> (\<^verbatim>\<open>core.c\<close>, \<^verbatim>\<open>utils.c\<close>): the initial context, the interface, the two processes.
  \<^item> \<^verbatim>\<open>Net_Out\<close> (checksums, \<^verbatim>\<open>arp.c\<close>, \<^verbatim>\<open>eth.c\<close>, \<^verbatim>\<open>ip.c\<close>), \<^verbatim>\<open>Tcp_Out\<close> (\<^verbatim>\<open>tcp_out.c\<close>, release of a connection),
    \<^verbatim>\<open>Netmap_Tx\<close> (\<^verbatim>\<open>eth.c\<close>): the way of a segment to the card. \<^verbatim>\<open>Tcp_Events\<close> (\<^verbatim>\<open>event.c\<close>): reporting events.
  \<^item> \<^verbatim>\<open>Tcb\<close> (\<^verbatim>\<open>tcb.c\<close>), \<^verbatim>\<open>Tcp_In\<close> (\<^verbatim>\<open>tcp.c\<close>), \<^verbatim>\<open>Timer\<close> (\<^verbatim>\<open>timer.c\<close>), \<^verbatim>\<open>Net_In\<close> (\<^verbatim>\<open>eth.c\<close>, \<^verbatim>\<open>arp.c\<close>, \<^verbatim>\<open>ip.c\<close>,
    \<^verbatim>\<open>ip_icmp.c\<close>, \<^verbatim>\<open>udp.c\<close>), \<^verbatim>\<open>Event_Handlers\<close> (\<^verbatim>\<open>event.c\<close>), \<^verbatim>\<open>Main_Loop\<close> (\<^verbatim>\<open>core.c\<close>): the operations of the running stack.
    \<^verbatim>\<open>Socket_Api\<close> (\<^verbatim>\<open>core.c\<close>, \<^verbatim>\<open>epoll.c\<close>): the calls of the application. \<^verbatim>\<open>Usn_Log\<close> (\<^verbatim>\<open>log.c\<close>, \<^verbatim>\<open>utils.c\<close>): log and dumps.
    \<^verbatim>\<open>Echo_Server\<close> (\<^verbatim>\<open>echosvr.c\<close>): the sample server, with the network process as the parameter \<open>net\<close>.
  \<^item> \<^verbatim>\<open>Conn_Step\<close>, \<^verbatim>\<open>Tcp_Machine\<close>, \<^verbatim>\<open>Tcp_Input\<close>, \<^verbatim>\<open>Send_Steps\<close>, \<^verbatim>\<open>Timer_Steps\<close>, \<^verbatim>\<open>Stack_Run\<close>: proofs about them, from
    single connections to runs of the network process. \<^verbatim>\<open>Tcp_Options\<close>, \<^verbatim>\<open>Wire_Format\<close>, \<^verbatim>\<open>Tcp_Timing\<close>: formats and
    timers. \<^verbatim>\<open>Control_Out\<close>: the SYN-ACK. \<^verbatim>\<open>Data_Out\<close>, \<^verbatim>\<open>Data_In\<close>, \<^verbatim>\<open>Data_Transfer\<close>, \<^verbatim>\<open>Data_Ack\<close>, \<^verbatim>\<open>Echo_Trip\<close>: the bytes of a connection on their way
    from buffer to segment, ring, server and back. \<^verbatim>\<open>Sample_Contexts\<close>: concrete states.

  \<^bold>\<open>The build.\<close> The library is modelled as \<^verbatim>\<open>Makefile.am\<close> compiles it, with \<^verbatim>\<open>TCPOPT_TIMESTAMP_ENABLED\<close>,
  \<^verbatim>\<open>TRY_SEND_BEFORE_QUEUE\<close> and \<^verbatim>\<open>DUMP_STREAM\<close> and without the other switches: every segment carries 12 bytes of
  timestamp options and a SYN 20 bytes of options, data segments have the maximal size less 12, a control segment is sent when it is
  due and its connection queued only when that fails (in CLOSED a RST is sent and the connection released). What
  \<^verbatim>\<open>DUMP_STREAM\<close> adds is log output that is compiled out. \<^verbatim>\<open>HZ\<close> is a constant of the platform and the field \<open>hz\<close> of the context.

  \<^bold>\<open>Conventions.\<close> A C function takes the state it changes and returns it; pointers to control blocks, buffers and chunks
  are numbers of slots. \<open>None\<close> means that the call does not return normally (a failed assertion, a memory access
  outside an object, a null pointer, a division by zero, an endless loop); error returns of the source are values.
  Words have their C width and wrap. Values from outside (time, random numbers, results of system calls, what the
  other process does to a shared queue meanwhile) are arguments. Functions of netmap and of System V shared memory
  are parameters, and what is relied on is stated as \<open>nm_laws\<close>, \<open>nm_progress\<close> and \<open>shm_laws\<close>.

  \<^bold>\<open>What is shown.\<close>
  \<^item> Data structures: the message queue and the receive ring are lossless byte and message queues for what fits; the
    pool hands out distinct chunks; table insertion, lookup and removal fit together; what writing to and
    acknowledging of the send buffer do, also at the two places where the block is not treated as a ring.
  \<^item> Formats: outgoing headers pass the tests for incoming ones, segments and options are read back as
    written, the checksum routines compute the Internet checksum or fail to, option parsing ends on well-formed options.
  \<^item> Connections: \<open>ctx_ok\<close> (every queue agrees with its flags and counter, queued connections are live, the table is well
    formed, the event queue intact) is kept by every handler, which changes one connection only and moves it along
    \<open>tcp_step\<close>, the state machine; release takes a connection off every queue.
  \<^item> The stack: \<open>net_run\<close> is a sequence of the actions of the main loop, in any order; \<open>net_inv\<close> holds in every state of a run
    whose actions are \<open>admissible\<close>, and the main loop performs the actions of \<open>loop_trace\<close>, in this order.
  \<^item> Data: flushing a send buffer sends all its unsent bytes in numbered segments and ends; in-order segments become
    readable and are reported; put together, what one stack flushes the other delivers; a new acknowledgement releases
    exactly the bytes acknowledged; the sample server sends back what a connection received, and it returns from a
    connection exactly when the network process makes room in the end. These hold away from the ends of the blocks, as
    \<open>flush_ok\<close>, \<open>rx_ready\<close> and \<open>idle_conn\<close> say.
  \<^item> Timers: bounds of the round-trip estimate and of the back-off, the window test for sequence numbers.
  \<^item> The card: with a device that makes progress a frame is placed and its length returned.
  \<^item> Where the code departs from its purpose the theorem says so: a retransmission that gives up miscounts the timer
    wheel, a SYN-ACK is retransmitted once only, an option of length zero hangs the stack, an out-of-order segment exposes bytes that have not arrived,
    a full backlog is handed out for ever, an existing table is cleared when it is opened.

  \<^bold>\<open>Bounds.\<close> The loops over messages handle at most 9999 (the source's limit), the walks over queues 512 elements (the
  threshold of the main loop); the burst of acknowledgements ends within 64 steps because its counter has six bits;
  sending a frame makes three attempts as in the source, of which two are enough with a working device. Loops that may
  not end (\<open>rtm_loop\<close>, \<open>flush_loop\<close>, \<open>write_all\<close>, the option parsers, \<open>drain_ring\<close>) are partial functions without fuel.
  \<^verbatim>\<open>usnet_dispatch_net\<close> and \<^verbatim>\<open>usnet_dispatch\<close>, which never return, are given by the state after any number of passes.

  \<^bold>\<open>Not modelled.\<close> \<^verbatim>\<open>buf.c\<close> (two wrappers of \<^verbatim>\<open>malloc\<close> and \<^verbatim>\<open>free\<close>), dumping of control blocks and state names (log output that
  is compiled out), CPU affinity (a stub), \<^verbatim>\<open>convert_haddr_to_array\<close> and \<^verbatim>\<open>usnet_alloc_fragment\<close> (never called), the
  commented-out code, and interleavings of the two processes finer than a call of the queue or a sleep of the server.
\<close>

section \<open>Runs of the network process\<close>

text \<open>C1. Invariant of the network process. From a context as the set-up leaves it, whatever frames arrive, timers
  expire, segments are sent and events of the application are handled, in any order and number, the queues,
  flags and counters stay consistent, only live connections are queued, the connection table stays well
  formed and the event queue intact. The guards exclude what the code cannot cope with: an IP source
  address of zero, a retransmission that gives up, and an event of the application for a connection
  that was released, an address that is taken or address zero.\<close>

theorem stack_run_invariant:
  assumes "ctx_fresh c" "mq_ok (ev_net2app_mq c)" "0 < tcp_timeout c" "net_run admissible c as d"
  shows "lists_ok d \<and> tcb_table (tcb_cache d) \<and> mq_ok (ev_net2app_mq d) \<and> (\<forall>q \<in> queued d. live d q)"
  using net_run_inv[OF assms(4) fresh_inv[OF assms(1-3)]] by (simp add: net_inv_def ctx_ok_def)

text \<open>C18. The stack never closes or opens a connection actively: in every run of the network process a connection is
  listening, in SYN-RECEIVED, established, in CLOSE-WAIT or closed. The code for the six other
  states is not reached.\<close>

theorem stack_run_states:
  assumes "ctx_fresh c" "mq_ok (ev_net2app_mq c)" "0 < tcp_timeout c" "net_run admissible c as d" "live d q"
  shows "tcb_state (tcb_of d q) \<in> {TCPS_LISTEN, TCPS_SYN_RECEIVED, TCPS_ESTABLISHED, TCPS_CLOSE_WAIT, TCPS_CLOSED}"
  using net_run_inv[OF assms(4) fresh_inv[OF assms(1-3)]] assms(5) by (simp add: net_inv_def passive_states_def)

text \<open>C17. What the main loop does, in order: after any number of passes its result is that of performing the actions of
  \<open>loop_trace\<close> one after the other, from the same state. In every pass these are the clock, the first 512 frames
  of each ring, the three timers, the control and the ack list, the events of the application and the send list, with
  the limits of the loop; when \<^verbatim>\<open>poll\<close> reports nothing, the clock and the timers. The loop fails to return where one of
  the actions does, and where it returns the trace is a run of the network process.\<close>

theorem dispatch_net_run:
  "usnet_dispatch_net inps c data = traced (loop_trace inps c data) c \<and>
    (\<forall>d data'. usnet_dispatch_net inps c data = Some (d, data') \<longrightarrow> net_run (\<lambda>_ _. True) c (fst (loop_trace inps c data)) d)"
proof -
  have "usnet_dispatch_net inps c data = traced (loop_trace inps c data) c"
  proof (induction inps arbitrary: c data)
    case (Cons inp inps)
    obtain as data' where t: "pass_trace inp c data = (as, data')" by (cases "pass_trace inp c data")
    show ?case
      by (cases "perform_all as c") (simp_all add: dispatch_pass_trace t traced_def Cons.IH perform_all_append option.map_comp comp_def)
  qed (simp add: traced_def)
  then show ?thesis by (auto simp: traced_def perform_all_run)
qed

section \<open>Accepting a connection\<close>

text \<open>C19. The event with which the application accepts a connection: the connection and the socket are bound to
  each other, the connection takes the socket's descriptor and has a send buffer; queues and tables stay consistent and
  no other connection changes. Its SYN-ACK, with the initial sequence number and the acknowledgement of the peer's SYN,
  is sent at once when the peer's hardware address is known; when it is not, the connection waits on the control list.\<close>

theorem accept_binds_connection:
  assumes c: "ctx_ok c" "0 < tcp_timeout c" "live c p" "sndvar_at (tcb_of c p) \<noteq> None" "tcb_state (tcb_of c p) = TCPS_SYN_RECEIVED"
    and so: "usnet_search_socket c (so_key fd) = Some s"
    and key: "tcb_conn (tcb_of c p) = (sa, da, sp, dp)" and r: "0 \<le> sint result"
    and sb: "sndbuf (snd_of c p) \<noteq> None \<or> (\<exists>base b. usnet_get_sendbuf (sndbuf_cache c) (so_fd (so_of c s)) (iss (snd_of c p) + 1) = (base, Some b))"
  shows "\<exists>d. usnet_connect_net_handler c (usn_connect_ev fd sa sp da dp result) 28 = Some d \<and> ctx_ok d \<and>
    tcb_socket (tcb_of d p) = Some s \<and> so_tcb (so_of d s) = Some p \<and> tcb_fd (tcb_of d p) = so_fd (so_of c s) \<and>
    sndbuf (snd_of d p) \<noteq> None \<and> (\<forall>q. q \<noteq> p \<longrightarrow> tcb_of d q = tcb_of c q) \<and>
    (resolved c p \<longrightarrow> p \<notin> set (control_list d) \<and> (\<exists>f. tx_frames d = tx_frames c @ [f] \<and> syn_ack_frame c p f)) \<and>
    (usnet_get_hwaddr c da = None \<longrightarrow> p \<in> set (control_list d))"
proof -
  let ?ev = "usn_connect_ev fd sa sp da dp result" and ?S = "{TCPS_SYN_RECEIVED}"
  have ev: "ev_u32 ?ev 4 = Some fd" "ev_u32 ?ev 8 = Some sa" "ev_u16 ?ev 12 = Some sp" "ev_u32 ?ev 16 = Some da"
    "ev_u16 ?ev 20 = Some dp" "ev_u32 ?ev 24 = Some result"
    by (simp_all add: ev_u32_def ev_u16_def mem_read_def event_images)
  have w: "tcbs.fns (tcb_cache c)" "tcbs.wf (tcb_cache c)" using c(1) by (simp_all add: ctx_ok_def tcb_table_def)
  have k: "usnet_search_tcb c (zero_tcb\<lparr>saddr := sa, sport := sp, daddr := da, dport := dp\<rparr>) = Some p"
    unfolding usnet_search_tcb_def using c(3) key
    by (subst tcbs.search_iff[OF w]) (simp_all add: live_def tcb_conn_def tcb_of_def)
  define e where "e = upd_tcb p (\<lambda>t. t\<lparr>tcb_fd := so_fd (so_of c s)\<rparr>) (upd_so s (\<lambda>so. so\<lparr>so_tcb := Some p\<rparr>)
    (upd_tcb p (\<lambda>t. t\<lparr>tcb_socket := Some s\<rparr>) c))"
  have "at_conn p c ?S c" using c by (simp add: at_conn_def)
  then have e1: "at_conn p c ?S e"
    unfolding e_def by (intro at_upd[of p c ?S] upd_so_at) (auto simp: tcb_conn_def)
  have e: "tcb_socket (tcb_of e p) = Some s" "so_tcb (so_of e s) = Some p"
    "tcb_fd (tcb_of e p) = so_fd (so_of c s)" "sndbuf_cache e = sndbuf_cache c" "sndvar (tcb_of e p) = sndvar (tcb_of c p)"
    "sndvar_at (tcb_of e p) = sndvar_at (tcb_of c p)" "tx_same p c e" "tx_frames e = tx_frames c"
    by (simp_all add: e_def tx_same_def tcb_conn_def) (simp_all add: upd_so_def)
  define f where "f = (case sndbuf (snd_of e p) of Some b \<Rightarrow> e | None \<Rightarrow>
    let (base, r) = usnet_get_sendbuf (sndbuf_cache e) (tcb_fd (tcb_of e p)) (iss (snd_of e p) + 1)
    in upd_snd p (\<lambda>v. v\<lparr>sndbuf := r\<rparr>) (e\<lparr>sndbuf_cache := base\<rparr>))"
  have f: "at_conn p c ?S f" "tcb_socket (tcb_of f p) = Some s" "so_of f = so_of e" "tcb_fd (tcb_of f p) = so_fd (so_of c s)"
    "sndbuf (snd_of f p) \<noteq> None"
    using e e1 sb by (auto simp: f_def split: option.splits intro!: at_upd_snd at_rest)
  have g: "tx_frames f = tx_frames c" "arp_entries f = arp_entries c" "if_hwa f = if_hwa c" "daddr (tcb_of f p) = da"
      "iss (snd_of f p) = iss (snd_of c p)" "rcv_nxt (tcb_of f p) = rcv_nxt (tcb_of c p)"
    using e(5,7,8) key by (auto simp: f_def tx_same_def tcb_conn_def Let_def split: option.splits prod.splits)
  have h: "usnet_get_hwaddr f = usnet_get_hwaddr c" "resolved f p = resolved c p" "syn_ack_frame f p = syn_ack_frame c p"
    using g key syn_ack_frame_cong[OF g(5,6)]
    by (simp_all add: resolved_def usnet_get_hwaddr_def usnet_get_arp_def fun_eq_iff tcb_conn_def)
  have "usnet_connect_net_handler c ?ev 28 = usnet_add_control_list f p"
    using r c(4) f(5) e(6) by (auto simp: usnet_connect_net_handler_def ev so k e_def[symmetric] f_def[symmetric])
  moreover obtain d where d: "usnet_add_control_list f p = Some d" "at_conn p c ?S d" "keeps f d" "socket_cache d = socket_cache f"
      "resolved f p \<longrightarrow> p \<notin> set (control_list d) \<and> (\<exists>x. tx_frames d = tx_frames f @ [x] \<and> syn_ack_frame f p x)"
      "usnet_get_hwaddr f (daddr (tcb_of f p)) = None \<longrightarrow> p \<in> set (control_list d)"
    using syn_ack_scheduled[OF f(1)] f(1) by (auto simp: at_conn_def)
  moreover have "so_of d = so_of e" using d(4) f(3) by (simp add: so_of_def fun_eq_iff)
  ultimately show ?thesis
    using f(2,4,5) e(2) g h d(2) by (intro exI[of _ d]) (simp add: keeps_def same_conn_def at_conn_def)
qed

section \<open>Witnesses\<close>

theorem stack_run_invariant_witness:
  "\<exists>d. net_run admissible fresh_context [Clock 7, Frame 0 arp_bytes, Expire_Idle 512] d \<and> lists_ok d"
proof -
  let ?c = "fresh_context\<lparr>cur_time := 7\<rparr>"
  obtain a b where "usnet_eth_input ?c 0 arp_bytes = Some (?c\<lparr>arp_entries := a, tx_frames := b\<rparr>)"
    using arp_bytes_run[of ?c 0] fresh_context_facts by auto
  then have "net_run admissible fresh_context [Clock 7, Frame 0 arp_bytes, Expire_Idle 512] (?c\<lparr>arp_entries := a, tx_frames := b\<rparr>)"
    by (simp add: read_arp_bytes usnet_check_connection_timeout_def fresh_context_facts)
  then show ?thesis
    using stack_run_invariant[of fresh_context] fresh_context_fresh mq_new_holds(2)[of 1024] by fastforce
qed

theorem dispatch_net_run_witness:
  "\<exists>d. usnet_dispatch_net [sample_pass] fresh_context [] = Some (d, []) \<and> net_run (\<lambda>_ _. True) fresh_context
    [Clock 7, Frame 0 arp_bytes, Retransmit 512, Expire_Timewait 512, Expire_Idle 512, Send_Control 512, Send_Acks 512, Send_Data 512] d"
proof -
  let ?c = "fresh_context\<lparr>cur_time := 7\<rparr>"
  let ?as = "[Clock 7, Frame 0 arp_bytes, Retransmit 512, Expire_Timewait 512, Expire_Idle 512, Send_Control 512, Send_Acks 512]"
  obtain a b where "usnet_eth_input ?c 0 arp_bytes = Some (?c\<lparr>arp_entries := a, tx_frames := b\<rparr>)"
    using arp_bytes_run[of ?c 0] fresh_context_facts by auto
  then have p: "perform_all ?as fresh_context = Some (?c\<lparr>arp_entries := a, tx_frames := b\<rparr>)"
      "perform (Send_Data 512) (?c\<lparr>arp_entries := a, tx_frames := b\<rparr>) = Some (?c\<lparr>arp_entries := a, tx_frames := b\<rparr>)"
    by (simp_all add: usnet_check_rtm_timeout_def usnet_check_timewait_expire_def usnet_check_connection_timeout_def
        usnet_send_tcp_control_list_def usnet_send_tcp_ack_list_def usnet_send_tcp_data_list_def fresh_context_facts numeral_eq_Suc)
  have "pass_trace sample_pass fresh_context [] = (?as @ [Send_Data 512], [])"
    unfolding pass_trace_def Let_def using p(1) by (simp add: sample_pass_def ring_frames_def timer_actions_def del: perform_all.simps)
  moreover have q: "perform_all (?as @ [Send_Data 512]) fresh_context = Some (?c\<lparr>arp_entries := a, tx_frames := b\<rparr>)"
    unfolding perform_all_append p(1) using p(2) by auto
  ultimately have t: "loop_trace [sample_pass] fresh_context [] = (?as @ [Send_Data 512], [])"
    by (simp del: perform_all.simps append.simps)
  have "usnet_dispatch_net [sample_pass] fresh_context [] = Some (?c\<lparr>arp_entries := a, tx_frames := b\<rparr>, [])"
    using dispatch_net_run[of "[sample_pass]" fresh_context "[]"] unfolding t traced_def fst_conv snd_conv q by simp
  then show ?thesis using dispatch_net_run[of "[sample_pass]" fresh_context "[]"] unfolding t by auto
qed

theorem stack_run_states_witness:
  "\<exists>d q. net_run admissible listen_context [App_Event (0, False, id) [] 0] d \<and> live d q \<and>
    tcb_state (tcb_of d q) \<in> {TCPS_LISTEN, TCPS_SYN_RECEIVED, TCPS_ESTABLISHED, TCPS_CLOSE_WAIT, TCPS_CLOSED}"
proof -
  obtain d p where d: "perform (App_Event (0, False, id) [] 0) listen_context = Some d" "live d p" using listen_run(2) by blast
  have r: "net_run admissible listen_context [App_Event (0, False, id) [] 0] d"
    by (rule net_run.step[where guard = admissible, OF listen_run(1) d(1) net_run.finish])
  have "mq_ok (ev_net2app_mq listen_context)" "0 < tcp_timeout listen_context"
    using mq_new_holds(2)[of 1024] by (simp_all add: listen_context_fresh)
  then show ?thesis using stack_run_states[OF listen_context_fresh(1) _ _ r d(2)] r d(2) by blast
qed

theorem accept_binds_connection_witness:
  "\<exists>d p s f. usnet_connect_net_handler accept_context (usn_connect_ev 5 0x0100000A 0x5000 0x0200000A 0x0A0B 0) 28 = Some d \<and>
    tcb_socket (tcb_of d p) = Some s \<and> so_tcb (so_of d s) = Some p \<and> tx_frames d = tx_frames accept_context @ [f] \<and>
    syn_ack_frame accept_context p f"
proof -
  let ?c = "conn_context (sample_in TCPS_SYN_RECEIVED)"
  obtain p where p: "ctx_ok ?c" "0 < tcp_timeout ?c" "live ?c p" "tcb_of ?c p = sample_in TCPS_SYN_RECEIVED"
    using conn_context_ctx_ok[of "sample_in TCPS_SYN_RECEIVED"] by auto
  obtain base s where s: "usnet_cache_insert (socket_cache fresh_context) (so_key 5) = (base, Some s)"
      "usnet_cache_search base (so_key 5) = Some s"
    using fresh_socket[of 5] by auto
  have t: "tcb_of accept_context = tcb_of ?c" by (simp add: fun_eq_iff tcb_of_def accept_context_def)
  have "at_conn p ?c UNIV accept_context"
    by (rule at_same[of p ?c UNIV ?c]) (use p in \<open>simp_all add: at_conn_def accept_context_def same_queues_def tcb_of_def ctx_ok_def\<close>)
  then have ok: "ctx_ok accept_context" "0 < tcp_timeout accept_context" "live accept_context p" by (simp_all add: at_conn_def)
  have so: "usnet_search_socket accept_context (so_key 5) = Some s"
    using s by (simp add: usnet_search_socket_def accept_context_def)
  have sb: "sndbuf_cache accept_context = sndbuf_cache fresh_context" by (simp add: accept_context_def conn_context_def)
  have rs: "resolved accept_context p"
    unfolding resolved_def t p(4) by (simp add: usnet_get_hwaddr_def) (simp add: accept_context_def sample_tcb_def)
  have f: "sndvar_at (tcb_of accept_context p) \<noteq> None" "tcb_state (tcb_of accept_context p) = TCPS_SYN_RECEIVED"
    "tcb_conn (tcb_of accept_context p) = (0x0100000A, 0x0200000A, 0x5000, 0x0A0B)" "0 \<le> sint (0 :: u32)"
    unfolding t p(4) by (simp_all add: sample_tcb_def tcb_conn_def)
  show ?thesis
    using accept_binds_connection[OF ok f(1,2) so f(3,4)] fresh_sendbuf rs unfolding sb by blast
qed

end
